(* ===== verification/NS_Prelude.thy ===== *)
theory NS_Prelude
  imports Main "HOL-Library.Sublist"
begin

text \<open>
  Shared material of the development: the JavaScript array and string idioms that the
  modelled files use (\<open>indexOf\<close>, \<open>splice(i, 1)\<close>, push-if-absent, decimal conversion,
  truthiness of a string), the lemma collections \<open>js_array\<close> and \<open>js_string\<close> that the
  component theories pass to the simplifier, and the interface of a deterministic event
  machine with an invariant, which several components interpret.

  A JavaScript array is a list, an object an association list in the order in which its members were added (keys
  that read as integers, which JavaScript visits first, are not told apart), a string a list of code units (\<open>string\<close>; code units above
  255 are outside the model), \<open>undefined\<close>/\<open>null\<close> is \<open>None\<close>.
\<close>

named_theorems js_array "JavaScript array idioms"
named_theorems js_string "JavaScript string idioms"

section \<open>Errors\<close>

text \<open>What may throw: the error, if any, and the state it leaves.\<close>

type_synonym 's run = "string option \<times> 's"

definition seq :: "'s run \<Rightarrow> ('s \<Rightarrow> 's run) \<Rightarrow> 's run" where
  "seq r f = (case r of (None, s) \<Rightarrow> f s | (Some e, s) \<Rightarrow> (Some e, s))"

lemma seq_simps [simp]: "seq (None, s) f = f s" "seq (Some e, s) f = (Some e, s)"
  by (simp_all add: seq_def)

section \<open>Arrays\<close>

text \<open>\<open>a.indexOf(x)\<close>; \<open>None\<close> stands for \<open>-1\<close>.\<close>

fun index_of :: "'a list \<Rightarrow> 'a \<Rightarrow> nat option" where
  "index_of [] x = None"
| "index_of (y # ys) x = (if y = x then Some 0 else map_option Suc (index_of ys x))"

lemma index_of_None [js_array]: "index_of xs x = None \<longleftrightarrow> x \<notin> set xs"
  by (induction xs) auto

lemma index_of_SomeD: "index_of xs x = Some i \<Longrightarrow> i < length xs \<and> xs ! i = x \<and> x \<notin> set (take i xs)"
proof (induction xs arbitrary: i)
  case (Cons y ys)
  then show ?case by (cases i) (auto split: if_splits)
qed simp

text \<open>\<open>a.splice(i, 1)\<close>: the array without the element at \<open>i\<close>.\<close>

definition splice1 :: "nat \<Rightarrow> 'a list \<Rightarrow> 'a list" where
  "splice1 i xs = take i xs @ drop (Suc i) xs"

lemma splice1_simps [simp]:
  "splice1 0 (x # xs) = xs" "splice1 (Suc i) (x # xs) = x # splice1 i xs" "splice1 i [] = []"
  by (simp_all add: splice1_def)

text \<open>The idiom \<open>idx = a.indexOf(x); if (idx >= 0) a.splice(idx, 1)\<close>.\<close>

definition splice_first :: "'a \<Rightarrow> 'a list \<Rightarrow> 'a list" where
  "splice_first x xs = (case index_of xs x of None \<Rightarrow> xs | Some i \<Rightarrow> splice1 i xs)"

lemma splice_first_remove1 [js_array]: "splice_first x xs = remove1 x xs"
proof (induction xs)
  case (Cons y ys)
  then show ?case
    by (cases "index_of ys x") (auto simp: splice_first_def)
qed (simp add: splice_first_def)

text \<open>The idiom \<open>if (a.indexOf(x) === -1) a.push(x)\<close>: an array used as a set.\<close>

definition push_new :: "'a list \<Rightarrow> 'a \<Rightarrow> 'a list" where
  "push_new xs x = (if index_of xs x = None then xs @ [x] else xs)"

lemma set_push_new [simp]: "set (push_new xs x) = insert x (set xs)"
  by (auto simp: push_new_def js_array)

lemma distinct_push_new [simp]: "distinct (push_new xs x) = distinct xs"
  by (auto simp: push_new_def js_array)

lemma prefix_push_new: "prefix xs (push_new xs x)"
  by (simp add: push_new_def)

text \<open>\<open>for (i = 0; i < b.length; i++) if (a.indexOf(b[i]) === -1) a.push(b[i])\<close>.\<close>

definition push_all_new :: "'a list \<Rightarrow> 'a list \<Rightarrow> 'a list" where
  "push_all_new xs ys = foldl push_new xs ys"

lemma set_push_all_new [simp]: "set (push_all_new xs ys) = set xs \<union> set ys"
  by (induction ys arbitrary: xs) (auto simp: push_all_new_def)

lemma distinct_push_all_new [simp]: "distinct (push_all_new xs ys) = distinct xs"
  by (induction ys arbitrary: xs) (auto simp: push_all_new_def)

section \<open>Objects used as dictionaries\<close>

text \<open>
  A JavaScript object used as a dictionary: its members in the order \<open>for ... in\<close> visits
  them. Reading is \<open>map_of\<close>; assigning to a member that exists keeps its place.
\<close>

type_synonym 'v obj = "(string \<times> 'v) list"

fun obj_set :: "'k \<Rightarrow> 'v \<Rightarrow> ('k \<times> 'v) list \<Rightarrow> ('k \<times> 'v) list" where
  "obj_set k v [] = [(k, v)]"
| "obj_set k v ((k', v') # ms) = (if k' = k then (k, v) # ms else (k', v') # obj_set k v ms)"

definition obj_del :: "'k \<Rightarrow> ('k \<times> 'v) list \<Rightarrow> ('k \<times> 'v) list" where
  "obj_del k ms = filter (\<lambda>m. fst m \<noteq> k) ms"

definition obj_keys :: "('k \<times> 'v) list \<Rightarrow> 'k list" where
  "obj_keys ms = map fst ms"

lemma map_of_obj_set [simp]: "map_of (obj_set k v ms) = (map_of ms)(k \<mapsto> v)"
  by (induction k v ms rule: obj_set.induct) auto

lemma map_of_obj_del [simp]: "map_of (obj_del k ms) = (map_of ms)(k := None)"
  by (induction ms) (auto simp: obj_del_def)

lemma fst_obj_set [simp]: "fst ` set (obj_set k v ms) = insert k (fst ` set ms)"
  by (induction k v ms rule: obj_set.induct) auto

lemma fst_obj_del [simp]: "fst ` set (obj_del k ms) = fst ` set ms - {k}"
  by (auto simp: obj_del_def)

lemma distinct_obj_set [simp]: "distinct (map fst ms) \<Longrightarrow> distinct (map fst (obj_set k v ms))"
  by (induction k v ms rule: obj_set.induct) (auto simp: image_iff dest: arg_cong [where f = set])

lemma distinct_obj_del [simp]: "distinct (map fst ms) \<Longrightarrow> distinct (map fst (obj_del k ms))"
  by (simp add: obj_del_def distinct_map_filter)

lemma obj_set_idem: "obj_set k v (obj_set k w ms) = obj_set k v ms"
  by (induction k w ms rule: obj_set.induct) auto

lemma keys_obj_set: "k \<in> fst ` set ms \<Longrightarrow> map fst (obj_set k v ms) = map fst ms"
  by (induction k v ms rule: obj_set.induct) auto

lemma obj_set_comm:
  "k \<noteq> k' \<Longrightarrow> k' \<in> fst ` set ms \<Longrightarrow>
   obj_set k v (obj_set k' w ms) = obj_set k' w (obj_set k v ms)"
  by (induction k v ms rule: obj_set.induct) auto

section \<open>Strings\<close>

text \<open>Truthiness of \<open>s || d\<close> on an optional string: \<open>undefined\<close> and the empty string fall through.\<close>

definition or_else :: "string option \<Rightarrow> string \<Rightarrow> string" where
  "or_else s d = (case s of None \<Rightarrow> d | Some t \<Rightarrow> if t = [] then d else t)"

definition digit_char :: "nat \<Rightarrow> char" where
  "digit_char d = char_of (48 + d)"

text \<open>Conversion of a non-negative integer to its decimal string.\<close>

fun nat_str :: "nat \<Rightarrow> string" where
  "nat_str n = (if n < 10 then [digit_char n] else nat_str (n div 10) @ [digit_char (n mod 10)])"

declare nat_str.simps [simp del]

definition is_digit :: "char \<Rightarrow> bool" where
  "is_digit c \<longleftrightarrow> 48 \<le> (of_char c :: nat) \<and> (of_char c :: nat) \<le> 57"

lemma is_digit_digit_char [simp]: "d < 10 \<Longrightarrow> is_digit (digit_char d)"
  by (simp add: is_digit_def digit_char_def of_char_of)

lemma nat_str_digits [js_string]: "list_all is_digit (nat_str n)"
proof (induction n rule: nat_str.induct)
  case (1 n)
  then show ?case by (cases "n < 10") (simp_all add: nat_str.simps [of n])
qed

lemma nat_str_nonempty [simp]: "nat_str n \<noteq> []"
  by (simp add: nat_str.simps [of n])

text \<open>The number a string of decimal digits stands for, and the round trip.\<close>

definition str_nat :: "string \<Rightarrow> nat" where
  "str_nat s = foldl (\<lambda>n c. 10 * n + (of_char c - 48)) 0 s"

lemma str_nat_nat_str [js_string]: "str_nat (nat_str n) = n"
proof (induction n rule: nat_str.induct)
  case (1 n)
  then show ?case
    by (cases "n < 10")
      (simp_all add: nat_str.simps [of n] str_nat_def digit_char_def of_char_of)
qed

lemma nat_str_inject [js_string]: "nat_str m = nat_str n \<longleftrightarrow> m = n"
  by (metis str_nat_nat_str)

lemma hd_nat_str_digit: "is_digit (hd (nat_str n))"
  using nat_str_digits [of n] by (cases "nat_str n") auto

lemma takeWhile_digits [js_string]:
  "t = [] \<or> \<not> is_digit (hd t) \<Longrightarrow> takeWhile is_digit (nat_str n @ t) = nat_str n"
  using nat_str_digits [of n]
  by (induction "nat_str n") (auto simp: list_all_iff takeWhile_append takeWhile_eq_Nil_iff)

text \<open>\<open>s.indexOf(pat)\<close>: the first position at which \<open>pat\<close> occurs.\<close>

fun find_sub :: "string \<Rightarrow> string \<Rightarrow> nat option" where
  "find_sub pat [] = (if pat = [] then Some 0 else None)"
| "find_sub pat (c # cs) =
     (if prefix pat (c # cs) then Some 0 else map_option Suc (find_sub pat cs))"

lemma find_sub_SomeD: "find_sub pat s = Some i \<Longrightarrow> i \<le> length s \<and> prefix pat (drop i s)"
proof (induction s arbitrary: i)
  case (Cons c cs)
  then show ?case by (cases i) (auto split: if_splits)
qed (auto split: if_splits)

lemma find_sub_None [js_string]: "find_sub pat s = None \<longleftrightarrow> \<not> sublist pat s"
  by (induction s) (auto simp: sublist_Cons_right)

text \<open>\<open>s.split(d)\<close> for a one-character separator, and \<open>ws.join(d)\<close>.\<close>

fun split_char :: "char \<Rightarrow> string \<Rightarrow> string list" where
  "split_char d [] = [[]]"
| "split_char d (c # cs) =
     (if c = d then [] # split_char d cs
      else (case split_char d cs of [] \<Rightarrow> [[c]] | w # ws \<Rightarrow> (c # w) # ws))"

fun join_with :: "string \<Rightarrow> string list \<Rightarrow> string" where
  "join_with d [] = []"
| "join_with d [w] = w"
| "join_with d (w # v # ws) = w @ d @ join_with d (v # ws)"

lemma split_char_nonempty [simp]: "split_char d s \<noteq> []"
  by (cases s) (auto split: list.split)

lemma split_char_no_sep: "d \<notin> set s \<Longrightarrow> split_char d s = [s]"
  by (induction s) auto

lemma split_char_app: "split_char d (a @ d # b) = split_char d a @ split_char d b"
  by (induction a) (auto split: list.split simp: append_eq_Cons_conv)

lemma split_char_parts: "w \<in> set (split_char d s) \<Longrightarrow> d \<notin> set w"
proof (induction s arbitrary: w)
  case (Cons c cs)
  then show ?case by (cases "split_char d cs") (auto split: if_splits)
qed simp

lemma join_with_Cons: "ws \<noteq> [] \<Longrightarrow> join_with d (w # ws) = w @ d @ join_with d ws"
  by (cases ws) auto

lemma join_with_append:
  "xs \<noteq> [] \<Longrightarrow> ys \<noteq> [] \<Longrightarrow> join_with d (xs @ ys) = join_with d xs @ d @ join_with d ys"
  by (induction d xs rule: join_with.induct) (auto simp: join_with_Cons)

lemma join_split [js_string]: "join_with [d] (split_char d s) = s"
proof (induction s)
  case (Cons c cs)
  then show ?case
    by (cases "split_char d cs"; cases "tl (split_char d cs)") (auto simp: join_with_Cons)
qed simp

lemma split_join [js_string]:
  "ws \<noteq> [] \<Longrightarrow> \<forall>w \<in> set ws. d \<notin> set w \<Longrightarrow> split_char d (join_with [d] ws) = ws"
proof (induction "[d]" ws rule: join_with.induct)
  case (2 w)
  then show ?case by (simp add: split_char_no_sep)
next
  case (3 w v ws)
  then show ?case by (simp add: split_char_app split_char_no_sep)
qed simp

text \<open>\<^verbatim>\<open>String.prototype.trim\<close>.\<close>

definition is_ws :: "char \<Rightarrow> bool" where
  "is_ws c \<longleftrightarrow> (of_char c :: nat) \<in> {9, 10, 11, 12, 13, 32, 160}"

definition trim :: "string \<Rightarrow> string" where
  "trim s = rev (dropWhile is_ws (rev (dropWhile is_ws s)))"

text \<open>\<^verbatim>\<open>toLowerCase\<close> of an ASCII character.\<close>

definition to_lower :: "char \<Rightarrow> char" where
  "to_lower c = (let n = of_char c :: nat in if 65 \<le> n \<and> n \<le> 90 then char_of (n + 32) else c)"

definition hex_value :: "char \<Rightarrow> nat option" where
  "hex_value c = (let n = of_char (to_lower c) :: nat in
     if 48 \<le> n \<and> n \<le> 57 then Some (n - 48) else if 97 \<le> n \<and> n \<le> 102 then Some (n - 87) else None)"

fun parse_digits :: "nat \<Rightarrow> string \<Rightarrow> nat option \<Rightarrow> nat option" where
  "parse_digits base [] acc = acc"
| "parse_digits base (c # cs) acc =
     (case hex_value c of
        Some d \<Rightarrow> if d < base then parse_digits base cs (Some (base * (case acc of None \<Rightarrow> 0 | Some n \<Rightarrow> n) + d)) else acc
      | None \<Rightarrow> acc)"

text \<open>\<open>parseInt\<close> of a string without leading white space: a sign, a prefix \<^verbatim>\<open>0x\<close> for hexadecimal digits, and
  what follows the digits is ignored; \<open>None\<close> is \<open>NaN\<close>.\<close>

definition parse_magnitude :: "string \<Rightarrow> nat option" where
  "parse_magnitude s =
     (if take 2 (map to_lower s) = ''0x'' then parse_digits 16 (drop 2 s) None else parse_digits 10 s None)"

definition parseInt :: "string \<Rightarrow> int option" where
  "parseInt s =
     (case s of
        CHR ''-'' # t \<Rightarrow> map_option (\<lambda>n. - int n) (parse_magnitude t)
      | CHR ''+'' # t \<Rightarrow> map_option int (parse_magnitude t)
      | _ \<Rightarrow> map_option int (parse_magnitude s))"

section \<open>Event machines\<close>

text \<open>
  A component that reacts to events is a step function; the interface promises that every
  step keeps an invariant. Runs over event lists then keep it, and any consequence of the
  invariant holds after every run.
\<close>

locale event_machine =
  fixes step :: "'s \<Rightarrow> 'e \<Rightarrow> 's" and inv :: "'s \<Rightarrow> bool"
  assumes step_inv: "inv s \<Longrightarrow> inv (step s e)"
begin

lemma run_inv: "inv s \<Longrightarrow> inv (foldl step s es)"
  by (induction es arbitrary: s) (auto intro: step_inv)

lemma run_split_inv: "inv s \<Longrightarrow> inv (foldl step s es) \<and> inv (foldl step s (es @ es'))"
  by (auto intro: run_inv)

lemma run_imp: "inv s \<Longrightarrow> (\<And>t. inv t \<Longrightarrow> Q t) \<Longrightarrow> Q (foldl step s es)"
  by (auto intro: run_inv)

end

end
