(* ===== verification/Release_Scripts.thy ===== *)
theory Release_Scripts
  imports NS_Prelude
begin

text \<open>
  The release scripts: \<^verbatim>\<open>scripts/get-npm-tag.js\<close>, \<^verbatim>\<open>scripts/get-next-version.js\<close> and
  \<^verbatim>\<open>prepare-target.js\<close>. They are pure functions of the environment variables, the contents
  of \<^verbatim>\<open>package.json\<close> and the output of git. The npm package semver is not part of the
  repository: its functions are the parameters \<open>parse\<close>, \<open>cmp\<close> (\<^verbatim>\<open>semver.compare\<close>) and
  \<open>inc_patch\<close>, as is the date that dayjs prints. An exception is a value of \<open>script_error\<close>.
\<close>

section \<open>Versions\<close>

datatype ident = Num nat | Str string

record semver =
  major :: nat
  minor :: nat
  patch :: nat
  prerelease :: "ident list"

type_synonym parser = "string \<Rightarrow> semver option"

datatype script_error = Error string | TypeError

section \<open>get-npm-tag.js\<close>

definition is_alpha :: "char \<Rightarrow> bool" where
  "is_alpha c \<longleftrightarrow> (let n = of_char c :: nat in 65 \<le> n \<and> n \<le> 90 \<or> 97 \<le> n \<and> n \<le> 122)"

text \<open>\<^verbatim>\<open>/^[a-zA-Z]+$/\<close>; \<open>test\<close> converts a number to its decimal string first.\<close>

definition alpha_word :: "string \<Rightarrow> bool" where
  "alpha_word s \<longleftrightarrow> s \<noteq> [] \<and> list_all is_alpha s"

fun ident_str :: "ident \<Rightarrow> string" where
  "ident_str (Num n) = nat_str n"
| "ident_str (Str s) = s"

definition validateNpmTag :: "parser \<Rightarrow> string \<Rightarrow> script_error + bool" where
  "validateNpmTag parse v =
     (case parse v of None \<Rightarrow> Inl TypeError
      | Some p \<Rightarrow> Inr (prerelease p = [] \<or> alpha_word (ident_str (hd (prerelease p)))))"

text \<open>\<^verbatim>\<open>parsed.prerelease[0] || "latest"\<close>: the number 0 and the empty string are falsy.\<close>

definition first_or_latest :: "ident list \<Rightarrow> ident" where
  "first_or_latest ids =
     (case ids of [] \<Rightarrow> Str ''latest''
      | Num n # _ \<Rightarrow> if n = 0 then Str ''latest'' else Num n
      | Str s # _ \<Rightarrow> if s = [] then Str ''latest'' else Str s)"

definition getNpmTag :: "parser \<Rightarrow> string \<Rightarrow> script_error + ident" where
  "getNpmTag parse v =
     (case validateNpmTag parse v of
        Inl e \<Rightarrow> Inl e
      | Inr ok \<Rightarrow>
          if \<not> ok then Inl (Error ''Invalid npm tag'')
          else (case parse v of None \<Rightarrow> Inl TypeError | Some p \<Rightarrow> Inr (first_or_latest (prerelease p))))"

text \<open>The script: \<open>env_version\<close> is \<^verbatim>\<open>process.env.NPM_VERSION\<close>, \<open>pkg_version\<close> the version
  field of \<^verbatim>\<open>package.json\<close>; the result is what is printed.\<close>

definition npm_tag_main :: "parser \<Rightarrow> string option \<Rightarrow> string \<Rightarrow> script_error + string" where
  "npm_tag_main parse env_version pkg_version =
     map_sum (\<lambda>e. e) ident_str (getNpmTag parse (or_else env_version pkg_version))"

section \<open>get-next-version.js\<close>

text \<open>The environment the script reads. \<open>pr_event\<close> is the pull request number found in the file of
  \<^verbatim>\<open>GITHUB_EVENT_PATH\<close>: the outer \<open>None\<close> for no such variable, the inner one for a file that
  cannot be read or has no number (the exception is caught).\<close>

record release_env =
  npm_version :: "string option"
  npm_tag :: "string option"
  run_id :: "string option"
  pr_event :: "string option option"
  last_tagged :: "string option"
  git_describe :: string
  today :: string

definition prPrerelease :: "release_env \<Rightarrow> string" where
  "prPrerelease env =
     (if or_else (npm_tag env) ''next'' = ''pr''
      then (case pr_event env of Some (Some n) \<Rightarrow> n @ ''-'' | _ \<Rightarrow> [])
      else [])"

definition preRelease :: "release_env \<Rightarrow> string" where
  "preRelease env =
     or_else (npm_tag env) ''next'' @ ''.'' @ prPrerelease env @ today env @ ''-'' @ or_else (run_id env) ''0''"

definition lastTagVersion :: "release_env \<Rightarrow> string" where
  "lastTagVersion env = drop 1 (trim (or_else (last_tagged env) (git_describe env)))"

definition core_str :: "semver \<Rightarrow> string" where
  "core_str v = nat_str (major v) @ ''.'' @ nat_str (minor v) @ ''.'' @ nat_str (patch v)"

text \<open>\<open>setPreRelease\<close> on the parsed version (\<^verbatim>\<open>semver.parse\<close> returns a parsed version unchanged).\<close>

definition setPreRelease :: "parser \<Rightarrow> string \<Rightarrow> semver option \<Rightarrow> script_error + semver option" where
  "setPreRelease parse pre parsed =
     (case parsed of None \<Rightarrow> Inl TypeError
      | Some p \<Rightarrow> Inr (parse (core_str p @ ''-'' @ pre)))"

definition next_version ::
  "parser \<Rightarrow> (string \<Rightarrow> string \<Rightarrow> int) \<Rightarrow> (semver \<Rightarrow> semver) \<Rightarrow> release_env \<Rightarrow> string \<Rightarrow> script_error + semver" where
  "next_version parse cmp inc_patch env pkg_version =
     (let currentVersion = or_else (npm_version env) pkg_version;
          pre = preRelease env;
          lastTag = lastTagVersion env in
      if currentVersion = [] then Inl (Error ''Invalid current version'')
      else (case parse lastTag of None \<Rightarrow> Inl (Error ''Invalid last tag version'')
      | Some lastV \<Rightarrow>
        (case setPreRelease parse pre (parse currentVersion) of
           Inl e \<Rightarrow> Inl e
         | Inr None \<Rightarrow> Inl (Error ''Invalid next version'')
         | Inr (Some nxt) \<Rightarrow>
             if cmp currentVersion lastTag \<le> 0
             then (case setPreRelease parse pre (Some (inc_patch lastV)) of
                     Inl e \<Rightarrow> Inl e
                   | Inr None \<Rightarrow> Inl (Error ''Invalid next version'')
                   | Inr (Some nxt') \<Rightarrow> Inr nxt')
             else Inr nxt)))"

section \<open>prepare-target.js\<close>

text \<open>\<^verbatim>\<open>package.json\<close> as its list of members in order; the values are opaque JSON but for the two
  strings the script sets. Setting a member that exists keeps its place.\<close>

datatype json = JString string | JOther string

definition prepare_target :: "string \<Rightarrow> (string \<times> json) list \<Rightarrow> (string \<times> json) list" where
  "prepare_target target pkg =
     obj_set ''description''
       (JString (''NativeScript Runtime for '' @ (if target = ''ios'' then ''iOS'' else ''visionOS'')))
     (obj_set ''name'' (JString (''@akylas/nativescript-'' @ target @ ''-runtime'')) pkg)"

section \<open>Lemmas\<close>

lemma digit_not_alpha: "is_digit c \<Longrightarrow> \<not> is_alpha c"
  by (auto simp: is_digit_def is_alpha_def Let_def)

lemma nat_str_not_alpha [simp]: "\<not> alpha_word (nat_str n)"
proof
  assume "alpha_word (nat_str n)"
  then have "is_alpha (hd (nat_str n))" by (cases "nat_str n") (simp_all add: alpha_word_def)
  then show False using hd_nat_str_digit digit_not_alpha by blast
qed

lemma alpha_word_latest [simp]: "alpha_word ''latest''"
  by (simp add: alpha_word_def is_alpha_def)

lemma alpha_word_nonempty [simp]: "\<not> alpha_word []"
  by (simp add: alpha_word_def)

section \<open>Properties\<close>

text \<open>The npm tag that is printed is always a non-empty alphabetic word, so a valid npm
  dist-tag: a version whose first pre-release identifier is a number or is not alphabetic is
  rejected, and a release version gets \<open>latest\<close>.\<close>

theorem npm_tag_is_word:
  "npm_tag_main parse env_version pkg_version = Inr tag \<Longrightarrow>
   alpha_word tag \<and>
   (\<exists>p. parse (or_else env_version pkg_version) = Some p \<and>
      (if prerelease p = [] then tag = ''latest'' else Str tag = hd (prerelease p)))"
  by (cases "parse (or_else env_version pkg_version)")
    (auto simp: npm_tag_main_def getNpmTag_def validateNpmTag_def first_or_latest_def
      split: if_splits list.splits ident.splits)

theorem npm_tag_is_word_witness:
  "alpha_word ''next'' \<and> (\<exists>p. Some p = Some \<lparr>major = 9, minor = 0, patch = 3, prerelease = [Str ''next'', Num 1]\<rparr>)"
proof -
  let ?parse = "\<lambda>_. Some \<lparr>major = 9, minor = 0, patch = 3, prerelease = [Str ''next'', Num 1]\<rparr>"
  have "npm_tag_main ?parse None ''9.0.3-next.1'' = Inr ''next''"
    by (simp add: npm_tag_main_def getNpmTag_def validateNpmTag_def first_or_latest_def or_else_def
        alpha_word_def is_alpha_def)
  from npm_tag_is_word [OF this] show ?thesis by simp
qed

definition core_le :: "semver \<Rightarrow> semver \<Rightarrow> bool" where
  "core_le v w \<longleftrightarrow> major v < major w \<or> major v = major w \<and>
     (minor v < minor w \<or> minor v = minor w \<and> patch v \<le> patch w)"

text \<open>The version that is printed never goes back behind the last tag: with a semver whose
  \<open>parse\<close> reads a core and a pre-release text back, whose \<open>compare\<close> orders by the core first and
  whose patch increment of a release is the next patch, the printed version has the core of the
  current version when that is newer than the last tag, else the core after the last release.\<close>

theorem next_version_not_older:
  assumes parse_core: "\<And>v w pre. parse (core_str v @ ''-'' @ pre) = Some w \<Longrightarrow>
      major w = major v \<and> minor w = minor v \<and> patch w = patch v"
    and cmp_core: "\<And>a b v w. parse a = Some v \<Longrightarrow> parse b = Some w \<Longrightarrow> 0 < cmp a b \<Longrightarrow> core_le w v"
    and inc: "\<And>v. prerelease v = [] \<Longrightarrow>
      inc_patch v = v\<lparr>patch := Suc (patch v)\<rparr>"
    and ok: "next_version parse cmp inc_patch env pkg_version = Inr nxt"
    and lastV: "parse (lastTagVersion env) = Some lastV" "prerelease lastV = []"
  shows "core_le lastV nxt \<and>
    (cmp (or_else (npm_version env) pkg_version) (lastTagVersion env) \<le> 0 \<longrightarrow> \<not> core_le nxt lastV)"
proof (cases "cmp (or_else (npm_version env) pkg_version) (lastTagVersion env) \<le> 0")
  case True
  with ok lastV have "parse (core_str (inc_patch lastV) @ ''-'' @ preRelease env) = Some nxt"
    by (auto simp: next_version_def setPreRelease_def Let_def split: if_splits option.splits sum.splits)
  from parse_core [OF this] inc [OF lastV(2)] show ?thesis by (simp add: core_le_def)
next
  case False
  with ok lastV obtain cur where cur: "parse (or_else (npm_version env) pkg_version) = Some cur"
    and "parse (core_str cur @ ''-'' @ preRelease env) = Some nxt"
    by (auto simp: next_version_def setPreRelease_def Let_def split: if_splits option.splits sum.splits)
  from parse_core [OF this(2)] cmp_core [OF cur lastV(1)] False show ?thesis
    by (auto simp: core_le_def)
qed

text \<open>A parser and a comparison of the documented kind, reading \<^verbatim>\<open>M.m.p\<close> and \<^verbatim>\<open>M.m.p-pre\<close>.\<close>

definition sample_parse :: parser where
  "sample_parse s =
     (let a = takeWhile is_digit s; s1 = drop (Suc (length a)) s;
          b = takeWhile is_digit s1; s2 = drop (Suc (length b)) s1;
          c = takeWhile is_digit s2; s3 = drop (length c) s2 in
      if a = [] then None
      else Some \<lparr>major = str_nat a, minor = str_nat b, patch = str_nat c,
        prerelease = (if s3 = [] then [] else [Str (drop 1 s3)])\<rparr>)"

definition sample_cmp :: "string \<Rightarrow> string \<Rightarrow> int" where
  "sample_cmp a b = (case (sample_parse a, sample_parse b) of
     (Some v, Some w) \<Rightarrow> if core_le v w then -1 else 1 | _ \<Rightarrow> 0)"

definition sample_env :: release_env where
  "sample_env = \<lparr>npm_version = None, npm_tag = None, run_id = None, pr_event = None,
     last_tagged = Some ''v9.0.3'', git_describe = [], today = ''2024-01-02''\<rparr>"

lemma sample_parse_core:
  "sample_parse (core_str v @ ''-'' @ pre) = Some w \<Longrightarrow>
   major w = major v \<and> minor w = minor v \<and> patch w = patch v"
  by (auto simp: sample_parse_def core_str_def Let_def takeWhile_digits str_nat_nat_str is_digit_def)

theorem next_version_not_older_witness:
  "\<exists>nxt. next_version sample_parse sample_cmp (\<lambda>v. v\<lparr>patch := Suc (patch v)\<rparr>) sample_env ''9.0.3''
     = Inr nxt \<and> core_str nxt = ''9.0.4''"
proof -
  let ?inc = "\<lambda>v :: semver. v\<lparr>patch := Suc (patch v)\<rparr>"
  let ?last = "\<lparr>major = 9, minor = 0, patch = 3, prerelease = []\<rparr>"
  let ?nxt = "\<lparr>major = 9, minor = 0, patch = 4, prerelease = [Str ''next.2024-01-02-0'']\<rparr>"
  have cmp: "core_le w v" if "sample_parse a = Some v" "sample_parse b = Some w" "0 < sample_cmp a b"
    for a b v w using that by (auto simp: sample_cmp_def core_le_def split: if_splits)
  have run: "next_version sample_parse sample_cmp ?inc sample_env ''9.0.3'' = Inr ?nxt"
    and last: "sample_parse (lastTagVersion sample_env) = Some ?last" by code_simp+
  have "core_le ?last ?nxt"
    using next_version_not_older [of sample_parse sample_cmp ?inc, OF sample_parse_core cmp _ run last]
    by simp
  moreover have "core_str ?nxt = ''9.0.4''" by code_simp
  ultimately show ?thesis using run by blast
qed

text \<open>Preparing a target rewrites the name and the description of the package only, keeps the
  order of the members of a package that has both, and preparing another target afterwards
  gives the same file as preparing that target alone.\<close>

theorem prepare_target_rewrites:
  assumes "''name'' \<in> fst ` set pkg" and "''description'' \<in> fst ` set pkg"
  shows "map fst (prepare_target t pkg) = map fst pkg \<and>
    prepare_target t' (prepare_target t pkg) = prepare_target t' pkg \<and>
    (\<forall>k. k \<noteq> ''name'' \<longrightarrow> k \<noteq> ''description'' \<longrightarrow> map_of (prepare_target t pkg) k = map_of pkg k)"
proof -
  have k: "''name'' \<in> fst ` set (obj_set ''name'' v pkg)"
    "''description'' \<in> fst ` set (obj_set ''name'' v pkg)" for v
    using assms by simp_all
  then show ?thesis
    using assms
    by (simp add: prepare_target_def keys_obj_set obj_set_idem
        obj_set_comm [of "''name''" "''description''"])
qed

theorem prepare_target_rewrites_witness:
  "prepare_target ''visionos'' (prepare_target ''ios'' [(''name'', JOther ''x''), (''description'', JOther ''y'')])
   = [(''name'', JString ''@akylas/nativescript-visionos-runtime''),
      (''description'', JString ''NativeScript Runtime for visionOS'')]"
proof -
  have "''name'' \<in> fst ` set [(''name'', JOther ''x''), (''description'', JOther ''y'')]"
    "''description'' \<in> fst ` set [(''name'', JOther ''x''), (''description'', JOther ''y'')]" by simp_all
  from prepare_target_rewrites [OF this, of "''ios''" "''visionos''"]
  show ?thesis by (simp add: prepare_target_def)
qed

end
