(* ===== verification/Test_Runner.thy ===== *)
theory Test_Runner
  imports NS_Prelude
begin

text \<open>
  \<^verbatim>\<open>run-tests.js\<close>: the script that deploys the test application with
  \<^verbatim>\<open>ios-deploy\<close>, reads the standard output of that process in chunks, cuts it into lines,
  copies the JUnit report (the lines marked \<^verbatim>\<open>TKUnit: \<close>) to the results file and kills the
  process when the report is complete. The state is the script's variables and the effects on
  its streams; an event is a call of one of its three callbacks (output arrived, the armed
  timer fired, the process ended). Starting the process, the file system and the clock are outside.
\<close>

section \<open>Constants and state\<close>

definition launched :: string where "launched = ''Application Start!''"
definition term_mark :: string where "term_mark = ''TKUnit: ''"
definition end_mark :: string where "end_mark = ''</testsuites>''"

definition LF :: char where "LF = CHR 0x0A"
definition CR :: char where "CR = CHR 0x0D"

text \<open>The armed timeout: the deploy timeout (3 min), the tests timeout (6 min) or none.\<close>

datatype timer = TNone | TDeploy | TTests

record runner =
  leftover :: string
  completed :: bool
  timer_armed :: timer
  out :: "string list"
  errs :: "string list"
  results :: "string list"
  results_ended :: bool
  late_write :: bool
  killed :: bool
  exit_code :: "nat option"
  uuid :: "string option"
  cmd :: string

section \<open>Start of the script\<close>

definition truthy :: "string option \<Rightarrow> bool" where
  "truthy v \<longleftrightarrow> v \<noteq> None \<and> v \<noteq> Some []"

definition arg :: "string list \<Rightarrow> nat \<Rightarrow> string option" where
  "arg argv i = (if i < length argv then Some (argv ! i) else None)"

definition deploy_cmd :: "string \<Rightarrow> string option \<Rightarrow> string option \<Rightarrow> string" where
  "deploy_cmd apk device port =
     ''ios-deploy --verbose --bundle '' @ apk @ '' --debug --arg '' @ [CHR 0x27] @ ''-logjunit'' @ [CHR 0x27]
     @ (if truthy device then '' --id '' @ the device else [])
     @ (if truthy port then '' --port '' @ the port else [])"

text \<open>\<open>Inl\<close>: the usage error, printed before \<open>process.exit(1)\<close>.\<close>

definition run_tests_start :: "string list \<Rightarrow> string + runner" where
  "run_tests_start argv =
     (if length argv < 4 then Inl ''Expects two arguments - path to apk and path to output junit.xml!''
      else Inr \<lparr>leftover = [], completed = False, timer_armed = TDeploy,
             out = [''Executing ios-deploy: '' @ deploy_cmd (argv ! 2) (arg argv 4) (arg argv 5) @ [LF]],
             errs = [], results = [], results_ended = False, late_write = False, killed = False,
             exit_code = None, uuid = arg argv 4,
             cmd = deploy_cmd (argv ! 2) (arg argv 4) (arg argv 5)\<rparr>)"

section \<open>Text processing\<close>

text \<open>
  \<^verbatim>\<open>chunks.replace(/\(lldb\)\s/g, '')\<close>. The white space class of JavaScript,
  restricted to code units below 256.
\<close>

definition is_space :: "char \<Rightarrow> bool" where
  "is_space c \<longleftrightarrow> (of_char c :: nat) \<in> {9, 10, 11, 12, 13, 32, 160}"

definition prompt_here :: "string \<Rightarrow> bool" where
  "prompt_here s \<longleftrightarrow> prefix ''(lldb)'' s \<and> 6 < length s \<and> is_space (s ! 6)"

fun strip_prompts :: "string \<Rightarrow> string" where
  "strip_prompts [] = []"
| "strip_prompts (c # cs) =
     (if prompt_here (c # cs) then strip_prompts (drop 6 cs) else c # strip_prompts cs)"

fun has_prompt :: "string \<Rightarrow> bool" where
  "has_prompt [] = False"
| "has_prompt (c # cs) = (prompt_here (c # cs) \<or> has_prompt cs)"

text \<open>\<^verbatim>\<open>chunks.split(/\r?\n/)\<close>: always at least one line.\<close>

fun split_lines :: "string \<Rightarrow> string list" where
  "split_lines [] = [[]]"
| "split_lines (c # cs) =
     (if c = LF then [] # split_lines cs
      else if c = CR \<and> cs \<noteq> [] \<and> hd cs = LF then [] # split_lines (tl cs)
      else (case split_lines cs of [] \<Rightarrow> [[c]] | l # ls \<Rightarrow> (c # l) # ls))"

section \<open>The callbacks\<close>

text \<open>\<open>results.write\<close>: a write after \<open>end()\<close> is not stored (the stream reports an error).\<close>

definition results_write :: "string \<Rightarrow> runner \<Rightarrow> runner" where
  "results_write d s =
     (if results_ended s then s\<lparr>late_write := True\<rparr> else s\<lparr>results := results s @ [d]\<rparr>)"

definition timeoutFunction :: "string \<Rightarrow> runner \<Rightarrow> runner" where
  "timeoutFunction msg s =
     s\<lparr>errs := errs s @ [(if truthy (uuid s) then msg @ '' '' @ the (uuid s) else msg)],
       results_ended := True, killed := True, timer_armed := TNone, exit_code := Some 1\<rparr>"

definition note_launch :: "string \<Rightarrow> runner \<Rightarrow> runner" where
  "note_launch line s =
     (if find_sub launched line \<noteq> None
      then s\<lparr>timer_armed := TTests, out := out s @
        [''Application deployed and launched! Deploy timeout reset. Start test run timeout.'' @ [LF]]\<rparr>
      else s)"

text \<open>The loop over the complete lines of a chunk; it stops (\<open>break\<close>) at the end of the report.\<close>

fun line_loop :: "string list \<Rightarrow> runner \<Rightarrow> runner" where
  "line_loop [] s = s"
| "line_loop (line # rest) s =
     (let s1 = note_launch line s in
      case find_sub term_mark line of
        Some (Suc i) \<Rightarrow>
          (let d = drop (Suc i + length term_mark) line; s2 = results_write d s1 in
           if find_sub end_mark d \<noteq> None
           then s2\<lparr>completed := True, results_ended := True, killed := True, timer_armed := TNone\<rparr>
           else line_loop rest s2)
      | _ \<Rightarrow> line_loop rest (if line = [] then s1 else s1\<lparr>out := out s1 @ [line @ [LF]]\<rparr>))"

definition on_data :: "string \<Rightarrow> runner \<Rightarrow> runner" where
  "on_data chunk s =
     (let lines = split_lines (strip_prompts (leftover s @ chunk))
      in (line_loop (butlast lines) s)\<lparr>leftover := last lines\<rparr>)"

text \<open>The callback of \<open>proc.exec\<close>; \<open>err\<close> says whether it got an error.\<close>

definition on_exec_end :: "bool \<Rightarrow> runner \<Rightarrow> runner" where
  "on_exec_end err s =
     (let s1 = s\<lparr>timer_armed := TNone\<rparr> in
      if \<not> completed s1 \<and> err
      then s1\<lparr>errs := errs s1 @ [''ERROR: Test run failed!''], results_ended := True, exit_code := Some 1\<rparr>
      else s1)"

datatype event = Data string | TimerFires | ExecEnd bool

text \<open>No callback runs after \<open>process.exit\<close>, and only an armed timer fires.\<close>

fun runner_step :: "runner \<Rightarrow> event \<Rightarrow> runner" where
  "runner_step s e =
     (if exit_code s \<noteq> None then s
      else case e of
        Data c \<Rightarrow> on_data c s
      | TimerFires \<Rightarrow>
          (case timer_armed s of
             TNone \<Rightarrow> s
           | TDeploy \<Rightarrow> timeoutFunction ''ERROR: Deploy timeout!'' s
           | TTests \<Rightarrow> timeoutFunction ''ERROR: Tests run timeout!'' s)
      | ExecEnd err \<Rightarrow> on_exec_end err s)"

definition runner_run :: "runner \<Rightarrow> event list \<Rightarrow> runner" where
  "runner_run = foldl runner_step"

declare runner_step.simps [simp del]

section \<open>What is cut into lines does not depend on the chunks\<close>

lemma split_lines_nonempty [simp]: "split_lines s \<noteq> []"
  by (cases s) (auto split: list.split)

lemma split_lines_Cons [simp]:
  "split_lines (c # cs) =
     (if c = LF then [] # split_lines cs
      else if c = CR \<and> cs \<noteq> [] \<and> hd cs = LF then [] # split_lines (tl cs)
      else (c # hd (split_lines cs)) # tl (split_lines cs))"
  by (auto split: list.split)

declare split_lines.simps(2) [simp del]

lemma split_lines_single: "tl (split_lines s) = [] \<Longrightarrow> split_lines s = [s]"
  by (induction s rule: split_lines.induct) (auto split: if_splits)

lemma split_lines_append:
  "split_lines (x @ y) = butlast (split_lines x) @ split_lines (last (split_lines x) @ y)"
proof (induction x rule: split_lines.induct)
  case (2 c cs)
  have *: "cs \<noteq> [] \<Longrightarrow> hd (cs @ y) = hd cs \<and> tl (cs @ y) = tl cs @ y" by simp
  consider (lf) "c = LF" | (crlf) "c \<noteq> LF" "c = CR" "cs \<noteq> []" "hd cs = LF"
    | (other) "c \<noteq> LF" "\<not> (c = CR \<and> cs \<noteq> [] \<and> hd cs = LF)" by blast
  then show ?case
  proof cases
    case lf
    with 2 show ?thesis by simp
  next
    case crlf
    with 2 show ?thesis by (simp add: CR_def LF_def)
  next
    case other
    then have IH: "split_lines (cs @ y) = butlast (split_lines cs) @ split_lines (last (split_lines cs) @ y)"
      using 2(3) by blast
    show ?thesis
    proof (cases "tl (split_lines cs) = []")
      case True
      with other split_lines_single [OF True] show ?thesis by auto
    next
      case False
      then obtain l l' ls where l: "split_lines cs = l # l' # ls"
        by (cases "split_lines cs"; cases "tl (split_lines cs)") auto
      then have cs: "cs \<noteq> []" by auto
      have IH': "split_lines (cs @ y) = l # butlast (l' # ls) @ split_lines (last (l' # ls) @ y)"
        unfolding IH l by simp
      have "split_lines (c # cs) = (c # l) # l' # ls"
        using other cs by (simp add: l)
      moreover have "split_lines ((c # cs) @ y) =
          (c # l) # butlast (l' # ls) @ split_lines (last (l' # ls) @ y)"
        using other cs by (simp only: append_Cons split_lines_Cons IH') simp
      ultimately show ?thesis by simp
    qed
  qed
qed simp

lemma butlast_split_append:
  "butlast (split_lines (x @ y)) =
   butlast (split_lines x) @ butlast (split_lines (last (split_lines x) @ y))"
  by (subst split_lines_append) (simp add: butlast_append)

lemma last_split_append: "last (split_lines (x @ y)) = last (split_lines (last (split_lines x) @ y))"
  by (subst split_lines_append) simp

lemma last_split_suffix: "suffix (last (split_lines x)) x"
proof (induction x rule: split_lines.induct)
  case (2 c cs)
  consider (lf) "c = LF" | (crlf) "c \<noteq> LF" "c = CR" "cs \<noteq> []" "hd cs = LF"
    | (other) "c \<noteq> LF" "\<not> (c = CR \<and> cs \<noteq> [] \<and> hd cs = LF)" by blast
  then show ?case
  proof cases
    case lf
    with 2(1) show ?thesis by (simp add: suffix_ConsI)
  next
    case crlf
    then have "suffix (last (split_lines (tl cs))) (hd cs # tl cs)"
      using 2(2) by (blast intro: suffix_ConsI)
    with crlf show ?thesis
      using suffix_ConsI [of "last (split_lines (tl cs))" cs c] by (cases cs) auto
  next
    case other
    then have IH: "suffix (last (split_lines cs)) cs" using 2(3) by blast
    show ?thesis
    proof (cases "tl (split_lines cs) = []")
      case True
      with other split_lines_single [OF True] show ?thesis by auto
    next
      case False
      then have "last (tl (split_lines cs)) = last (split_lines cs)" by (simp add: last_tl)
      with IH False other show ?thesis by (auto intro: suffix_ConsI)
    qed
  qed
qed simp

section \<open>The report and the prompts\<close>

text \<open>What a list of complete lines contributes to the report, and whether it completes it.\<close>

fun report_of :: "string list \<Rightarrow> string list \<times> bool" where
  "report_of [] = ([], False)"
| "report_of (line # rest) =
     (case find_sub term_mark line of
        Some (Suc i) \<Rightarrow>
          (let d = drop (Suc i + length term_mark) line in
           if find_sub end_mark d \<noteq> None then ([d], True)
           else (d # fst (report_of rest), snd (report_of rest)))
      | _ \<Rightarrow> report_of rest)"

definition report_text :: "string \<Rightarrow> string list \<times> bool" where
  "report_text txt = report_of (butlast (split_lines txt))"

lemma report_of_append:
  "report_of (xs @ ys) =
     (if snd (report_of xs) then report_of xs
      else (fst (report_of xs) @ fst (report_of ys), snd (report_of ys)))"
  by (induction xs) (auto simp: Let_def split: option.splits nat.splits)

lemma line_loop_ended:
  "results_ended s \<Longrightarrow> results (line_loop ls s) = results s \<and> results_ended (line_loop ls s)"
  by (induction ls arbitrary: s)
    (auto simp: Let_def note_launch_def results_write_def split: option.splits nat.splits)

lemma line_loop_report:
  "\<not> results_ended s \<Longrightarrow> \<not> completed s \<Longrightarrow>
   results (line_loop ls s) = results s @ fst (report_of ls) \<and>
   results_ended (line_loop ls s) = snd (report_of ls) \<and>
   completed (line_loop ls s) = snd (report_of ls)"
proof (induction ls arbitrary: s)
  case (Cons l ls)
  then show ?case
    by (auto simp: Let_def note_launch_def results_write_def split: option.splits nat.splits)
qed simp

lemma line_loop_frame [simp]:
  "leftover (line_loop ls s) = leftover s" "exit_code (line_loop ls s) = exit_code s"
  by (induction ls arbitrary: s)
    (auto simp: Let_def note_launch_def results_write_def split: option.splits nat.splits)

lemma line_loop_completed: "completed s \<Longrightarrow> completed (line_loop ls s)"
  by (induction ls arbitrary: s)
    (auto simp: Let_def note_launch_def results_write_def split: option.splits nat.splits)

lemma strip_id: "\<not> has_prompt s \<Longrightarrow> strip_prompts s = s"
  by (induction s rule: strip_prompts.induct) auto

lemma prompt_here_append: "prompt_here s \<Longrightarrow> prompt_here (s @ t)"
  by (auto simp: prompt_here_def nth_append prefix_append)

lemma has_prompt_append: "has_prompt s \<Longrightarrow> has_prompt (s @ t)"
proof (induction s)
  case (Cons c cs)
  then show ?case using prompt_here_append [of "c # cs" t] by auto
qed simp

lemma has_prompt_suffix: "suffix s t \<Longrightarrow> has_prompt s \<Longrightarrow> has_prompt t"
proof (elim suffixE, hypsubst)
  show "has_prompt s \<Longrightarrow> has_prompt (us @ s)" for us by (induction us) auto
qed

section \<open>The runner as an event machine\<close>

definition data_of :: "event list \<Rightarrow> string" where
  "data_of es = concat (map (\<lambda>e. case e of Data c \<Rightarrow> c | _ \<Rightarrow> []) es)"

lemma data_of_simps [simp]:
  "data_of [] = []" "data_of (es @ es') = data_of es @ data_of es'"
  "data_of [Data c] = c" "data_of [TimerFires] = []" "data_of [ExecEnd b] = []"
  by (simp_all add: data_of_def)

text \<open>What the variables say about the text received so far, while the script still runs.\<close>

definition reads :: "string \<Rightarrow> runner \<Rightarrow> bool" where
  "reads txt s \<longleftrightarrow> leftover s = last (split_lines txt) \<and> results s = fst (report_text txt) \<and>
     results_ended s = snd (report_text txt) \<and> completed s = snd (report_text txt)"

lemma on_data_reads:
  assumes "reads txt s" and np: "\<not> has_prompt (txt @ c)"
  shows "reads (txt @ c) (on_data c s)"
proof -
  let ?l = "last (split_lines txt)"
  have "suffix (?l @ c) (txt @ c)" using last_split_suffix by (auto simp: suffix_def)
  with np have strip: "strip_prompts (?l @ c) = ?l @ c"
    by (blast intro: strip_id has_prompt_suffix)
  let ?new = "butlast (split_lines (?l @ c))"
  have rep: "report_text (txt @ c) = report_of (butlast (split_lines txt) @ ?new)"
    unfolding report_text_def by (subst butlast_split_append) (rule refl)
  have last: "last (split_lines (txt @ c)) = last (split_lines (?l @ c))"
    by (rule last_split_append)
  have od: "on_data c s = (line_loop ?new s)\<lparr>leftover := last (split_lines (?l @ c))\<rparr>"
    using assms(1) by (simp add: on_data_def reads_def strip Let_def)
  show ?thesis
  proof (cases "snd (report_text txt)")
    case True
    with assms(1) have "results_ended s" "completed s" by (simp_all add: reads_def)
    moreover from this have "completed (line_loop ?new s)" by (simp add: line_loop_completed)
    ultimately show ?thesis
      using True assms(1) line_loop_ended [of s ?new]
      by (simp add: reads_def od rep last report_of_append report_text_def [of "txt"])
  next
    case False
    with assms(1) have "\<not> results_ended s" "\<not> completed s" by (simp_all add: reads_def)
    from line_loop_report [OF this, of ?new] False assms(1) show ?thesis
      by (simp add: reads_def od rep last report_of_append report_text_def [of "txt"])
  qed
qed

lemma exit_code_stays: "exit_code s \<noteq> None \<Longrightarrow> runner_step s e = s"
  by (simp add: runner_step.simps)

lemma step_reads:
  assumes "reads txt s" "exit_code (runner_step s e) = None" "\<not> has_prompt (txt @ data_of [e])"
  shows "reads (txt @ data_of [e]) (runner_step s e)"
proof (cases e)
  case (Data c)
  with assms have "exit_code s = None" by (metis exit_code_stays)
  with Data assms on_data_reads show ?thesis by (simp add: runner_step.simps)
next
  case TimerFires
  with assms show ?thesis
    by (auto simp: runner_step.simps timeoutFunction_def reads_def split: timer.splits if_splits)
next
  case (ExecEnd b)
  with assms show ?thesis
    by (auto simp: runner_step.simps on_exec_end_def reads_def Let_def split: if_splits)
qed

lemma run_reads:
  assumes "reads [] s" "exit_code (runner_run s es) = None" "\<not> has_prompt (data_of es)"
  shows "reads (data_of es) (runner_run s es)"
  using assms(2,3)
proof (induction es rule: rev_induct)
  case Nil
  with assms(1) show ?case by (simp add: runner_run_def)
next
  case (snoc e es)
  have run: "runner_run s (es @ [e]) = runner_step (runner_run s es) e"
    by (simp add: runner_run_def)
  with snoc.prems have "exit_code (runner_run s es) = None"
    by (metis exit_code_stays)
  moreover have "\<not> has_prompt (data_of es)"
    using snoc.prems(2) has_prompt_append by auto
  ultimately have "reads (data_of es) (runner_run s es)" by (rule snoc.IH)
  with snoc.prems run step_reads [of "data_of es" "runner_run s es" e] show ?case by simp
qed

lemma start_reads: "run_tests_start argv = Inr s \<Longrightarrow> reads [] s"
  by (auto simp: run_tests_start_def reads_def report_text_def split: if_splits)

section \<open>Exit codes\<close>

text \<open>The exit code is only ever 1, with the results stream closed and the report incomplete or
  the tests timeout armed again by a late launch line.\<close>

definition exit_inv :: "runner \<Rightarrow> bool" where
  "exit_inv s \<longleftrightarrow> (exit_code s = None \<or> exit_code s = Some 1 \<and> results_ended s \<and> errs s \<noteq> []) \<and>
     (completed s \<longrightarrow> results_ended s \<and> killed s)"

lemma exit_inv_helpers:
  "exit_inv s \<Longrightarrow> exit_inv (note_launch line s)"
  "exit_inv s \<Longrightarrow> exit_inv (results_write d s)"
  "exit_inv s \<Longrightarrow> exit_inv (s\<lparr>out := os\<rparr>)"
  "exit_inv s \<Longrightarrow> exit_inv (s\<lparr>leftover := l\<rparr>)"
  "exit_inv s \<Longrightarrow>
    exit_inv (s\<lparr>completed := True, results_ended := True, killed := True, timer_armed := TNone\<rparr>)"
  by (auto simp add: exit_inv_def note_launch_def results_write_def)

lemma line_loop_exit_inv: "exit_inv s \<Longrightarrow> exit_inv (line_loop ls s)"
proof (induction ls arbitrary: s)
  case (Cons l ls)
  then show ?case
    by (simp add: Let_def exit_inv_helpers split: option.split nat.split)
qed simp

lemma runner_step_exit_inv: "exit_inv s \<Longrightarrow> exit_inv (runner_step s e)"
proof (cases e)
  case (Data c)
  assume "exit_inv s"
  then have "exit_inv (on_data c s)"
    by (simp add: on_data_def Let_def exit_inv_helpers line_loop_exit_inv)
  with Data \<open>exit_inv s\<close> show ?thesis by (simp add: runner_step.simps)
qed (auto simp: runner_step.simps timeoutFunction_def on_exec_end_def exit_inv_def Let_def split: timer.splits)

interpretation tr: event_machine runner_step exit_inv
  by unfold_locales (rule runner_step_exit_inv)

lemma start_exit_inv: "run_tests_start argv = Inr s \<Longrightarrow> exit_inv s"
  by (auto simp: run_tests_start_def exit_inv_def split: if_splits)

section \<open>Properties\<close>

definition no_data :: "event list \<Rightarrow> bool" where
  "no_data es \<longleftrightarrow> list_all (\<lambda>e. case e of Data _ \<Rightarrow> False | _ \<Rightarrow> True) es"

text \<open>With no timer armed, no output to come and no failure of the process to report, the script
  goes on as it is.\<close>

lemma quiet_step:
  assumes "exit_code s = None" "timer_armed s = TNone" "completed s \<or> e \<noteq> ExecEnd True"
    "no_data [e]"
  shows "runner_step s e = s"
  using assms by (cases e) (auto simp: runner_step.simps on_exec_end_def no_data_def Let_def)

lemma quiet_run:
  assumes "exit_code s = None" "timer_armed s = TNone" "no_data es"
    "completed s \<or> ExecEnd True \<notin> set es"
  shows "runner_run s es = s"
  using assms
proof (induction es)
  case (Cons e es)
  then have "runner_step s e = s" by (intro quiet_step) (auto simp: no_data_def)
  with Cons show ?case by (auto simp: runner_run_def no_data_def)
qed (simp add: runner_run_def)

lemma line_loop_completes:
  "\<not> completed s \<Longrightarrow> completed (line_loop ls s) \<Longrightarrow> timer_armed (line_loop ls s) = TNone"
proof (induction ls arbitrary: s)
  case (Cons l ls)
  show ?case
  proof (cases "find_sub term_mark l")
    case None
    with Cons show ?thesis by (auto simp: Let_def note_launch_def split: if_splits)
  next
    case (Some i)
    with Cons show ?thesis
      by (cases i) (auto simp: Let_def note_launch_def results_write_def split: if_splits)
  qed
qed simp

text \<open>C12: The report does not depend on how the output of the process is cut into chunks, as long as the script has
  not exited and the output has no debugger prompt (\<^verbatim>\<open>(lldb) \<close>), which makes the script ask for a back trace. Once it has been
  started, whatever timer and process events came in between, the results file holds what the report lines of the
  whole output text say, up to the line that closes the report, and the run counts as complete exactly when that
  line has arrived.\<close>

theorem report_of_whole_output:
  assumes "run_tests_start argv = Inr s" and "exit_code (runner_run s es) = None"
    and "\<not> has_prompt (data_of es)"
  shows "results (runner_run s es) = fst (report_text (data_of es)) \<and>
    completed (runner_run s es) = snd (report_text (data_of es))"
  using run_reads [OF start_reads [OF assms(1)] assms(2,3)] by (simp add: reads_def)

text \<open>Once the line that closes the report has arrived, the run cannot fail any more unless
  the process prints again: neither a timer nor the end of the killed process (with or without an
  error) makes the script exit with code 1, and the results stay as they are.\<close>

theorem complete_report_is_final:
  assumes "\<not> completed s" and "exit_code s = None" and "completed (runner_step s (Data c))"
    and "no_data es"
  shows "exit_code (runner_run s (Data c # es)) = None \<and>
    results (runner_run s (Data c # es)) = results (runner_step s (Data c)) \<and>
    results_ended (runner_run s (Data c # es))"
proof -
  let ?t = "runner_step s (Data c)"
  have t: "?t = on_data c s" using assms(2) by (simp add: runner_step.simps)
  with assms(1-3) have "exit_code ?t = None" "timer_armed ?t = TNone"
    using line_loop_completes [of s "butlast (split_lines (strip_prompts (leftover s @ c)))"]
    by (simp_all add: on_data_def Let_def)
  with assms(3,4) have q: "runner_run ?t es = ?t" by (intro quiet_run) auto
  have "results_ended ?t"
  proof (cases "results_ended s")
    case True
    then show ?thesis by (simp add: t on_data_def Let_def line_loop_ended)
  next
    case False
    with assms(1,3) show ?thesis
      by (simp add: t on_data_def Let_def line_loop_report)
  qed
  with q \<open>exit_code ?t = None\<close> show ?thesis by (simp add: runner_run_def)
qed

text \<open>The only exit code the script sets is 1, and only with the results stream closed and
  a message on standard error; a completed run has closed its results and killed the process.\<close>

theorem exit_is_failure_with_message:
  assumes "run_tests_start argv = Inr s"
  shows "(exit_code (runner_run s es) = None \<or> exit_code (runner_run s es) = Some 1 \<and>
      results_ended (runner_run s es) \<and> errs (runner_run s es) \<noteq> []) \<and>
    (completed (runner_run s es) \<longrightarrow> results_ended (runner_run s es) \<and> killed (runner_run s es))"
  using tr.run_inv [OF start_exit_inv [OF assms], of es] by (simp add: exit_inv_def runner_run_def)

text \<open>A process that ends without an error before the report is complete is not reported:
  the timers are cleared, no error is printed and no exit code is set, so the script ends as after
  a successful run although the report is not complete.\<close>

theorem clean_end_without_report_passes:
  assumes "exit_code s = None" and "\<not> completed s" and "no_data es" and "ExecEnd True \<notin> set es"
  shows "exit_code (runner_run s (ExecEnd False # es)) = None \<and>
    errs (runner_run s (ExecEnd False # es)) = errs s \<and>
    \<not> completed (runner_run s (ExecEnd False # es))"
proof -
  let ?t = "runner_step s (ExecEnd False)"
  have t: "?t = s\<lparr>timer_armed := TNone\<rparr>"
    using assms(1) by (simp add: runner_step.simps on_exec_end_def Let_def)
  have "runner_run ?t es = ?t"
    using assms by (intro quiet_run) (simp_all add: t)
  with t assms show ?thesis by (simp add: runner_run_def)
qed

subsection \<open>Witnesses\<close>

definition sample_argv :: "string list" where
  "sample_argv = [''node'', ''run-tests.js'', ''a.app'', ''o.xml'']"

definition sample_start :: runner where
  "sample_start = (case run_tests_start sample_argv of Inr s \<Rightarrow> s)"

lemma sample_start: "run_tests_start sample_argv = Inr sample_start"
  by (simp add: sample_start_def run_tests_start_def sample_argv_def)

definition sample_report :: string where
  "sample_report = ''x TKUnit: </testsuites>'' @ [CR, LF]"

lemmas sample_simps = sample_report_def sample_argv_def sample_start_def run_tests_start_def
  runner_run_def runner_step.simps on_data_def on_exec_end_def note_launch_def results_write_def
  prompt_here_def is_space_def LF_def CR_def launched_def term_mark_def end_mark_def no_data_def
  data_of_def report_text_def

lemma sample_report_done:
  "completed (runner_step sample_start (Data sample_report))"
  "exit_code (runner_step sample_start (Data sample_report)) = None"
  by code_simp+

theorem report_of_whole_output_witness:
  "results (runner_run sample_start [Data ''x TK'', Data ''Unit: </testsuites>'', Data [LF]])
    = [''</testsuites>'']"
proof -
  let ?es = "[Data ''x TK'', Data ''Unit: </testsuites>'', Data [LF]]"
  have "exit_code (runner_run sample_start ?es) = None" "\<not> has_prompt (data_of ?es)"
    by code_simp+
  then have "results (runner_run sample_start ?es) = fst (report_text (data_of ?es))"
    using report_of_whole_output [OF sample_start] by blast
  also have "\<dots> = [''</testsuites>'']" by code_simp
  finally show ?thesis .
qed

theorem complete_report_is_final_witness:
  "exit_code (runner_run sample_start [Data sample_report, ExecEnd True, TimerFires]) = None"
proof -
  have "\<not> completed sample_start" "exit_code sample_start = None"
    "no_data [ExecEnd True, TimerFires]"
    by (simp_all add: sample_simps)
  from complete_report_is_final [OF this(1,2) sample_report_done(1) this(3)] show ?thesis by simp
qed

theorem exit_is_failure_with_message_witness:
  "exit_code (runner_run sample_start [TimerFires]) = Some 1 \<and>
   errs (runner_run sample_start [TimerFires]) \<noteq> []"
  using exit_is_failure_with_message [OF sample_start, of "[TimerFires]"]
  by (simp add: sample_simps timeoutFunction_def)

theorem clean_end_without_report_passes_witness:
  "exit_code (runner_run sample_start [ExecEnd False, TimerFires]) = None"
proof -
  have "exit_code sample_start = None" "\<not> completed sample_start" "no_data [TimerFires]"
    "ExecEnd True \<notin> set [TimerFires]"
    by (simp_all add: sample_simps)
  from clean_end_without_report_passes [OF this] show ?thesis by simp
qed

text \<open>A launch line printed after the report is complete arms the tests timeout again, and
  that timeout makes the completed run exit with code 1.\<close>

theorem late_launch_line_fails_completed_run:
  "completed (runner_run sample_start [Data sample_report, Data (launched @ [LF]), TimerFires]) \<and>
   exit_code (runner_run sample_start [Data sample_report, Data (launched @ [LF]), TimerFires]) = Some 1"
  by code_simp

end
