(* ===== verification/Path_Browserify.thy ===== *)
theory Path_Browserify
  imports NS_Prelude
begin

text \<open>
  \<^verbatim>\<open>path-browserify/index.js\<close> as bundled in \<^verbatim>\<open>AppWithModules/app/vendor.js\<close>: the POSIX path
  functions the bundled modules resolve file names with. A path is a string; an argument that is
  not a string is \<open>None\<close>; \<open>cwd\<close> is what \<^verbatim>\<open>process.cwd()\<close> returns. The loops that
  walk a string or an array from its end keep their variables; \<open>normalizeArray\<close> is modelled with
  its index and its splices and then shown equal to a single left-to-right pass over a stack.
\<close>

section \<open>normalizeArray\<close>

definition slash :: char where "slash = CHR ''/''"
definition dot :: string where "dot = ''.''"
definition dotdot :: string where "dotdot = ''..''"

text \<open>The loop \<^verbatim>\<open>for (var i = parts.length - 1; i >= 0; i--)\<close>; the first argument is \<open>i + 1\<close>.\<close>

fun norm_loop :: "nat \<Rightarrow> string list \<Rightarrow> nat \<Rightarrow> string list \<times> nat" where
  "norm_loop 0 parts up = (parts, up)"
| "norm_loop (Suc i) parts up =
     (let last = parts ! i in
      if last = dot then norm_loop i (splice1 i parts) up
      else if last = dotdot then norm_loop i (splice1 i parts) (Suc up)
      else if 0 < up then norm_loop i (splice1 i parts) (up - 1)
      else norm_loop i parts up)"

definition normalizeArray :: "string list \<Rightarrow> bool \<Rightarrow> string list" where
  "normalizeArray parts allowAboveRoot =
     (let (kept, up) = norm_loop (length parts) parts 0
      in if allowAboveRoot then replicate up dotdot @ kept else kept)"

section \<open>The exported functions\<close>

datatype path_error = TypeError

definition isAbsolute :: "string \<Rightarrow> bool" where
  "isAbsolute path \<longleftrightarrow> path \<noteq> [] \<and> hd path = slash"

text \<open>The non-empty pieces between the slashes.\<close>

definition pieces :: "string \<Rightarrow> string list" where
  "pieces path = filter (\<lambda>p. p \<noteq> []) (split_char slash path)"

text \<open>The loop of \<open>resolve\<close> over the arguments from the last to the first and then \<open>cwd\<close>.\<close>

fun resolve_loop :: "string option list \<Rightarrow> string \<Rightarrow> bool \<Rightarrow> path_error + string \<times> bool" where
  "resolve_loop [] resolvedPath resolvedAbsolute = Inr (resolvedPath, resolvedAbsolute)"
| "resolve_loop (a # rest) resolvedPath resolvedAbsolute =
     (if resolvedAbsolute then Inr (resolvedPath, resolvedAbsolute)
      else case a of
        None \<Rightarrow> Inl TypeError
      | Some path \<Rightarrow>
          if path = [] then resolve_loop rest resolvedPath resolvedAbsolute
          else resolve_loop rest (path @ slash # resolvedPath) (isAbsolute path))"

definition resolve :: "string \<Rightarrow> string option list \<Rightarrow> path_error + string" where
  "resolve cwd args =
     (case resolve_loop (rev args @ [Some cwd]) [] False of
        Inl e \<Rightarrow> Inl e
      | Inr (rp, ab) \<Rightarrow>
          (let r = (if ab then [slash] else []) @ join_with [slash] (normalizeArray (pieces rp) (\<not> ab))
           in Inr (if r = [] then dot else r)))"

definition normalize :: "string \<Rightarrow> string" where
  "normalize path =
     (let ab = isAbsolute path;
          trailingSlash = path \<noteq> [] \<and> last path = slash;
          p = join_with [slash] (normalizeArray (pieces path) (\<not> ab));
          p1 = (if p = [] \<and> \<not> ab then dot else p);
          p2 = (if p1 \<noteq> [] \<and> trailingSlash then p1 @ [slash] else p1)
      in (if ab then [slash] else []) @ p2)"

definition join :: "string option list \<Rightarrow> path_error + string" where
  "join args =
     (if None \<in> set args then Inl TypeError
      else Inr (normalize (join_with [slash] (filter (\<lambda>p. p \<noteq> []) (map the args)))))"

text \<open>The local function \<open>trim\<close> of \<open>relative\<close>: \<open>start\<close> is the first and \<open>end\<close> the last
  index of a non-empty element, and the slice ends before \<^verbatim>\<open>end - start + 1\<close>.\<close>

definition trim_empty :: "string list \<Rightarrow> string list" where
  "trim_empty arr =
     (let start = length (takeWhile (\<lambda>p. p = []) arr);
          end1 = length arr - length (takeWhile (\<lambda>p. p = []) (rev arr))
      in if end1 \<le> start then [] else take (end1 - start - start) (drop start arr))"

fun samePartsLength :: "string list \<Rightarrow> string list \<Rightarrow> nat" where
  "samePartsLength (f # fs) (t # ts) = (if f = t then Suc (samePartsLength fs ts) else 0)"
| "samePartsLength _ _ = 0"

definition relative :: "string \<Rightarrow> string option \<Rightarrow> string option \<Rightarrow> path_error + string" where
  "relative cwd from to =
     (case resolve cwd [from] of Inl e \<Rightarrow> Inl e | Inr f \<Rightarrow>
       (case resolve cwd [to] of Inl e \<Rightarrow> Inl e | Inr t \<Rightarrow>
         (let fromParts = trim_empty (split_char slash (drop 1 f));
              toParts = trim_empty (split_char slash (drop 1 t));
              n = samePartsLength fromParts toParts
          in Inr (join_with [slash] (replicate (length fromParts - n) dotdot @ drop n toParts)))))"

text \<open>
  The scans from the end of a path: the argument is the reversed part of the path still to visit,
  so its head is the character at index \<open>i\<close> and \<open>i\<close> is the length of its tail. The loop of
  \<open>dirname\<close> stops before index 0. \<open>None\<close> is \<open>-1\<close>.
\<close>

fun dirname_loop :: "string \<Rightarrow> bool \<Rightarrow> nat option" where
  "dirname_loop [] matchedSlash = None"
| "dirname_loop (c # r) matchedSlash =
     (if r = [] then None
      else if c = slash then (if \<not> matchedSlash then Some (length r) else dirname_loop r matchedSlash)
      else dirname_loop r False)"

definition dirname :: "string \<Rightarrow> string" where
  "dirname path =
     (if path = [] then dot
      else let hasRoot = hd path = slash in
        case dirname_loop (rev path) True of
          None \<Rightarrow> if hasRoot then [slash] else dot
        | Some e \<Rightarrow> if hasRoot \<and> e = 1 then [slash] else take e path)"

fun basename_loop :: "string \<Rightarrow> nat option \<Rightarrow> bool \<Rightarrow> nat \<times> nat option" where
  "basename_loop [] end matchedSlash = (0, end)"
| "basename_loop (c # r) end matchedSlash =
     (if c = slash then (if \<not> matchedSlash then (Suc (length r), end) else basename_loop r end matchedSlash)
      else if end = None then basename_loop r (Some (Suc (length r))) False
      else basename_loop r end matchedSlash)"

definition basename0 :: "string \<Rightarrow> string" where
  "basename0 path =
     (case basename_loop (rev path) None True of
        (start, None) \<Rightarrow> []
      | (start, Some e) \<Rightarrow> drop start (take e path))"

definition basename :: "string \<Rightarrow> string option \<Rightarrow> string" where
  "basename path ext =
     (let f = basename0 path in
      case ext of None \<Rightarrow> f
      | Some x \<Rightarrow> if x \<noteq> [] \<and> suffix x f then take (length f - length x) f else f)"

record ext_state =
  startDot :: "nat option"
  startPart :: nat
  ext_end :: "nat option"
  matchedSlash :: bool
  preDotState :: int

fun extname_loop :: "string \<Rightarrow> ext_state \<Rightarrow> ext_state" where
  "extname_loop [] s = s"
| "extname_loop (c # r) s =
     (if c = slash then
        (if \<not> matchedSlash s then s\<lparr>startPart := Suc (length r)\<rparr> else extname_loop r s)
      else
        (let s1 = (if ext_end s = None
                   then s\<lparr>matchedSlash := False, ext_end := Some (Suc (length r))\<rparr> else s);
             s2 = (if c = CHR ''.'' then
                     (if startDot s1 = None then s1\<lparr>startDot := Some (length r)\<rparr>
                      else if preDotState s1 \<noteq> 1 then s1\<lparr>preDotState := 1\<rparr> else s1)
                   else if startDot s1 \<noteq> None then s1\<lparr>preDotState := -1\<rparr> else s1)
         in extname_loop r s2))"

definition extname :: "string \<Rightarrow> string" where
  "extname path =
     (let s = extname_loop (rev path)
        \<lparr>startDot = None, startPart = 0, ext_end = None, matchedSlash = True, preDotState = 0\<rparr> in
      case (startDot s, ext_end s) of
        (Some d, Some e) \<Rightarrow>
          if preDotState s = 0 \<or> preDotState s = 1 \<and> d = e - 1 \<and> d = startPart s + 1 then []
          else drop d (take e path)
      | _ \<Rightarrow> [])"

section \<open>normalizeArray is a pass over a stack\<close>

text \<open>The reference: a stack of names (top first); \<open>..\<close> pops a name, and above the root it is
  kept when \<open>allowAboveRoot\<close> and dropped otherwise.\<close>

fun stack_pass :: "bool \<Rightarrow> string list \<Rightarrow> string list \<Rightarrow> string list" where
  "stack_pass a st [] = rev st"
| "stack_pass a st (x # xs) =
     (if x = dot then stack_pass a st xs
      else if x = dotdot then
        (case st of
           [] \<Rightarrow> stack_pass a (if a then [dotdot] else []) xs
         | t # ts \<Rightarrow> if t = dotdot then stack_pass a (dotdot # st) xs else stack_pass a ts xs)
      else stack_pass a (x # st) xs)"

text \<open>The effect of the loop on the parts to its left, from right to left.\<close>

fun right_step :: "string \<Rightarrow> string list \<times> nat \<Rightarrow> string list \<times> nat" where
  "right_step x (kept, up) =
     (if x = dot then (kept, up) else if x = dotdot then (kept, Suc up)
      else if 0 < up then (kept, up - 1) else (x # kept, up))"

lemma dots [simp]: "dot \<noteq> dotdot" "dotdot \<noteq> dot" "dot \<noteq> []" "dotdot \<noteq> []"
  by (simp_all add: dot_def dotdot_def)

lemma norm_loop_right_step:
  "norm_loop (length xs) (xs @ ys) up =
     (fst (foldr right_step xs ([], up)) @ ys, snd (foldr right_step xs ([], up)))"
proof (induction xs arbitrary: ys up rule: rev_induct)
  case (snoc x xs)
  have app: "foldr right_step zs (k @ k', u) =
      (fst (foldr right_step zs (k, u)) @ k', snd (foldr right_step zs (k, u)))" for zs k k' u
  proof (induction zs)
    case (Cons z zs)
    then show ?case by (cases "foldr right_step zs (k, u)") auto
  qed simp
  have sp: "splice1 (length xs) (xs @ z # ys) = xs @ ys" for z by (simp add: splice1_def)
  show ?case
    using snoc [of "ys" "up"] snoc [of "x # ys" up] snoc [of ys "Suc up"] snoc [of ys "up - 1"]
      app [of xs "[]" "[x]" up]
    by (cases "up = 0") (auto simp: Let_def sp)
qed simp

definition is_name :: "string \<Rightarrow> bool" where
  "is_name x \<longleftrightarrow> x \<noteq> dot \<and> x \<noteq> dotdot"

lemma stack_pass_right_step:
  assumes "\<forall>m \<in> set ms. is_name m" "\<not> a \<longrightarrow> k = 0"
  shows "stack_pass a (ms @ replicate k dotdot) xs =
    (let (kept, up) = foldr right_step xs ([], 0) in
     if up \<le> length ms then replicate k dotdot @ rev (drop up ms) @ kept
     else replicate (if a then k + (up - length ms) else 0) dotdot @ kept)"
  using assms
proof (induction xs arbitrary: ms k)
  case Nil
  then show ?case by simp
next
  case (Cons x xs)
  obtain kept up where ku: "foldr right_step xs ([], 0) = (kept, up)" by (cases "foldr right_step xs ([], 0)")
  consider "x = dot" | "x = dotdot" | (name) "is_name x" by (auto simp: is_name_def)
  then show ?case
  proof cases
    case 2
    show ?thesis
    proof (cases ms)
      case Nil
      show ?thesis
      proof (cases k)
        case 0
        with Nil 2 Cons.IH [of "[]" "if a then 1 else 0"] Cons.prems show ?thesis
          by (cases a) (auto simp: ku)
      next
        case (Suc j)
        with Cons.prems have a by simp
        with Nil Suc 2 Cons.IH [of "[]" "Suc k"] show ?thesis by (simp add: ku)
      qed
    next
      case (Cons m ms')
      with Cons.prems 2 Cons.IH [of ms' k] show ?thesis by (simp add: ku is_name_def)
    qed
  next
    case name
    with Cons.IH [of "x # ms" k] Cons.prems show ?thesis
      by (auto simp: ku is_name_def drop_Cons split: nat.split)
  qed (use Cons ku in simp)
qed

lemma normalizeArray_foldr:
  "normalizeArray parts a =
     (let (kept, up) = foldr right_step parts ([], 0)
      in if a then replicate up dotdot @ kept else kept)"
  using norm_loop_right_step [of parts "[]" 0]
  by (simp add: normalizeArray_def case_prod_beta)

lemma normalizeArray_stack: "normalizeArray parts a = stack_pass a [] parts"
  using stack_pass_right_step [of "[]" a 0 parts]
  by (auto simp: normalizeArray_foldr Let_def split: prod.splits)

text \<open>The normal form: leading \<open>..\<close> (only when allowed) and then names.\<close>

definition normal :: "bool \<Rightarrow> string list \<Rightarrow> bool" where
  "normal a xs \<longleftrightarrow> (\<exists>k ns. xs = replicate k dotdot @ ns \<and> (\<forall>n \<in> set ns. is_name n) \<and> (\<not> a \<longrightarrow> k = 0))"

lemma right_step_names: "\<forall>n \<in> set (fst (foldr right_step xs ([], 0))). is_name n"
proof (induction xs)
  case (Cons x xs)
  then show ?case
    by (cases "foldr right_step xs ([], 0)") (auto simp: is_name_def)
qed simp

lemma normal_normalizeArray: "normal a (normalizeArray xs a)"
  using right_step_names [of xs]
  by (cases "foldr right_step xs ([], 0)") (fastforce simp: normal_def normalizeArray_foldr)

lemma stack_pass_names:
  "\<forall>n \<in> set ns. is_name n \<Longrightarrow> stack_pass a st (ns @ ys) = stack_pass a (rev ns @ st) ys"
  by (induction ns arbitrary: st) (auto simp: is_name_def)

lemma stack_pass_ups:
  "stack_pass True (replicate j dotdot) (replicate k dotdot @ ys) = stack_pass True (replicate (j + k) dotdot) ys"
proof (induction k arbitrary: j)
  case (Suc k)
  then show ?case using Suc [of "Suc j"] by (cases j) simp_all
qed simp

lemma normalizeArray_normal: "normal a xs \<Longrightarrow> normalizeArray xs a = xs"
proof -
  assume "normal a xs"
  then obtain k ns where xs: "xs = replicate k dotdot @ ns" "\<forall>n \<in> set ns. is_name n" "\<not> a \<longrightarrow> k = 0"
    by (auto simp: normal_def)
  then have "stack_pass a [] (replicate k dotdot @ ns) = stack_pass a (replicate k dotdot) ns"
    using stack_pass_ups [of 0 k ns] by (cases a) simp_all
  with xs stack_pass_names [of ns a "replicate k dotdot" "[]"] show ?thesis
    by (simp add: normalizeArray_stack)
qed

lemma stack_pass_append:
  "stack_pass a st (xs @ ys) = stack_pass a (rev (stack_pass a st xs)) ys"
  by (induction a st xs rule: stack_pass.induct) (auto split: list.split)

lemma normalizeArray_append:
  "normalizeArray (xs @ ys) a = normalizeArray (normalizeArray xs a @ ys) a"
proof -
  have "stack_pass a [] (normalizeArray xs a @ ys) = stack_pass a (rev (normalizeArray (normalizeArray xs a) a)) ys"
    by (subst stack_pass_append) (simp add: normalizeArray_stack)
  then show ?thesis
    by (simp add: normalizeArray_normal normal_normalizeArray)
      (simp add: normalizeArray_stack stack_pass_append)
qed

lemma set_normalizeArray: "set (normalizeArray xs a) \<subseteq> insert dotdot (set xs)"
proof -
  have "set (fst (foldr right_step xs ([], u))) \<subseteq> set xs" for u
  proof (induction xs)
    case (Cons x xs)
    then show ?case by (cases "foldr right_step xs ([], u)") auto
  qed simp
  from this [of 0] show ?thesis
    by (cases "foldr right_step xs ([], 0)") (auto simp: normalizeArray_foldr split: if_splits)
qed

section \<open>Pieces of a path\<close>

definition piece :: "string \<Rightarrow> bool" where
  "piece x \<longleftrightarrow> x \<noteq> [] \<and> slash \<notin> set x"

lemma pieces_piece: "x \<in> set (pieces p) \<Longrightarrow> piece x"
  by (auto simp: pieces_def piece_def dest: split_char_parts)

lemma pieces_Nil [simp]: "pieces [] = []"
  by (simp add: pieces_def)

lemma pieces_app [simp]: "pieces (a @ slash # b) = pieces a @ pieces b"
  by (simp add: pieces_def split_char_app)

lemma pieces_slash [simp]: "pieces (slash # b) = pieces b"
  using pieces_app [of "[]" b] by simp

lemma pieces_slashes [simp]: "pieces (p @ replicate n slash) = pieces p"
proof (induction n)
  case (Suc n)
  have "p @ replicate (Suc n) slash = (p @ replicate n slash) @ slash # []"
    by (simp add: replicate_append_same)
  then show ?case using Suc by (simp only: pieces_app) simp
qed simp

lemma pieces_piece_id [simp]: "piece x \<Longrightarrow> pieces x = [x]"
  by (simp add: piece_def pieces_def split_char_no_sep)

lemma pieces_join [simp]: "\<forall>x \<in> set xs. piece x \<Longrightarrow> pieces (join_with [slash] xs) = xs"
  by (cases "xs = []") (auto simp: pieces_def split_join piece_def intro: filter_True)

lemma piece_dotdot [simp]: "piece dotdot" "piece dot"
  by (simp_all add: piece_def slash_def dotdot_def dot_def)

lemma normalizeArray_pieces: "\<forall>x \<in> set xs. piece x \<Longrightarrow> x \<in> set (normalizeArray xs a) \<Longrightarrow> piece x"
  using set_normalizeArray [of xs a] by auto

lemma piece_ends: "piece w \<Longrightarrow> w \<noteq> [] \<and> hd w \<noteq> slash \<and> last w \<noteq> slash"
  by (metis hd_in_set last_in_set piece_def)

lemma hd_join: "\<forall>x \<in> set xs. piece x \<Longrightarrow> xs \<noteq> [] \<Longrightarrow>
    join_with [slash] xs \<noteq> [] \<and> hd (join_with [slash] xs) \<noteq> slash \<and> last (join_with [slash] xs) \<noteq> slash"
proof (induction "[slash]" xs rule: join_with.induct)
  case (2 w)
  then show ?case by (simp add: piece_ends)
next
  case (3 w v ws)
  then show ?case using piece_ends [of w] by simp
qed simp

lemma isAbsolute_join: "\<forall>x \<in> set xs. piece x \<Longrightarrow> \<not> isAbsolute (join_with [slash] xs)"
  using hd_join [of xs] by (cases "xs = []") (auto simp: isAbsolute_def)

lemma join_Nil_iff: "\<forall>x \<in> set xs. piece x \<Longrightarrow> join_with [slash] xs = [] \<longleftrightarrow> xs = []"
  using hd_join [of xs] by (cases "xs = []") auto

section \<open>resolve\<close>

text \<open>The pieces that count: from the last absolute argument on (the arguments in reverse order).\<close>

fun effective :: "string list \<Rightarrow> string list" where
  "effective [] = []"
| "effective (p # ps) = (if isAbsolute p then pieces p else effective ps @ pieces p)"

lemma resolve_loop_effective:
  "list_ex isAbsolute ps \<Longrightarrow>
   \<exists>rp. resolve_loop (map Some ps) acc False = Inr (rp, True) \<and> pieces rp = effective ps @ pieces acc"
proof (induction ps arbitrary: acc)
  case (Cons p ps)
  show ?case
  proof (cases "isAbsolute p")
    case True
    then show ?thesis by (cases ps) (auto simp: isAbsolute_def)
  next
    case False
    with Cons.prems Cons.IH [of "p @ slash # acc"] Cons.IH [of acc] show ?thesis by auto
  qed
qed simp

lemma effective_pieces: "x \<in> set (effective ps) \<Longrightarrow> piece x"
  by (induction ps) (auto simp: pieces_piece split: if_splits)

lemma resolve_effective:
  assumes "isAbsolute cwd"
  shows "resolve cwd (map Some ps) =
    Inr (slash # join_with [slash] (normalizeArray (effective (rev ps @ [cwd])) False))"
proof -
  have "list_ex isAbsolute (rev ps @ [cwd])" using assms by simp
  from resolve_loop_effective [OF this, of "[]"] obtain rp where
    "resolve_loop (map Some (rev ps @ [cwd])) [] False = Inr (rp, True)"
    "pieces rp = effective (rev ps @ [cwd])" by auto
  then show ?thesis by (simp add: resolve_def rev_map)
qed

lemma normal_False_names: "x \<in> set (normalizeArray xs False) \<Longrightarrow> is_name x"
  using normal_normalizeArray [of False xs] by (auto simp: normal_def)

section \<open>relative\<close>

lemma trim_pieces: "\<forall>x \<in> set xs. piece x \<Longrightarrow> xs \<noteq> [] \<Longrightarrow> trim_empty xs = xs"
proof -
  assume "\<forall>x \<in> set xs. piece x" "xs \<noteq> []"
  then have "takeWhile (\<lambda>p. p = []) xs = []" "takeWhile (\<lambda>p. p = []) (rev xs) = []"
    by (auto simp: takeWhile_eq_Nil_iff piece_def hd_rev)
  with \<open>xs \<noteq> []\<close> show ?thesis by (simp add: trim_empty_def)
qed

lemma trim_split_join:
  assumes "\<forall>x \<in> set xs. piece x"
  shows "trim_empty (split_char slash (join_with [slash] xs)) = xs"
proof (cases "xs = []")
  case True
  then show ?thesis by (simp add: trim_empty_def)
next
  case False
  with assms show ?thesis by (simp add: split_join trim_pieces piece_def)
qed

lemma samePartsLength_take:
  "take (samePartsLength fs ts) fs = take (samePartsLength fs ts) ts \<and>
   samePartsLength fs ts \<le> length fs \<and> samePartsLength fs ts \<le> length ts"
  by (induction fs ts rule: samePartsLength.induct) auto

lemma stack_pass_pops:
  "\<forall>n \<in> set st. is_name n \<Longrightarrow> k \<le> length st \<Longrightarrow>
   stack_pass a st (replicate k dotdot @ ys) = stack_pass a (drop k st) ys"
proof (induction k arbitrary: st)
  case (Suc k)
  then show ?case by (cases st) (auto simp: is_name_def)
qed simp

lemma stack_pass_back:
  assumes "\<forall>n \<in> set fs. is_name n" "\<forall>n \<in> set ts. is_name n"
  shows "stack_pass False (rev fs)
    (replicate (length fs - samePartsLength fs ts) dotdot @ drop (samePartsLength fs ts) ts) = ts"
proof -
  let ?n = "samePartsLength fs ts"
  have n: "take ?n fs = take ?n ts" "?n \<le> length fs" using samePartsLength_take by auto
  have "drop (length fs - ?n) (rev fs) = rev (take ?n ts)"
    using n by (simp add: drop_rev)
  then have "stack_pass False (rev fs) (replicate (length fs - ?n) dotdot @ drop ?n ts)
      = stack_pass False (rev (take ?n ts)) (drop ?n ts @ [])"
    using assms(1) by (simp add: stack_pass_pops)
  also have "\<dots> = rev (rev (drop ?n ts) @ rev (take ?n ts))"
    using assms(2) by (subst stack_pass_names) (auto dest: in_set_dropD)
  finally show ?thesis by simp
qed

section \<open>dirname, basename, extname\<close>

text \<open>A path that is not made of slashes only: directory part, last component, trailing slashes.\<close>

definition cut :: "string \<Rightarrow> string \<Rightarrow> nat \<Rightarrow> bool" where
  "cut d b n \<longleftrightarrow> piece b \<and> (d = [] \<or> last d = slash)"

lemma cut_exists:
  assumes "\<exists>c \<in> set p. c \<noteq> slash"
  obtains d b n where "p = d @ b @ replicate n slash" "cut d b n"
proof -
  let ?r = "dropWhile ((=) slash) (rev p)"
  let ?b = "takeWhile ((\<noteq>) slash) ?r" and ?d = "dropWhile ((\<noteq>) slash) ?r"
  have r: "?r \<noteq> []"
  proof
    assume "?r = []"
    then have "\<forall>c \<in> set p. slash = c" by (simp only: dropWhile_eq_Nil_conv set_rev)
    with assms show False by auto
  qed
  then have "hd ?r \<noteq> slash" using hd_dropWhile [of "(=) slash" "rev p"] by auto
  with r have b: "?b \<noteq> []" by (cases ?r) auto
  have "rev p = takeWhile ((=) slash) (rev p) @ ?b @ ?d" by simp
  then have "p = rev ?d @ rev ?b @ rev (takeWhile ((=) slash) (rev p))"
    by (metis append.assoc rev_append rev_rev_ident)
  moreover have "rev (takeWhile ((=) slash) (rev p)) = replicate (length (takeWhile ((=) slash) (rev p))) slash"
    by (metis (mono_tags, lifting) replicate_length_same rev_replicate set_takeWhileD)
  moreover have "cut (rev ?d) (rev ?b) (length (takeWhile ((=) slash) (rev p)))"
  proof -
    have "slash \<notin> set ?b" by (auto dest: set_takeWhileD)
    moreover have "?d = [] \<or> hd ?d = slash" using hd_dropWhile [of "(\<noteq>) slash" ?r] by auto
    ultimately show ?thesis using b by (auto simp: cut_def piece_def last_rev)
  qed
  ultimately show thesis using that by metis
qed

lemma basename_loop_skip: "basename_loop (replicate n slash @ r) None True = basename_loop r None True"
  by (induction n) auto

lemma basename_loop_piece:
  "slash \<notin> set bs \<Longrightarrow> basename_loop (bs @ r) (Some e) False = basename_loop r (Some e) False"
  by (induction bs) auto

lemma basename0_cut:
  assumes "cut d b n"
  shows "basename0 (d @ b @ replicate n slash) = b"
proof -
  from assms have b: "b \<noteq> []" "slash \<notin> set b" and d: "d = [] \<or> last d = slash"
    by (auto simp: cut_def piece_def)
  then obtain c cs where rb: "rev b = c # cs" "c \<noteq> slash" "slash \<notin> set cs"
    by (cases "rev b") (auto simp: rev_swap)
  have stop: "basename_loop (rev d) (Some e) False = (length d, Some e)" for e
    using d by (cases d rule: rev_cases) auto
  have len: "length cs + length d = length d + length b - 1" "0 < length b"
    using arg_cong [OF rb(1), of length] by auto
  have "basename_loop (rev (d @ b @ replicate n slash)) None True =
      (length d, Some (length b + length d))"
    using rb len by (simp add: basename_loop_skip basename_loop_piece stop)
  then show ?thesis by (simp add: basename0_def)
qed

lemma dirname_loop_skip:
  "r \<noteq> [] \<Longrightarrow> dirname_loop (replicate n slash @ r) True = dirname_loop r True"
  by (induction n) auto

lemma dirname_loop_piece:
  "slash \<notin> set bs \<Longrightarrow> bs \<noteq> [] \<Longrightarrow> r \<noteq> [] \<Longrightarrow> dirname_loop (bs @ r) m = dirname_loop r False"
proof (induction bs arbitrary: m)
  case (Cons c bs)
  then show ?case by (cases bs) auto
qed simp

lemma dirname_loop_last_piece: "slash \<notin> set bs \<Longrightarrow> dirname_loop bs m = None"
  by (induction bs arbitrary: m) auto

lemma dirname_cut:
  assumes "cut d b n"
  shows "dirname (d @ b @ replicate n slash) =
    (if d = [] then dot else if d = [slash] \<or> d = [slash, slash] then [slash] else butlast d)"
proof -
  from assms have b: "b \<noteq> []" "slash \<notin> set b" and d: "d = [] \<or> last d = slash"
    by (auto simp: cut_def piece_def)
  show ?thesis
  proof (cases d rule: rev_cases)
    case Nil
    have "hd b \<noteq> slash" using assms piece_ends by (auto simp: cut_def)
    with Nil show ?thesis using b
      by (simp add: dirname_def dirname_loop_skip dirname_loop_last_piece hd_append)
  next
    case (snoc e c)
    with d have c: "c = slash" by simp
    have "dirname_loop (rev (d @ b @ replicate n slash)) True = dirname_loop (slash # rev e) False"
      using b by (simp add: snoc c dirname_loop_skip dirname_loop_piece)
    then have loop: "dirname_loop (rev (d @ b @ replicate n slash)) True = (if e = [] then None else Some (length e))"
      by simp
    show ?thesis
    proof (cases e)
      case Nil
      with snoc c loop show ?thesis by (simp add: dirname_def)
    next
      case (Cons x e')
      with snoc c loop show ?thesis by (auto simp: dirname_def)
    qed
  qed
qed

lemma extname_loop_skip: "matchedSlash s \<Longrightarrow> extname_loop (replicate n slash @ r) s = extname_loop r s"
  by (induction n) auto

lemma extname_loop_no_dot:
  "slash \<notin> set bs \<Longrightarrow> CHR ''.'' \<notin> set bs \<Longrightarrow> ext_end s \<noteq> None \<Longrightarrow> startDot s = None \<Longrightarrow>
   extname_loop (bs @ r) s = extname_loop r s"
  by (induction bs) (auto simp: Let_def)

lemma extname_loop_after_dot:
  "slash \<notin> set bs \<Longrightarrow> ext_end s \<noteq> None \<Longrightarrow> startDot s \<noteq> None \<Longrightarrow>
   extname_loop (bs @ r) s =
   extname_loop r (s\<lparr>preDotState :=
     (if bs = [] then preDotState s else if last bs = CHR ''.'' then 1 else -1)\<rparr>)"
proof (induction bs arbitrary: s)
  case (Cons c cs)
  let ?q = "if c = CHR ''.'' then 1 else -1 :: int"
  have same: "preDotState s = 1 \<Longrightarrow> s\<lparr>preDotState := 1\<rparr> = s" by simp
  have "extname_loop ((c # cs) @ r) s = extname_loop (cs @ r) (s\<lparr>preDotState := ?q\<rparr>)"
    using Cons.prems by (auto simp: Let_def same)
  also have "\<dots> = extname_loop r (s\<lparr>preDotState := ?q, preDotState :=
      (if cs = [] then ?q else if last cs = CHR ''.'' then 1 else -1)\<rparr>)"
    using Cons.prems Cons.IH [of "s\<lparr>preDotState := ?q\<rparr>"] by simp
  finally show ?case by (cases "cs = []") simp_all
qed simp

lemma extname_loop_stop:
  assumes "d = [] \<or> last d = slash" "\<not> matchedSlash s" "startPart s = 0"
  shows "extname_loop (rev d) s = s\<lparr>startPart := length d\<rparr>"
  using assms by (cases d rule: rev_cases) auto

text \<open>The extension of a component: from its last dot on, unless that dot is its first character
  or the component is \<open>..\<close>.\<close>

definition ext_spec :: "string \<Rightarrow> string" where
  "ext_spec b =
     (let k = length b - length (takeWhile ((\<noteq>) (CHR ''.'')) (rev b)) in
      if k \<le> 1 \<or> b = dotdot then [] else drop (k - 1) b)"

lemma ext_spec_dot: "CHR ''.'' \<notin> set y \<Longrightarrow>
    ext_spec (x @ CHR ''.'' # y) = (if x = [] \<or> x = ''.'' \<and> y = [] then [] else CHR ''.'' # y)"
proof -
  assume y: "CHR ''.'' \<notin> set y"
  then have "takeWhile ((\<noteq>) (CHR ''.'')) (rev y @ CHR ''.'' # rev x) = rev y"
    by (subst takeWhile_append2) auto
  moreover have "x @ CHR ''.'' # y = dotdot \<longleftrightarrow> x = ''.'' \<and> y = []"
    using y by (auto simp: dotdot_def Cons_eq_append_conv append_eq_Cons_conv)
  ultimately show ?thesis by (auto simp: ext_spec_def)
qed

lemma ext_spec_no_dot: "CHR ''.'' \<notin> set b \<Longrightarrow> ext_spec b = []"
proof -
  assume "CHR ''.'' \<notin> set b"
  then have tw: "takeWhile ((\<noteq>) (CHR ''.'')) (rev b) = rev b"
    by (simp only: takeWhile_eq_all_conv set_rev) metis
  show ?thesis unfolding ext_spec_def tw by simp
qed

abbreviation ext_start :: ext_state where
  "ext_start \<equiv> \<lparr>startDot = None, startPart = 0, ext_end = None, matchedSlash = True, preDotState = 0\<rparr>"

lemma extname_cut_dot:
  assumes b: "b = x @ CHR ''.'' # y" "CHR ''.'' \<notin> set y" and "slash \<notin> set b" and d: "d = [] \<or> last d = slash"
  shows "extname_loop (rev (d @ b @ replicate n slash)) ext_start =
    \<lparr>startDot = Some (length d + length x), startPart = length d, ext_end = Some (length d + length b),
     matchedSlash = False,
     preDotState = (if x = [] then 0 else if hd x = CHR ''.'' then 1 else -1)\<rparr>"
proof -
  have sl: "slash \<notin> set x" "slash \<notin> set y" "CHR ''.'' \<noteq> slash" using assms by (auto simp: slash_def)
  let ?s = "\<lparr>startDot = None, startPart = 0, ext_end = Some (length d + length b), matchedSlash = False, preDotState = 0\<rparr>"
  let ?t = "?s\<lparr>startDot := Some (length d + length x)\<rparr>"
  have "extname_loop (rev (d @ b @ replicate n slash)) ext_start
      = extname_loop (rev y @ CHR ''.'' # rev x @ rev d) ext_start"
    by (simp add: b extname_loop_skip)
  also have "\<dots> = extname_loop (rev x @ rev d) ?t"
  proof (cases "rev y")
    case Nil
    then show ?thesis using sl b by (simp add: Let_def add.commute)
  next
    case (Cons c cs)
    then have c: "c \<noteq> slash" "c \<noteq> CHR ''.''" "slash \<notin> set cs" "CHR ''.'' \<notin> set cs"
      using sl(2) b(2) by (metis list.set_intros set_rev)+
    have len: "length y = Suc (length cs)" using Cons by (metis length_Cons length_rev)
    have "extname_loop (rev y @ CHR ''.'' # rev x @ rev d) ext_start
        = extname_loop (cs @ CHR ''.'' # rev x @ rev d) ?s"
      using c len by (simp add: Cons b Let_def add_ac)
    also have "\<dots> = extname_loop (CHR ''.'' # rev x @ rev d) ?s"
      using c by (simp add: extname_loop_no_dot)
    also have "\<dots> = extname_loop (rev x @ rev d) ?t"
      using sl by (simp add: Let_def add_ac)
    finally show ?thesis .
  qed
  also have "\<dots> = extname_loop (rev d) (?t\<lparr>preDotState :=
      (if x = [] then 0 else if hd x = CHR ''.'' then 1 else -1)\<rparr>)"
    using sl by (simp add: extname_loop_after_dot last_rev)
  also have "\<dots> = (?t\<lparr>preDotState :=
      (if x = [] then 0 else if hd x = CHR ''.'' then 1 else -1)\<rparr>)\<lparr>startPart := length d\<rparr>"
    using d by (intro extname_loop_stop) simp_all
  finally show ?thesis by simp
qed

lemma extname_cut:
  assumes "cut d b n"
  shows "extname (d @ b @ replicate n slash) = ext_spec b"
proof (cases "CHR ''.'' \<in> set b")
  case True
  then obtain x y where b: "b = x @ CHR ''.'' # y" "CHR ''.'' \<notin> set y"
    by (metis split_list_last)
  from assms have *: "slash \<notin> set b" "d = [] \<or> last d = slash" by (auto simp: cut_def piece_def)
  have "x \<noteq> [] \<Longrightarrow> hd x = CHR ''.'' \<and> length x = 1 \<longleftrightarrow> x = ''.''" by (cases x) auto
  then show ?thesis
    unfolding extname_def extname_cut_dot [OF b *] Let_def
    using b ext_spec_dot [OF b(2), of x] by (auto simp: drop_append)
next
  case False
  from assms have b: "b \<noteq> []" "slash \<notin> set b" and d: "d = [] \<or> last d = slash"
    by (auto simp: cut_def piece_def)
  then obtain c cs where rb: "rev b = c # cs" by (cases "rev b") auto
  then have c: "c \<noteq> slash" "slash \<notin> set cs" "c \<noteq> CHR ''.''" "CHR ''.'' \<notin> set cs"
    using b(2) False by (metis list.set_intros set_rev)+
  have "startDot (extname_loop (rev (d @ b @ replicate n slash)) ext_start) = None"
    using c d by (simp add: rb extname_loop_skip Let_def extname_loop_no_dot extname_loop_stop)
  then show ?thesis using False by (simp add: extname_def Let_def ext_spec_no_dot)
qed

section \<open>Properties\<close>

text \<open>The splicing loop of \<open>normalizeArray\<close>, which walks the parts from the last to the first
  and counts the \<open>..\<close> still to be matched, computes the same list as the left-to-right pass that
  keeps a stack of names: \<open>.\<close> is skipped, \<open>..\<close> removes the name before it, and above the root it
  is kept exactly when \<open>allowAboveRoot\<close>.\<close>

theorem normalizeArray_is_stack_pass: "normalizeArray parts a = stack_pass a [] parts"
  by (rule normalizeArray_stack)

text \<open>\<open>normalize\<close> is idempotent: a normalized path, relative or absolute, with or without a
  trailing slash, is its own normal form.\<close>

theorem normalize_idempotent: "normalize (normalize path) = normalize path"
proof -
  define a where "a = isAbsolute path"
  define xs where "xs = normalizeArray (pieces path) (\<not> a)"
  define t where "t \<longleftrightarrow> path \<noteq> [] \<and> last path = slash"
  have xs: "\<forall>x \<in> set xs. piece x"
    unfolding xs_def using normalizeArray_pieces pieces_piece by blast
  have nf: "normalizeArray xs (\<not> a) = xs"
    unfolding xs_def by (rule normalizeArray_normal [OF normal_normalizeArray])
  have n: "normalize path = (if a then [slash] else []) @
      (let p1 = (if join_with [slash] xs = [] \<and> \<not> a then dot else join_with [slash] xs)
       in if p1 \<noteq> [] \<and> t then p1 @ [slash] else p1)"
    unfolding normalize_def xs_def a_def t_def by (simp add: Let_def)
  show ?thesis
  proof (cases "xs = []")
    case True
    have one: "normalize dot = dot" "normalize (dot @ [slash]) = dot @ [slash]" "normalize [slash] = [slash]"
      by code_simp+
    show ?thesis using True one by (cases a; cases t) (simp_all add: n)
  next
    case False
    with xs hd_join [of xs] have j: "join_with [slash] xs \<noteq> []" "hd (join_with [slash] xs) \<noteq> slash"
      "last (join_with [slash] xs) \<noteq> slash" by auto
    define r where "r = (if a then [slash] else []) @ join_with [slash] xs @ (if t then [slash] else [])"
    have nr: "normalize path = r" using j by (simp add: n r_def)
    have "isAbsolute r = a" "pieces r = xs" "(r \<noteq> [] \<and> last r = slash) = t"
      using j xs pieces_slashes [of "join_with [slash] xs" 1]
      by (auto simp: r_def isAbsolute_def hd_append)
    then have "normalize r = r" using j by (simp add: normalize_def nf r_def Let_def)
    with nr show ?thesis by simp
  qed
qed

text \<open>With an absolute working directory, \<open>resolve\<close> on strings always succeeds and returns an
  absolute path in canonical form (no empty, \<open>.\<close> or \<open>..\<close> component, no trailing slash), and
  resolving that path again, from any directory, gives the same path.\<close>

theorem resolve_canonical:
  assumes "isAbsolute cwd"
  shows "\<exists>xs. resolve cwd (map Some ps) = Inr (slash # join_with [slash] xs) \<and>
    (\<forall>x \<in> set xs. piece x \<and> is_name x) \<and>
    resolve cwd' [Some (slash # join_with [slash] xs)] = Inr (slash # join_with [slash] xs)"
proof -
  let ?xs = "normalizeArray (effective (rev ps @ [cwd])) False"
  have xs: "\<forall>x \<in> set ?xs. piece x \<and> is_name x"
    using normalizeArray_pieces effective_pieces normal_False_names by blast
  then have p: "pieces (join_with [slash] ?xs) = ?xs" by simp
  have "normalizeArray ?xs False = ?xs" by (rule normalizeArray_normal [OF normal_normalizeArray])
  then have "resolve cwd' [Some (slash # join_with [slash] ?xs)] = Inr (slash # join_with [slash] ?xs)"
    using pieces_app [of "slash # join_with [slash] ?xs" "[]"]
    by (simp add: resolve_def isAbsolute_def p)
  with xs show ?thesis by (auto simp: resolve_effective [OF assms])
qed

theorem resolve_canonical_witness:
  "resolve ''/app'' [Some ''./tns_modules//x'', Some ''../y/''] = Inr ''/app/tns_modules/y'' \<and>
   (\<exists>xs. resolve ''/app'' [Some ''a''] = Inr (slash # join_with [slash] xs))"
proof -
  have "isAbsolute ''/app''" by (simp add: isAbsolute_def slash_def)
  from resolve_canonical [OF this, of "[''a'']" "''/''"]
  have "\<exists>xs. resolve ''/app'' [Some ''a''] = Inr (slash # join_with [slash] xs)" by auto
  moreover have "resolve ''/app'' [Some ''./tns_modules//x'', Some ''../y/''] = Inr ''/app/tns_modules/y''"
    by code_simp
  ultimately show ?thesis by blast
qed

text \<open>C13: \<open>relative\<close> inverts \<open>resolve\<close>: from an absolute working directory, the relative path
  from \<open>f\<close> to \<open>t\<close>, resolved against \<open>f\<close>, is the file \<open>t\<close> resolves to. (The slice in
  \<open>trim\<close>, which would cut a list that starts with empty elements too short, is never reached with one.)\<close>

theorem relative_roundtrip:
  assumes "isAbsolute cwd"
  shows "\<exists>r. relative cwd (Some f) (Some t) = Inr r \<and> resolve cwd [Some f, Some r] = resolve cwd [Some t]"
proof -
  define F where "F = normalizeArray (effective [f, cwd]) False"
  define T where "T = normalizeArray (effective [t, cwd]) False"
  define n where "n = samePartsLength F T"
  define R where "R = replicate (length F - n) dotdot @ drop n T"
  have res: "resolve cwd [Some f] = Inr (slash # join_with [slash] F)"
    "resolve cwd [Some t] = Inr (slash # join_with [slash] T)"
    using resolve_effective [OF assms, of "[f]"] resolve_effective [OF assms, of "[t]"]
    by (simp_all add: F_def T_def)
  have pieces: "\<forall>x \<in> set F. piece x" "\<forall>x \<in> set T. piece x"
    unfolding F_def T_def using normalizeArray_pieces effective_pieces by blast+
  have names: "\<forall>x \<in> set F. is_name x" "\<forall>x \<in> set T. is_name x"
    unfolding F_def T_def using normal_False_names by blast+
  have R: "\<forall>x \<in> set R. piece x" using pieces by (auto simp: R_def dest: in_set_dropD)
  have rel: "relative cwd (Some f) (Some t) = Inr (join_with [slash] R)"
    using pieces by (simp add: relative_def res trim_split_join R_def n_def Let_def)
  have "normalizeArray (effective [join_with [slash] R, f, cwd]) False = T"
  proof -
    have "normalizeArray (effective [join_with [slash] R, f, cwd]) False = normalizeArray (effective [f, cwd] @ R) False"
      using R isAbsolute_join by simp
    also have "\<dots> = normalizeArray (F @ R) False"
      unfolding F_def by (rule normalizeArray_append)
    also have "\<dots> = stack_pass False (rev F) R"
      using stack_pass_names [OF names(1), of False "[]" R] by (simp add: normalizeArray_stack)
    also have "\<dots> = T" unfolding R_def n_def by (rule stack_pass_back [OF names])
    finally show ?thesis .
  qed
  then have "resolve cwd [Some f, Some (join_with [slash] R)] = resolve cwd [Some t]"
    using resolve_effective [OF assms, of "[f, join_with [slash] R]"] res(2) by simp
  with rel show ?thesis by blast
qed

theorem relative_roundtrip_witness:
  "relative ''/app'' (Some ''/a/b/c'') (Some ''../a/d'') = Inr ''../../d'' \<and>
   resolve ''/app'' [Some ''/a/b/c'', Some ''../../d''] = resolve ''/app'' [Some ''../a/d'']"
proof -
  have abs: "isAbsolute ''/app''" by (simp add: isAbsolute_def slash_def)
  have "relative ''/app'' (Some ''/a/b/c'') (Some ''../a/d'') = Inr ''../../d''" by code_simp
  with relative_roundtrip [OF abs, of "''/a/b/c''" "''../a/d''"] show ?thesis by auto
qed

text \<open>Splitting a path into \<open>dirname\<close> and \<open>basename\<close> loses no information: for every path
  that is not made of slashes only, resolving the base name against the directory name gives the
  same file as resolving the path, and the base name is a single non-empty component.\<close>

theorem dirname_basename_resolve:
  assumes "isAbsolute cwd" and "\<exists>c \<in> set p. c \<noteq> slash"
  shows "resolve cwd [Some (dirname p), Some (basename p None)] = resolve cwd [Some p] \<and>
    piece (basename p None)"
proof -
  obtain d b n where p: "p = d @ b @ replicate n slash" and c: "cut d b n"
    using cut_exists [OF assms(2)] by blast
  have base: "basename p None = b" using basename0_cut [OF c] by (simp add: basename_def p)
  have b: "piece b" and d: "d = [] \<or> last d = slash" using c by (auto simp: cut_def)
  then have nb: "\<not> isAbsolute b" using piece_ends by (auto simp: isAbsolute_def)
  have "normalizeArray (effective [b, dirname p, cwd]) False = normalizeArray (effective [p, cwd]) False"
  proof (cases "d = []")
    case True
    then have "dirname p = dot" "pieces p = [b]" "isAbsolute p = isAbsolute b"
      using dirname_cut [OF c] b pieces_slashes [of b n] piece_ends [OF b]
      by (auto simp: p isAbsolute_def)
    moreover have "\<not> isAbsolute dot" by (simp add: isAbsolute_def dot_def slash_def)
    ultimately show ?thesis using nb b
      by (simp add: normalizeArray_stack stack_pass_append)
  next
    case False
    with d obtain e where e: "d = e @ [slash]" by (metis append_butlast_last_id)
    have pd: "pieces p = pieces e @ [b]"
      using pieces_app [of e "b @ replicate n slash"] b by (simp add: p e)
    have "isAbsolute (dirname p) = isAbsolute p \<and> pieces (dirname p) = pieces e"
      using dirname_cut [OF c] False by (cases e; cases "tl e") (auto simp: p e isAbsolute_def)
    then show ?thesis using nb b pd by simp
  qed
  then show ?thesis
    using resolve_effective [OF assms(1), of "[dirname p, b]"] resolve_effective [OF assms(1), of "[p]"] b base
    by simp
qed

theorem dirname_basename_resolve_witness:
  "dirname ''../lib//main.js/'' = ''../lib/'' \<and> basename ''../lib//main.js/'' None = ''main.js'' \<and>
   resolve ''/app'' [Some ''../lib/'', Some ''main.js''] = resolve ''/app'' [Some ''../lib//main.js/'']"
proof -
  have abs: "isAbsolute ''/app''" and ex: "\<exists>c \<in> set ''../lib//main.js/''. c \<noteq> slash"
    by (simp_all add: isAbsolute_def slash_def)
  have "dirname ''../lib//main.js/'' = ''../lib/''" "basename ''../lib//main.js/'' None = ''main.js''"
    by code_simp+
  with dirname_basename_resolve [OF abs ex] show ?thesis by simp
qed

text \<open>The one-pass scan of \<open>extname\<close> gives the extension of the base name: the part from its
  last dot on, and nothing when there is no dot, when the only dot is its first character (a
  hidden file) or when the base name is \<open>..\<close>; so the base name is the stem followed by the
  extension, and \<open>basename\<close> with that extension returns the stem.\<close>

theorem extname_of_basename:
  assumes "\<exists>c \<in> set p. c \<noteq> slash"
  shows "extname p = ext_spec (basename p None) \<and>
    basename p None = basename p (Some (extname p)) @ extname p"
proof -
  obtain d b n where p: "p = d @ b @ replicate n slash" and c: "cut d b n"
    using cut_exists [OF assms] by blast
  have base: "basename p None = b" "basename0 p = b" using basename0_cut [OF c] by (simp_all add: basename_def p)
  have ext: "extname p = ext_spec b" using extname_cut [OF c] by (simp add: p)
  have "suffix (ext_spec b) b" by (simp add: ext_spec_def Let_def suffix_drop)
  then obtain z where z: "b = z @ ext_spec b" by (auto simp: suffix_def)
  then have "take (length b - length (ext_spec b)) b = z"
    by (metis append_eq_conv_conj diff_add_inverse2 length_append)
  with z have "b = basename p (Some (ext_spec b)) @ ext_spec b"
    by (auto simp: basename_def base Let_def suffix_def)
  with base ext show ?thesis by simp
qed

theorem extname_of_basename_witness:
  "extname ''src/app.module.ts/'' = ''.ts'' \<and> basename ''src/app.module.ts/'' (Some ''.ts'') = ''app.module''"
proof -
  have "\<exists>c \<in> set ''src/app.module.ts/''. c \<noteq> slash" by (simp add: slash_def)
  from extname_of_basename [OF this] have "extname ''src/app.module.ts/'' = ext_spec (basename ''src/app.module.ts/'' None)" by blast
  also have "\<dots> = ''.ts''" by code_simp
  moreover have "basename ''src/app.module.ts/'' (Some ''.ts'') = ''app.module''" by code_simp
  ultimately show ?thesis by simp
qed

end
