(* ===== verification/Webpack_Modules.thy ===== *)
theory Webpack_Modules
  imports NS_Prelude
begin

text \<open>
  \<^verbatim>\<open>AppWithModules/app/runtime.js\<close>, the webpack bootstrap the application's bundles run in:
  the module cache, \<open>__webpack_require__\<close>, the \<open>require\<close> function each module gets
  (\<open>hotCreateRequire\<close>) and the \<open>module.hot\<close> object (\<open>hotCreateModule\<close>).

  A module object is a record in a heap (a list, the address is the index) because the closures a
  module hands out keep pointing to their own module object after it has left the cache. The
  code of a module is user code: the model takes it as the list of calls it makes on the runtime.
  A callback is such a list with the identity of the function object; it is stored in the module
  object of the module that registered it, and runs on behalf of that module. A thrown error is a value. \<open>exec\<close> and
  \<open>require\<close> carry fuel for the nesting of module bodies, and \<open>None\<close> is running out of it.
\<close>

section \<open>State\<close>

type_synonym mid = string
type_synonym addr = nat
type_synonym err = string

text \<open>The calls module code makes, in the order it makes them.\<close>

datatype action =
    Require mid
  | SetExport string string
  | AcceptSelf "fn option"
  | AcceptDeps "mid list" "fn option"
  | DeclineSelf
  | DeclineDeps "mid list"
  | AddDispose fn
  | RemoveDispose fn
  | SetData string string
  | Log string
  | Throw err
and fn = Fn nat "action list"

fun fn_code :: "fn \<Rightarrow> action list" where
  "fn_code (Fn _ c) = c"

datatype self_accept = NotAccepted | AcceptedTrue | AcceptedFn fn

text \<open>The values of \<open>hotStatus\<close>.\<close>

datatype hot_status = Idle | Check | Prepare | Ready | Dispose | Apply | Abort | Fail

record wmodule =
  m_id :: mid
  m_loaded :: bool
  m_exports :: "string obj"
  m_parents :: "mid list"
  m_children :: "mid list"
  acceptedDependencies :: "fn option obj"
  declinedDependencies :: "mid list"
  selfAccepted :: self_accept
  selfDeclined :: bool
  disposeHandlers :: "fn list"
  hot_main :: bool
  hot_active :: bool
  hot_data :: "string obj option"

text \<open>What the runtime did that can be seen from outside, newest last.\<close>

datatype effect =
    Ran mid
  | Console string
  | Status nat hot_status
  | Hook string mid

record wp =
  modules :: "action list obj"
  heap :: "wmodule list"
  installed :: "addr obj"
  hotCurrentParents :: "mid list"
  hotCurrentChildModule :: "mid option"
  hotCurrentModuleData :: "string obj obj"
  cur_data :: "string obj"
  trace :: "effect list"

definition installed_at :: "wp \<Rightarrow> mid \<Rightarrow> addr option" where
  "installed_at s i = map_of (installed s) i"

definition emit :: "effect \<Rightarrow> wp \<Rightarrow> wp" where
  "emit e s = s\<lparr>trace := trace s @ [e]\<rparr>"

definition upd_mod :: "addr \<Rightarrow> (wmodule \<Rightarrow> wmodule) \<Rightarrow> wp \<Rightarrow> wp" where
  "upd_mod a f s = s\<lparr>heap := (heap s)[a := f (heap s ! a)]\<rparr>"

section \<open>The module object\<close>

text \<open>\<open>hotCreateModule\<close> and the object literal of \<open>__webpack_require__\<close>: the new module takes
  the current parents, and is a main module unless it is the child being required.\<close>

definition new_module :: "mid \<Rightarrow> wp \<Rightarrow> wmodule" where
  "new_module i s = \<lparr>m_id = i, m_loaded = False, m_exports = [], m_parents = hotCurrentParents s,
     m_children = [], acceptedDependencies = [], declinedDependencies = [],
     selfAccepted = NotAccepted, selfDeclined = False, disposeHandlers = [],
     hot_main = (hotCurrentChildModule s \<noteq> Some i), hot_active = True,
     hot_data = map_of (hotCurrentModuleData s) i\<rparr>"

definition create_module :: "mid \<Rightarrow> wp \<Rightarrow> wp" where
  "create_module i s = s\<lparr>heap := heap s @ [new_module i s],
     installed := obj_set i (length (heap s)) (installed s),
     hotCurrentParents := [], hotCurrentChildModule := None\<rparr>"

text \<open>The methods of \<open>module.hot\<close> that module code calls, on the module object at \<open>a\<close>.\<close>

definition hot_accept_self :: "addr \<Rightarrow> fn option \<Rightarrow> wp \<Rightarrow> wp" where
  "hot_accept_self a f = upd_mod a (\<lambda>m. m\<lparr>selfAccepted :=
     (case f of None \<Rightarrow> AcceptedTrue | Some g \<Rightarrow> AcceptedFn g)\<rparr>)"

definition hot_accept :: "addr \<Rightarrow> mid list \<Rightarrow> fn option \<Rightarrow> wp \<Rightarrow> wp" where
  "hot_accept a deps f = upd_mod a (\<lambda>m. m\<lparr>acceptedDependencies :=
     foldl (\<lambda>acc d. obj_set d f acc) (acceptedDependencies m) deps\<rparr>)"

definition hot_decline_self :: "addr \<Rightarrow> wp \<Rightarrow> wp" where
  "hot_decline_self a = upd_mod a (\<lambda>m. m\<lparr>selfDeclined := True\<rparr>)"

definition hot_decline :: "addr \<Rightarrow> mid list \<Rightarrow> wp \<Rightarrow> wp" where
  "hot_decline a deps = upd_mod a (\<lambda>m. m\<lparr>declinedDependencies :=
     push_all_new (declinedDependencies m) deps\<rparr>)"

definition hot_dispose :: "addr \<Rightarrow> fn \<Rightarrow> wp \<Rightarrow> wp" where
  "hot_dispose a f = upd_mod a (\<lambda>m. m\<lparr>disposeHandlers := disposeHandlers m @ [f]\<rparr>)"

definition hot_remove_dispose :: "addr \<Rightarrow> fn \<Rightarrow> wp \<Rightarrow> wp" where
  "hot_remove_dispose a f = upd_mod a (\<lambda>m. m\<lparr>disposeHandlers := splice_first f (disposeHandlers m)\<rparr>)"

definition set_export :: "addr \<Rightarrow> string \<Rightarrow> string \<Rightarrow> wp \<Rightarrow> wp" where
  "set_export a k v = upd_mod a (\<lambda>m. m\<lparr>m_exports := obj_set k v (m_exports m)\<rparr>)"

fun simple_act :: "addr \<Rightarrow> action \<Rightarrow> wp \<Rightarrow> wp" where
  "simple_act a (SetExport k v) s = set_export a k v s"
| "simple_act a (AcceptSelf f) s = hot_accept_self a f s"
| "simple_act a (AcceptDeps deps f) s = hot_accept a deps f s"
| "simple_act a DeclineSelf s = hot_decline_self a s"
| "simple_act a (DeclineDeps deps) s = hot_decline a deps s"
| "simple_act a (AddDispose f) s = hot_dispose a f s"
| "simple_act a (RemoveDispose f) s = hot_remove_dispose a f s"
| "simple_act a (SetData k v) s = s\<lparr>cur_data := obj_set k v (cur_data s)\<rparr>"
| "simple_act a (Log m) s = emit (Console m) s"
| "simple_act a _ s = s"

section \<open>require\<close>

text \<open>What the \<open>require\<close> function of the module at \<open>a\<close> does before it calls
  \<open>__webpack_require__\<close>: the links between parent and child.\<close>

definition hot_link :: "addr \<Rightarrow> mid \<Rightarrow> wp \<Rightarrow> wp" where
  "hot_link a request s =
     (let me = heap s ! a in
      if hot_active me then
        (let s1 = (case installed_at s request of
                     Some b \<Rightarrow> upd_mod b (\<lambda>m. m\<lparr>m_parents := push_new (m_parents m) (m_id me)\<rparr>) s
                   | None \<Rightarrow> s\<lparr>hotCurrentParents := [m_id me], hotCurrentChildModule := Some request\<rparr>)
         in upd_mod a (\<lambda>m. m\<lparr>m_children := push_new (m_children m) request\<rparr>) s1)
      else emit (Console (''[HMR] unexpected require('' @ request @ '') from disposed module '' @ m_id me))
             (s\<lparr>hotCurrentParents := []\<rparr>))"

text \<open>\<open>exec n a acts s\<close> runs user code on behalf of the module at \<open>a\<close>; \<open>require\<close> is
  \<open>__webpack_require__\<close>. A missing module is a \<open>TypeError\<close> (calling a method of \<open>undefined\<close>), and a
  module whose body throws stays in the cache.\<close>

definition type_error :: err where "type_error = ''TypeError''"

function
  exec :: "nat \<Rightarrow> addr \<Rightarrow> action list \<Rightarrow> wp \<Rightarrow> (err option \<times> wp) option" and
  require :: "nat \<Rightarrow> mid \<Rightarrow> wp \<Rightarrow> ((err + addr) \<times> wp) option"
where
  "exec n a [] s = Some (None, s)"
| "exec n a (act # acts) s =
     (case act of
        Throw e \<Rightarrow> Some (Some e, s)
      | Require r \<Rightarrow>
          (case require n r (hot_link a r s) of
             None \<Rightarrow> None
           | Some (Inl e, s1) \<Rightarrow> Some (Some e, s1)
           | Some (Inr b, s1) \<Rightarrow> exec n a acts s1)
      | _ \<Rightarrow> exec n a acts (simple_act a act s))"
| "require n i s =
     (case installed_at s i of
        Some a \<Rightarrow> Some (Inr a, s)
      | None \<Rightarrow>
          (let a = length (heap s); s1 = create_module i s in
           case map_of (modules s) i of
             None \<Rightarrow> Some (Inl type_error, s1)
           | Some code \<Rightarrow>
               (case n of
                  0 \<Rightarrow> None
                | Suc m \<Rightarrow>
                    (case exec m a code (emit (Ran i) s1) of
                       None \<Rightarrow> None
                     | Some (Some e, s2) \<Rightarrow> Some (Inl e, s2)
                     | Some (None, s2) \<Rightarrow>
                         Some (Inr a, upd_mod a (\<lambda>m. m\<lparr>m_loaded := True\<rparr>) s2)))))"
  by pat_completeness auto
termination
  by (relation "measures [\<lambda>x. case x of Inl (n, _) \<Rightarrow> n | Inr (n, _) \<Rightarrow> n,
        \<lambda>x. case x of Inl (_, _, acts, _) \<Rightarrow> Suc (length acts) | Inr _ \<Rightarrow> 0]") auto

declare require.simps [simp del]

section \<open>Frame of the operations\<close>

lemma upd_mod_simps [simp]:
  "modules (upd_mod a f s) = modules s" "installed (upd_mod a f s) = installed s"
  "length (heap (upd_mod a f s)) = length (heap s)" "hotCurrentParents (upd_mod a f s) = hotCurrentParents s"
  "hotCurrentChildModule (upd_mod a f s) = hotCurrentChildModule s" "trace (upd_mod a f s) = trace s"
  "installed_at (upd_mod a f s) = installed_at s"
  by (simp_all add: upd_mod_def installed_at_def fun_eq_iff)

lemma heap_upd_mod: "heap (upd_mod a f s) ! b = (if a = b \<and> a < length (heap s) then f (heap s ! a) else heap s ! b)"
  by (cases "a < length (heap s)") (simp_all add: upd_mod_def nth_list_update list_update_beyond not_less)

lemma emit_simps [simp]:
  "modules (emit e s) = modules s" "installed (emit e s) = installed s" "heap (emit e s) = heap s"
  "hotCurrentParents (emit e s) = hotCurrentParents s" "trace (emit e s) = trace s @ [e]"
  "installed_at (emit e s) = installed_at s" "hotCurrentChildModule (emit e s) = hotCurrentChildModule s"
  by (simp_all add: emit_def installed_at_def fun_eq_iff)

lemma create_module_simps [simp]:
  "modules (create_module i s) = modules s" "trace (create_module i s) = trace s"
  "installed (create_module i s) = obj_set i (length (heap s)) (installed s)"
  "installed_at (create_module i s) = (installed_at s)(i \<mapsto> length (heap s))"
  "length (heap (create_module i s)) = Suc (length (heap s))"
  "hotCurrentParents (create_module i s) = []"
  by (simp_all add: create_module_def installed_at_def fun_eq_iff)

lemma installed_at_None: "installed_at s i = None \<longleftrightarrow> i \<notin> fst ` set (installed s)"
  by (simp add: installed_at_def map_of_eq_None_iff)

text \<open>The module cache and the heap only grow while module code runs; the code stays.\<close>

definition extends :: "wp \<Rightarrow> wp \<Rightarrow> bool" where
  "extends s t \<longleftrightarrow> modules t = modules s \<and> fst ` set (installed s) \<subseteq> fst ` set (installed t) \<and>
     (\<forall>i a. installed_at s i = Some a \<longrightarrow> installed_at t i = Some a) \<and>
     length (heap s) \<le> length (heap t) \<and> (\<forall>a < length (heap s). m_id (heap t ! a) = m_id (heap s ! a)) \<and>
     prefix (trace s) (trace t)"

lemma extends_refl [simp]: "extends s s"
  by (simp add: extends_def)

lemma extends_trans:
  assumes "extends s t" "extends t u"
  shows "extends s u"
proof -
  have "prefix (trace s) (trace u)"
    using assms unfolding extends_def by (blast intro: prefix_order.trans)
  moreover have "\<forall>a < length (heap s). m_id (heap u ! a) = m_id (heap s ! a)"
    using assms unfolding extends_def by simp
  moreover have "\<forall>i a. installed_at s i = Some a \<longrightarrow> installed_at u i = Some a"
    using assms unfolding extends_def by blast
  moreover have "fst ` set (installed s) \<subseteq> fst ` set (installed u)"
    using assms unfolding extends_def by (elim conjE) (erule (1) subset_trans)
  moreover have "modules u = modules s" "length (heap s) \<le> length (heap u)"
    using assms unfolding extends_def by (metis, metis le_trans)
  ultimately show ?thesis unfolding extends_def by blast
qed

lemma extends_upd_mod:
  assumes "\<And>m. m_id (f m) = m_id m"
  shows "extends s (upd_mod a f s)"
  unfolding extends_def by (simp add: heap_upd_mod assms)

lemma extends_emit: "extends s (emit e s)"
  by (simp add: extends_def)

text \<open>A call that is not \<open>require\<close> or \<open>throw\<close> writes the module object, the dispose data or the
  trace; it leaves the identity and the links of the module alone.\<close>

definition keeps_links :: "(wmodule \<Rightarrow> wmodule) \<Rightarrow> bool" where
  "keeps_links f \<longleftrightarrow> (\<forall>m. m_id (f m) = m_id m \<and> m_parents (f m) = m_parents m \<and>
     m_children (f m) = m_children m \<and> hot_active (f m) = hot_active m)"

lemma simple_act_rule:
  assumes "\<And>f. keeps_links f \<Longrightarrow> P (upd_mod a f s)" "\<And>e. P (emit (Console e) s)"
    "\<And>d. P (s\<lparr>cur_data := d\<rparr>)" "P s"
  shows "P (simple_act a act s)"
  by (cases act) (simp_all add: assms keeps_links_def hot_accept_self_def hot_accept_def hot_decline_self_def
    hot_decline_def hot_dispose_def hot_remove_dispose_def set_export_def)

lemma extends_simple: "extends s (simple_act a act s)"
proof (rule simple_act_rule)
  show "keeps_links f \<Longrightarrow> extends s (upd_mod a f s)" for f
    by (rule extends_upd_mod) (simp add: keeps_links_def)
qed (simp_all add: extends_emit, simp add: extends_def installed_at_def)

lemma extends_create: "installed_at s i = None \<Longrightarrow> extends s (create_module i s)"
  by (auto simp: extends_def nth_append create_module_def installed_at_def weak_map_of_SomeI
      simp flip: map_of_eq_None_iff)

lemma hot_link_known:
  "hot_active (heap s ! a) \<Longrightarrow> installed_at s r = Some b \<Longrightarrow>
   hot_link a r s = upd_mod a (\<lambda>m. m\<lparr>m_children := push_new (m_children m) r\<rparr>)
     (upd_mod b (\<lambda>m. m\<lparr>m_parents := push_new (m_parents m) (m_id (heap s ! a))\<rparr>) s)"
  by (simp add: hot_link_def)

lemma hot_link_fresh:
  "hot_active (heap s ! a) \<Longrightarrow> installed_at s r = None \<Longrightarrow>
   hot_link a r s = upd_mod a (\<lambda>m. m\<lparr>m_children := push_new (m_children m) r\<rparr>)
     (s\<lparr>hotCurrentParents := [m_id (heap s ! a)], hotCurrentChildModule := Some r\<rparr>)"
  by (simp add: hot_link_def)

lemma hot_link_inactive:
  "\<not> hot_active (heap s ! a) \<Longrightarrow>
   \<exists>msg. hot_link a r s = emit (Console msg) (s\<lparr>hotCurrentParents := []\<rparr>)"
  by (auto simp: hot_link_def)

lemma hot_link_rule:
  assumes "\<And>b. hot_active (heap s ! a) \<Longrightarrow> installed_at s r = Some b \<Longrightarrow>
      P (upd_mod a (\<lambda>m. m\<lparr>m_children := push_new (m_children m) r\<rparr>)
         (upd_mod b (\<lambda>m. m\<lparr>m_parents := push_new (m_parents m) (m_id (heap s ! a))\<rparr>) s))"
    and "hot_active (heap s ! a) \<Longrightarrow> installed_at s r = None \<Longrightarrow>
      P (upd_mod a (\<lambda>m. m\<lparr>m_children := push_new (m_children m) r\<rparr>)
         (s\<lparr>hotCurrentParents := [m_id (heap s ! a)], hotCurrentChildModule := Some r\<rparr>))"
    and "\<And>msg. \<not> hot_active (heap s ! a) \<Longrightarrow> P (emit (Console msg) (s\<lparr>hotCurrentParents := []\<rparr>))"
  shows "P (hot_link a r s)"
proof (cases "hot_active (heap s ! a)")
  case True
  with assms(1,2) show ?thesis
    by (cases "installed_at s r") (simp_all only: hot_link_known hot_link_fresh)
next
  case False
  with assms(3) hot_link_inactive [OF False, of r] show ?thesis by auto
qed

lemma extends_hot_link: "extends s (hot_link a r s)"
  by (rule hot_link_rule) (simp_all add: extends_def heap_upd_mod installed_at_def)

text \<open>Calls other than \<open>require\<close> and \<open>throw\<close>, the equations of \<open>exec\<close> and an induction rule with
  one case for them.\<close>

definition is_simple :: "action \<Rightarrow> bool" where
  "is_simple act \<longleftrightarrow> (case act of Require _ \<Rightarrow> False | Throw _ \<Rightarrow> False | _ \<Rightarrow> True)"

lemma exec_Throw: "exec n a (Throw e # acts) s = Some (Some e, s)"
  by simp

lemma exec_Require:
  "exec n a (Require r # acts) s =
     (case require n r (hot_link a r s) of
        None \<Rightarrow> None
      | Some (Inl e, s1) \<Rightarrow> Some (Some e, s1)
      | Some (Inr b, s1) \<Rightarrow> exec n a acts s1)"
  by simp

lemma exec_simple: "is_simple act \<Longrightarrow> exec n a (act # acts) s = exec n a acts (simple_act a act s)"
  by (cases act) (simp_all add: is_simple_def)

declare exec.simps(2) [simp del]
declare exec_Throw [simp] exec_Require [simp] exec_simple [simp]

lemma exec_require_rule [case_names Nil Throw Require Simple Load]:
  assumes "\<And>n a s. P n a [] s"
    and "\<And>n a e acts s. P n a (Throw e # acts) s"
    and "\<And>n a r acts s. Q n r (hot_link a r s) \<Longrightarrow>
      (\<And>b u. require n r (hot_link a r s) = Some (Inr b, u) \<Longrightarrow> P n a acts u) \<Longrightarrow> P n a (Require r # acts) s"
    and "\<And>n a act acts s. is_simple act \<Longrightarrow> P n a acts (simple_act a act s) \<Longrightarrow> P n a (act # acts) s"
    and "\<And>n i s. (\<And>code m. installed_at s i = None \<Longrightarrow> map_of (modules s) i = Some code \<Longrightarrow> n = Suc m \<Longrightarrow>
      P m (length (heap s)) code (emit (Ran i) (create_module i s))) \<Longrightarrow> Q n i s"
  shows "P n a acts s" and "Q n i s'"
proof (induction n a acts s and n i s' rule: exec_require.induct)
  case (2 n a act acts s)
  show ?case
  proof (cases "is_simple act")
    case True
    with 2 have "P n a acts (simple_act a act s)" by (cases act) (simp_all add: is_simple_def)
    with True show ?thesis by (rule assms(4))
  next
    case False
    then consider r where "act = Require r" | e where "act = Throw e"
      by (cases act) (simp_all add: is_simple_def)
    then show ?thesis
    proof cases
      case (1 r)
      with 2 show ?thesis by (auto intro: assms(3))
    qed (simp add: assms(2))
  qed
qed (auto intro: assms)

text \<open>The three ways a call of \<open>require\<close> can end.\<close>

lemma require_cases:
  assumes "require n i s = Some (r, t)"
  obtains (cached) a where "installed_at s i = Some a" "r = Inr a" "t = s"
  | (no_code) "installed_at s i = None" "map_of (modules s) i = None" "r = Inl type_error" "t = create_module i s"
  | (threw) code m e where "installed_at s i = None" "map_of (modules s) i = Some code" "n = Suc m"
      "exec m (length (heap s)) code (emit (Ran i) (create_module i s)) = Some (Some e, t)" "r = Inl e"
  | (loaded) code m u where "installed_at s i = None" "map_of (modules s) i = Some code" "n = Suc m"
      "exec m (length (heap s)) code (emit (Ran i) (create_module i s)) = Some (None, u)"
      "r = Inr (length (heap s))" "t = upd_mod (length (heap s)) (\<lambda>m. m\<lparr>m_loaded := True\<rparr>) u"
proof (cases "installed_at s i")
  case (Some a)
  with assms have "r = Inr a" "t = s" by (simp_all add: require.simps)
  with Some show thesis by (rule cached)
next
  case None
  show thesis
  proof (cases "map_of (modules s) i")
    case nc: None
    with assms None have "r = Inl type_error" "t = create_module i s"
      by (simp_all add: require.simps Let_def)
    with None nc show thesis by (rule no_code)
  next
    case (Some code)
    let ?x = "exec (n - 1) (length (heap s)) code (emit (Ran i) (create_module i s))"
    from assms None Some obtain m where m: "n = Suc m" by (cases n) (auto simp: require.simps Let_def)
    with assms None Some obtain e u where u: "?x = Some (e, u)"
      by (auto simp: require.simps Let_def split: option.splits)
    show thesis
    proof (cases e)
      case e: None
      with assms None Some m u
      have "r = Inr (length (heap s))" "t = upd_mod (length (heap s)) (\<lambda>m. m\<lparr>m_loaded := True\<rparr>) u"
        by (simp_all add: require.simps Let_def)
      with None Some m u e show thesis by (intro loaded) simp_all
    next
      case e: (Some x)
      with assms None Some m u have "r = Inl x" "t = u" by (simp_all add: require.simps Let_def)
      with None Some m u e show thesis by (intro threw) simp_all
    qed
  qed
qed

lemma exec_require_extends:
  "exec n a acts s = Some (e, t) \<Longrightarrow> extends s t"
  "require n i s' = Some (r, t') \<Longrightarrow> extends s' t'"
proof (induction n a acts s and n i s' arbitrary: e t and r t' rule: exec_require_rule)
  case (Require n a r acts s)
  from Require.prems obtain res u where u: "require n r (hot_link a r s) = Some (res, u)"
    by (auto split: option.splits)
  have su: "extends s u" using extends_hot_link Require.IH(1) [OF u] by (rule extends_trans)
  show ?case
  proof (cases res)
    case (Inl x)
    with Require.prems u su show ?thesis by simp
  next
    case (Inr b)
    with Require.prems u have "exec n a acts u = Some (e, t)" by simp
    with Require.IH(2) [OF u [unfolded Inr]] have "extends u t" by blast
    with su show ?thesis by (rule extends_trans)
  qed
next
  case (Simple n a act acts s)
  then have "extends (simple_act a act s) t" by simp
  with extends_simple show ?case by (rule extends_trans)
next
  case (Load n i s)
  have created: "installed_at s i = None \<Longrightarrow> extends s (emit (Ran i) (create_module i s))"
    by (rule extends_trans [OF extends_create extends_emit])
  have mark: "extends u (upd_mod b (\<lambda>m. m\<lparr>m_loaded := True\<rparr>) u)" for b u
    by (rule extends_upd_mod) simp
  from Load.prems show ?case
  proof (cases rule: require_cases)
    case no_code
    with extends_create show ?thesis by simp
  next
    case (threw code m e)
    from created [OF threw(1)] Load.IH [OF threw(1-4)] show ?thesis by (rule extends_trans)
  next
    case (loaded code m u)
    from created [OF loaded(1)] Load.IH [OF loaded(1-4)] have "extends s u" by (rule extends_trans)
    then show ?thesis unfolding loaded(6) using mark by (rule extends_trans)
  qed simp
qed simp_all

section \<open>Enough fuel\<close>

text \<open>The modules that have code but are not in the cache: every nested body removes one.\<close>

definition missing :: "wp \<Rightarrow> nat" where
  "missing s = card (fst ` set (modules s) - fst ` set (installed s))"

lemma missing_extends: "extends s t \<Longrightarrow> missing t \<le> missing s"
  unfolding missing_def extends_def by (elim conjE) (auto intro!: card_mono)

lemma missing_create:
  assumes "installed_at s i = None" "map_of (modules s) i = Some code"
  shows "missing (emit e (create_module i s)) < missing s"
proof -
  have "fst ` set (modules s) - insert i (fst ` set (installed s)) \<subset> fst ` set (modules s) - fst ` set (installed s)"
  proof -
    have "i \<in> fst ` set (modules s)" using map_of_SomeD [OF assms(2)] by (force simp: image_iff)
    moreover have "i \<notin> fst ` set (installed s)" using assms(1) by (simp add: installed_at_None)
    ultimately show ?thesis by blast
  qed
  then show ?thesis by (simp add: missing_def psubset_card_mono)
qed

lemma exec_require_fuel:
  "missing s \<le> n \<Longrightarrow> \<exists>e t. exec n a acts s = Some (e, t)"
  "missing s' \<le> n \<Longrightarrow> \<exists>r t. require n i s' = Some (r, t)"
proof (induction n a acts s and n i s' rule: exec_require_rule)
  case (Require n a r acts s)
  have le: "missing (hot_link a r s) \<le> n"
    using missing_extends [OF extends_hot_link] Require.prems by (rule order_trans)
  with Require.IH(1) obtain res u where u: "require n r (hot_link a r s) = Some (res, u)" by blast
  show ?case
  proof (cases res)
    case (Inl e)
    with u show ?thesis by simp
  next
    case (Inr b)
    have "missing u \<le> n"
      using missing_extends [OF exec_require_extends(2) [OF u]] le by (rule order_trans)
    with Require.IH(2) u Inr show ?thesis by simp
  qed
next
  case (Simple n a act acts s)
  have "missing (simple_act a act s) \<le> n"
    using missing_extends [OF extends_simple] Simple.prems by (rule order_trans)
  with Simple show ?case by simp
next
  case (Load n i s)
  show ?case
  proof (cases "installed_at s i")
    case None
    show ?thesis
    proof (cases "map_of (modules s) i")
      case (Some code)
      have lt: "missing (emit (Ran i) (create_module i s)) < missing s"
        by (rule missing_create [OF None Some])
      with Load.prems obtain m where m: "n = Suc m" by (cases n) auto
      with lt Load.prems have "missing (emit (Ran i) (create_module i s)) \<le> m" by simp
      with Load.IH [OF None Some m]
      obtain e u where "exec m (length (heap s)) code (emit (Ran i) (create_module i s)) = Some (e, u)"
        by blast
      with None Some m show ?thesis by (cases e) (simp_all add: require.simps Let_def)
    qed (use None in \<open>simp add: require.simps Let_def\<close>)
  qed (simp add: require.simps)
qed simp_all

lemma missing_le: "missing s \<le> length (modules s)"
  unfolding missing_def
  by (metis Diff_subset List.finite_set card_image_le card_length card_mono finite_imageI le_trans)

section \<open>Well-formed module graphs\<close>

text \<open>
  The cache holds each module object under its own id and no other, exactly the active objects
  are in the cache, and every link from a module to a child is mirrored by a link from the child
  to its parent (which is what the propagation of updates follows). \<open>X\<close> is the link that
  \<open>hot_link\<close> has recorded for a child that is just about to be created.
\<close>

definition links :: "(mid \<times> mid) set \<Rightarrow> wp \<Rightarrow> bool" where
  "links X s \<longleftrightarrow> (\<forall>a < length (heap s). hot_active (heap s ! a) \<longrightarrow>
     (\<forall>c \<in> set (m_children (heap s ! a)). (m_id (heap s ! a), c) \<in> X \<or>
        (\<exists>b. installed_at s c = Some b \<and> m_id (heap s ! a) \<in> set (m_parents (heap s ! b)))))"

definition cache_ok :: "wp \<Rightarrow> bool" where
  "cache_ok s \<longleftrightarrow> distinct (map fst (installed s)) \<and>
     (\<forall>i a. installed_at s i = Some a \<longrightarrow> a < length (heap s) \<and> m_id (heap s ! a) = i) \<and>
     (\<forall>a < length (heap s). hot_active (heap s ! a) \<longleftrightarrow> installed_at s (m_id (heap s ! a)) = Some a) \<and>
     (\<forall>a < length (heap s). distinct (m_children (heap s ! a)))"

definition wf_graph :: "(mid \<times> mid) set \<Rightarrow> wp \<Rightarrow> bool" where
  "wf_graph X s \<longleftrightarrow> cache_ok s \<and> links X s"

lemma wf_installed:
  "wf_graph X s \<Longrightarrow> installed_at s i = Some a \<Longrightarrow> a < length (heap s) \<and> m_id (heap s ! a) = i \<and> hot_active (heap s ! a)"
  unfolding wf_graph_def cache_ok_def by metis

lemma links_cong:
  assumes "length (heap t) = length (heap s)" "installed_at t = installed_at s"
    and "\<And>a. a < length (heap s) \<Longrightarrow> hot_active (heap t ! a) = hot_active (heap s ! a) \<and>
      m_id (heap t ! a) = m_id (heap s ! a) \<and> m_children (heap t ! a) = m_children (heap s ! a) \<and>
      set (m_parents (heap s ! a)) \<subseteq> set (m_parents (heap t ! a))"
    and "\<And>i a. installed_at s i = Some a \<Longrightarrow> a < length (heap s)"
  shows "links X s \<Longrightarrow> links X t"
  unfolding links_def
proof (intro allI impI ballI)
  fix a c
  assume l: "\<forall>a < length (heap s). hot_active (heap s ! a) \<longrightarrow>
     (\<forall>c \<in> set (m_children (heap s ! a)). (m_id (heap s ! a), c) \<in> X \<or>
        (\<exists>b. installed_at s c = Some b \<and> m_id (heap s ! a) \<in> set (m_parents (heap s ! b))))"
  assume a: "a < length (heap t)" "hot_active (heap t ! a)" "c \<in> set (m_children (heap t ! a))"
  then have "a < length (heap s)" using assms(1) by simp
  with l a assms(3) [of a] have "(m_id (heap t ! a), c) \<in> X \<or>
      (\<exists>b. installed_at s c = Some b \<and> m_id (heap t ! a) \<in> set (m_parents (heap s ! b)))" by simp
  then show goal: "(m_id (heap t ! a), c) \<in> X \<or>
      (\<exists>b. installed_at t c = Some b \<and> m_id (heap t ! a) \<in> set (m_parents (heap t ! b)))"
  proof
    assume "\<exists>b. installed_at s c = Some b \<and> m_id (heap t ! a) \<in> set (m_parents (heap s ! b))"
    then obtain b where b: "installed_at s c = Some b" "m_id (heap t ! a) \<in> set (m_parents (heap s ! b))" by blast
    with assms(2) assms(3) [of b] assms(4) [OF b(1)] show ?thesis by auto
  qed simp
qed

lemma cache_ok_cong:
  assumes "length (heap t) = length (heap s)" "installed t = installed s"
    and "\<And>a. a < length (heap s) \<Longrightarrow> hot_active (heap t ! a) = hot_active (heap s ! a) \<and>
      m_id (heap t ! a) = m_id (heap s ! a) \<and> (distinct (m_children (heap s ! a)) \<longrightarrow> distinct (m_children (heap t ! a)))"
  shows "cache_ok s \<Longrightarrow> cache_ok t"
proof -
  have ia: "installed_at t = installed_at s" using assms(2) by (simp add: installed_at_def fun_eq_iff)
  show "cache_ok s \<Longrightarrow> cache_ok t"
    unfolding cache_ok_def ia using assms by simp
qed

lemma wf_upd_mod:
  assumes "wf_graph X s" "keeps_links f"
  shows "wf_graph X (upd_mod a f s)"
proof -
  have "cache_ok (upd_mod a f s)"
    by (rule cache_ok_cong [of _ s]) (use assms in \<open>auto simp: wf_graph_def keeps_links_def heap_upd_mod\<close>)
  moreover have "links X (upd_mod a f s)"
    by (rule links_cong [of _ s])
      (use assms in \<open>auto simp: wf_graph_def cache_ok_def keeps_links_def heap_upd_mod\<close>)
  ultimately show ?thesis by (simp add: wf_graph_def)
qed

lemma wf_frame:
  assumes "wf_graph X s" "heap t = heap s" "installed t = installed s"
  shows "wf_graph X t"
proof -
  have ia: "installed_at t = installed_at s" using assms(3) by (simp add: installed_at_def fun_eq_iff)
  show ?thesis
    using assms(1) unfolding wf_graph_def cache_ok_def links_def assms(2,3) ia .
qed

lemma wf_simple_act: "wf_graph X s \<Longrightarrow> wf_graph X (simple_act a act s)"
proof (rule simple_act_rule)
  assume w: "wf_graph X s"
  show "keeps_links f \<Longrightarrow> wf_graph X (upd_mod a f s)" for f by (rule wf_upd_mod [OF w])
  show "wf_graph X (emit (Console e) s)" for e by (rule wf_frame [OF w]) simp_all
  show "wf_graph X (s\<lparr>cur_data := d\<rparr>)" for d by (rule wf_frame [OF w]) simp_all
qed

end
