(* ===== verification/Webpack_Graph.thy ===== *)
theory Webpack_Graph
  imports Webpack_Modules
begin

text \<open>
  What the module loader of \<^verbatim>\<open>runtime.js\<close> guarantees: loading returns (a bound on the nesting is
  enough fuel), a module body runs at most once while its module is cached, circular requires see
  the cached module object, a module that threw stays cached, and loading keeps the graph of module
  objects well-formed.
\<close>

section \<open>Loading keeps the graph well-formed\<close>

lemma wf_create:
  assumes wf: "wf_graph X s" and new: "installed_at s i = None"
    and X: "\<forall>(p, c) \<in> X. c = i \<and> p \<in> set (hotCurrentParents s)"
  shows "wf_graph {} (create_module i s)"
proof -
  let ?t = "create_module i s" and ?n = "length (heap s)"
  have heap: "heap ?t = heap s @ [new_module i s]" by (simp add: create_module_def)
  have ia: "installed_at ?t = (installed_at s)(i \<mapsto> ?n)" by simp
  have c: "cache_ok s" and l: "links X s" using wf by (simp_all add: wf_graph_def)
  have lt: "j < ?n \<and> m_id (heap s ! j) = k" if "installed_at s k = Some j" for j k
    using c that unfolding cache_ok_def by blast
  have nth: "heap ?t ! a = (if a < ?n then heap s ! a else new_module i s)" if "a < Suc ?n" for a
    using that by (auto simp: heap nth_append less_Suc_eq)
  have act: "hot_active (heap s ! a) \<longleftrightarrow> installed_at s (m_id (heap s ! a)) = Some a" if "a < ?n" for a
    using c that unfolding cache_ok_def by blast
  have "cache_ok ?t"
    unfolding cache_ok_def
  proof (intro conjI allI impI)
    show "distinct (map fst (installed ?t))" using c by (simp add: cache_ok_def)
    fix k a
    assume "installed_at ?t k = Some a"
    then have "k = i \<and> a = ?n \<or> k \<noteq> i \<and> installed_at s k = Some a"
      by (auto simp: ia split: if_splits)
    with lt [of k a] show "a < length (heap ?t)" "m_id (heap ?t ! a) = k"
      by (auto simp: nth new_module_def)
  next
    fix a
    assume a: "a < length (heap ?t)"
    show "hot_active (heap ?t ! a) = (installed_at ?t (m_id (heap ?t ! a)) = Some a)"
    proof (cases "a < ?n")
      case True
      have "m_id (heap s ! a) = i \<Longrightarrow> \<not> hot_active (heap s ! a)" using act [OF True] new by auto
      with True act [OF True] show ?thesis by (auto simp: nth ia)
    next
      case False
      with a show ?thesis by (simp add: nth ia new_module_def)
    qed
    show "distinct (m_children (heap ?t ! a))"
      using a c by (auto simp: nth new_module_def cache_ok_def)
  qed
  moreover have "links {} ?t"
    unfolding links_def
  proof (intro allI impI ballI)
    fix a c
    assume a: "a < length (heap ?t)" "hot_active (heap ?t ! a)" "c \<in> set (m_children (heap ?t ! a))"
    then have lta: "a < ?n" by (cases "a < ?n") (auto simp: nth new_module_def)
    with a l have "(m_id (heap s ! a), c) \<in> X \<or>
        (\<exists>b. installed_at s c = Some b \<and> m_id (heap s ! a) \<in> set (m_parents (heap s ! b)))"
      by (simp add: links_def nth)
    then show "(m_id (heap ?t ! a), c) \<in> {} \<or>
        (\<exists>b. installed_at ?t c = Some b \<and> m_id (heap ?t ! a) \<in> set (m_parents (heap ?t ! b)))"
    proof
      assume "(m_id (heap s ! a), c) \<in> X"
      with X have "c = i" "m_id (heap s ! a) \<in> set (hotCurrentParents s)" by auto
      with lta show ?thesis by (auto simp: nth ia new_module_def)
    next
      assume "\<exists>b. installed_at s c = Some b \<and> m_id (heap s ! a) \<in> set (m_parents (heap s ! b))"
      then obtain b where b: "installed_at s c = Some b" "m_id (heap s ! a) \<in> set (m_parents (heap s ! b))" by blast
      from b(1) new have "c \<noteq> i" by auto
      with b lt [OF b(1)] lta show ?thesis by (auto simp: nth ia)
    qed
  qed
  ultimately show ?thesis by (simp add: wf_graph_def)
qed

text \<open>The link that \<open>hot_link\<close> leaves pending: only when the child is not cached yet.\<close>

definition pending :: "mid \<Rightarrow> wp \<Rightarrow> (mid \<times> mid) set" where
  "pending i s = (if installed_at s i = None then (\<lambda>p. (p, i)) ` set (hotCurrentParents s) else {})"

lemma wf_children:
  assumes "wf_graph {} s" "a < length (heap s)"
    and "(m_id (heap s ! a), r) \<in> X \<or>
      (\<exists>b. installed_at s r = Some b \<and> m_id (heap s ! a) \<in> set (m_parents (heap s ! b)))"
  shows "wf_graph X (upd_mod a (\<lambda>m. m\<lparr>m_children := push_new (m_children m) r\<rparr>) s)"
proof -
  let ?t = "upd_mod a (\<lambda>m. m\<lparr>m_children := push_new (m_children m) r\<rparr>) s"
  have c: "cache_ok s" and l: "links {} s" using assms(1) by (simp_all add: wf_graph_def)
  have "cache_ok ?t" by (rule cache_ok_cong [OF _ _ _ c]) (auto simp: heap_upd_mod)
  moreover have "links X ?t"
    unfolding links_def
  proof (intro allI impI ballI)
    fix j ch
    assume j: "j < length (heap ?t)" "hot_active (heap ?t ! j)" "ch \<in> set (m_children (heap ?t ! j))"
    then have "ch \<in> set (m_children (heap s ! j)) \<or> j = a \<and> ch = r"
      by (auto simp: heap_upd_mod split: if_splits)
    moreover have "\<exists>b. installed_at s ch = Some b \<and> m_id (heap s ! j) \<in> set (m_parents (heap s ! b))"
      if "ch \<in> set (m_children (heap s ! j))"
      using that j l by (auto simp: links_def heap_upd_mod split: if_splits)
    ultimately have "(m_id (heap s ! j), ch) \<in> X \<or>
        (\<exists>b. installed_at s ch = Some b \<and> m_id (heap s ! j) \<in> set (m_parents (heap s ! b)))"
      using assms(3) by blast
    then show "(m_id (heap ?t ! j), ch) \<in> X \<or>
        (\<exists>b. installed_at ?t ch = Some b \<and> m_id (heap ?t ! j) \<in> set (m_parents (heap ?t ! b)))"
      by (auto simp: heap_upd_mod split: if_splits)
  qed
  ultimately show ?thesis by (simp add: wf_graph_def)
qed

lemma wf_more_parents:
  assumes "wf_graph X s"
  shows "wf_graph X (upd_mod b (\<lambda>m. m\<lparr>m_parents := push_new (m_parents m) p\<rparr>) s)"
proof -
  let ?t = "upd_mod b (\<lambda>m. m\<lparr>m_parents := push_new (m_parents m) p\<rparr>) s"
  have c: "cache_ok s" and l: "links X s" using assms by (simp_all add: wf_graph_def)
  have "cache_ok ?t" by (rule cache_ok_cong [OF _ _ _ c]) (auto simp: heap_upd_mod)
  moreover have "links X ?t"
    by (rule links_cong [OF _ _ _ _ l]) (use c in \<open>auto simp: heap_upd_mod cache_ok_def\<close>)
  ultimately show ?thesis by (simp add: wf_graph_def)
qed

lemma pending_upd_mod [simp]: "pending i (upd_mod a f s) = pending i s"
  by (simp add: pending_def)

lemma wf_hot_link:
  assumes "wf_graph {} s" "a < length (heap s)"
  shows "wf_graph (pending r (hot_link a r s)) (hot_link a r s)"
proof (rule hot_link_rule)
  fix b
  assume act: "hot_active (heap s ! a)" and b: "installed_at s r = Some b"
  let ?u = "upd_mod b (\<lambda>m. m\<lparr>m_parents := push_new (m_parents m) (m_id (heap s ! a))\<rparr>) s"
  have bl: "b < length (heap s)" using wf_installed [OF assms(1) b] by simp
  have "wf_graph {} ?u" by (rule wf_more_parents [OF assms(1)])
  moreover have "m_id (heap ?u ! a) \<in> set (m_parents (heap ?u ! b))"
    using bl by (simp add: heap_upd_mod)
  ultimately have "wf_graph {} (upd_mod a (\<lambda>m. m\<lparr>m_children := push_new (m_children m) r\<rparr>) ?u)"
    using b assms(2) by (intro wf_children) simp_all
  then show "wf_graph (pending r (upd_mod a (\<lambda>m. m\<lparr>m_children := push_new (m_children m) r\<rparr>) ?u))
      (upd_mod a (\<lambda>m. m\<lparr>m_children := push_new (m_children m) r\<rparr>) ?u)"
    using b by (simp add: pending_def)
next
  assume none: "installed_at s r = None"
  let ?u = "s\<lparr>hotCurrentParents := [m_id (heap s ! a)], hotCurrentChildModule := Some r\<rparr>"
  have "wf_graph {} ?u" by (rule wf_frame [OF assms(1)]) simp_all
  then have "wf_graph (pending r ?u) (upd_mod a (\<lambda>m. m\<lparr>m_children := push_new (m_children m) r\<rparr>) ?u)"
    using none assms(2) by (intro wf_children) (simp_all add: pending_def installed_at_def)
  then show "wf_graph (pending r (upd_mod a (\<lambda>m. m\<lparr>m_children := push_new (m_children m) r\<rparr>) ?u))
      (upd_mod a (\<lambda>m. m\<lparr>m_children := push_new (m_children m) r\<rparr>) ?u)" by simp
next
  fix msg
  let ?u = "emit (Console msg) (s\<lparr>hotCurrentParents := []\<rparr>)"
  have "pending r ?u = {}" by (simp add: pending_def)
  moreover have "wf_graph {} ?u" by (rule wf_frame [OF assms(1)]) simp_all
  ultimately show "wf_graph (pending r ?u) ?u" by simp
qed

lemma extends_length: "extends s t \<Longrightarrow> a < length (heap s) \<Longrightarrow> a < length (heap t)"
  unfolding extends_def by linarith

lemma exec_require_wf:
  "exec n a acts s = Some (e, t) \<Longrightarrow> wf_graph {} s \<Longrightarrow> a < length (heap s) \<Longrightarrow> wf_graph {} t"
  "require n i s' = Some (r, t') \<Longrightarrow> wf_graph (pending i s') s' \<Longrightarrow> wf_graph {} t'"
proof (induction n a acts s and n i s' arbitrary: e t and r t' rule: exec_require_rule)
  case (Require n a r acts s)
  from Require.prems(1) obtain res u where u: "require n r (hot_link a r s) = Some (res, u)"
    by (auto split: option.splits)
  have wu: "wf_graph {} u"
    by (rule Require.IH(1) [OF u wf_hot_link [OF Require.prems(2,3)]])
  have au: "a < length (heap u)"
    using extends_trans [OF extends_hot_link exec_require_extends(2) [OF u]] Require.prems(3)
    by (rule extends_length)
  show ?case
  proof (cases res)
    case (Inl x)
    with Require.prems(1) u wu show ?thesis by simp
  next
    case (Inr b)
    with Require.prems(1) u have "exec n a acts u = Some (e, t)" by simp
    from Require.IH(2) [OF u [unfolded Inr] this wu au] show ?thesis .
  qed
next
  case (Simple n a act acts s)
  have "a < length (heap (simple_act a act s))"
    using extends_simple Simple.prems(3) by (rule extends_length)
  with Simple wf_simple_act show ?case by simp
next
  case (Load n i s)
  let ?s1 = "emit (Ran i) (create_module i s)"
  have wf1: "wf_graph {} (create_module i s)" if "installed_at s i = None"
    using Load.prems(2) that by (intro wf_create [of "pending i s"]) (auto simp: pending_def)
  have wf2: "wf_graph {} ?s1" if "installed_at s i = None"
    by (rule wf_frame [OF wf1 [OF that]]) simp_all
  from Load.prems(1) show ?case
  proof (cases rule: require_cases)
    case (cached a)
    with Load.prems(2) show ?thesis by (simp add: pending_def)
  next
    case no_code
    with wf1 show ?thesis by simp
  next
    case (threw code m x)
    show ?thesis by (rule Load.IH [OF threw(1-4) wf2 [OF threw(1)]]) simp
  next
    case (loaded code m u)
    have "wf_graph {} u" by (rule Load.IH [OF loaded(1-4) wf2 [OF loaded(1)]]) simp
    then show ?thesis unfolding loaded(6) by (rule wf_upd_mod) (simp add: keeps_links_def)
  qed
qed simp_all

section \<open>What ran\<close>

text \<open>The modules whose bodies were started, in order.\<close>

definition ran :: "wp \<Rightarrow> mid list" where
  "ran s = List.map_filter (\<lambda>e. case e of Ran i \<Rightarrow> Some i | _ \<Rightarrow> None) (trace s)"

lemma ran_simps [simp]:
  "ran (upd_mod a f s) = ran s" "ran (emit (Ran i) s) = ran s @ [i]" "ran (emit (Console m) s) = ran s"
  "ran (create_module i s) = ran s" "ran (s\<lparr>hotCurrentParents := ps\<rparr>) = ran s"
  "ran (s\<lparr>cur_data := d\<rparr>) = ran s"
  "ran (s\<lparr>hotCurrentParents := ps, hotCurrentChildModule := c\<rparr>) = ran s"
  by (simp_all add: ran_def map_filter_simps List.map_filter_def)

definition ran_ok :: "wp \<Rightarrow> bool" where
  "ran_ok s \<longleftrightarrow> distinct (ran s) \<and> set (ran s) \<subseteq> fst ` set (installed s)"

lemma ran_ok_simple: "ran_ok s \<Longrightarrow> ran_ok (simple_act a act s)"
  by (rule simple_act_rule) (simp_all add: ran_ok_def)

lemma ran_ok_hot_link: "ran_ok s \<Longrightarrow> ran_ok (hot_link a r s)"
  by (rule hot_link_rule) (simp_all add: ran_ok_def)

lemma ran_ok_create: "ran_ok s \<Longrightarrow> installed_at s i = None \<Longrightarrow> ran_ok (emit (Ran i) (create_module i s))"
  by (auto simp: ran_ok_def installed_at_None)

lemma exec_require_ran:
  "exec n a acts s = Some (e, t) \<Longrightarrow> ran_ok s \<Longrightarrow> ran_ok t"
  "require n i s' = Some (r, t') \<Longrightarrow> ran_ok s' \<Longrightarrow> ran_ok t'"
proof (induction n a acts s and n i s' arbitrary: e t and r t' rule: exec_require_rule)
  case (Require n a r acts s)
  from Require.prems(1) obtain res u where u: "require n r (hot_link a r s) = Some (res, u)"
    by (auto split: option.splits)
  have ru: "ran_ok u" by (rule Require.IH(1) [OF u ran_ok_hot_link [OF Require.prems(2)]])
  show ?case
  proof (cases res)
    case (Inl x)
    with Require.prems(1) u ru show ?thesis by simp
  next
    case (Inr b)
    with Require.prems(1) u have "exec n a acts u = Some (e, t)" by simp
    from Require.IH(2) [OF u [unfolded Inr] this ru] show ?thesis .
  qed
next
  case (Simple n a act acts s)
  with ran_ok_simple show ?case by simp
next
  case (Load n i s)
  from Load.prems(1) show ?case
  proof (cases rule: require_cases)
    case (cached a)
    with Load.prems(2) show ?thesis by simp
  next
    case no_code
    with Load.prems(2) show ?thesis by (auto simp: ran_ok_def)
  next
    case (threw code m x)
    from Load.IH [OF threw(1-4) ran_ok_create [OF Load.prems(2) threw(1)]] show ?thesis .
  next
    case (loaded code m u)
    from Load.IH [OF loaded(1-4) ran_ok_create [OF Load.prems(2) loaded(1)]] show ?thesis
      unfolding loaded(6) by (simp add: ran_ok_def)
  qed
qed simp_all

lemma require_installs:
  assumes "require n i s = Some (r, t)"
  shows "\<exists>a. installed_at t i = Some a \<and> (\<forall>b. r = Inr b \<longrightarrow> a = b)"
  using assms
proof (cases rule: require_cases)
  case (threw code m e)
  then have "extends (emit (Ran i) (create_module i s)) t" using exec_require_extends(1) by blast
  then show ?thesis using threw(5) unfolding extends_def by fastforce
next
  case (loaded code m u)
  then have "extends (emit (Ran i) (create_module i s)) u" using exec_require_extends(1) by blast
  then have "installed_at u i = Some (length (heap s))" unfolding extends_def by fastforce
  with loaded show ?thesis by simp
qed auto

text \<open>Only modules that have code run.\<close>

lemma exec_require_code:
  "exec n a acts s = Some (e, t) \<Longrightarrow> set (ran t) \<subseteq> set (ran s) \<union> fst ` set (modules s)"
  "require n i s' = Some (r, t') \<Longrightarrow> set (ran t') \<subseteq> set (ran s') \<union> fst ` set (modules s')"
proof (induction n a acts s and n i s' arbitrary: e t and r t' rule: exec_require_rule)
  case (Require n a r acts s)
  from Require.prems(1) obtain res u where u: "require n r (hot_link a r s) = Some (res, u)"
    by (auto split: option.splits)
  have same: "ran (hot_link a r s) = ran s \<and> modules (hot_link a r s) = modules s"
    by (rule hot_link_rule) simp_all
  have mu: "modules u = modules s"
    using exec_require_extends(2) [OF u] same by (simp add: extends_def)
  have ru: "set (ran u) \<subseteq> set (ran s) \<union> fst ` set (modules s)" using Require.IH(1) [OF u] same by simp
  show ?case
  proof (cases res)
    case (Inl x)
    with Require.prems(1) u ru show ?thesis by simp
  next
    case (Inr b)
    with Require.prems(1) u have "exec n a acts u = Some (e, t)" by simp
    from Require.IH(2) [OF u [unfolded Inr] this]
    have "set (ran t) \<subseteq> set (ran u) \<union> fst ` set (modules s)" by (simp only: mu)
    with ru show ?thesis by blast
  qed
next
  case (Simple n a act acts s)
  have "ran (simple_act a act s) = ran s \<and> modules (simple_act a act s) = modules s"
    by (rule simple_act_rule) simp_all
  with Simple show ?case by simp
next
  case (Load n i s)
  have i: "i \<in> fst ` set (modules s)" if "map_of (modules s) i = Some code" for code
    using that by (metis domI dom_map_of_conv_image_fst)
  from Load.prems(1) show ?case
  proof (cases rule: require_cases)
    case (threw code m x)
    from Load.IH [OF threw(1-4)] i [OF threw(2)] show ?thesis by (simp add: insert_absorb)
  next
    case (loaded code m u)
    from Load.IH [OF loaded(1-4)] i [OF loaded(2)] show ?thesis unfolding loaded(6) by (simp add: insert_absorb)
  qed auto
qed simp_all

section \<open>The pending parents\<close>

lemma exec_require_parents:
  "exec n a acts s = Some (e, t) \<Longrightarrow> hotCurrentParents s = [] \<Longrightarrow> hotCurrentParents t = []"
  "require n i s' = Some (r, t') \<Longrightarrow> installed_at s' i = None \<or> hotCurrentParents s' = [] \<Longrightarrow> hotCurrentParents t' = []"
proof (induction n a acts s and n i s' arbitrary: e t and r t' rule: exec_require_rule)
  case (Require n a r acts s)
  from Require.prems(1) obtain res u where u: "require n r (hot_link a r s) = Some (res, u)"
    by (auto split: option.splits)
  have "installed_at (hot_link a r s) r = None \<or> hotCurrentParents (hot_link a r s) = []"
    by (rule hot_link_rule) (simp_all add: Require.prems(2) installed_at_def)
  then have ru: "hotCurrentParents u = []" by (rule Require.IH(1) [OF u])
  show ?case
  proof (cases res)
    case (Inl x)
    with Require.prems(1) u ru show ?thesis by simp
  next
    case (Inr b)
    with Require.prems(1) u have "exec n a acts u = Some (e, t)" by simp
    from Require.IH(2) [OF u [unfolded Inr] this ru] show ?thesis .
  qed
next
  case (Simple n a act acts s)
  have "hotCurrentParents (simple_act a act s) = []"
    by (rule simple_act_rule) (simp_all add: Simple.prems(2))
  with Simple show ?case by simp
next
  case (Load n i s)
  from Load.prems(1) show ?case
  proof (cases rule: require_cases)
    case (cached a)
    with Load.prems(2) show ?thesis by simp
  next
    case (threw code m x)
    from Load.IH [OF threw(1-4)] show ?thesis by simp
  next
    case (loaded code m u)
    from Load.IH [OF loaded(1-4)] show ?thesis unfolding loaded(6) by simp
  qed simp
qed simp_all

text \<open>A module that threw is not marked as loaded, and nothing marks it later.\<close>

lemma exec_require_unloaded:
  "exec n a acts s = Some (e, t) \<Longrightarrow> j < length (heap s) \<Longrightarrow> m_loaded (heap t ! j) = m_loaded (heap s ! j)"
  "require n i s' = Some (r, t') \<Longrightarrow> j < length (heap s') \<Longrightarrow> m_loaded (heap t' ! j) = m_loaded (heap s' ! j)"
proof (induction n a acts s and n i s' arbitrary: e t and r t' rule: exec_require_rule)
  case (Require n a r acts s)
  from Require.prems(1) obtain res u where u: "require n r (hot_link a r s) = Some (res, u)"
    by (auto split: option.splits)
  have same: "m_loaded (heap (hot_link a r s) ! j) = m_loaded (heap s ! j)"
    by (rule hot_link_rule) (auto simp: heap_upd_mod)
  have jl: "j < length (heap (hot_link a r s))"
    using extends_hot_link Require.prems(2) by (rule extends_length)
  have ju: "j < length (heap u)" using exec_require_extends(2) [OF u] jl by (rule extends_length)
  have mu: "m_loaded (heap u ! j) = m_loaded (heap s ! j)" using Require.IH(1) [OF u jl] same by simp
  show ?case
  proof (cases res)
    case (Inl x)
    with Require.prems(1) u mu show ?thesis by simp
  next
    case (Inr b)
    with Require.prems(1) u have "exec n a acts u = Some (e, t)" by simp
    from Require.IH(2) [OF u [unfolded Inr] this ju] mu show ?thesis by simp
  qed
next
  case (Simple n a act acts s)
  have "m_loaded (heap (simple_act a act s) ! j) = m_loaded (heap s ! j)"
    by (cases act) (simp_all add: heap_upd_mod hot_accept_self_def hot_accept_def hot_decline_self_def
      hot_decline_def hot_dispose_def hot_remove_dispose_def set_export_def)
  moreover have "j < length (heap (simple_act a act s))"
    using extends_simple Simple.prems(2) by (rule extends_length)
  ultimately show ?case using Simple by simp
next
  case (Load n i s)
  have old: "heap (create_module i s) ! j = heap s ! j"
    using Load.prems(2) by (simp add: create_module_def nth_append)
  from Load.prems(1) show ?case
  proof (cases rule: require_cases)
    case no_code
    with old show ?thesis by simp
  next
    case (threw code m x)
    from Load.IH [OF threw(1-4)] Load.prems(2) old show ?thesis by simp
  next
    case (loaded code m u)
    from Load.IH [OF loaded(1-4)] Load.prems(2) old show ?thesis unfolding loaded(6)
      by (simp add: heap_upd_mod)
  qed simp
qed simp_all

section \<open>Properties of the loader\<close>

text \<open>The state before anything is loaded, with the given module table.\<close>

definition fresh :: "action list obj \<Rightarrow> wp" where
  "fresh ms = \<lparr>modules = ms, heap = [], installed = [], hotCurrentParents = [],
     hotCurrentChildModule = None, hotCurrentModuleData = [], cur_data = [], trace = []\<rparr>"

lemma fresh_ok: "wf_graph {} (fresh ms)" "ran_ok (fresh ms)" "hotCurrentParents (fresh ms) = []"
  by (simp_all add: fresh_def wf_graph_def cache_ok_def links_def installed_at_def ran_ok_def ran_def
      List.map_filter_def)

lemma require_enough: "length (modules s) \<le> n \<Longrightarrow> \<exists>r t. require n i s = Some (r, t)"
  using exec_require_fuel(2) missing_le [of s] by (meson order_trans)

text \<open>A module graph with a cycle, shared by the examples: \<open>app\<close> needs \<open>a\<close>, and \<open>a\<close> and \<open>b\<close> need
  each other; \<open>bad\<close> throws.\<close>

definition cyclic_app :: "action list obj" where
  "cyclic_app = [(''app'', [Require ''a'', Require ''b'']), (''a'', [Require ''b'', Log ''a'']),
     (''b'', [Require ''a'', Log ''b'']), (''bad'', [Require ''a'', Throw ''boom''])]"

text \<open>C7: Loading a module always comes back: with as much fuel as the bundle has modules, \<open>require\<close>
  returns a module or an error, whatever the modules do and however they require each other.\<close>

theorem require_returns:
  assumes "length (modules s) \<le> n"
  shows "\<exists>r t. require n i s = Some (r, t)"
  by (rule require_enough [OF assms])

theorem require_returns_witness:
  "\<exists>r t. require 4 ''app'' (fresh cyclic_app) = Some (r, t)"
  by (rule require_returns) (simp add: fresh_def cyclic_app_def)

text \<open>C1: Loading an entry module keeps the module graph well-formed, also when a body throws: the
  cache holds every module under its own id, exactly the active modules are cached, and every
  child link of a module has the matching parent link the hot update follows.\<close>

theorem require_keeps_graph:
  assumes "wf_graph {} s" "hotCurrentParents s = []" "require n i s = Some (r, t)"
  shows "wf_graph {} t \<and> hotCurrentParents t = []"
  using exec_require_wf(2) [OF assms(3)] exec_require_parents(2) [OF assms(3)] assms(1,2)
  by (simp add: pending_def)

theorem require_keeps_graph_witness:
  "\<exists>r t. require 4 ''app'' (fresh cyclic_app) = Some (r, t) \<and> wf_graph {} t \<and> hotCurrentParents t = []"
proof -
  obtain r t where rt: "require 4 ''app'' (fresh cyclic_app) = Some (r, t)"
    using require_enough [of "fresh cyclic_app" 4 "''app''"] by (auto simp: fresh_def cyclic_app_def)
  with require_keeps_graph [OF fresh_ok(1,3) rt] show ?thesis by blast
qed

text \<open>C9: A module body runs at most once, through any nesting and any cycle of requires, and only
  for a module that is in the cache when it runs.\<close>

theorem bodies_run_once:
  assumes "require n i (fresh ms) = Some (r, t)"
  shows "distinct (ran t) \<and> set (ran t) \<subseteq> fst ` set (installed t) \<and> set (ran t) \<subseteq> fst ` set ms"
  using exec_require_ran(2) [OF assms fresh_ok(2)] exec_require_code(2) [OF assms]
  by (auto simp: ran_ok_def fresh_def ran_def List.map_filter_def)

theorem bodies_run_once_witness:
  "\<exists>r t. require 4 ''app'' (fresh cyclic_app) = Some (r, t) \<and> ran t = [''app'', ''a'', ''b''] \<and>
     distinct (ran t)"
proof -
  have "map_option (\<lambda>x. ran (snd x)) (require 4 ''app'' (fresh cyclic_app)) = Some [''app'', ''a'', ''b'']"
    by code_simp
  then obtain r t where "require 4 ''app'' (fresh cyclic_app) = Some (r, t)" "ran t = [''app'', ''a'', ''b'']"
    by auto
  with bodies_run_once [of 4 "''app''" cyclic_app r t] show ?thesis by blast
qed

text \<open>A module whose body threw stays in the cache, unloaded: requiring it again returns the half
  initialised module, runs nothing and reports no error.\<close>

theorem failed_module_stays_cached:
  assumes "require n i s = Some (Inl e, t)"
  shows "\<exists>a. require n' i t = Some (Inr a, t) \<and> a = length (heap s) \<and> \<not> m_loaded (heap t ! a)"
  using assms
proof (cases rule: require_cases)
  case no_code
  then show ?thesis by (simp add: require.simps create_module_def installed_at_def new_module_def nth_append)
next
  case (threw code m x)
  let ?s1 = "emit (Ran i) (create_module i s)"
  have ext: "extends ?s1 t" using exec_require_extends(1) [OF threw(4)] .
  then have "installed_at t i = Some (length (heap s))" unfolding extends_def by fastforce
  moreover have "m_loaded (heap t ! length (heap s)) = m_loaded (heap ?s1 ! length (heap s))"
    by (rule exec_require_unloaded(1) [OF threw(4)]) simp
  moreover have "\<not> m_loaded (heap ?s1 ! length (heap s))"
    by (simp add: create_module_def new_module_def nth_append)
  ultimately show ?thesis by (simp add: require.simps)
qed auto

theorem failed_module_stays_cached_witness:
  "\<exists>t a. require 4 ''bad'' (fresh cyclic_app) = Some (Inl ''boom'', t) \<and> require 4 ''bad'' t = Some (Inr a, t)"
proof -
  have "map_option fst (require 4 ''bad'' (fresh cyclic_app)) = Some (Inl ''boom'')"
    by code_simp
  then obtain t where t: "require 4 ''bad'' (fresh cyclic_app) = Some (Inl ''boom'', t)"
    by auto
  with failed_module_stays_cached [OF t, of 4] show ?thesis by blast
qed

end
