(* ===== verification/Webpack_Chunks.thy ===== *)
theory Webpack_Chunks
  imports Webpack_Graph
begin

text \<open>
  Chunk loading in \<^verbatim>\<open>runtime.js\<close>: the JSONP callback every chunk file calls
  (\<open>webpackJsonpCallback\<close>), the list of deferred entry modules (\<open>checkDeferredModules\<close>) and the start
  of the runtime. \<open>vendor.js\<close> and \<open>bundle.js\<close> each push one chunk; the entry of \<open>bundle.js\<close> waits for
  the chunks \<open>runtime\<close> and \<open>vendor\<close>.
\<close>

section \<open>State\<close>

text \<open>\<open>installedChunks[id]\<close>: absent, \<open>0\<close>, or the pending load whose \<open>resolve\<close> has the given identity.\<close>

datatype chunk = ChunkLoaded | ChunkLoading nat

text \<open>A deferred module is the array of an entry id and the chunks it needs; a chunk file passes its
  chunk ids, its modules and, when it has entries, the list of these.\<close>

type_synonym deferred = "mid \<times> string list"

record chunk_data =
  chunkIds :: "string list"
  moreModules :: "action list obj"
  executeModules :: "deferred list option"

record page =
  rt :: wp
  installedChunks :: "chunk obj"
  deferredModules :: "deferred list"
  resolved :: "nat list"
  jsonpArray :: "chunk_data list"
  has_parent :: bool

section \<open>Operations\<close>

definition hotDisposeChunk :: "string \<Rightarrow> ('a page_scheme) \<Rightarrow> 'a page_scheme" where
  "hotDisposeChunk c s = s\<lparr>installedChunks := obj_del c (installedChunks s)\<rparr>"

definition chunk_loaded :: "'a page_scheme \<Rightarrow> string \<Rightarrow> bool" where
  "chunk_loaded s c \<longleftrightarrow> map_of (installedChunks s) c = Some ChunkLoaded"

definition fulfilled :: "'a page_scheme \<Rightarrow> deferred \<Rightarrow> bool" where
  "fulfilled s d \<longleftrightarrow> list_all (chunk_loaded s) (snd d)"

text \<open>\<open>checkDeferredModules\<close>: \<open>deferredModules.splice(i--, 1)\<close> and the \<open>i++\<close> of the loop leave \<open>i\<close> where it
  is. The result is the last module that was run; an error of a module leaves the loop.\<close>

function check_loop :: "nat \<Rightarrow> nat \<Rightarrow> addr option \<Rightarrow> page \<Rightarrow> ((err + addr option) \<times> page) option" where
  "check_loop n i result s =
     (if i < length (deferredModules s) then
        (let d = deferredModules s ! i in
         if fulfilled s d then
           (let s1 = s\<lparr>deferredModules := splice1 i (deferredModules s)\<rparr> in
            case require n (fst d) (rt s1) of
              None \<Rightarrow> None
            | Some (Inl e, w) \<Rightarrow> Some (Inl e, s1\<lparr>rt := w\<rparr>)
            | Some (Inr a, w) \<Rightarrow> check_loop n i (Some a) (s1\<lparr>rt := w\<rparr>))
         else check_loop n (Suc i) result s)
      else Some (Inr result, s))"
  by pat_completeness auto
termination
  by (relation "measure (\<lambda>(n, i, result, s). length (deferredModules s) - i)") (auto simp: splice1_def)

declare check_loop.simps [simp del]

definition checkDeferredModules :: "nat \<Rightarrow> page \<Rightarrow> ((err + addr option) \<times> page) option" where
  "checkDeferredModules n s = check_loop n 0 None s"

fun mark_chunks :: "string list \<Rightarrow> nat list \<Rightarrow> page \<Rightarrow> nat list \<times> page" where
  "mark_chunks [] resolves s = (resolves, s)"
| "mark_chunks (c # cs) resolves s =
     mark_chunks cs
       (case map_of (installedChunks s) c of Some (ChunkLoading r) \<Rightarrow> resolves @ [r] | _ \<Rightarrow> resolves)
       (s\<lparr>installedChunks := obj_set c ChunkLoaded (installedChunks s)\<rparr>)"

definition add_modules :: "action list obj \<Rightarrow> wp \<Rightarrow> wp" where
  "add_modules ms w = w\<lparr>modules := foldl (\<lambda>acc (i, code). obj_set i code acc) (modules w) ms\<rparr>"

definition entries :: "chunk_data \<Rightarrow> deferred list" where
  "entries data = (case executeModules data of None \<Rightarrow> [] | Some ds \<Rightarrow> ds)"

text \<open>\<open>webpackJsonpCallback\<close> up to its call of \<open>checkDeferredModules\<close>.\<close>

definition receive :: "chunk_data \<Rightarrow> page \<Rightarrow> page" where
  "receive data s =
     (let (resolves, s1) = mark_chunks (chunkIds data) [] s;
          s2 = s1\<lparr>rt := add_modules (moreModules data) (rt s1)\<rparr>;
          s3 = (if has_parent s2 then s2\<lparr>jsonpArray := jsonpArray s2 @ [data]\<rparr> else s2);
          s4 = s3\<lparr>resolved := resolved s3 @ resolves\<rparr>
      in s4\<lparr>deferredModules := deferredModules s4 @ entries data\<rparr>)"

definition webpackJsonpCallback :: "nat \<Rightarrow> chunk_data \<Rightarrow> page \<Rightarrow> ((err + addr option) \<times> page) option" where
  "webpackJsonpCallback n data s = checkDeferredModules n (receive data s)"

text \<open>Chunks arriving one after the other; an error goes to whoever pushed the chunk and does not
  stop the next one.\<close>

fun arrive :: "nat \<Rightarrow> chunk_data list \<Rightarrow> page \<Rightarrow> page option" where
  "arrive n [] s = Some s"
| "arrive n (d # ds) s =
     (case webpackJsonpCallback n d s of None \<Rightarrow> None | Some (r, s1) \<Rightarrow> arrive n ds s1)"

text \<open>The start of the runtime: chunks that were pushed before it are handled first, without a parent
  function (the variable is hoisted and assigned only afterwards); an error ends the start.\<close>

definition page_start :: "chunk_data list \<Rightarrow> page" where
  "page_start early = \<lparr>rt = fresh [], installedChunks = [(''runtime'', ChunkLoaded)],
     deferredModules = [], resolved = [], jsonpArray = early, has_parent = False\<rparr>"

fun boot_loop :: "nat \<Rightarrow> chunk_data list \<Rightarrow> page \<Rightarrow> ((err + unit) \<times> page) option" where
  "boot_loop n [] s = Some (Inr (), s)"
| "boot_loop n (d # ds) s =
     (case webpackJsonpCallback n d s of
        None \<Rightarrow> None
      | Some (Inl e, s1) \<Rightarrow> Some (Inl e, s1)
      | Some (Inr _, s1) \<Rightarrow> boot_loop n ds s1)"

definition boot :: "nat \<Rightarrow> chunk_data list \<Rightarrow> ((err + addr option) \<times> page) option" where
  "boot n early =
     (case boot_loop n early (page_start early) of
        None \<Rightarrow> None
      | Some (Inl e, s) \<Rightarrow> Some (Inl e, s)
      | Some (Inr _, s) \<Rightarrow> checkDeferredModules n (s\<lparr>has_parent := True\<rparr>))"

section \<open>The loop over the deferred modules\<close>

lemma check_loop_cases:
  assumes "check_loop n i res s = Some (r, t)"
  obtains (finished) "length (deferredModules s) \<le> i" "r = Inr res" "t = s"
  | (waits) "i < length (deferredModules s)" "\<not> fulfilled s (deferredModules s ! i)"
      "check_loop n (Suc i) res s = Some (r, t)"
  | (threw) e w where "i < length (deferredModules s)" "fulfilled s (deferredModules s ! i)"
      "require n (fst (deferredModules s ! i)) (rt s) = Some (Inl e, w)" "r = Inl e"
      "t = s\<lparr>deferredModules := splice1 i (deferredModules s), rt := w\<rparr>"
  | (runs) a w where "i < length (deferredModules s)" "fulfilled s (deferredModules s ! i)"
      "require n (fst (deferredModules s ! i)) (rt s) = Some (Inr a, w)"
      "check_loop n i (Some a) (s\<lparr>deferredModules := splice1 i (deferredModules s), rt := w\<rparr>) = Some (r, t)"
proof (cases "i < length (deferredModules s)")
  case False
  with assms have "r = Inr res" "t = s" by (simp_all add: check_loop.simps [of n i res s])
  with False show thesis by (intro finished) simp_all
next
  case lt: True
  show thesis
  proof (cases "fulfilled s (deferredModules s ! i)")
    case False
    with assms lt show thesis by (intro waits) (simp_all add: check_loop.simps [of n i res s])
  next
    case True
    let ?q = "require n (fst (deferredModules s ! i)) (rt s)"
    from assms lt True obtain x w where q: "?q = Some (x, w)"
      by (cases ?q) (auto simp: check_loop.simps [of n i res s])
    show thesis
    proof (cases x)
      case (Inl e)
      with assms lt True q show thesis by (intro threw) (auto simp: check_loop.simps [of n i res s])
    next
      case (Inr a)
      with assms lt True q show thesis by (intro runs) (simp_all add: check_loop.simps [of n i res s])
    qed
  qed
qed

lemma check_loop_rule [consumes 1, case_names finished waits threw runs]:
  assumes "check_loop n i res s = Some (r, t)"
    and "\<And>n i res s. length (deferredModules s) \<le> i \<Longrightarrow> P n i s (Inr res) s"
    and "\<And>n i s r t. i < length (deferredModules s) \<Longrightarrow> \<not> fulfilled s (deferredModules s ! i) \<Longrightarrow>
      P n (Suc i) s r t \<Longrightarrow> P n i s r t"
    and "\<And>n i s e w. i < length (deferredModules s) \<Longrightarrow> fulfilled s (deferredModules s ! i) \<Longrightarrow>
      require n (fst (deferredModules s ! i)) (rt s) = Some (Inl e, w) \<Longrightarrow>
      P n i s (Inl e) (s\<lparr>deferredModules := splice1 i (deferredModules s), rt := w\<rparr>)"
    and "\<And>n i s a w r t. i < length (deferredModules s) \<Longrightarrow> fulfilled s (deferredModules s ! i) \<Longrightarrow>
      require n (fst (deferredModules s ! i)) (rt s) = Some (Inr a, w) \<Longrightarrow>
      P n i (s\<lparr>deferredModules := splice1 i (deferredModules s), rt := w\<rparr>) r t \<Longrightarrow> P n i s r t"
  shows "P n i s r t"
  using assms(1)
proof (induction "length (deferredModules s) - i" arbitrary: i res s rule: less_induct)
  case less
  from less.prems show ?case
  proof (cases rule: check_loop_cases)
    case finished
    with assms(2) show ?thesis by simp
  next
    case waits
    have "length (deferredModules s) - Suc i < length (deferredModules s) - i"
      using waits(1) by simp
    from assms(3) [OF waits(1,2) less.hyps [OF this waits(3)]] show ?thesis .
  next
    case (threw e w)
    show ?thesis unfolding threw(4,5) by (rule assms(4) [OF threw(1-3)])
  next
    case (runs a w)
    let ?s = "s\<lparr>deferredModules := splice1 i (deferredModules s), rt := w\<rparr>"
    have "length (deferredModules ?s) - i < length (deferredModules s) - i"
      using runs(1) by (simp add: splice1_def)
    from assms(5) [OF runs(1-3) less.hyps [OF this runs(4)]] show ?thesis .
  qed
qed

text \<open>What loading an entry keeps, the loop keeps.\<close>

lemma check_loop_keeps:
  assumes "check_loop n i res s = Some (r, t)" "P (rt s)"
    and "\<And>m w x w'. require n m w = Some (x, w') \<Longrightarrow> P w \<Longrightarrow> P w'"
  shows "P (rt t)"
  using assms
proof (induction rule: check_loop_rule)
  case (threw n i s e w)
  from threw(3) threw(4) show ?case using threw(5) by auto
next
  case (runs n i s a w r t)
  have "P w" using runs(3) runs(5) runs(6) by blast
  with runs(4,6) show ?case by simp
qed simp_all

lemma check_loop_frame:
  "check_loop n i res s = Some (r, t) \<Longrightarrow> installedChunks t = installedChunks s \<and> resolved t = resolved s \<and>
     jsonpArray t = jsonpArray s \<and> has_parent t = has_parent s"
  by (induction rule: check_loop_rule) simp_all

lemma check_loop_extends:
  assumes "check_loop n i res s = Some (r, t)"
  shows "extends (rt s) (rt t)"
  using assms extends_refl
  by (rule check_loop_keeps [where P = "extends (rt s)"]) (blast intro: extends_trans exec_require_extends(2))

lemma fulfilled_cong: "installedChunks t = installedChunks s \<Longrightarrow> fulfilled t d = fulfilled s d"
  by (simp add: fulfilled_def chunk_loaded_def [abs_def])

text \<open>The modules that were loaded, as a set of ids.\<close>

definition in_cache :: "page \<Rightarrow> mid \<Rightarrow> bool" where
  "in_cache s i \<longleftrightarrow> i \<in> fst ` set (installed (rt s))"

lemma in_cache_extends: "extends (rt s) (rt t) \<Longrightarrow> in_cache s i \<Longrightarrow> in_cache t i"
  unfolding in_cache_def extends_def by blast

lemma in_cache_require:
  assumes "require n i w = Some (x, w')"
  shows "i \<in> fst ` set (installed w')"
proof -
  from require_installs [OF assms] obtain a where "installed_at w' i = Some a" by blast
  then show ?thesis by (metis installed_at_None option.distinct(1))
qed

text \<open>After the loop: an entry that was passed over is still deferred, one that was taken is cached;
  when no module threw, exactly the entries that lack a chunk are still deferred.\<close>

lemma set_splice1: "i < length xs \<Longrightarrow> set xs = insert (xs ! i) (set (splice1 i xs))"
  by (subst id_take_nth_drop [of i xs]) (auto simp: splice1_def)

lemma check_loop_entries_ext:
  assumes "check_loop n i res s = Some (r, t)"
  shows "extends (rt s) (rt t) \<and> (\<forall>d \<in> set (deferredModules s).
    d \<in> set (deferredModules t) \<or> fulfilled s d \<and> in_cache t (fst d))"
  using assms
proof (induction rule: check_loop_rule)
  case (threw n i s e w)
  from exec_require_extends(2) [OF threw(3)] in_cache_require [OF threw(3)] threw(2) set_splice1 [OF threw(1)]
  show ?case by (auto simp: in_cache_def)
next
  case (runs n i s a w r t)
  let ?s = "s\<lparr>deferredModules := splice1 i (deferredModules s), rt := w\<rparr>"
  have f: "fulfilled ?s d = fulfilled s d" for d by (rule fulfilled_cong) simp
  have "in_cache ?s (fst (deferredModules s ! i))"
    using in_cache_require [OF runs(3)] by (simp add: in_cache_def)
  then have "in_cache t (fst (deferredModules s ! i))" using runs(4) by (blast intro: in_cache_extends)
  moreover have "extends (rt s) (rt t)"
    using exec_require_extends(2) [OF runs(3)] runs(4) by (auto intro: extends_trans)
  ultimately show ?case using runs(2,4) set_splice1 [OF runs(1)] by (auto simp: f)
qed simp_all

lemma check_loop_waiting:
  assumes "check_loop n i res s = Some (Inr a, t)"
  shows "deferredModules t = take i (deferredModules s) @
    filter (\<lambda>d. \<not> fulfilled s d) (drop i (deferredModules s))"
proof -
  have "\<forall>a. r = Inr a \<longrightarrow> deferredModules t = take i (deferredModules s) @
      filter (\<lambda>d. \<not> fulfilled s d) (drop i (deferredModules s))"
    if "check_loop n i res s = Some (r, t)" for r
    using that
  proof (induction rule: check_loop_rule)
    case (waits n i s r t)
    then show ?case by (simp add: take_Suc_conv_app_nth flip: Cons_nth_drop_Suc)
  next
    case (runs n i s a w r t)
    let ?s = "s\<lparr>deferredModules := splice1 i (deferredModules s), rt := w\<rparr>"
    have "fulfilled ?s = fulfilled s" by (rule ext, rule fulfilled_cong) simp
    moreover have "take i (splice1 i (deferredModules s)) = take i (deferredModules s)"
      "drop i (splice1 i (deferredModules s)) = drop (Suc i) (deferredModules s)"
      using runs(1) by (simp_all add: splice1_def)
    ultimately show ?case using runs by (simp flip: Cons_nth_drop_Suc)
  qed simp_all
  with assms show ?thesis by blast
qed

lemma check_loop_fuel:
  assumes "missing (rt s) \<le> n"
  shows "\<exists>r t. check_loop n i res s = Some (r, t)"
  using assms
proof (induction "length (deferredModules s) - i" arbitrary: i res s rule: less_induct)
  case less
  show ?case
  proof (cases "i < length (deferredModules s)")
    case lt: True
    show ?thesis
    proof (cases "fulfilled s (deferredModules s ! i)")
      case True
      let ?s = "\<lambda>w. s\<lparr>deferredModules := splice1 i (deferredModules s), rt := w\<rparr>"
      obtain x w where q: "require n (fst (deferredModules s ! i)) (rt s) = Some (x, w)"
        using exec_require_fuel(2) [OF less.prems] by blast
      have m: "missing (rt (?s w)) \<le> n"
        using missing_extends [OF exec_require_extends(2) [OF q]] less.prems by simp
      have l: "length (deferredModules (?s w)) - i < length (deferredModules s) - i"
        using lt by (simp add: splice1_def)
      show ?thesis
      proof (cases x)
        case (Inl e)
        with lt True q show ?thesis by (simp add: check_loop.simps [of n i res s])
      next
        case (Inr a)
        from less.hyps [OF l m] lt True q Inr show ?thesis
          by (simp add: check_loop.simps [of n i res s])
      qed
    next
      case False
      with less.hyps [of s "Suc i"] less.prems lt show ?thesis
        by (simp add: check_loop.simps [of n i res s])
    qed
  qed (simp add: check_loop.simps [of n i res s])
qed

section \<open>Receiving a chunk\<close>

lemma mark_chunks_frame:
  "mark_chunks cs rs s = (rs', t) \<Longrightarrow> rt t = rt s \<and> deferredModules t = deferredModules s \<and>
     resolved t = resolved s \<and> jsonpArray t = jsonpArray s \<and> has_parent t = has_parent s \<and>
     (\<forall>c. chunk_loaded t c \<longleftrightarrow> c \<in> set cs \<or> chunk_loaded s c)"
  by (induction cs rs s rule: mark_chunks.induct) (auto simp: chunk_loaded_def)

lemma receive_simps:
  "modules (rt (receive d s)) = foldl (\<lambda>acc (i, code). obj_set i code acc) (modules (rt s)) (moreModules d)"
  "heap (rt (receive d s)) = heap (rt s)" "installed (rt (receive d s)) = installed (rt s)"
  "hotCurrentParents (rt (receive d s)) = hotCurrentParents (rt s)"
  "trace (rt (receive d s)) = trace (rt s)"
  "deferredModules (receive d s) = deferredModules s @ entries d"
  "chunk_loaded (receive d s) c \<longleftrightarrow> c \<in> set (chunkIds d) \<or> chunk_loaded s c"
proof -
  obtain rs s1 where m: "mark_chunks (chunkIds d) [] s = (rs, s1)" by (cases "mark_chunks (chunkIds d) [] s")
  note f = mark_chunks_frame [OF m]
  show "modules (rt (receive d s)) = foldl (\<lambda>acc (i, code). obj_set i code acc) (modules (rt s)) (moreModules d)"
    "heap (rt (receive d s)) = heap (rt s)" "installed (rt (receive d s)) = installed (rt s)"
    "hotCurrentParents (rt (receive d s)) = hotCurrentParents (rt s)"
    "trace (rt (receive d s)) = trace (rt s)" "deferredModules (receive d s) = deferredModules s @ entries d"
    using f by (simp_all add: receive_def m Let_def add_modules_def)
  have "chunk_loaded (receive d s) c = chunk_loaded s1 c"
    by (simp add: receive_def m Let_def chunk_loaded_def)
  with f show "chunk_loaded (receive d s) c \<longleftrightarrow> c \<in> set (chunkIds d) \<or> chunk_loaded s c" by simp
qed

lemma in_cache_receive [simp]: "in_cache (receive d s) i = in_cache s i"
  by (simp add: in_cache_def receive_simps)

lemma length_obj_set: "length (obj_set k v ms) \<le> Suc (length ms)"
  by (induction k v ms rule: obj_set.induct) auto

lemma length_add_modules:
  "length (foldl (\<lambda>acc (i, code). obj_set i code acc) ms new) \<le> length ms + length new"
proof (induction new arbitrary: ms)
  case (Cons x new)
  have "length (obj_set (fst x) (snd x) ms) \<le> Suc (length ms)" by (rule length_obj_set)
  moreover have "length (foldl (\<lambda>acc (i, code). obj_set i code acc) (obj_set (fst x) (snd x) ms) new)
      \<le> length (obj_set (fst x) (snd x) ms) + length new" by (rule Cons.IH)
  ultimately show ?case by (cases x) simp
qed simp

text \<open>What holds between two chunks: a well-formed graph, every body run at most once, no parents
  pending.\<close>

definition page_ok :: "page \<Rightarrow> bool" where
  "page_ok s \<longleftrightarrow> wf_graph {} (rt s) \<and> ran_ok (rt s) \<and> hotCurrentParents (rt s) = []"

lemma require_page:
  assumes "require n i w = Some (x, w')" "wf_graph {} w" "ran_ok w" "hotCurrentParents w = []"
  shows "wf_graph {} w' \<and> ran_ok w' \<and> hotCurrentParents w' = []"
  using exec_require_wf(2) [OF assms(1)] exec_require_ran(2) [OF assms(1,3)]
    exec_require_parents(2) [OF assms(1)] assms(2,4) by (simp add: pending_def)

lemma page_ok_check:
  assumes "checkDeferredModules n s = Some (r, t)" "page_ok s"
  shows "page_ok t"
  using check_loop_keeps [OF assms(1) [unfolded checkDeferredModules_def],
      of "\<lambda>w. wf_graph {} w \<and> ran_ok w \<and> hotCurrentParents w = []"] require_page assms(2)
  unfolding page_ok_def by blast

lemma page_ok_receive:
  assumes "page_ok s"
  shows "page_ok (receive d s)"
proof -
  have "wf_graph {} (rt (receive d s))"
    by (rule wf_frame) (use assms in \<open>auto simp: page_ok_def receive_simps\<close>)
  with assms show ?thesis by (simp add: page_ok_def receive_simps ran_ok_def ran_def)
qed

lemma page_ok_callback: "webpackJsonpCallback n d s = Some (r, t) \<Longrightarrow> page_ok s \<Longrightarrow> page_ok t"
  unfolding webpackJsonpCallback_def by (blast intro: page_ok_check page_ok_receive)

lemma page_ok_arrive: "arrive n ds s = Some t \<Longrightarrow> page_ok s \<Longrightarrow> page_ok t"
proof (induction ds arbitrary: s)
  case (Cons d ds)
  then obtain r u where "webpackJsonpCallback n d s = Some (r, u)" "arrive n ds u = Some t"
    by (auto split: option.splits)
  with Cons page_ok_callback show ?case by blast
qed simp

lemma page_ok_start: "page_ok (page_start early)"
  by (simp add: page_start_def page_ok_def fresh_ok)

lemma page_ok_boot_loop: "boot_loop n ds s = Some (r, t) \<Longrightarrow> page_ok s \<Longrightarrow> page_ok t"
proof (induction ds arbitrary: s)
  case (Cons d ds)
  then obtain x u where u: "webpackJsonpCallback n d s = Some (x, u)" by (auto split: option.splits)
  with Cons.prems page_ok_callback have "page_ok u" by blast
  with Cons u show ?case by (cases x) auto
qed simp

lemma page_ok_boot:
  assumes "boot n early = Some (r, t)"
  shows "page_ok t"
proof -
  from assms obtain x u where u: "boot_loop n early (page_start early) = Some (x, u)"
    by (auto simp: boot_def split: option.splits)
  have ok: "page_ok u" by (rule page_ok_boot_loop [OF u page_ok_start])
  show ?thesis
  proof (cases x)
    case (Inl e)
    with assms u ok show ?thesis by (simp add: boot_def)
  next
    case (Inr v)
    with assms u have "checkDeferredModules n (u\<lparr>has_parent := True\<rparr>) = Some (r, t)" by (simp add: boot_def)
    moreover have "page_ok (u\<lparr>has_parent := True\<rparr>)" using ok by (simp add: page_ok_def)
    ultimately show ?thesis by (rule page_ok_check)
  qed
qed

lemma callback_entries:
  assumes "webpackJsonpCallback n d s = Some (r, t)"
  shows "extends (rt (receive d s)) (rt t) \<and> (\<forall>e \<in> set (deferredModules s @ entries d).
    e \<in> set (deferredModules t) \<or> in_cache t (fst e))"
  using check_loop_entries_ext [OF assms [unfolded webpackJsonpCallback_def checkDeferredModules_def]]
  by (auto simp: receive_simps)

lemma callback_keeps_cache:
  assumes "webpackJsonpCallback n d s = Some (r, t)" "in_cache s i"
  shows "in_cache t i"
  using callback_entries [OF assms(1)] assms(2) in_cache_extends [of "receive d s"] by simp

lemma arrive_keeps:
  "arrive n ds s = Some t \<Longrightarrow> e \<in> set (deferredModules s) \<or> in_cache s (fst e) \<Longrightarrow>
   e \<in> set (deferredModules t) \<or> in_cache t (fst e)"
proof (induction ds arbitrary: s)
  case (Cons d ds)
  then obtain r u where u: "webpackJsonpCallback n d s = Some (r, u)" "arrive n ds u = Some t"
    by (auto split: option.splits)
  have "e \<in> set (deferredModules u) \<or> in_cache u (fst e)"
    using Cons.prems(2) callback_entries [OF u(1)] callback_keeps_cache [OF u(1)] by auto
  with Cons.IH u(2) show ?case by blast
qed simp

lemma arrive_app: "arrive n (ds @ ds') s = Option.bind (arrive n ds s) (arrive n ds')"
  by (induction ds arbitrary: s) (auto split: option.splits)

section \<open>Properties of chunk loading\<close>

text \<open>The bundle of the application, reduced: the entry of \<open>bundle\<close> needs \<open>runtime\<close> and \<open>vendor\<close>.\<close>

definition vendor_chunk :: chunk_data where
  "vendor_chunk = \<lparr>chunkIds = [''vendor''], moreModules = [(''lib'', [Log ''lib''])], executeModules = None\<rparr>"

definition bundle_chunk :: chunk_data where
  "bundle_chunk = \<lparr>chunkIds = [''bundle''], moreModules = [(''app.js'', [Require ''lib'', Log ''app''])],
     executeModules = Some [(''app.js'', [''runtime'', ''vendor''])]\<rparr>"

text \<open>C5: After a chunk has been handled without an error, all its chunk ids are loaded, exactly the
  entries that still lack a chunk are deferred, in their order, and the entry module of every other
  one is in the cache.\<close>

theorem entries_wait_for_chunks:
  assumes "webpackJsonpCallback n d s = Some (Inr a, t)"
  shows "(\<forall>c \<in> set (chunkIds d). chunk_loaded t c) \<and>
    deferredModules t = filter (\<lambda>e. \<not> fulfilled t e) (deferredModules s @ entries d) \<and>
    (\<forall>e \<in> set (deferredModules s @ entries d). fulfilled t e \<longrightarrow> in_cache t (fst e))"
proof -
  note c = assms [unfolded webpackJsonpCallback_def checkDeferredModules_def]
  have chunks: "installedChunks t = installedChunks (receive d s)" using check_loop_frame [OF c] by simp
  have f: "fulfilled t e = fulfilled (receive d s) e" for e by (rule fulfilled_cong [OF chunks])
  have "chunk_loaded t c = chunk_loaded (receive d s) c" for c using chunks by (simp add: chunk_loaded_def)
  moreover have w: "deferredModules t = filter (\<lambda>e. \<not> fulfilled t e) (deferredModules s @ entries d)"
    using check_loop_waiting [OF c] by (simp add: f receive_simps)
  moreover have "in_cache t (fst e)" if "e \<in> set (deferredModules s @ entries d)" "fulfilled t e" for e
  proof -
    have "e \<in> set (deferredModules t) \<or> in_cache t (fst e)" using callback_entries [OF assms] that(1) by blast
    moreover have "e \<notin> set (deferredModules t)" using that(2) unfolding w by simp
    ultimately show ?thesis by blast
  qed
  ultimately show ?thesis by (simp add: receive_simps)
qed

text \<open>C10: However the chunks arrive and whatever their modules throw, no entry is lost: one that was
  announced is deferred or its module is in the cache.\<close>

theorem no_entry_lost:
  assumes "arrive n (ds @ d # ds') s = Some t" "e \<in> set (entries d)"
  shows "e \<in> set (deferredModules t) \<or> in_cache t (fst e)"
proof -
  from assms(1) obtain u r v where "arrive n ds s = Some u" and v: "webpackJsonpCallback n d u = Some (r, v)"
    and t: "arrive n ds' v = Some t"
    by (auto simp: arrive_app bind_eq_Some_conv split: option.splits)
  have "e \<in> set (deferredModules v) \<or> in_cache v (fst e)" using callback_entries [OF v] assms(2) by auto
  with arrive_keeps [OF t] show ?thesis by blast
qed

text \<open>From the start of the runtime on, through any chunks in any order, the module graph stays
  well-formed and no module body runs twice.\<close>

theorem chunks_keep_page_ok:
  assumes "boot n early = Some (r, s)" "arrive n ds s = Some t"
  shows "wf_graph {} (rt t) \<and> distinct (ran (rt t))"
  using page_ok_arrive [OF assms(2) page_ok_boot [OF assms(1)]] by (simp add: page_ok_def ran_ok_def)

text \<open>Handling chunks always ends: fuel for as many modules as have been announced is enough.\<close>

theorem arrive_returns:
  assumes "length (modules (rt s)) + sum_list (map (\<lambda>d. length (moreModules d)) ds) \<le> n"
  shows "\<exists>t. arrive n ds s = Some t"
  using assms
proof (induction ds arbitrary: s)
  case (Cons d ds)
  let ?u = "receive d s"
  have l: "length (modules (rt ?u)) \<le> length (modules (rt s)) + length (moreModules d)"
    by (simp add: receive_simps length_add_modules)
  with Cons.prems missing_le [of "rt ?u"] have "missing (rt ?u) \<le> n" by simp
  then obtain r t where t: "webpackJsonpCallback n d s = Some (r, t)"
    using check_loop_fuel unfolding webpackJsonpCallback_def checkDeferredModules_def by blast
  have "modules (rt t) = modules (rt ?u)"
    using callback_entries [OF t] by (simp add: extends_def)
  with Cons.prems l have "\<exists>t'. arrive n ds t = Some t'" by (intro Cons.IH) simp
  with t show ?case by simp
qed simp

section \<open>Examples\<close>

text \<open>Both orders of arrival: bundle first, its entry waits for the vendor chunk.\<close>

lemma bundle_first_run:
  "\<exists>t. webpackJsonpCallback 2 bundle_chunk (page_start []) = Some (Inr None, t) \<and>
     deferredModules t = [(''app.js'', [''runtime'', ''vendor''])]"
proof -
  have "map_option (\<lambda>x. (fst x, deferredModules (snd x))) (webpackJsonpCallback 2 bundle_chunk (page_start [])) =
      Some (Inr None, [(''app.js'', [''runtime'', ''vendor''])])" by code_simp
  then show ?thesis by auto
qed

lemma both_orders:
  "map_option (\<lambda>t. (ran (rt t), deferredModules t)) (arrive 2 [bundle_chunk, vendor_chunk] (page_start [])) =
     Some ([''app.js'', ''lib''], [])"
  "map_option (\<lambda>t. (ran (rt t), deferredModules t)) (arrive 2 [vendor_chunk, bundle_chunk] (page_start [])) =
     Some ([''app.js'', ''lib''], [])"
  by code_simp+

theorem entries_wait_for_chunks_witness:
  "\<exists>t. webpackJsonpCallback 2 bundle_chunk (page_start []) = Some (Inr None, t) \<and>
     chunk_loaded t ''bundle'' \<and> \<not> fulfilled t (''app.js'', [''runtime'', ''vendor''])"
proof -
  obtain t where t: "webpackJsonpCallback 2 bundle_chunk (page_start []) = Some (Inr None, t)"
    "deferredModules t = [(''app.js'', [''runtime'', ''vendor''])]" using bundle_first_run by blast
  have w: "deferredModules t = filter (\<lambda>e. \<not> fulfilled t e) (deferredModules (page_start []) @ entries bundle_chunk)"
    and c: "\<forall>c \<in> set (chunkIds bundle_chunk). chunk_loaded t c"
    using entries_wait_for_chunks [OF t(1)] by blast+
  have "\<not> fulfilled t (''app.js'', [''runtime'', ''vendor''])"
  proof
    assume "fulfilled t (''app.js'', [''runtime'', ''vendor''])"
    then have "deferredModules t = []" unfolding w by (simp add: page_start_def entries_def bundle_chunk_def)
    with t(2) show False by simp
  qed
  moreover have "chunk_loaded t ''bundle''" using c by (simp add: bundle_chunk_def)
  ultimately show ?thesis using t(1) by (intro exI [of _ t]) simp
qed

theorem no_entry_lost_witness:
  "\<exists>t. arrive 2 [bundle_chunk, vendor_chunk] (page_start []) = Some t \<and> in_cache t ''app.js''"
proof -
  from both_orders(1) obtain t where t: "arrive 2 [bundle_chunk, vendor_chunk] (page_start []) = Some t"
    "deferredModules t = []" by auto
  have "arrive 2 ([] @ bundle_chunk # [vendor_chunk]) (page_start []) = Some t" using t(1) by simp
  from no_entry_lost [OF this, of "(''app.js'', [''runtime'', ''vendor''])"] t show ?thesis
    by (simp add: entries_def bundle_chunk_def)
qed

theorem chunks_keep_page_ok_witness:
  "\<exists>r s t. boot 2 [bundle_chunk] = Some (r, s) \<and> arrive 2 [vendor_chunk] s = Some t \<and>
     ran (rt t) = [''app.js'', ''lib''] \<and> wf_graph {} (rt t)"
proof -
  have "map_option (\<lambda>x. map_option (\<lambda>t. ran (rt t)) (arrive 2 [vendor_chunk] (snd x))) (boot 2 [bundle_chunk]) =
      Some (Some [''app.js'', ''lib''])" by code_simp
  then obtain r s t where st: "boot 2 [bundle_chunk] = Some (r, s)" "arrive 2 [vendor_chunk] s = Some t"
    "ran (rt t) = [''app.js'', ''lib'']" by auto
  with chunks_keep_page_ok [OF st(1,2)] show ?thesis by blast
qed

theorem arrive_returns_witness:
  "\<exists>t. arrive 2 [bundle_chunk, vendor_chunk] (page_start []) = Some t"
  by (rule arrive_returns) (simp add: page_start_def fresh_def bundle_chunk_def vendor_chunk_def)

end
