(* ===== verification/Webpack_Affected.thy ===== *)
theory Webpack_Affected
  imports Webpack_Graph
begin

text \<open>
  \<open>getAffectedStuff\<close> of \<^verbatim>\<open>runtime.js\<close>: which modules become outdated when one module is replaced.
  The loop walks from the updated module up to its parents until a parent accepts the change. The
  lemmas characterise its result without the loop: the outdated modules are the inductive closure
  \<open>outdated\<close>, the outdated dependencies are the edges that leave it, and the walk is refused exactly
  when a module of the closure declines or is a main module.
\<close>

section \<open>The loop\<close>

datatype affected =
    SelfDeclined "mid list" mid
  | Unaccepted "mid list" mid
  | Declined "mid list" mid mid
  | Accepted mid "mid list" "mid list obj"
  | Disposed mid

type_synonym queue_item = "mid list \<times> mid"
type_synonym walk = "mid list \<times> mid list obj \<times> queue_item list"

text \<open>\<open>if (!deps[p]) deps[p] = []; addAllToSet(deps[p], is)\<close>.\<close>

definition dep_list :: "mid list obj \<Rightarrow> mid \<Rightarrow> mid list" where
  "dep_list deps p = (case map_of deps p of None \<Rightarrow> [] | Some is \<Rightarrow> is)"

definition add_deps :: "mid \<Rightarrow> mid list \<Rightarrow> mid list obj \<Rightarrow> mid list obj" where
  "add_deps p is deps = obj_set p (push_all_new (dep_list deps p) is) deps"

definition module_of :: "wp \<Rightarrow> mid \<Rightarrow> wmodule option" where
  "module_of s i = map_option (\<lambda>a. heap s ! a) (installed_at s i)"

text \<open>The loop over \<open>module.parents\<close>.\<close>

fun parents_loop :: "wp \<Rightarrow> mid \<Rightarrow> mid list \<Rightarrow> mid list \<Rightarrow> walk \<Rightarrow> affected + walk" where
  "parents_loop s i chain [] w = Inr w"
| "parents_loop s i chain (p # ps) (od, deps, queue) =
     (case module_of s p of
        None \<Rightarrow> parents_loop s i chain ps (od, deps, queue)
      | Some parent \<Rightarrow>
          if i \<in> set (declinedDependencies parent) then Inl (Declined (chain @ [p]) i p)
          else if index_of od p \<noteq> None then parents_loop s i chain ps (od, deps, queue)
          else if map_of (acceptedDependencies parent) i \<noteq> None
          then parents_loop s i chain ps (od, add_deps p [i] deps, queue)
          else parents_loop s i chain ps (od @ [p], obj_del p deps, queue @ [(chain @ [p], p)]))"

text \<open>The \<open>while\<close> loop. Every module enters the queue once, when it becomes outdated.\<close>

definition walk_size :: "wp \<Rightarrow> walk \<Rightarrow> nat" where
  "walk_size s w = (case w of (od, deps, queue) \<Rightarrow> 2 * card (fst ` set (installed s) - set od) + length queue)"

lemma module_of_installed: "module_of s p = Some m \<Longrightarrow> p \<in> fst ` set (installed s)"
  unfolding module_of_def by (cases "installed_at s p") (auto simp: installed_at_def dest!: map_of_SomeD intro: rev_image_eqI)

lemma walk_size_push:
  assumes "p \<in> fst ` set (installed s)" "p \<notin> set od"
  shows "walk_size s (od @ [p], deps', queue @ [x]) \<le> walk_size s (od, deps, queue)"
proof -
  have "fst ` set (installed s) - set (od @ [p]) = (fst ` set (installed s) - set od) - {p}" by auto
  moreover have "p \<in> fst ` set (installed s) - set od" using assms by simp
  ultimately have "Suc (card (fst ` set (installed s) - set (od @ [p]))) = card (fst ` set (installed s) - set od)"
    by (metis List.finite_set card_Suc_Diff1 finite_Diff finite_imageI)
  then show ?thesis by (simp add: walk_size_def)
qed

lemma parents_loop_size:
  "parents_loop s i chain ps w = Inr w' \<Longrightarrow> walk_size s w' \<le> walk_size s w"
proof (induction s i chain ps w rule: parents_loop.induct)
  case (2 s i chain p ps od deps queue)
  show ?case
  proof (cases "module_of s p")
    case None
    with 2 show ?thesis by simp
  next
    case (Some parent)
    note push = walk_size_push [OF module_of_installed [OF Some], of od "obj_del p deps" queue "(chain @ [p], p)" deps]
    have same: "walk_size s (od, add_deps p [i] deps, queue) = walk_size s (od, deps, queue)"
      by (simp add: walk_size_def)
    from 2 Some push same show ?thesis by (fastforce simp: js_array split: if_splits)
  qed
qed simp

function affected_loop :: "wp \<Rightarrow> mid \<Rightarrow> walk \<Rightarrow> affected" where
  "affected_loop s u (od, deps, queue) =
     (if queue = [] then Accepted u od deps
      else (let (chain, i) = last queue; rest = butlast queue in
        (case module_of s i of
           None \<Rightarrow> affected_loop s u (od, deps, rest)
         | Some m \<Rightarrow>
             if selfAccepted m \<noteq> NotAccepted then affected_loop s u (od, deps, rest)
             else if selfDeclined m then SelfDeclined chain i
             else if hot_main m then Unaccepted chain i
             else (case parents_loop s i chain (m_parents m) (od, deps, rest) of
                     Inl r \<Rightarrow> r
                   | Inr w \<Rightarrow> affected_loop s u w))))"
  by pat_completeness auto
termination
proof (relation "measure (\<lambda>(s, u, w). walk_size s w)")
  fix s :: wp and u :: mid and od :: "mid list" and deps :: "mid list obj" and queue rest :: "queue_item list"
    and x :: queue_item and chain i m and w :: walk
  assume "queue \<noteq> []" "x = last queue" "(chain, i) = x" "rest = butlast queue"
  then have "length rest < length queue" by simp
  then have rest: "walk_size s (od, deps, rest) < walk_size s (od, deps, queue)" by (simp add: walk_size_def)
  then show "((s, u, od, deps, rest), s, u, od, deps, queue) \<in> measure (\<lambda>(s, u, w). walk_size s w)"
    "((s, u, od, deps, rest), s, u, od, deps, queue) \<in> measure (\<lambda>(s, u, w). walk_size s w)" by simp_all
  assume "parents_loop s i chain (m_parents m) (od, deps, rest) = Inr w"
  then have "walk_size s w \<le> walk_size s (od, deps, rest)" by (rule parents_loop_size)
  with rest show "((s, u, w), s, u, od, deps, queue) \<in> measure (\<lambda>(s, u, w). walk_size s w)" by simp
qed simp_all

declare affected_loop.simps [simp del]

definition getAffectedStuff :: "wp \<Rightarrow> mid \<Rightarrow> affected" where
  "getAffectedStuff s u = affected_loop s u ([u], [], [([u], u)])"

section \<open>The specification\<close>

text \<open>A module passes the change on to its parents when it is in the cache and does not accept itself.\<close>

definition bubbles :: "wp \<Rightarrow> mid \<Rightarrow> bool" where
  "bubbles s i = (case module_of s i of None \<Rightarrow> False | Some m \<Rightarrow> selfAccepted m = NotAccepted)"

definition parents_of :: "wp \<Rightarrow> mid \<Rightarrow> mid list" where
  "parents_of s i = (case module_of s i of None \<Rightarrow> [] | Some m \<Rightarrow> m_parents m)"

definition accepts :: "wp \<Rightarrow> mid \<Rightarrow> mid \<Rightarrow> bool" where
  "accepts s p i = (case module_of s p of None \<Rightarrow> False | Some m \<Rightarrow> map_of (acceptedDependencies m) i \<noteq> None)"

definition declines :: "wp \<Rightarrow> mid \<Rightarrow> mid \<Rightarrow> bool" where
  "declines s p i = (case module_of s p of None \<Rightarrow> False | Some m \<Rightarrow> i \<in> set (declinedDependencies m))"

definition refuses :: "wp \<Rightarrow> mid \<Rightarrow> bool" where
  "refuses s i = (case module_of s i of None \<Rightarrow> False | Some m \<Rightarrow> selfDeclined m \<or> hot_main m)"

text \<open>The edge from a module the change bubbles out of to a cached parent.\<close>

definition up_edge :: "wp \<Rightarrow> mid \<Rightarrow> mid \<Rightarrow> bool" where
  "up_edge s i p \<longleftrightarrow> bubbles s i \<and> p \<in> set (parents_of s i) \<and> module_of s p \<noteq> None"

inductive outdated :: "wp \<Rightarrow> mid \<Rightarrow> mid \<Rightarrow> bool" for s u where
  updated: "outdated s u u"
| bubble: "outdated s u i \<Longrightarrow> up_edge s i p \<Longrightarrow> \<not> accepts s p i \<Longrightarrow> outdated s u p"

inductive_cases outdated_cases: "outdated s u i"

definition blocked :: "wp \<Rightarrow> mid \<Rightarrow> bool" where
  "blocked s i \<longleftrightarrow> bubbles s i \<and> (refuses s i \<or> (\<exists>p \<in> set (parents_of s i). declines s p i))"

definition chain_to :: "wp \<Rightarrow> mid \<Rightarrow> mid list \<Rightarrow> mid \<Rightarrow> bool" where
  "chain_to s u c i \<longleftrightarrow> c \<noteq> [] \<and> hd c = u \<and> last c = i \<and> successively (up_edge s) c"

lemma chain_snoc: "chain_to s u c i \<Longrightarrow> up_edge s i p \<Longrightarrow> chain_to s u (c @ [p]) p"
  by (auto simp: chain_to_def successively_append_iff)

lemma declines_live: "declines s p i \<Longrightarrow> module_of s p \<noteq> None"
  by (auto simp: declines_def split: option.splits)

section \<open>The invariant of the walk\<close>

text \<open>\<open>F\<close> is the set of edges (module, parent) the walk has handled.\<close>

definition walk_inv :: "wp \<Rightarrow> mid \<Rightarrow> (mid \<times> mid) set \<Rightarrow> walk \<Rightarrow> bool" where
  "walk_inv s u F w = (case w of (od, deps, queue) \<Rightarrow>
     distinct od \<and> u \<in> set od \<and> (\<forall>i \<in> set od. outdated s u i) \<and>
     (\<forall>(c, i) \<in> set queue. i \<in> set od \<and> chain_to s u c i) \<and>
     (\<forall>(i, p) \<in> F. i \<in> set od \<and> up_edge s i p \<and> \<not> declines s p i \<and> (p \<in> set od \<or> accepts s p i)) \<and>
     (\<forall>p. set (dep_list deps p) = (if p \<in> set od then {} else {i. (i, p) \<in> F})))"

lemma walk_invI:
  assumes "distinct od" "u \<in> set od" "\<And>i. i \<in> set od \<Longrightarrow> outdated s u i"
    "\<And>c i. (c, i) \<in> set queue \<Longrightarrow> i \<in> set od \<and> chain_to s u c i"
    "\<And>i p. (i, p) \<in> F \<Longrightarrow> i \<in> set od \<and> up_edge s i p \<and> \<not> declines s p i \<and> (p \<in> set od \<or> accepts s p i)"
    "\<And>p. set (dep_list deps p) = (if p \<in> set od then {} else {i. (i, p) \<in> F})"
  shows "walk_inv s u F (od, deps, queue)"
  using assms unfolding walk_inv_def by fast

lemma walk_invD:
  assumes "walk_inv s u F (od, deps, queue)"
  shows "distinct od" "u \<in> set od" "\<And>i. i \<in> set od \<Longrightarrow> outdated s u i"
    "\<And>c i. (c, i) \<in> set queue \<Longrightarrow> i \<in> set od \<and> chain_to s u c i"
    "\<And>i p. (i, p) \<in> F \<Longrightarrow> i \<in> set od \<and> up_edge s i p \<and> \<not> declines s p i \<and> (p \<in> set od \<or> accepts s p i)"
    "\<And>p. set (dep_list deps p) = (if p \<in> set od then {} else {i. (i, p) \<in> F})"
  using assms unfolding walk_inv_def by fast+

lemma walk_inv_queue: "walk_inv s u F w \<Longrightarrow> snd ` set (snd (snd w)) \<subseteq> set (fst w)"
  by (cases w) (auto simp: walk_inv_def)

lemma set_dep_list_add: "set (dep_list (add_deps p is deps) q) = (if q = p then set is \<union> set (dep_list deps p) else set (dep_list deps q))"
  by (auto simp: dep_list_def add_deps_def)

lemma dep_list_del: "dep_list (obj_del p deps) q = (if q = p then [] else dep_list deps q)"
  by (simp add: dep_list_def)

text \<open>One parent, in the three cases that go on.\<close>

lemma walk_skip:
  assumes "walk_inv s u F (od, deps, queue)" "i \<in> set od" "up_edge s i p" "\<not> declines s p i" "p \<in> set od"
  shows "walk_inv s u (insert (i, p) F) (od, deps, queue)"
proof (rule walk_invI)
  note w = walk_invD [OF assms(1)]
  show "set (dep_list deps q) = (if q \<in> set od then {} else {j. (j, q) \<in> insert (i, p) F})" for q
    using w(6) [of q] assms(5) by auto
  show "j \<in> set od \<and> up_edge s j q \<and> \<not> declines s q j \<and> (q \<in> set od \<or> accepts s q j)"
    if "(j, q) \<in> insert (i, p) F" for j q
    using that w(5) [of j q] assms(2-) by auto
qed (use walk_invD(1-4) [OF assms(1)] in auto)

lemma walk_accept:
  assumes "walk_inv s u F (od, deps, queue)" "i \<in> set od" "up_edge s i p" "\<not> declines s p i"
    "p \<notin> set od" "accepts s p i"
  shows "walk_inv s u (insert (i, p) F) (od, add_deps p [i] deps, queue)"
proof (rule walk_invI)
  show "set (dep_list (add_deps p [i] deps) q) = (if q \<in> set od then {} else {j. (j, q) \<in> insert (i, p) F})" for q
    using assms(5) walk_invD(6) [OF assms(1), of q] by (auto simp: set_dep_list_add)
  show "j \<in> set od \<and> up_edge s j q \<and> \<not> declines s q j \<and> (q \<in> set od \<or> accepts s q j)"
    if "(j, q) \<in> insert (i, p) F" for j q
    using that walk_invD(5) [OF assms(1), of j q] assms(2-) by auto
qed (use walk_invD(1-4) [OF assms(1)] in auto)

lemma walk_push:
  assumes "walk_inv s u F (od, deps, queue)" "i \<in> set od" "up_edge s i p" "\<not> declines s p i"
    "p \<notin> set od" "\<not> accepts s p i" "chain_to s u c i"
  shows "walk_inv s u (insert (i, p) F) (od @ [p], obj_del p deps, queue @ [(c @ [p], p)])"
proof (rule walk_invI)
  show "set (dep_list (obj_del p deps) q) = (if q \<in> set (od @ [p]) then {} else {j. (j, q) \<in> insert (i, p) F})" for q
    using walk_invD(6) [OF assms(1), of q] by (auto simp: dep_list_del split: if_splits)
  show "j \<in> set (od @ [p]) \<and> up_edge s j q \<and> \<not> declines s q j \<and> (q \<in> set (od @ [p]) \<or> accepts s q j)"
    if "(j, q) \<in> insert (i, p) F" for j q
    using that walk_invD(5) [OF assms(1), of j q] assms(2-) by auto
  show "outdated s u j" if "j \<in> set (od @ [p])" for j
    using that walk_invD(3) [OF assms(1)] assms(2,3,6) by (auto intro: bubble)
  show "j \<in> set (od @ [p]) \<and> chain_to s u d j" if "(d, j) \<in> set (queue @ [(c @ [p], p)])" for d j
    using that walk_invD(4) [OF assms(1)] chain_snoc [OF assms(7,3)] by auto
qed (use assms(5) walk_invD(1,2) [OF assms(1)] in auto)

text \<open>What an answer that refuses the update says.\<close>

definition refusal_ok :: "wp \<Rightarrow> mid \<Rightarrow> affected \<Rightarrow> bool" where
  "refusal_ok s u r = (case r of
     SelfDeclined c i \<Rightarrow> chain_to s u c i \<and> outdated s u i \<and> bubbles s i \<and> map_option selfDeclined (module_of s i) = Some True
   | Unaccepted c i \<Rightarrow> chain_to s u c i \<and> outdated s u i \<and> bubbles s i \<and> map_option hot_main (module_of s i) = Some True
   | Declined c i p \<Rightarrow> chain_to s u c p \<and> outdated s u i \<and> up_edge s i p \<and> declines s p i
   | _ \<Rightarrow> False)"

lemma up_edge_None [simp]: "module_of s p = None \<Longrightarrow> \<not> up_edge s i p"
  by (simp add: up_edge_def)

text \<open>What the loop over the parents \<open>ps\<close> of \<open>i\<close> leaves behind.\<close>

definition loop_post :: "wp \<Rightarrow> mid \<Rightarrow> (mid \<times> mid) set \<Rightarrow> mid \<Rightarrow> mid list \<Rightarrow> walk \<Rightarrow> affected + walk \<Rightarrow> bool" where
  "loop_post s u F i ps w r = (case r of
     Inl a \<Rightarrow> refusal_ok s u a
   | Inr w' \<Rightarrow> set (fst w) \<subseteq> set (fst w') \<and> snd ` set (snd (snd w)) \<subseteq> snd ` set (snd (snd w')) \<and>
       set (fst w') \<subseteq> set (fst w) \<union> snd ` set (snd (snd w')) \<and>
       (\<forall>p \<in> set ps. \<not> declines s p i) \<and>
       walk_inv s u (F \<union> {(i, p) | p. p \<in> set ps \<and> module_of s p \<noteq> None}) w')"

lemma loop_post_step:
  assumes "loop_post s u (insert (i, p) F) i ps (od', deps', queue') r" "\<not> declines s p i" "module_of s p \<noteq> None"
    "set od \<subseteq> set od'" "snd ` set queue \<subseteq> snd ` set queue'" "set od' \<subseteq> set od \<union> snd ` set queue'"
  shows "loop_post s u F i (p # ps) (od, deps, queue) r"
proof (cases r)
  case (Inr w')
  have "F \<union> {(i, q) | q. q \<in> set (p # ps) \<and> module_of s q \<noteq> None} =
      insert (i, p) F \<union> {(i, q) | q. q \<in> set ps \<and> module_of s q \<noteq> None}" using assms(3) by auto
  with assms(1,2) have "walk_inv s u (F \<union> {(i, q) | q. q \<in> set (p # ps) \<and> module_of s q \<noteq> None}) w'"
    "\<forall>q \<in> set (p # ps). \<not> declines s q i"
    by (simp_all only: loop_post_def Inr sum.case) simp
  moreover have "set od' \<subseteq> set (fst w')" "snd ` set queue' \<subseteq> snd ` set (snd (snd w'))"
    "set (fst w') \<subseteq> set od' \<union> snd ` set (snd (snd w'))"
    using assms(1) by (simp_all add: loop_post_def Inr)
  with assms(4-6) have "set od \<subseteq> set (fst w')" "snd ` set queue \<subseteq> snd ` set (snd (snd w'))"
    "set (fst w') \<subseteq> set od \<union> snd ` set (snd (snd w'))" by blast+
  ultimately show ?thesis by (simp only: loop_post_def Inr sum.case fst_conv snd_conv)
qed (use assms(1) in \<open>simp add: loop_post_def\<close>)

lemma loop_post_dead:
  assumes "loop_post s u F i ps w r" "module_of s p = None"
  shows "loop_post s u F i (p # ps) w r"
proof (cases r)
  case (Inr w')
  have "{(i, q) | q. q \<in> set (p # ps) \<and> module_of s q \<noteq> None} = {(i, q) | q. q \<in> set ps \<and> module_of s q \<noteq> None}"
    using assms(2) by auto
  moreover have "\<not> declines s p i" using assms(2) declines_live by blast
  ultimately show ?thesis using assms(1) by (simp only: loop_post_def Inr sum.case list.set ball_simps) simp
qed (use assms(1) in \<open>simp add: loop_post_def\<close>)

lemma parents_loop_post:
  assumes "walk_inv s u F (od, deps, queue)" "i \<in> set od" "chain_to s u c i" "bubbles s i"
    "set ps \<subseteq> set (parents_of s i)"
  shows "loop_post s u F i ps (od, deps, queue) (parents_loop s i c ps (od, deps, queue))"
  using assms
proof (induction ps arbitrary: F od deps queue)
  case Nil
  then show ?case by (simp add: loop_post_def)
next
  case (Cons p ps)
  note inv = Cons.prems(1) and i = Cons.prems(2) and chain = Cons.prems(3) and bub = Cons.prems(4)
  have sub: "set ps \<subseteq> set (parents_of s i)" using Cons.prems(5) by simp
  show ?case
  proof (cases "module_of s p")
    case None
    have L: "parents_loop s i c (p # ps) (od, deps, queue) = parents_loop s i c ps (od, deps, queue)"
      using None by simp
    show ?thesis unfolding L by (rule loop_post_dead [OF Cons.IH [OF inv i chain bub sub] None])
  next
    case (Some parent)
    have live: "module_of s p \<noteq> None" using Some by simp
    have e: "up_edge s i p" using Some bub Cons.prems(5) by (simp add: up_edge_def)
    have dec: "declines s p i \<longleftrightarrow> i \<in> set (declinedDependencies parent)" using Some by (simp add: declines_def)
    have acc: "accepts s p i \<longleftrightarrow> map_of (acceptedDependencies parent) i \<noteq> None" using Some by (simp add: accepts_def)
    consider (decl) "declines s p i" | (old) "\<not> declines s p i" "p \<in> set od"
      | (accept) "\<not> declines s p i" "p \<notin> set od" "accepts s p i"
      | (push) "\<not> declines s p i" "p \<notin> set od" "\<not> accepts s p i" by blast
    then show ?thesis
    proof cases
      case decl
      then have "parents_loop s i c (p # ps) (od, deps, queue) = Inl (Declined (c @ [p]) i p)"
        using Some dec by simp
      then show ?thesis using chain_snoc [OF chain e] walk_invD(3) [OF inv i] e decl
        by (simp add: refusal_ok_def loop_post_def)
    next
      case old
      then have L: "parents_loop s i c (p # ps) (od, deps, queue) = parents_loop s i c ps (od, deps, queue)"
        using Some dec by (simp add: js_array)
      show ?thesis unfolding L
        by (rule loop_post_step [OF Cons.IH [OF walk_skip [OF inv i e old] i chain bub sub] old(1) live]) auto
    next
      case accept
      then have L: "parents_loop s i c (p # ps) (od, deps, queue) = parents_loop s i c ps (od, add_deps p [i] deps, queue)"
        using Some dec acc by (simp add: js_array)
      show ?thesis unfolding L
        by (rule loop_post_step [OF Cons.IH [OF walk_accept [OF inv i e accept] i chain bub sub] accept(1) live]) auto
    next
      case push
      then have L: "parents_loop s i c (p # ps) (od, deps, queue) =
          parents_loop s i c ps (od @ [p], obj_del p deps, queue @ [(c @ [p], p)])"
        using Some dec acc by (simp add: js_array)
      have i': "i \<in> set (od @ [p])" using i by simp
      show ?thesis unfolding L
        by (rule loop_post_step [OF Cons.IH [OF walk_push [OF inv i e push chain] i' chain bub sub] push(1) live]) auto
    qed
  qed
qed

section \<open>The whole walk\<close>

definition done_edges :: "wp \<Rightarrow> mid set \<Rightarrow> (mid \<times> mid) set" where
  "done_edges s D = {(i, p). i \<in> D \<and> up_edge s i p}"

definition affected_ok :: "wp \<Rightarrow> mid \<Rightarrow> affected \<Rightarrow> bool" where
  "affected_ok s u r = (case r of
     Accepted v od deps \<Rightarrow> v = u \<and> distinct od \<and> set od = {i. outdated s u i} \<and>
       (\<forall>i. outdated s u i \<longrightarrow> \<not> blocked s i) \<and>
       (\<forall>p. set (dep_list deps p) = {i. outdated s u i \<and> up_edge s i p \<and> \<not> outdated s u p})
   | _ \<Rightarrow> refusal_ok s u r)"

lemma refusal_affected: "refusal_ok s u r \<Longrightarrow> affected_ok s u r"
  by (cases r) (auto simp: affected_ok_def refusal_ok_def)

lemma not_blockedI:
  assumes "module_of s i = Some m" "\<not> selfDeclined m" "\<not> hot_main m" "\<forall>p \<in> set (m_parents m). \<not> declines s p i"
  shows "\<not> blocked s i"
  using assms by (simp add: blocked_def refuses_def parents_of_def)

lemma done_edges_insert:
  "done_edges s (insert i D) = done_edges s D \<union> {(i, p) | p. up_edge s i p}"
  by (auto simp: done_edges_def)

text \<open>An exhausted queue: the modules found are closed under unaccepted edges, so they are all.\<close>

lemma walk_complete:
  assumes "walk_inv s u (done_edges s (set od)) (od, deps, [])" "\<forall>i \<in> set od. \<not> blocked s i"
  shows "affected_ok s u (Accepted u od deps)"
proof -
  note w = walk_invD [OF assms(1)]
  have all: "i \<in> set od" if "outdated s u i" for i
    using that
  proof induction
    case (bubble i p)
    then have "(i, p) \<in> done_edges s (set od)" by (simp add: done_edges_def)
    with w(5) bubble(3) show ?case by blast
  qed (rule w(2))
  then have od: "set od = {i. outdated s u i}" using w(3) by blast
  have "set (dep_list deps p) = {i. outdated s u i \<and> up_edge s i p \<and> \<not> outdated s u p}" for p
    using w(6) [of p] by (auto simp: od done_edges_def)
  with w(1) od assms(2) show ?thesis by (simp add: affected_ok_def)
qed

lemma queue_union:
  "X = D \<union> R \<Longrightarrow> X \<subseteq> Y \<Longrightarrow> R \<subseteq> Q \<Longrightarrow> Y \<subseteq> X \<union> Q \<Longrightarrow> Q \<subseteq> Y \<Longrightarrow> Y = D \<union> Q"
  by blast

lemma affected_loop_ok:
  assumes "walk_inv s u (done_edges s D) w" "set (fst w) = D \<union> snd ` set (snd (snd w))"
    "\<forall>i \<in> D. \<not> blocked s i"
  shows "affected_ok s u (affected_loop s u w)"
  using assms
proof (induction "walk_size s w" arbitrary: w D rule: less_induct)
  case less
  obtain od deps queue where w: "w = (od, deps, queue)" by (cases w)
  note inv = less.prems(1) [unfolded w]
  show ?case
  proof (cases "queue = []")
    case True
    with less.prems(2) w have "D = set od" by simp
    with inv less.prems(3) True walk_complete show ?thesis by (simp add: w affected_loop.simps)
  next
    case False
    obtain c i where l: "last queue = (c, i)" by (cases "last queue")
    define rest where "rest = butlast queue"
    have q: "queue = rest @ [(c, i)]" using False l append_butlast_last_id [OF False] by (simp add: rest_def)
    have small: "walk_size s (od, deps, rest) < walk_size s w" by (simp add: w q walk_size_def)
    have i: "i \<in> set od" and chain: "chain_to s u c i" using walk_invD(4) [OF inv, of c i] by (simp_all add: q)
    have step: "affected_loop s u w = (case module_of s i of
           None \<Rightarrow> affected_loop s u (od, deps, rest)
         | Some m \<Rightarrow>
             if selfAccepted m \<noteq> NotAccepted then affected_loop s u (od, deps, rest)
             else if selfDeclined m then SelfDeclined c i
             else if hot_main m then Unaccepted c i
             else (case parents_loop s i c (m_parents m) (od, deps, rest) of
                     Inl r \<Rightarrow> r
                   | Inr w \<Rightarrow> affected_loop s u w))"
      unfolding w q by (subst affected_loop.simps) simp
    have winv: "walk_inv s u (done_edges s D) (od, deps, rest)"
    proof (rule walk_invI)
      show "j \<in> set od \<and> chain_to s u d j" if "(d, j) \<in> set rest" for d j
        using that walk_invD(4) [OF inv, of d j] by (simp add: q)
    qed (use walk_invD(1,2,3,5,6) [OF inv] in auto)
    have od: "set od = insert i D \<union> snd ` set rest" using less.prems(2) by (auto simp: w q)
    have quiet: "affected_ok s u (affected_loop s u (od, deps, rest))" if "\<not> bubbles s i"
    proof (rule less.hyps [OF small, of "insert i D"])
      have "done_edges s (insert i D) = done_edges s D" using that by (auto simp: done_edges_def up_edge_def)
      with winv show "walk_inv s u (done_edges s (insert i D)) (od, deps, rest)" by simp
      show "\<forall>j \<in> insert i D. \<not> blocked s j" using less.prems(3) that by (simp add: blocked_def)
    qed (simp add: od)
    show ?thesis
    proof (cases "module_of s i")
      case None
      then show ?thesis using quiet step by (simp add: bubbles_def)
    next
      case (Some m)
      show ?thesis
      proof (cases "selfAccepted m = NotAccepted")
        case False
        then show ?thesis using quiet step Some by (simp add: bubbles_def)
      next
        case True
        then have b: "bubbles s i" using Some by (simp add: bubbles_def)
        have out: "outdated s u i" using walk_invD(3) [OF inv i] .
        consider (sd) "selfDeclined m" | (main) "\<not> selfDeclined m" "hot_main m"
          | (free) "\<not> selfDeclined m" "\<not> hot_main m" by blast
        then show ?thesis
        proof cases
          case sd
          then show ?thesis using step Some True chain out b
            by (simp add: affected_ok_def refusal_ok_def)
        next
          case main
          then show ?thesis using step Some True chain out b
            by (simp add: affected_ok_def refusal_ok_def)
        next
          case free
          have par: "m_parents m = parents_of s i" using Some by (simp add: parents_of_def)
          let ?r = "parents_loop s i c (m_parents m) (od, deps, rest)"
          have st: "affected_loop s u w = (case ?r of Inl r \<Rightarrow> r | Inr w \<Rightarrow> affected_loop s u w)"
            using step Some True free by simp
          have pl: "loop_post s u (done_edges s D) i (m_parents m) (od, deps, rest) ?r"
            by (rule parents_loop_post [OF winv i chain b]) (simp add: par)
          show ?thesis
          proof (cases ?r)
            case (Inl r)
            with pl have "refusal_ok s u r" by (simp add: loop_post_def)
            with st Inl refusal_affected show ?thesis by simp
          next
            case (Inr w')
            have post: "set od \<subseteq> set (fst w')" "snd ` set rest \<subseteq> snd ` set (snd (snd w'))"
              "set (fst w') \<subseteq> set od \<union> snd ` set (snd (snd w'))" "\<forall>p \<in> set (m_parents m). \<not> declines s p i"
              "walk_inv s u (done_edges s D \<union> {(i, p) | p. p \<in> set (m_parents m) \<and> module_of s p \<noteq> None}) w'"
              using pl unfolding loop_post_def Inr sum.case fst_conv snd_conv by blast+
            have "walk_size s w' < walk_size s w" using parents_loop_size [OF Inr] small by simp
            then have "affected_ok s u (affected_loop s u w')"
            proof (rule less.hyps [of _ "insert i D"])
              have "{(i, p) | p. p \<in> set (m_parents m) \<and> module_of s p \<noteq> None} = {(i, p) | p. up_edge s i p}"
                using b by (auto simp: up_edge_def par)
              with post(5) show inv': "walk_inv s u (done_edges s (insert i D)) w'"
                by (simp only: done_edges_insert)
              from inv' have qsub: "snd ` set (snd (snd w')) \<subseteq> set (fst w')" by (rule walk_inv_queue)
              show "set (fst w') = insert i D \<union> snd ` set (snd (snd w'))"
                by (rule queue_union [OF od post(1-3) qsub])
              have "\<not> blocked s i" by (rule not_blockedI [OF Some free post(4)])
              with less.prems(3) show "\<forall>j \<in> insert i D. \<not> blocked s j" by simp
            qed
            with st Inr show ?thesis by simp
          qed
        qed
      qed
    qed
  qed
qed

lemma getAffectedStuff_ok: "affected_ok s u (getAffectedStuff s u)"
  unfolding getAffectedStuff_def
proof (rule affected_loop_ok [of s u "{}"])
  show "walk_inv s u (done_edges s {}) ([u], [], [([u], u)])"
    by (rule walk_invI) (auto simp: done_edges_def dep_list_def chain_to_def intro: updated)
qed simp_all

section \<open>Properties of the update propagation\<close>

lemma refusal_blocked: "refusal_ok s u r \<Longrightarrow> \<exists>i. outdated s u i \<and> blocked s i"
  by (auto simp: refusal_ok_def blocked_def refuses_def up_edge_def split: affected.splits)

lemma affected_refused: "refusal_ok s u (getAffectedStuff s u) \<or> (\<exists>od deps. getAffectedStuff s u = Accepted u od deps)"
  using getAffectedStuff_ok [of s u] by (cases "getAffectedStuff s u") (auto simp: affected_ok_def)

text \<open>A graph for the examples: \<open>app\<close> requires \<open>page\<close> and \<open>style\<close>, \<open>page\<close> requires \<open>style\<close>; \<open>app\<close> accepts
  \<open>page\<close>, so a change of \<open>page\<close> stops there, and a change of \<open>style\<close> reaches the main module \<open>app\<close>.\<close>

definition ui_app :: "action list obj" where
  "ui_app = [(''app'', [Require ''page'', Require ''style'', AcceptDeps [''page''] None]),
     (''page'', [Require ''style'']), (''style'', [])]"

definition ui_loaded :: wp where
  "ui_loaded = (case require 3 ''app'' (fresh ui_app) of Some (_, s) \<Rightarrow> s | None \<Rightarrow> fresh [])"

lemma ui_affected:
  "getAffectedStuff ui_loaded ''page'' = Accepted ''page'' [''page''] [(''app'', [''page''])]"
  "getAffectedStuff ui_loaded ''style'' = Unaccepted [''style'', ''app''] ''app''"
  by code_simp+

text \<open>C3: An accepted update: the outdated modules are exactly the modules reachable from the updated
  one over unaccepted parent links, each once; none of them declines or is a main module; and the
  outdated dependencies are exactly the links from an outdated module to a parent that is not.\<close>

theorem accepted_update_is_closure:
  assumes "getAffectedStuff s u = Accepted v od deps"
  shows "v = u \<and> distinct od \<and> set od = {i. outdated s u i} \<and> (\<forall>i. outdated s u i \<longrightarrow> \<not> blocked s i) \<and>
    (\<forall>p. set (dep_list deps p) = {i. outdated s u i \<and> up_edge s i p \<and> \<not> outdated s u p})"
  using getAffectedStuff_ok [of s u] unfolding assms affected_ok_def by simp

theorem accepted_update_is_closure_witness:
  "set [''page''] = {i. outdated ui_loaded ''page'' i} \<and>
     set (dep_list [(''app'', [''page''])] ''app'') =
       {i. outdated ui_loaded ''page'' i \<and> up_edge ui_loaded i ''app'' \<and> \<not> outdated ui_loaded ''page'' ''app''}"
  using accepted_update_is_closure [OF ui_affected(1)] by blast

text \<open>An update is accepted if and only if no module that becomes outdated refuses it, whatever the
  order in which the parents were registered.\<close>

theorem update_accepted_iff:
  "(\<exists>od deps. getAffectedStuff s u = Accepted u od deps) \<longleftrightarrow> \<not> (\<exists>i. outdated s u i \<and> blocked s i)"
proof
  assume "\<exists>od deps. getAffectedStuff s u = Accepted u od deps"
  then obtain od deps where "getAffectedStuff s u = Accepted u od deps" by blast
  with getAffectedStuff_ok [of s u] show "\<not> (\<exists>i. outdated s u i \<and> blocked s i)"
    by (auto simp: affected_ok_def)
next
  assume "\<not> (\<exists>i. outdated s u i \<and> blocked s i)"
  with affected_refused [of s u] refusal_blocked show "\<exists>od deps. getAffectedStuff s u = Accepted u od deps"
    by blast
qed

text \<open>C11: An update that is refused as unaccepted names a real reason: a main module that the change
  reaches without being accepted, with the chain of parents that leads there from the updated module.\<close>

theorem unaccepted_names_a_main_module:
  assumes "getAffectedStuff s u = Unaccepted chain i"
  shows "hd chain = u \<and> last chain = i \<and> successively (up_edge s) chain \<and> outdated s u i \<and>
    (\<exists>m. module_of s i = Some m \<and> hot_main m \<and> selfAccepted m = NotAccepted)"
  using getAffectedStuff_ok [of s u] unfolding assms
  by (auto simp: affected_ok_def refusal_ok_def chain_to_def bubbles_def split: option.splits)

theorem unaccepted_names_a_main_module_witness:
  "successively (up_edge ui_loaded) [''style'', ''app''] \<and> outdated ui_loaded ''style'' ''app''"
  using unaccepted_names_a_main_module [OF ui_affected(2)] by blast

end
