(* ===== verification/Webpack_Apply.thy ===== *)
theory Webpack_Apply
  imports Webpack_Chunks Webpack_Affected
begin

text \<open>
  \<open>hotApply\<close> of \<^verbatim>\<open>runtime.js\<close>, the application of a downloaded update: compute what is outdated,
  dispose it, install the new code, run the accept callbacks and reload the self-accepted modules.

  The hooks of the options and the status handlers are observers: their calls are recorded in the
  trace. Callbacks of modules are module code and run through \<open>exec\<close>; \<open>n\<close> bounds the nesting of
  module bodies and \<open>k\<close> the number of dispose handlers of one module, because a handler may register
  another one while the loop over them runs. Ids that JavaScript reads as numbers are outside the
  model (module ids of the application are paths), so \<open>toModuleId\<close> is the identity.
\<close>

section \<open>State\<close>

record options =
  ignoreDeclined :: bool
  ignoreUnaccepted :: bool
  ignoreErrored :: bool
  onDeclined :: bool
  onUnaccepted :: bool
  onAccepted :: bool
  onDisposed :: bool
  onErrored :: bool

definition no_options :: options where
  "no_options = \<lparr>ignoreDeclined = False, ignoreUnaccepted = False, ignoreErrored = False, onDeclined = False,
     onUnaccepted = False, onAccepted = False, onDisposed = False, onErrored = False\<rparr>"

text \<open>How a call ends: the promise is resolved or rejected, or the call itself throws.\<close>

datatype apply_result = Applied "mid list" | Rejected err | Threw err

text \<open>The manifest of an update: its hash, and which chunks it has.\<close>

record manifest =
  mf_hash :: string
  mf_chunks :: "bool obj"

text \<open>The reactions the runtime has queued on resolved or rejected promises, and how the promise of a check is
  settled; promises are numbered. The reaction on the manifest has what was read: nothing when reading it failed,
  \<open>Some None\<close> when it is a falsy JSON value.\<close>

datatype job = ManifestLoaded nat "manifest option option" | ApplyUpdate nat

datatype outcome = NoUpdate | Modules "mid list" | Failed err

record hmr = page +
  hotStatus :: hot_status
  hotStatusHandlers :: "nat list"
  hotUpdate :: "action list option obj"
  hotUpdateNewHash :: string
  hotCurrentHash :: string
  hotAvailableFilesMap :: "bool obj"
  hotRequestedFilesMap :: "bool obj"
  hotWaitingFilesMap :: "bool obj"
  hotWaitingFiles :: int
  hotChunksLoading :: int
  hotDeferred :: "nat option"
  hotApplyOnUpdate :: "options option"
  jobs :: "job list"
  settled :: "(nat \<times> outcome) list"
  next_promise :: nat

definition upd_rt :: "(wp \<Rightarrow> wp) \<Rightarrow> hmr \<Rightarrow> hmr" where
  "upd_rt f s = s\<lparr>rt := f (rt s)\<rparr>"

definition hotSetStatus :: "hot_status \<Rightarrow> hmr \<Rightarrow> hmr" where
  "hotSetStatus st s = upd_rt (\<lambda>w. w\<lparr>trace := trace w @ map (\<lambda>h. Status h st) (hotStatusHandlers s)\<rparr>)
     (s\<lparr>hotStatus := st\<rparr>)"

definition hook :: "bool \<Rightarrow> string \<Rightarrow> mid \<Rightarrow> hmr \<Rightarrow> hmr" where
  "hook on name i s = (if on then upd_rt (emit (Hook name i)) s else s)"

section \<open>What is outdated\<close>

text \<open>The code of an applied update; \<open>None\<close> is \<open>warnUnexpectedRequire\<close>, which reads the variable
  \<open>result\<close> when it is called, that is, the result of the last update.\<close>

record plan =
  outdatedModules :: "mid list"
  outdatedDependencies :: "mid list obj"
  appliedUpdate :: "action list option obj"
  last_id :: mid

definition no_plan :: plan where
  "no_plan = \<lparr>outdatedModules = [], outdatedDependencies = [], appliedUpdate = [], last_id = []\<rparr>"

definition chainInfo :: "mid list \<Rightarrow> string" where
  "chainInfo chain = CHR 0x0A # ''Update propagation: '' @ join_with '' -> '' chain"

definition result_id :: "affected \<Rightarrow> mid" where
  "result_id r = (case r of SelfDeclined _ i \<Rightarrow> i | Unaccepted _ i \<Rightarrow> i | Declined _ i _ \<Rightarrow> i
     | Accepted i _ _ \<Rightarrow> i | Disposed i \<Rightarrow> i)"

definition merge_deps :: "mid list obj \<Rightarrow> mid list obj \<Rightarrow> mid list obj" where
  "merge_deps deps new = foldl (\<lambda>acc (p, is). add_deps p is acc) deps new"

text \<open>The \<open>switch\<close> on the type of the result: the abort error, if any.\<close>

definition abort_error :: "options \<Rightarrow> mid \<Rightarrow> affected \<Rightarrow> err option" where
  "abort_error o' u r = (case r of
     SelfDeclined c i \<Rightarrow> if ignoreDeclined o' then None
       else Some (''Aborted because of self decline: '' @ i @ chainInfo c)
   | Declined c i p \<Rightarrow> if ignoreDeclined o' then None
       else Some (''Aborted because of declined dependency: '' @ i @ '' in '' @ p @ chainInfo c)
   | Unaccepted c i \<Rightarrow> if ignoreUnaccepted o' then None
       else Some (''Aborted because '' @ u @ '' is not accepted'' @ chainInfo c)
   | _ \<Rightarrow> None)"

definition result_hook :: "options \<Rightarrow> affected \<Rightarrow> hmr \<Rightarrow> hmr" where
  "result_hook o' r = (case r of
     SelfDeclined _ i \<Rightarrow> hook (onDeclined o') ''onDeclined'' i
   | Declined _ i _ \<Rightarrow> hook (onDeclined o') ''onDeclined'' i
   | Unaccepted _ i \<Rightarrow> hook (onUnaccepted o') ''onUnaccepted'' i
   | Accepted i _ _ \<Rightarrow> hook (onAccepted o') ''onAccepted'' i
   | Disposed i \<Rightarrow> hook (onDisposed o') ''onDisposed'' i)"

definition add_to_plan :: "mid \<Rightarrow> action list option \<Rightarrow> affected \<Rightarrow> plan \<Rightarrow> plan" where
  "add_to_plan u code r p = (case r of
     Accepted _ od deps \<Rightarrow> p\<lparr>appliedUpdate := obj_set u code (appliedUpdate p),
       outdatedModules := push_all_new (outdatedModules p) od,
       outdatedDependencies := merge_deps (outdatedDependencies p) deps\<rparr>
   | Disposed i \<Rightarrow> p\<lparr>outdatedModules := push_all_new (outdatedModules p) [i],
       appliedUpdate := obj_set u None (appliedUpdate p)\<rparr>
   | _ \<Rightarrow> p)"

fun plan_loop :: "options \<Rightarrow> action list option obj \<Rightarrow> plan \<Rightarrow> hmr \<Rightarrow> (err + plan) \<times> hmr" where
  "plan_loop o' [] p s = (Inr p, s)"
| "plan_loop o' ((u, code) # us) p s =
     (let r = (case code of None \<Rightarrow> Disposed u | Some _ \<Rightarrow> getAffectedStuff (rt s) u);
          s1 = result_hook o' r s
      in case abort_error o' u r of
           Some e \<Rightarrow> (Inl e, hotSetStatus Abort s1)
         | None \<Rightarrow> plan_loop o' us (add_to_plan u code r (p\<lparr>last_id := result_id r\<rparr>)) s1)"

text \<open>The self-accepted modules among the outdated ones, with the module object that holds the error
  handler.\<close>

definition self_accepted :: "wp \<Rightarrow> mid list \<Rightarrow> (mid \<times> addr \<times> self_accept) list" where
  "self_accepted w od = List.map_filter (\<lambda>i. case installed_at w i of None \<Rightarrow> None
     | Some a \<Rightarrow> if selfAccepted (heap w ! a) = NotAccepted then None
                 else Some (i, a, selfAccepted (heap w ! a))) od"

section \<open>Disposing\<close>

text \<open>The loop over \<open>disposeHandlers\<close>, whose length is read again in every round.\<close>

fun run_handlers :: "nat \<Rightarrow> nat \<Rightarrow> addr \<Rightarrow> nat \<Rightarrow> wp \<Rightarrow> (err option \<times> wp) option" where
  "run_handlers k n a j w =
     (if j < length (disposeHandlers (heap w ! a)) then
        (case k of
           0 \<Rightarrow> None
         | Suc k' \<Rightarrow>
             (case exec n a (fn_code (disposeHandlers (heap w ! a) ! j)) w of
                None \<Rightarrow> None
              | Some (Some e, w1) \<Rightarrow> Some (Some e, w1)
              | Some (None, w1) \<Rightarrow> run_handlers k' n a (Suc j) w1))
      else Some (None, w))"

declare run_handlers.simps [simp del]

definition drop_parent :: "mid \<Rightarrow> wp \<Rightarrow> mid \<Rightarrow> wp" where
  "drop_parent i w c = (case installed_at w c of None \<Rightarrow> w
     | Some b \<Rightarrow> upd_mod b (\<lambda>m. m\<lparr>m_parents := splice_first i (m_parents m)\<rparr>) w)"

text \<open>After its handlers: the data is kept, the module is switched off, leaves the cache, and its
  children forget it.\<close>

definition retire :: "mid \<Rightarrow> addr \<Rightarrow> wp \<Rightarrow> wp" where
  "retire i a w =
     (let w1 = w\<lparr>hotCurrentModuleData := obj_set i (cur_data w) (hotCurrentModuleData w)\<rparr>;
          w2 = upd_mod a (\<lambda>m. m\<lparr>hot_active := False\<rparr>) w1;
          w3 = w2\<lparr>installed := obj_del i (installed w2)\<rparr>
      in foldl (drop_parent i) w3 (m_children (heap w3 ! a)))"

text \<open>The queue is popped at its end: the list is the queue reversed.\<close>

fun dispose_loop :: "nat \<Rightarrow> nat \<Rightarrow> mid list \<Rightarrow> mid list obj \<Rightarrow> wp \<Rightarrow> (err option \<times> mid list obj \<times> wp) option" where
  "dispose_loop k n [] deps w = Some (None, deps, w)"
| "dispose_loop k n (i # is) deps w =
     (case installed_at w i of
        None \<Rightarrow> dispose_loop k n is deps w
      | Some a \<Rightarrow>
          (case run_handlers k n a 0 (w\<lparr>cur_data := []\<rparr>) of
             None \<Rightarrow> None
           | Some (Some e, w1) \<Rightarrow> Some (Some e, deps, w1)
           | Some (None, w1) \<Rightarrow> dispose_loop k n is (obj_del i deps) (retire i a w1)))"

text \<open>Remove outdated dependencies from the children of the modules that accepted them.\<close>

definition unlink :: "wp \<Rightarrow> mid \<times> mid list \<Rightarrow> wp" where
  "unlink w pd = (case installed_at w (fst pd) of None \<Rightarrow> w
     | Some b \<Rightarrow> upd_mod b (\<lambda>m. m\<lparr>m_children := foldl (\<lambda>cs d. splice_first d cs) (m_children m) (snd pd)\<rparr>) w)"

section \<open>Applying\<close>

definition warn_code :: "mid \<Rightarrow> action list" where
  "warn_code i = [Log (''[HMR] unexpected require('' @ i @ '') to disposed module'')]"

definition insert_code :: "plan \<Rightarrow> wp \<Rightarrow> wp" where
  "insert_code p w = w\<lparr>modules := foldl (\<lambda>ms (i, code).
     obj_set i (case code of None \<Rightarrow> warn_code (last_id p) | Some c \<Rightarrow> c) ms) (modules w) (appliedUpdate p)\<rparr>"

text \<open>\<open>if (!options.ignoreErrored) if (!error) error = err;\<close>\<close>

definition note_error :: "options \<Rightarrow> err \<Rightarrow> err option \<Rightarrow> err option" where
  "note_error o' e error = (if ignoreErrored o' then error else case error of None \<Rightarrow> Some e | Some x \<Rightarrow> Some x)"

text \<open>The callbacks of one accepting module, without repeated function objects; \<open>None\<close> is the empty
  function, made anew for each \<open>accept\<close>.\<close>

fun collect_callbacks :: "fn option obj \<Rightarrow> mid list \<Rightarrow> fn option list \<Rightarrow> fn option list" where
  "collect_callbacks acc [] cbs = cbs"
| "collect_callbacks acc (d # ds) cbs =
     (case map_of acc d of
        None \<Rightarrow> collect_callbacks acc ds cbs
      | Some cb \<Rightarrow> if cb \<noteq> None \<and> index_of cbs cb \<noteq> None then collect_callbacks acc ds cbs
                   else collect_callbacks acc ds (cbs @ [cb]))"

fun run_callbacks ::
  "nat \<Rightarrow> options \<Rightarrow> mid \<Rightarrow> addr \<Rightarrow> fn option list \<Rightarrow> err option \<Rightarrow> hmr \<Rightarrow> (err option \<times> hmr) option" where
  "run_callbacks n o' i a [] error s = Some (error, s)"
| "run_callbacks n o' i a (cb # cbs) error s =
     (case cb of
        None \<Rightarrow> run_callbacks n o' i a cbs error s
      | Some f \<Rightarrow>
          (case exec n a (fn_code f) (rt s) of
             None \<Rightarrow> None
           | Some (None, w) \<Rightarrow> run_callbacks n o' i a cbs error (s\<lparr>rt := w\<rparr>)
           | Some (Some e, w) \<Rightarrow> run_callbacks n o' i a cbs (note_error o' e error)
               (hook (onErrored o') ''accept-errored'' i (s\<lparr>rt := w\<rparr>))))"

fun accept_loop :: "nat \<Rightarrow> options \<Rightarrow> mid list obj \<Rightarrow> err option \<Rightarrow> hmr \<Rightarrow> (err option \<times> hmr) option" where
  "accept_loop n o' [] error s = Some (error, s)"
| "accept_loop n o' ((i, ds) # rest) error s =
     (case installed_at (rt s) i of
        None \<Rightarrow> accept_loop n o' rest error s
      | Some a \<Rightarrow>
          (case run_callbacks n o' i a (collect_callbacks (acceptedDependencies (heap (rt s) ! a)) ds []) error s of
             None \<Rightarrow> None
           | Some (error1, s1) \<Rightarrow> accept_loop n o' rest error1 s1))"

text \<open>Reloading the self-accepted modules. When the error handler throws too, the last assignment
  \<open>if (!error) error = err\<close> is not guarded by \<open>ignoreErrored\<close>.\<close>

fun reload_loop :: "nat \<Rightarrow> options \<Rightarrow> (mid \<times> addr \<times> self_accept) list \<Rightarrow> err option \<Rightarrow> hmr \<Rightarrow> (err option \<times> hmr) option" where
  "reload_loop n o' [] error s = Some (error, s)"
| "reload_loop n o' ((i, a, h) # items) error s =
     (case require n i ((rt s)\<lparr>hotCurrentParents := [i]\<rparr>) of
        None \<Rightarrow> None
      | Some (Inr b, w) \<Rightarrow> reload_loop n o' items error (s\<lparr>rt := w\<rparr>)
      | Some (Inl e, w) \<Rightarrow>
          (case h of
             AcceptedFn f \<Rightarrow>
               (case exec n a (fn_code f) w of
                  None \<Rightarrow> None
                | Some (None, w1) \<Rightarrow> reload_loop n o' items error (s\<lparr>rt := w1\<rparr>)
                | Some (Some e2, w1) \<Rightarrow>
                    reload_loop n o' items
                      (case note_error o' e2 error of None \<Rightarrow> Some e | Some x \<Rightarrow> Some x)
                      (hook (onErrored o') ''self-accept-error-handler-errored'' i (s\<lparr>rt := w1\<rparr>)))
           | _ \<Rightarrow> reload_loop n o' items (note_error o' e error)
                    (hook (onErrored o') ''self-accept-errored'' i (s\<lparr>rt := w\<rparr>))))"

section \<open>hotApply\<close>

definition dispose_chunks :: "hmr \<Rightarrow> hmr" where
  "dispose_chunks s = foldl (\<lambda>s (c, b). if b then s else hotDisposeChunk c s) s (hotAvailableFilesMap s)"

text \<open>The phases after a plan has been made.\<close>

definition apply_phase :: "nat \<Rightarrow> options \<Rightarrow> plan \<Rightarrow> mid list obj \<Rightarrow> (mid \<times> addr \<times> self_accept) list \<Rightarrow> hmr \<Rightarrow> (apply_result \<times> hmr) option" where
  "apply_phase n o' p deps items s =
     (let s1 = upd_rt (\<lambda>w. foldl unlink w deps) s;
          s2 = hotSetStatus Apply s1;
          s3 = upd_rt (insert_code p) (s2\<lparr>hotCurrentHash := hotUpdateNewHash s2\<rparr>)
      in case accept_loop n o' deps None s3 of
           None \<Rightarrow> None
         | Some (error, s4) \<Rightarrow>
             (case reload_loop n o' items error s4 of
                None \<Rightarrow> None
              | Some (Some e, s5) \<Rightarrow> Some (Rejected e, hotSetStatus Fail s5)
              | Some (None, s5) \<Rightarrow> Some (Applied (outdatedModules p), hotSetStatus Idle s5)))"

definition dispose_phase :: "nat \<Rightarrow> nat \<Rightarrow> options \<Rightarrow> plan \<Rightarrow> hmr \<Rightarrow> (apply_result \<times> hmr) option" where
  "dispose_phase k n o' p s =
     (let items = self_accepted (rt s) (outdatedModules p);
          s1 = dispose_chunks (hotSetStatus Dispose s)
      in case dispose_loop k n (rev (outdatedModules p)) (outdatedDependencies p) (rt s1) of
           None \<Rightarrow> None
         | Some (Some e, _, w) \<Rightarrow> Some (Threw e, s1\<lparr>rt := w\<rparr>)
         | Some (None, deps, w) \<Rightarrow> apply_phase n o' p deps items (s1\<lparr>rt := w\<rparr>))"

definition hotApply :: "nat \<Rightarrow> nat \<Rightarrow> options \<Rightarrow> hmr \<Rightarrow> (apply_result \<times> hmr) option" where
  "hotApply k n o' s =
     (if hotStatus s \<noteq> Ready then Some (Threw ''apply() is only allowed in ready status'', s)
      else (case plan_loop o' (hotUpdate s) no_plan s of
              (Inl e, s1) \<Rightarrow> Some (Rejected e, s1)
            | (Inr p, s1) \<Rightarrow> dispose_phase k n o' p s1))"

end
