(* ===== verification/Webpack_Update.thy ===== *)
theory Webpack_Update
  imports Webpack_Apply
begin

text \<open>
  What \<open>hotApply\<close> guarantees: an update is applied as a whole or not at all, every outdated module
  object leaves the cache for good, and when outdated modules are accepted by their parents the
  graph of modules stays well-formed. The examples at the end show where it does not.
\<close>

section \<open>The plan only reads the module graph\<close>

lemma parents_loop_cong:
  "module_of s = module_of t \<Longrightarrow> parents_loop s i c ps w = parents_loop t i c ps w"
proof (induction s i c ps w rule: parents_loop.induct)
  case (2 s i c p ps od deps queue)
  then show ?case by (cases "module_of t p") simp_all
qed simp

lemma affected_loop_cong:
  assumes "module_of s = module_of t" "installed s = installed t"
  shows "affected_loop s u w = affected_loop t u w"
proof (induction "walk_size s w" arbitrary: w rule: less_induct)
  case less
  obtain od deps queue where w: "w = (od, deps, queue)" by (cases w)
  show ?case
  proof (cases "queue = []")
    case True
    then show ?thesis by (simp add: w affected_loop.simps)
  next
    case False
    obtain c i where l: "last queue = (c, i)" by (cases "last queue")
    have small: "walk_size s (od, deps, butlast queue) < walk_size s w"
      using False by (simp add: w walk_size_def)
    have r: "affected_loop s u (od, deps, butlast queue) = affected_loop t u (od, deps, butlast queue)"
      by (rule less.hyps [OF small])
    have p: "affected_loop s u w' = affected_loop t u w'"
      if "parents_loop t i c ps (od, deps, butlast queue) = Inr w'" for w' ps
    proof (rule less.hyps)
      have "walk_size s w' \<le> walk_size s (od, deps, butlast queue)"
        using that parents_loop_cong [OF assms(1)] by (intro parents_loop_size) simp
      with small show "walk_size s w' < walk_size s w" by simp
    qed
    show ?thesis
      unfolding w affected_loop.simps [of s u od deps queue] affected_loop.simps [of t u od deps queue]
        l Let_def prod.case assms(1) parents_loop_cong [OF assms(1)] r
      by (auto split: option.splits sum.splits simp: p)
  qed
qed

lemma getAffectedStuff_trace [simp]: "getAffectedStuff (w\<lparr>trace := tr\<rparr>) u = getAffectedStuff w u"
  unfolding getAffectedStuff_def
  by (rule affected_loop_cong) (simp_all add: module_of_def installed_at_def fun_eq_iff)

text \<open>Two states that differ in the trace only.\<close>

definition same_but_trace :: "hmr \<Rightarrow> hmr \<Rightarrow> bool" where
  "same_but_trace s t \<longleftrightarrow> (\<exists>tr. t = s\<lparr>rt := (rt s)\<lparr>trace := tr\<rparr>\<rparr>)"

lemma same_refl: "same_but_trace s s"
  by (simp add: same_but_trace_def exI [of _ "trace (rt s)"])

lemma same_trans: "same_but_trace s t \<Longrightarrow> same_but_trace t u \<Longrightarrow> same_but_trace s u"
  by (auto simp: same_but_trace_def)

lemma same_hook: "same_but_trace s (hook b nm i s)"
  by (simp add: hook_def same_refl) (auto simp: same_but_trace_def upd_rt_def emit_def)

lemma same_result_hook: "same_but_trace s (result_hook o' r s)"
  by (cases r) (simp_all add: result_hook_def same_hook)

lemma same_affected: "same_but_trace s t \<Longrightarrow> getAffectedStuff (rt t) u = getAffectedStuff (rt s) u"
  by (auto simp: same_but_trace_def)

lemma status_abort: "\<exists>tr. hotSetStatus st s = s\<lparr>hotStatus := st, rt := (rt s)\<lparr>trace := tr\<rparr>\<rparr>"
  by (auto simp: hotSetStatus_def upd_rt_def)

lemma plan_loop_same:
  "plan_loop o' us p s = (r, t) \<Longrightarrow>
   (case r of Inr q \<Rightarrow> same_but_trace s t
    | Inl e \<Rightarrow> \<exists>tr. t = s\<lparr>hotStatus := Abort, rt := (rt s)\<lparr>trace := tr\<rparr>\<rparr>)"
proof (induction us arbitrary: p s)
  case (Cons x us)
  obtain u code where x: "x = (u, code)" by (cases x)
  define r0 where "r0 = (case code of None \<Rightarrow> Disposed u | Some _ \<Rightarrow> getAffectedStuff (rt s) u)"
  have h: "same_but_trace s (result_hook o' r0 s)" by (rule same_result_hook)
  show ?case
  proof (cases "abort_error o' u r0")
    case None
    with Cons.prems have "plan_loop o' us (add_to_plan u code r0 (p\<lparr>last_id := result_id r0\<rparr>))
        (result_hook o' r0 s) = (r, t)" by (simp add: x r0_def Let_def)
    from Cons.IH [OF this] h show ?thesis
      by (cases r) (auto simp: same_but_trace_def)
  next
    case (Some e)
    with Cons.prems have "r = Inl e" "t = hotSetStatus Abort (result_hook o' r0 s)"
      by (simp_all add: x r0_def Let_def)
    with h status_abort [of Abort "result_hook o' r0 s"] show ?thesis
      by (auto simp: same_but_trace_def)
  qed
qed (auto simp: same_refl)

section \<open>What the plan contains\<close>

lemma set_merge_deps: "set (dep_list deps q) \<subseteq> set (dep_list (merge_deps deps new) q)"
proof (induction new arbitrary: deps)
  case (Cons x new)
  have "set (dep_list deps q) \<subseteq> set (dep_list (add_deps (fst x) (snd x) deps) q)"
    by (simp add: set_dep_list_add)
  with Cons.IH [of "add_deps (fst x) (snd x) deps"] show ?case
    by (simp add: merge_deps_def case_prod_beta)
qed (simp add: merge_deps_def)

lemma set_merge_deps_new: "(q, is) \<in> set new \<Longrightarrow> set is \<subseteq> set (dep_list (merge_deps deps new) q)"
proof (induction new arbitrary: deps)
  case (Cons x new)
  let ?d = "add_deps (fst x) (snd x) deps"
  have m: "merge_deps deps (x # new) = merge_deps ?d new" by (simp add: merge_deps_def case_prod_beta)
  show ?case
  proof (cases "x = (q, is)")
    case True
    then have "set is \<subseteq> set (dep_list ?d q)" by (simp add: set_dep_list_add)
    with set_merge_deps [of ?d q new] show ?thesis unfolding m by blast
  next
    case False
    with Cons show ?thesis unfolding m by simp
  qed
qed simp

lemma dep_list_merge: "set (dep_list new q) \<subseteq> set (dep_list (merge_deps deps new) q)"
proof (cases "map_of new q")
  case (Some ds)
  from set_merge_deps_new [OF map_of_SomeD [OF Some]] Some show ?thesis by (simp add: dep_list_def)
qed (simp add: dep_list_def)

definition plan_closed :: "wp \<Rightarrow> plan \<Rightarrow> bool" where
  "plan_closed w p \<longleftrightarrow> (\<forall>i \<in> set (outdatedModules p). \<forall>q. up_edge w i q \<longrightarrow>
     q \<in> set (outdatedModules p) \<or> i \<in> set (dep_list (outdatedDependencies p) q))"

lemma plan_closed_add:
  assumes "plan_closed w p" "r = getAffectedStuff w u"
  shows "plan_closed w (add_to_plan u code r (p\<lparr>last_id := l\<rparr>))"
proof (cases r)
  case (Accepted v od deps)
  then have a: "affected_ok w u (Accepted v od deps)" using getAffectedStuff_ok [of w u] assms(2) by simp
  let ?p = "add_to_plan u code r (p\<lparr>last_id := l\<rparr>)"
  have O: "set (outdatedModules ?p) = set (outdatedModules p) \<union> set od"
    and D: "outdatedDependencies ?p = merge_deps (outdatedDependencies p) deps"
    by (simp_all add: add_to_plan_def Accepted)
  show ?thesis unfolding plan_closed_def O D
  proof (intro ballI allI impI)
    fix i q
    assume i: "i \<in> set (outdatedModules p) \<union> set od" and e: "up_edge w i q"
    show "q \<in> set (outdatedModules p) \<union> set od \<or> i \<in> set (dep_list (merge_deps (outdatedDependencies p) deps) q)"
    proof (cases "i \<in> set od")
      case True
      then have "outdated w u i" using a by (simp add: affected_ok_def)
      then have "q \<in> set od \<or> i \<in> set (dep_list deps q)" using a e by (simp add: affected_ok_def)
      then show ?thesis using dep_list_merge by blast
    next
      case False
      with i have "i \<in> set (outdatedModules p)" by simp
      with e assms(1) have "q \<in> set (outdatedModules p) \<or> i \<in> set (dep_list (outdatedDependencies p) q)"
        by (simp add: plan_closed_def)
      then show ?thesis using set_merge_deps by blast
    qed
  qed
next
  case (Disposed i)
  then show ?thesis using getAffectedStuff_ok [of w u] assms(2) by (simp add: affected_ok_def refusal_ok_def)
qed (use assms(1) in \<open>simp_all add: add_to_plan_def plan_closed_def\<close>)

lemma plan_step:
  assumes "plan_loop o' ((u, Some c) # us) p s = (Inr q, t)" "same_but_trace s0 s"
  defines "r \<equiv> getAffectedStuff (rt s0) u"
  shows "abort_error o' u r = None \<and> same_but_trace s0 (result_hook o' r s) \<and>
    plan_loop o' us (add_to_plan u (Some c) r (p\<lparr>last_id := result_id r\<rparr>)) (result_hook o' r s) = (Inr q, t)"
proof -
  have r: "getAffectedStuff (rt s) u = r" unfolding r_def using assms(2) by (rule same_affected)
  have "abort_error o' u r = None" using assms(1) by (auto simp: r Let_def split: option.splits)
  with assms(1) same_trans [OF assms(2) same_result_hook] show ?thesis by (simp add: r Let_def)
qed

lemma add_to_plan_outdated:
  assumes "r = getAffectedStuff w u"
  shows "set (outdatedModules (add_to_plan u code r p)) \<subseteq> set (outdatedModules p) \<union> {i. outdated w u i}"
proof -
  have "affected_ok w u r" using getAffectedStuff_ok assms by simp
  then show ?thesis by (cases r) (auto simp: add_to_plan_def affected_ok_def refusal_ok_def)
qed

lemma plan_loop_closed:
  assumes "plan_loop o' us p s = (Inr q, t)" "same_but_trace s0 s" "\<forall>(u, c) \<in> set us. c \<noteq> None"
    "plan_closed (rt s0) p" "set (outdatedModules p) \<subseteq> S" "\<forall>(u, c) \<in> set us. {i. outdated (rt s0) u i} \<subseteq> S"
  shows "plan_closed (rt s0) q \<and> set (outdatedModules q) \<subseteq> S"
  using assms
proof (induction us arbitrary: p s)
  case (Cons x us)
  obtain u c where x: "x = (u, Some c)" using Cons.prems(3) by (cases x) auto
  define r where "r = getAffectedStuff (rt s0) u"
  let ?p = "add_to_plan u (Some c) r (p\<lparr>last_id := result_id r\<rparr>)"
  note st = plan_step [OF Cons.prems(1) [unfolded x] Cons.prems(2), folded r_def]
  show ?case
  proof (rule Cons.IH)
    show "plan_loop o' us ?p (result_hook o' r s) = (Inr q, t)" "same_but_trace s0 (result_hook o' r s)"
      using st by simp_all
    show "plan_closed (rt s0) ?p" by (rule plan_closed_add [OF Cons.prems(4) r_def])
    show "set (outdatedModules ?p) \<subseteq> S"
      using add_to_plan_outdated [OF r_def, of "Some c" "p\<lparr>last_id := result_id r\<rparr>"] Cons.prems(5,6)
      by (auto simp: x)
  qed (use Cons.prems(3,6) in auto)
qed simp

text \<open>With nothing ignored, every update of the list is applied.\<close>

lemma abort_error_accepted:
  assumes "r = getAffectedStuff w u" "\<not> ignoreDeclined o'" "\<not> ignoreUnaccepted o'" "abort_error o' u r = None"
  shows "\<exists>od deps. r = Accepted u od deps"
proof -
  have "affected_ok w u r" using getAffectedStuff_ok assms(1) by simp
  then show ?thesis using assms(2-4)
    by (cases r) (simp_all add: abort_error_def affected_ok_def refusal_ok_def)
qed

lemma plan_loop_applies:
  assumes "plan_loop o' us p s = (Inr q, t)" "\<not> ignoreDeclined o'" "\<not> ignoreUnaccepted o'" "distinct (map fst us)"
  shows "\<forall>u. map_of (appliedUpdate q) u =
    (case map_of us u of None \<Rightarrow> map_of (appliedUpdate p) u | Some c \<Rightarrow> Some c)"
  using assms(1,4)
proof (induction us arbitrary: p s)
  case (Cons x us)
  obtain u code where x: "x = (u, code)" by (cases x)
  define r where "r = (case code of None \<Rightarrow> Disposed u | Some _ \<Rightarrow> getAffectedStuff (rt s) u)"
  let ?p = "add_to_plan u code r (p\<lparr>last_id := result_id r\<rparr>)"
  have ab: "abort_error o' u r = None" using Cons.prems(1) by (auto simp: x r_def Let_def split: option.splits)
  with Cons.prems(1) have pl: "plan_loop o' us ?p (result_hook o' r s) = (Inr q, t)"
    by (simp add: x r_def Let_def)
  have "appliedUpdate ?p = obj_set u code (appliedUpdate p)"
  proof (cases code)
    case None
    then show ?thesis by (simp add: r_def add_to_plan_def)
  next
    case (Some c)
    then have "r = getAffectedStuff (rt s) u" by (simp add: r_def)
    from abort_error_accepted [OF this assms(2,3) ab] Some show ?thesis by (auto simp: add_to_plan_def)
  qed
  moreover have "map_of us u = None" using Cons.prems(2) by (simp add: x map_of_eq_None_iff)
  ultimately show ?case using Cons.IH [OF pl] Cons.prems(2) by (auto simp: x split: option.splits)
qed simp

section \<open>User code: what it cannot do\<close>

text \<open>Module code and callbacks never change the module table, and never put an old module object
  back: an id gets a new address only from the end of the heap.\<close>

lemma exec_require_fresh:
  "exec n a acts s = Some (e, t) \<Longrightarrow> installed_at t j = Some b \<Longrightarrow> installed_at s j = Some b \<or> length (heap s) \<le> b"
  "require n i s' = Some (r, t') \<Longrightarrow> installed_at t' j = Some b \<Longrightarrow> installed_at s' j = Some b \<or> length (heap s') \<le> b"
proof (induction n a acts s and n i s' arbitrary: e t and r t' rule: exec_require_rule)
  case (Require n a r acts s)
  from Require.prems(1) obtain res u where u: "require n r (hot_link a r s) = Some (res, u)"
    by (auto split: option.splits)
  have same: "installed_at (hot_link a r s) = installed_at s \<and> length (heap (hot_link a r s)) = length (heap s)"
    by (rule hot_link_rule) (simp_all add: installed_at_def fun_eq_iff)
  have le: "length (heap s) \<le> length (heap u)"
    using exec_require_extends(2) [OF u] same by (simp add: extends_def)
  show ?case
  proof (cases res)
    case (Inl x)
    with Require.prems(1) u have "t = u" by simp
    with Require.IH(1) [OF u] Require.prems(2) same show ?thesis by simp
  next
    case (Inr c)
    with Require.prems(1) u have "exec n a acts u = Some (e, t)" by simp
    from Require.IH(2) [OF u [unfolded Inr] this Require.prems(2)] Require.IH(1) [OF u] same le
    show ?thesis by (metis le_trans)
  qed
next
  case (Simple n a act acts s)
  have "installed_at (simple_act a act s) = installed_at s \<and> length (heap (simple_act a act s)) = length (heap s)"
    by (rule simple_act_rule) (simp_all add: installed_at_def fun_eq_iff)
  with Simple show ?case by simp
next
  case (Load n i s)
  have c: "installed_at (create_module i s) j = Some b \<Longrightarrow> installed_at s j = Some b \<or> length (heap s) \<le> b"
    by (auto split: if_splits)
  from Load.prems(1) show ?case
  proof (cases rule: require_cases)
    case (threw code m x)
    from Load.IH [OF threw(1-4) Load.prems(2)] c show ?thesis by auto
  next
    case (loaded code m u)
    from Load.prems(2) have "installed_at u j = Some b" unfolding loaded(6) by simp
    from Load.IH [OF loaded(1-4) this] c show ?thesis by auto
  qed (use Load.prems(2) c in auto)
qed simp_all

text \<open>
  The interface between \<open>hotApply\<close> and the code it calls back: a predicate \<open>P\<close> of the runtime that
  no callback can break, \<open>Q\<close> being what is known of the address the code runs for. Everything
  \<open>hotApply\<close> does through callbacks then keeps \<open>P\<close>; when reloading a module keeps it too, so does the whole
  update.
\<close>

locale callback_code =
  fixes P :: "wp \<Rightarrow> bool" and Q :: "addr \<Rightarrow> wp \<Rightarrow> bool"
  assumes cached: "P w \<Longrightarrow> installed_at w i = Some a \<Longrightarrow> Q a w"
    and runs: "P w \<Longrightarrow> Q a w \<Longrightarrow> exec n a acts w = Some (e, w') \<Longrightarrow> P w'"
    and grows: "Q a w \<Longrightarrow> extends w w' \<Longrightarrow> Q a w'"
    and emits: "P w \<Longrightarrow> P (emit ef w)"
    and data: "P w \<Longrightarrow> P (w\<lparr>cur_data := d\<rparr>)"
begin

lemma run_handlers_P:
  "run_handlers k n a j w = Some (e, w') \<Longrightarrow> P w \<Longrightarrow> Q a w \<Longrightarrow> P w'"
proof (induction k arbitrary: j w)
  case 0
  then show ?case by (simp add: run_handlers.simps [of 0] split: if_splits)
next
  case (Suc k)
  show ?case
  proof (cases "j < length (disposeHandlers (heap w ! a))")
    case False
    with Suc.prems show ?thesis by (simp add: run_handlers.simps [of "Suc k"])
  next
    case True
    with Suc.prems(1) obtain x u
      where u: "exec n a (fn_code (disposeHandlers (heap w ! a) ! j)) w = Some (x, u)"
      by (auto simp: run_handlers.simps [of "Suc k"] split: option.splits)
    have Pu: "P u" by (rule runs [OF Suc.prems(2,3) u])
    have Qu: "Q a u" by (rule grows [OF Suc.prems(3) exec_require_extends(1) [OF u]])
    show ?thesis
    proof (cases x)
      case None
      with Suc.prems(1) True u have "run_handlers k n a (Suc j) u = Some (e, w')"
        by (simp add: run_handlers.simps [of "Suc k"])
      then show ?thesis using Pu Qu by (rule Suc.IH)
    next
      case (Some y)
      with Suc.prems(1) True u Pu show ?thesis by (simp add: run_handlers.simps [of "Suc k"])
    qed
  qed
qed

lemma hook_P: "P (rt s) \<Longrightarrow> P (rt (hook b nm i s))"
  by (simp add: hook_def upd_rt_def emits)

lemma trace_P: "P w \<Longrightarrow> P (w\<lparr>trace := trace w @ es\<rparr>)"
proof (induction es arbitrary: w)
  case (Cons e es)
  from Cons.IH [OF emits [OF Cons.prems, of e]] show ?case by (simp add: emit_def)
qed simp

lemma status_P: "P (rt s) \<Longrightarrow> P (rt (hotSetStatus st s))"
  by (simp add: hotSetStatus_def upd_rt_def trace_P)

lemma Q_hook: "Q a (rt s) \<Longrightarrow> Q a (rt (hook b nm i s))"
  by (auto simp: hook_def upd_rt_def intro: grows extends_emit)

lemma run_callbacks_P:
  "run_callbacks n o' i a cbs error s = Some (e, t) \<Longrightarrow> P (rt s) \<Longrightarrow> Q a (rt s) \<Longrightarrow> P (rt t)"
proof (induction cbs arbitrary: error s)
  case (Cons cb cbs)
  show ?case
  proof (cases cb)
    case None
    with Cons show ?thesis by simp
  next
    case (Some f)
    with Cons.prems(1) obtain x u where u: "exec n a (fn_code f) (rt s) = Some (x, u)"
      by (auto split: option.splits)
    have Pu: "P u" by (rule runs [OF Cons.prems(2,3) u])
    have Qu: "Q a u" by (rule grows [OF Cons.prems(3) exec_require_extends(1) [OF u]])
    show ?thesis
    proof (cases x)
      case None
      with Cons.prems(1) Some u have "run_callbacks n o' i a cbs error (s\<lparr>rt := u\<rparr>) = Some (e, t)" by simp
      from Cons.IH [OF this] Pu Qu show ?thesis by simp
    next
      case (Some y)
      let ?s = "hook (onErrored o') ''accept-errored'' i (s\<lparr>rt := u\<rparr>)"
      have "P (rt ?s)" "Q a (rt ?s)" using Pu Qu by (simp_all add: hook_P Q_hook)
      moreover from Cons.prems(1) \<open>cb = Some f\<close> u Some
      have "run_callbacks n o' i a cbs (note_error o' y error) ?s = Some (e, t)" by simp
      ultimately show ?thesis by (intro Cons.IH)
    qed
  qed
qed simp

lemma accept_loop_P:
  "accept_loop n o' deps error s = Some (e, t) \<Longrightarrow> P (rt s) \<Longrightarrow> P (rt t)"
proof (induction deps arbitrary: error s)
  case (Cons x deps)
  obtain i ds where x: "x = (i, ds)" by (cases x)
  show ?case
  proof (cases "installed_at (rt s) i")
    case None
    with Cons show ?thesis by (simp add: x)
  next
    case (Some a)
    with Cons.prems(1) obtain e1 u where
      u: "run_callbacks n o' i a (collect_callbacks (acceptedDependencies (heap (rt s) ! a)) ds []) error s = Some (e1, u)"
      "accept_loop n o' deps e1 u = Some (e, t)"
      by (auto simp: x split: option.splits)
    have "P (rt u)" by (rule run_callbacks_P [OF u(1) Cons.prems(2) cached [OF Cons.prems(2) Some]])
    with u(2) show ?thesis by (rule Cons.IH)
  qed
qed simp

lemma accept_phase_P:
  assumes "apply_phase n o' p deps [] s = Some (res, t)"
    "P (insert_code p (rt (hotSetStatus Apply (upd_rt (\<lambda>w. foldl unlink w deps) s))))"
  shows "P (rt t)"
proof -
  let ?s2 = "hotSetStatus Apply (upd_rt (\<lambda>w. foldl unlink w deps) s)"
  let ?s3 = "upd_rt (insert_code p) (?s2\<lparr>hotCurrentHash := hotUpdateNewHash ?s2\<rparr>)"
  obtain error s4 where s4: "accept_loop n o' deps None ?s3 = Some (error, s4)"
    using assms(1) by (auto simp: apply_phase_def Let_def split: option.splits)
  have "P (rt s4)" by (rule accept_loop_P [OF s4]) (simp add: upd_rt_def assms(2) [unfolded upd_rt_def])
  moreover have "t = hotSetStatus Fail s4 \<or> t = hotSetStatus Idle s4"
    using assms(1) s4 by (auto simp: apply_phase_def Let_def split: option.splits)
  ultimately show ?thesis using status_P by blast
qed

end

locale module_code = callback_code P Q for P :: "wp \<Rightarrow> bool" and Q :: "addr \<Rightarrow> wp \<Rightarrow> bool" +
  assumes loads: "P w \<Longrightarrow> require n i (w\<lparr>hotCurrentParents := [i]\<rparr>) = Some (r, w') \<Longrightarrow> P w'"
begin

lemma reload_loop_P:
  "reload_loop n o' items error s = Some (e, t) \<Longrightarrow> P (rt s) \<Longrightarrow> \<forall>(i, a, h) \<in> set items. Q a (rt s) \<Longrightarrow> P (rt t)"
proof (induction items arbitrary: error s)
  case (Cons x items)
  obtain i a h where x: "x = (i, a, h)" by (cases x)
  from Cons.prems(1) obtain r u where u: "require n i ((rt s)\<lparr>hotCurrentParents := [i]\<rparr>) = Some (r, u)"
    by (auto simp: x split: option.splits)
  have Pu: "P u" by (rule loads [OF Cons.prems(2) u])
  have "extends (rt s) ((rt s)\<lparr>hotCurrentParents := [i]\<rparr>)" by (simp add: extends_def installed_at_def)
  then have su: "extends (rt s) u" using exec_require_extends(2) [OF u] by (rule extends_trans)
  have Qu: "\<forall>(i, a, h) \<in> set items. Q a u" "Q a u"
    using Cons.prems(3) su by (auto simp: x intro: grows)
  have step: ?case if "reload_loop n o' items e' s' = Some (e, t)" "P (rt s')" "extends u (rt s')" for e' s'
  proof -
    have "\<forall>(i, a, h) \<in> set items. Q a (rt s')" using Qu(1) that(3) by (auto intro: grows)
    with that(1,2) show ?thesis by (intro Cons.IH)
  qed
  have ex_hook: "extends (rt s') (rt (hook b nm i s'))" for b nm s'
    by (simp add: hook_def upd_rt_def extends_emit)
  show ?case
  proof (cases r)
    case (Inr b)
    with Cons.prems(1) u Pu show ?thesis by (intro step [of error "s\<lparr>rt := u\<rparr>"]) (simp_all add: x)
  next
    case (Inl err)
    show ?thesis
    proof (cases "\<exists>f. h = AcceptedFn f")
      case False
      let ?s = "hook (onErrored o') ''self-accept-errored'' i (s\<lparr>rt := u\<rparr>)"
      have "reload_loop n o' items (note_error o' err error) ?s = Some (e, t)"
        using Cons.prems(1) u Inl False by (cases h) (simp_all add: x)
      moreover have "P (rt ?s)" by (rule hook_P) (simp add: Pu)
      moreover have "extends u (rt ?s)" using ex_hook [of "s\<lparr>rt := u\<rparr>"] by simp
      ultimately show ?thesis by (rule step)
    next
      case True
      then obtain f where h: "h = AcceptedFn f" by blast
      with Cons.prems(1) u Inl obtain z v where v: "exec n a (fn_code f) u = Some (z, v)"
        by (auto simp: x split: option.splits)
      have Pv: "P v" by (rule runs [OF Pu Qu(2) v])
      have uv: "extends u v" by (rule exec_require_extends(1) [OF v])
      show ?thesis
      proof (cases z)
        case None
        with Cons.prems(1) u Inl h v Pv uv show ?thesis
          by (intro step [of error "s\<lparr>rt := v\<rparr>"]) (simp_all add: x)
      next
        case (Some e2)
        let ?s = "hook (onErrored o') ''self-accept-error-handler-errored'' i (s\<lparr>rt := v\<rparr>)"
        have "reload_loop n o' items (case note_error o' e2 error of None \<Rightarrow> Some err | Some x \<Rightarrow> Some x) ?s = Some (e, t)"
          using Cons.prems(1) u Inl h v Some by (simp add: x)
        moreover have "P (rt ?s)" by (rule hook_P) (simp add: Pv)
        moreover have "extends u (rt ?s)" using extends_trans [OF uv] ex_hook [of "s\<lparr>rt := v\<rparr>"] by simp
        ultimately show ?thesis by (rule step)
      qed
    qed
  qed
qed simp

lemma apply_phase_P:
  assumes "apply_phase n o' p deps items s = Some (res, t)"
    "P (insert_code p (rt (hotSetStatus Apply (upd_rt (\<lambda>w. foldl unlink w deps) s))))"
    "\<And>w. P w \<Longrightarrow> extends (insert_code p (rt (hotSetStatus Apply (upd_rt (\<lambda>w. foldl unlink w deps) s)))) w \<Longrightarrow>
       \<forall>(i, a, h) \<in> set items. Q a w"
    "\<And>dl e s e' t. accept_loop n o' dl e s = Some (e', t) \<Longrightarrow> extends (rt s) (rt t)"
  shows "P (rt t)"
proof -
  let ?s2 = "hotSetStatus Apply (upd_rt (\<lambda>w. foldl unlink w deps) s)"
  let ?s3 = "upd_rt (insert_code p) (?s2\<lparr>hotCurrentHash := hotUpdateNewHash ?s2\<rparr>)"
  obtain error s4 where s4: "accept_loop n o' deps None ?s3 = Some (error, s4)"
    using assms(1) by (auto simp: apply_phase_def Let_def split: option.splits)
  obtain error' s5 where s5: "reload_loop n o' items error s4 = Some (error', s5)"
    using assms(1) s4 by (auto simp: apply_phase_def Let_def split: option.splits)
  have "P (rt s4)" by (rule accept_loop_P [OF s4]) (simp add: upd_rt_def assms(2) [unfolded upd_rt_def])
  moreover have "\<forall>(i, a, h) \<in> set items. Q a (rt s4)"
    using assms(3) [OF calculation] assms(4) [OF s4] by (simp add: upd_rt_def)
  ultimately have "P (rt s5)" by (rule reload_loop_P [OF s5])
  moreover have "t = hotSetStatus Fail s5 \<or> t = hotSetStatus Idle s5"
    using assms(1) s4 s5 by (auto simp: apply_phase_def Let_def split: option.splits)
  ultimately show ?thesis using status_P by blast
qed

end

section \<open>What module code keeps\<close>

lemma wf_mono: "wf_graph X s \<Longrightarrow> X \<subseteq> Y \<Longrightarrow> wf_graph Y s"
  unfolding wf_graph_def links_def by blast

lemma wf_active:
  "wf_graph X s \<Longrightarrow> b < length (heap s) \<Longrightarrow> hot_active (heap s ! b) \<Longrightarrow> installed_at s (m_id (heap s ! b)) = Some b"
  unfolding wf_graph_def cache_ok_def by blast

lemma wf_link:
  "wf_graph {} s \<Longrightarrow> b < length (heap s) \<Longrightarrow> hot_active (heap s ! b) \<Longrightarrow> c \<in> set (m_children (heap s ! b)) \<Longrightarrow>
   \<exists>d. installed_at s c = Some d \<and> m_id (heap s ! b) \<in> set (m_parents (heap s ! d))"
  unfolding wf_graph_def links_def by blast

interpretation table: module_code "\<lambda>w. modules w = M" "\<lambda>_ _. True" for M
proof
  show "modules w = M \<Longrightarrow> True \<Longrightarrow> exec n a acts w = Some (e, w') \<Longrightarrow> modules w' = M" for w n a acts e w'
    using exec_require_extends(1) [of n a acts w e w'] by (simp add: extends_def)
  show "modules w = M \<Longrightarrow> require n i (w\<lparr>hotCurrentParents := [i]\<rparr>) = Some (r, w') \<Longrightarrow> modules w' = M" for w n i r w'
    using exec_require_extends(2) [of n i "w\<lparr>hotCurrentParents := [i]\<rparr>" r w'] by (simp add: extends_def)
qed simp_all

text \<open>An id whose module object is one of the first \<open>h\<close> has the address it had in \<open>w0\<close>, and is not in
  \<open>gone\<close>.\<close>

definition only_old :: "mid set \<Rightarrow> wp \<Rightarrow> wp \<Rightarrow> bool" where
  "only_old gone w0 w \<longleftrightarrow> length (heap w0) \<le> length (heap w) \<and>
     (\<forall>i b. installed_at w i = Some b \<longrightarrow> b < length (heap w0) \<longrightarrow> installed_at w0 i = Some b \<and> i \<notin> gone)"

lemma only_old_fresh:
  assumes "only_old gone w0 w" "extends w w'"
    and "\<And>i b. installed_at w' i = Some b \<Longrightarrow> installed_at w i = Some b \<or> length (heap w) \<le> b"
  shows "only_old gone w0 w'"
proof -
  have le: "length (heap w0) \<le> length (heap w)" using assms(1) by (simp add: only_old_def)
  have "length (heap w) \<le> length (heap w')" using assms(2) by (simp add: extends_def)
  with le have "length (heap w0) \<le> length (heap w')" by simp
  moreover have "installed_at w0 i = Some b \<and> i \<notin> gone" if "installed_at w' i = Some b" "b < length (heap w0)" for i b
  proof -
    have "installed_at w i = Some b" using assms(3) [OF that(1)] that(2) le by linarith
    with assms(1) that(2) show ?thesis by (simp add: only_old_def)
  qed
  ultimately show ?thesis by (simp add: only_old_def)
qed

lemma only_old_frame:
  "only_old gone w0 w \<Longrightarrow> installed_at w' = installed_at w \<Longrightarrow> length (heap w') = length (heap w) \<Longrightarrow> only_old gone w0 w'"
  by (simp add: only_old_def)

interpretation old: module_code "only_old gone w0" "\<lambda>_ _. True" for gone w0
proof
  show "only_old gone w0 w'" if w: "only_old gone w0 w" and x: "exec n a acts w = Some (e, w')" for w n a acts e w'
    by (rule only_old_fresh [OF w exec_require_extends(1) [OF x] exec_require_fresh(1) [OF x]])
  show "only_old gone w0 w'" if w: "only_old gone w0 w"
    and r: "require n i (w\<lparr>hotCurrentParents := [i]\<rparr>) = Some (r, w')" for w n i r w'
  proof (rule only_old_fresh)
    show "only_old gone w0 (w\<lparr>hotCurrentParents := [i]\<rparr>)"
      by (rule only_old_frame [OF w]) (simp_all add: installed_at_def fun_eq_iff)
  qed (use exec_require_extends(2) [OF r] exec_require_fresh(2) [OF r] in auto)
  show "only_old gone w0 w \<Longrightarrow> only_old gone w0 (emit ef w)" for w ef
    by (rule only_old_frame) simp_all
  show "only_old gone w0 w \<Longrightarrow> only_old gone w0 (w\<lparr>cur_data := d\<rparr>)" for w d
    by (rule only_old_frame) (simp_all add: installed_at_def fun_eq_iff)
qed simp_all

section \<open>Retiring a module\<close>

lemma drop_parent_frame [simp]:
  "modules (drop_parent i w c) = modules w" "installed (drop_parent i w c) = installed w"
  "length (heap (drop_parent i w c)) = length (heap w)" "installed_at (drop_parent i w c) = installed_at w"
  "trace (drop_parent i w c) = trace w"
  by (simp_all add: drop_parent_def split: option.splits)

lemma drop_parents_frame [simp]:
  "modules (foldl (drop_parent i) w cs) = modules w" "installed (foldl (drop_parent i) w cs) = installed w"
  "length (heap (foldl (drop_parent i) w cs)) = length (heap w)"
  "installed_at (foldl (drop_parent i) w cs) = installed_at w"
  "trace (foldl (drop_parent i) w cs) = trace w"
  by (induction cs arbitrary: w) simp_all

lemma drop_parent_nth:
  "m_id (heap (drop_parent i w c) ! b) = m_id (heap w ! b)"
  "m_children (heap (drop_parent i w c) ! b) = m_children (heap w ! b)"
  "hot_active (heap (drop_parent i w c) ! b) = hot_active (heap w ! b)"
  "disposeHandlers (heap (drop_parent i w c) ! b) = disposeHandlers (heap w ! b)"
  "j \<noteq> i \<Longrightarrow> j \<in> set (m_parents (heap (drop_parent i w c) ! b)) \<longleftrightarrow> j \<in> set (m_parents (heap w ! b))"
  by (simp_all add: drop_parent_def heap_upd_mod js_array split: option.splits)

lemma drop_parents_nth:
  "m_id (heap (foldl (drop_parent i) w cs) ! b) = m_id (heap w ! b)"
  "m_children (heap (foldl (drop_parent i) w cs) ! b) = m_children (heap w ! b)"
  "hot_active (heap (foldl (drop_parent i) w cs) ! b) = hot_active (heap w ! b)"
  "disposeHandlers (heap (foldl (drop_parent i) w cs) ! b) = disposeHandlers (heap w ! b)"
  "j \<noteq> i \<Longrightarrow> j \<in> set (m_parents (heap (foldl (drop_parent i) w cs) ! b)) \<longleftrightarrow> j \<in> set (m_parents (heap w ! b))"
  by (induction cs arbitrary: w) (simp_all add: drop_parent_nth)

lemma retire_simps:
  "modules (retire i a w) = modules w" "installed_at (retire i a w) = (installed_at w)(i := None)"
  "length (heap (retire i a w)) = length (heap w)" "trace (retire i a w) = trace w"
  "installed (retire i a w) = obj_del i (installed w)"
  by (simp_all add: retire_def Let_def installed_at_def fun_eq_iff)

lemma retire_nth:
  "m_id (heap (retire i a w) ! b) = m_id (heap w ! b)"
  "m_children (heap (retire i a w) ! b) = m_children (heap w ! b)"
  "disposeHandlers (heap (retire i a w) ! b) = disposeHandlers (heap w ! b)"
  "a < length (heap w) \<Longrightarrow> hot_active (heap (retire i a w) ! b) \<longleftrightarrow> b \<noteq> a \<and> hot_active (heap w ! b)"
  "j \<noteq> i \<Longrightarrow> j \<in> set (m_parents (heap (retire i a w) ! b)) \<longleftrightarrow> j \<in> set (m_parents (heap w ! b))"
  by (auto simp: retire_def Let_def drop_parents_nth heap_upd_mod)

lemma wf_retire:
  assumes wf: "wf_graph X w" and ia: "installed_at w i = Some a"
  shows "wf_graph (X \<union> UNIV \<times> {i}) (retire i a w)"
proof -
  let ?t = "retire i a w"
  have c: "cache_ok w" and l: "links X w" using wf by (simp_all add: wf_graph_def)
  have a: "a < length (heap w)" "m_id (heap w ! a) = i" using wf_installed [OF wf ia] by simp_all
  note h = retire_nth(1-3) [of i a w] retire_nth(4) [OF a(1), of i]
  have act: "hot_active (heap w ! b) \<longleftrightarrow> installed_at w (m_id (heap w ! b)) = Some b" if "b < length (heap w)" for b
    using c that unfolding cache_ok_def by blast
  have "cache_ok ?t"
    unfolding cache_ok_def
  proof (intro conjI allI impI)
    show "distinct (map fst (installed ?t))" using c by (simp add: retire_simps cache_ok_def)
    fix b
    show "installed_at ?t j = Some b \<Longrightarrow> b < length (heap ?t)" "installed_at ?t j = Some b \<Longrightarrow> m_id (heap ?t ! b) = j" for j
      using c by (auto simp: retire_simps h cache_ok_def split: if_splits)
    assume b: "b < length (heap ?t)"
    then show "distinct (m_children (heap ?t ! b))" using c by (simp add: retire_simps h cache_ok_def)
    show "hot_active (heap ?t ! b) = (installed_at ?t (m_id (heap ?t ! b)) = Some b)"
      using act [of b] b ia a by (auto simp: retire_simps h)
  qed
  moreover have "links (X \<union> UNIV \<times> {i}) ?t"
    unfolding links_def
  proof (intro allI impI ballI)
    fix b ch
    assume "b < length (heap ?t)" "hot_active (heap ?t ! b)" "ch \<in> set (m_children (heap ?t ! b))"
    then have b: "b < length (heap w)" "b \<noteq> a" "hot_active (heap w ! b)" "ch \<in> set (m_children (heap w ! b))"
      by (simp_all add: retire_simps h)
    then have ne: "m_id (heap w ! b) \<noteq> i" using act [of b] ia by auto
    from b l have "(m_id (heap w ! b), ch) \<in> X \<or>
        (\<exists>d. installed_at w ch = Some d \<and> m_id (heap w ! b) \<in> set (m_parents (heap w ! d)))"
      by (simp add: links_def)
    then show "(m_id (heap ?t ! b), ch) \<in> X \<union> UNIV \<times> {i} \<or>
        (\<exists>d. installed_at ?t ch = Some d \<and> m_id (heap ?t ! b) \<in> set (m_parents (heap ?t ! d)))"
      using retire_nth(5) [OF ne] by (cases "ch = i") (auto simp: retire_simps h)
  qed
  ultimately show ?thesis by (simp add: wf_graph_def)
qed

section \<open>Disposing with quiet handlers\<close>

text \<open>A dispose handler is quiet when it neither requires modules nor registers further handlers; what
  handlers normally do (clean up, keep data, log, even throw) is quiet.\<close>

definition quiet :: "action list \<Rightarrow> bool" where
  "quiet acts \<longleftrightarrow> list_all (\<lambda>act. case act of Require _ \<Rightarrow> False | AddDispose _ \<Rightarrow> False | _ \<Rightarrow> True) acts"

definition quiet_handlers :: "wp \<Rightarrow> bool" where
  "quiet_handlers w \<longleftrightarrow> (\<forall>a < length (heap w). \<forall>f \<in> set (disposeHandlers (heap w ! a)). quiet (fn_code f))"

definition same_links :: "wp \<Rightarrow> wp \<Rightarrow> bool" where
  "same_links w w' \<longleftrightarrow> length (heap w') = length (heap w) \<and> installed w' = installed w \<and>
     (\<forall>b. m_id (heap w' ! b) = m_id (heap w ! b) \<and> m_parents (heap w' ! b) = m_parents (heap w ! b) \<and>
        m_children (heap w' ! b) = m_children (heap w ! b) \<and> hot_active (heap w' ! b) = hot_active (heap w ! b) \<and>
        length (disposeHandlers (heap w' ! b)) \<le> length (disposeHandlers (heap w ! b)) \<and>
        set (disposeHandlers (heap w' ! b)) \<subseteq> set (disposeHandlers (heap w ! b)))"

lemma same_links_refl [simp]: "same_links w w"
  by (simp add: same_links_def)

lemma same_links_handlers:
  "same_links w w' \<Longrightarrow> length (disposeHandlers (heap w' ! b)) \<le> length (disposeHandlers (heap w ! b)) \<and>
     set (disposeHandlers (heap w' ! b)) \<subseteq> set (disposeHandlers (heap w ! b))"
  by (simp add: same_links_def)

lemma same_links_trans:
  assumes "same_links u v" "same_links v w"
  shows "same_links u w"
proof -
  have "length (disposeHandlers (heap w ! b)) \<le> length (disposeHandlers (heap u ! b)) \<and>
      set (disposeHandlers (heap w ! b)) \<subseteq> set (disposeHandlers (heap u ! b))" for b
    using same_links_handlers [OF assms(1), of b] same_links_handlers [OF assms(2), of b] by auto
  then show ?thesis using assms by (simp add: same_links_def)
qed

lemma same_links_quiet:
  assumes "same_links w w'" "quiet_handlers w"
  shows "quiet_handlers w'"
  unfolding quiet_handlers_def
proof (intro allI impI ballI)
  fix a f
  assume a: "a < length (heap w')" and f: "f \<in> set (disposeHandlers (heap w' ! a))"
  have "a < length (heap w)" using a assms(1) by (simp add: same_links_def)
  moreover have "f \<in> set (disposeHandlers (heap w ! a))" using f same_links_handlers [OF assms(1), of a] by blast
  ultimately show "quiet (fn_code f)" using assms(2) unfolding quiet_handlers_def by blast
qed

lemma same_links_wf:
  assumes "same_links w w'" "wf_graph X w"
  shows "wf_graph X w'"
proof -
  have ia: "installed_at w' = installed_at w" using assms(1) by (simp add: same_links_def installed_at_def fun_eq_iff)
  have "cache_ok w'" by (rule cache_ok_cong [of _ w]) (use assms in \<open>auto simp: same_links_def wf_graph_def\<close>)
  moreover have "links X w'"
    by (rule links_cong [of _ w, OF _ ia]) (use assms in \<open>auto simp: same_links_def wf_graph_def cache_ok_def\<close>)
  ultimately show ?thesis by (simp add: wf_graph_def)
qed

lemma same_links_act:
  assumes "is_simple act" "quiet [act]"
  shows "same_links w (simple_act a act w)"
  using assms
  by (cases act) (auto simp: same_links_def heap_upd_mod quiet_def is_simple_def hot_accept_self_def hot_accept_def
    hot_decline_self_def hot_decline_def hot_remove_dispose_def set_export_def js_array length_remove1 dest: set_remove1_subset [THEN subsetD])

lemma exec_quiet: "exec n a acts w = Some (e, w') \<Longrightarrow> quiet acts \<Longrightarrow> same_links w w'"
proof (induction acts arbitrary: w)
  case (Cons act acts)
  show ?case
  proof (cases "is_simple act")
    case True
    with Cons have "same_links (simple_act a act w) w'" by (simp add: quiet_def)
    moreover have "quiet [act]" using Cons.prems(2) by (simp add: quiet_def)
    ultimately show ?thesis using same_links_act [OF True] same_links_trans by blast
  next
    case False
    with Cons.prems obtain x where "act = Throw x" by (cases act) (auto simp: is_simple_def quiet_def)
    with Cons.prems show ?thesis by simp
  qed
qed simp

lemma run_handlers_quiet:
  "run_handlers k n a j w = Some (e, w') \<Longrightarrow> quiet_handlers w \<Longrightarrow> a < length (heap w) \<Longrightarrow> same_links w w'"
proof (induction k arbitrary: j w)
  case 0
  then show ?case by (simp add: run_handlers.simps [of 0] split: if_splits)
next
  case (Suc k)
  show ?case
  proof (cases "j < length (disposeHandlers (heap w ! a))")
    case False
    with Suc.prems show ?thesis by (simp add: run_handlers.simps [of "Suc k"])
  next
    case True
    let ?f = "disposeHandlers (heap w ! a) ! j"
    from True Suc.prems(1) obtain x u where u: "exec n a (fn_code ?f) w = Some (x, u)"
      by (auto simp: run_handlers.simps [of "Suc k"] split: option.splits)
    have "quiet (fn_code ?f)" using Suc.prems(2,3) True by (simp add: quiet_handlers_def)
    with u have wu: "same_links w u" by (rule exec_quiet)
    show ?thesis
    proof (cases x)
      case None
      with Suc.prems(1) True u have "run_handlers k n a (Suc j) u = Some (e, w')"
        by (simp add: run_handlers.simps [of "Suc k"])
      moreover have "quiet_handlers u" "a < length (heap u)"
        using same_links_quiet [OF wu Suc.prems(2)] Suc.prems(3) wu by (simp_all add: same_links_def)
      ultimately show ?thesis using Suc.IH same_links_trans [OF wu] by blast
    next
      case (Some y)
      with Suc.prems(1) True u wu show ?thesis by (simp add: run_handlers.simps [of "Suc k"])
    qed
  qed
qed

text \<open>After disposing the ids \<open>is\<close> the graph is well-formed up to links to them; everything else kept
  its place and its children.\<close>

lemma dispose_quiet:
  assumes "dispose_loop k n is deps w = Some (None, deps', w')" "wf_graph X w" "quiet_handlers w"
  shows "wf_graph (X \<union> UNIV \<times> set is) w' \<and>
    (\<forall>j. installed_at w' j = (if j \<in> set is then None else installed_at w j)) \<and>
    length (heap w') = length (heap w) \<and>
    (\<forall>b. m_id (heap w' ! b) = m_id (heap w ! b) \<and> m_children (heap w' ! b) = m_children (heap w ! b)) \<and>
    (\<forall>p. p \<notin> set is \<longrightarrow> map_of deps' p = map_of deps p)"
  using assms
proof (induction "is" arbitrary: deps w X)
  case Nil
  then show ?case by simp
next
  case (Cons i "is")
  show ?case
  proof (cases "installed_at w i")
    case None
    with Cons.prems(1) have "dispose_loop k n is deps w = Some (None, deps', w')" by simp
    note IH = Cons.IH [OF this Cons.prems(2,3)]
    have "wf_graph (X \<union> UNIV \<times> set (i # is)) w'"
      by (rule wf_mono [OF conjunct1 [OF IH]]) auto
    with IH None show ?thesis by auto
  next
    case (Some a)
    let ?w = "w\<lparr>cur_data := []\<rparr>"
    from Cons.prems(1) Some obtain u where u: "run_handlers k n a 0 ?w = Some (None, u)"
      and rest: "dispose_loop k n is (obj_del i deps) (retire i a u) = Some (None, deps', w')"
      by (auto split: option.splits)
    have al: "a < length (heap w)" using wf_installed [OF Cons.prems(2) Some] by simp
    have "same_links w ?w" by (simp add: same_links_def)
    moreover have "quiet_handlers ?w" using Cons.prems(3) by (simp add: quiet_handlers_def)
    with al have "same_links ?w u" by (intro run_handlers_quiet [OF u]) simp_all
    ultimately have wu: "same_links w u" by (rule same_links_trans)
    have iu: "installed_at u = installed_at w" using wu by (simp add: same_links_def installed_at_def fun_eq_iff)
    have wfu: "wf_graph X u" by (rule same_links_wf [OF wu Cons.prems(2)])
    have "wf_graph (X \<union> UNIV \<times> {i}) (retire i a u)" by (rule wf_retire [OF wfu]) (simp add: iu Some)
    moreover have "quiet_handlers (retire i a u)"
      using same_links_quiet [OF wu Cons.prems(3)] by (simp add: quiet_handlers_def retire_simps retire_nth)
    ultimately have IH: "wf_graph (X \<union> UNIV \<times> {i} \<union> UNIV \<times> set is) w' \<and>
      (\<forall>j. installed_at w' j = (if j \<in> set is then None else installed_at (retire i a u) j)) \<and>
      length (heap w') = length (heap (retire i a u)) \<and>
      (\<forall>b. m_id (heap w' ! b) = m_id (heap (retire i a u) ! b) \<and> m_children (heap w' ! b) = m_children (heap (retire i a u) ! b)) \<and>
      (\<forall>p. p \<notin> set is \<longrightarrow> map_of deps' p = map_of (obj_del i deps) p)"
      by (rule Cons.IH [OF rest])
    have "X \<union> UNIV \<times> {i} \<union> UNIV \<times> set is = X \<union> UNIV \<times> set (i # is)" by auto
    with IH wu show ?thesis
      by (simp add: retire_simps retire_nth iu same_links_def)
  qed
qed

section \<open>Unlinking outdated dependencies\<close>

lemma splice_all:
  "distinct cs \<Longrightarrow> distinct (foldl (\<lambda>cs d. splice_first d cs) cs ds) \<and>
   set (foldl (\<lambda>cs d. splice_first d cs) cs ds) = set cs - set ds"
  by (induction ds arbitrary: cs) (auto simp: js_array)

lemma unlink_frame [simp]:
  "modules (unlink w pd) = modules w" "installed (unlink w pd) = installed w"
  "length (heap (unlink w pd)) = length (heap w)" "installed_at (unlink w pd) = installed_at w"
  by (simp_all add: unlink_def split: option.splits)

lemma wf_unlink:
  assumes "wf_graph X w"
  shows "wf_graph X (unlink w pd)"
proof (cases "installed_at w (fst pd)")
  case (Some b)
  have c: "cache_ok w" and l: "links X w" using assms by (simp_all add: wf_graph_def)
  let ?f = "\<lambda>m. m\<lparr>m_children := foldl (\<lambda>cs d. splice_first d cs) (m_children m) (snd pd)\<rparr>"
  have u: "unlink w pd = upd_mod b ?f w" using Some by (simp add: unlink_def)
  have d: "distinct (m_children (heap w ! a))" if "a < length (heap w)" for a
    using c that by (simp add: cache_ok_def)
  have "cache_ok (upd_mod b ?f w)"
    by (rule cache_ok_cong [OF _ _ _ c]) (auto simp: heap_upd_mod splice_all)
  moreover have "links X (upd_mod b ?f w)"
    using l d unfolding links_def by (auto simp: heap_upd_mod splice_all split: if_splits)
  ultimately show ?thesis by (simp add: u wf_graph_def)
qed (use assms in \<open>simp add: unlink_def\<close>)

lemma unlink_children:
  assumes "wf_graph X w" "b < length (heap w)" "c \<in> set (m_children (heap (unlink w pd) ! b))"
  shows "c \<in> set (m_children (heap w ! b)) \<and> (installed_at w (fst pd) = Some b \<longrightarrow> c \<notin> set (snd pd))"
proof -
  have "distinct (m_children (heap w ! b))" using assms(1,2) by (simp add: wf_graph_def cache_ok_def)
  from splice_all [OF this] assms(2,3) show ?thesis
    by (auto simp: unlink_def heap_upd_mod split: option.splits if_splits)
qed

lemma unlink_all:
  assumes "wf_graph X w"
  shows "wf_graph X (foldl unlink w deps) \<and> installed_at (foldl unlink w deps) = installed_at w \<and>
    length (heap (foldl unlink w deps)) = length (heap w) \<and> modules (foldl unlink w deps) = modules w \<and>
    (\<forall>b c. b < length (heap w) \<longrightarrow> c \<in> set (m_children (heap (foldl unlink w deps) ! b)) \<longrightarrow>
       c \<in> set (m_children (heap w ! b)) \<and>
       (\<forall>(p, ds) \<in> set deps. installed_at w p = Some b \<longrightarrow> c \<notin> set ds))"
  using assms
proof (induction deps arbitrary: w)
  case (Cons pd deps)
  note IH = Cons.IH [OF wf_unlink [OF Cons.prems, of pd]]
  show ?case
  proof (intro conjI allI impI)
    fix b c
    assume b: "b < length (heap w)" and c: "c \<in> set (m_children (heap (foldl unlink w (pd # deps)) ! b))"
    then have "c \<in> set (m_children (heap (unlink w pd) ! b)) \<and>
       (\<forall>(p, ds) \<in> set deps. installed_at w p = Some b \<longrightarrow> c \<notin> set ds)" using IH by simp
    with unlink_children [OF Cons.prems b, of c pd]
    show "c \<in> set (m_children (heap w ! b))"
      "\<forall>(p, ds) \<in> set (pd # deps). installed_at w p = Some b \<longrightarrow> c \<notin> set ds" by auto
  qed (use IH in simp_all)
qed simp

section \<open>The phases together\<close>

interpretation growth: module_code "extends w0" "\<lambda>_ _. True" for w0
proof
  show "extends w0 w \<Longrightarrow> True \<Longrightarrow> exec n a acts w = Some (e, w') \<Longrightarrow> extends w0 w'" for w n a acts e w'
    by (rule extends_trans, assumption, rule exec_require_extends(1))
  show "extends w0 w'" if "extends w0 w" "require n i (w\<lparr>hotCurrentParents := [i]\<rparr>) = Some (r, w')" for w n i r w'
  proof -
    have "extends w (w\<lparr>hotCurrentParents := [i]\<rparr>)" by (simp add: extends_def installed_at_def)
    with that exec_require_extends(2) show ?thesis by (blast intro: extends_trans)
  qed
  show "extends w0 w \<Longrightarrow> extends w0 (emit ef w)" for w ef by (rule extends_trans, assumption, rule extends_emit)
  show "extends w0 w \<Longrightarrow> extends w0 (w\<lparr>cur_data := d\<rparr>)" for w d
    by (rule extends_trans, assumption) (simp add: extends_def installed_at_def)
qed simp_all

lemma accept_loop_extends:
  assumes "accept_loop n o' deps e s = Some (e', t)"
  shows "extends (rt s) (rt t)"
  using assms extends_refl by (rule growth.accept_loop_P)

lemma dispose_chunks_rt [simp]: "rt (dispose_chunks s) = rt s"
proof -
  have "rt (foldl (\<lambda>s (c, b). if b then s else hotDisposeChunk c s) s m) = rt s" for m and s :: hmr
    by (induction m arbitrary: s) (auto simp: hotDisposeChunk_def split: prod.splits)
  then show ?thesis by (simp add: dispose_chunks_def)
qed

lemma rt_status: "\<exists>tr. rt (hotSetStatus st s) = (rt s)\<lparr>trace := tr\<rparr>"
  by (auto simp: hotSetStatus_def upd_rt_def)

lemma frame_trace [simp]:
  "module_of (w\<lparr>trace := tr\<rparr>) = module_of w" "quiet_handlers (w\<lparr>trace := tr\<rparr>) = quiet_handlers w"
  "installed_at (w\<lparr>trace := tr\<rparr>) = installed_at w" "self_accepted (w\<lparr>trace := tr\<rparr>) = self_accepted w"
  by (simp_all add: module_of_def installed_at_def quiet_handlers_def self_accepted_def fun_eq_iff cong: option.case_cong if_cong)

lemma up_edge_trace [simp]: "up_edge (w\<lparr>trace := tr\<rparr>) = up_edge w"
  by (simp add: up_edge_def bubbles_def parents_of_def fun_eq_iff)

lemma wf_trace: "wf_graph X w \<Longrightarrow> wf_graph X (w\<lparr>trace := tr\<rparr>)"
  by (rule wf_frame) simp_all

text \<open>Disposing the plan and unlinking the accepted dependencies restores the graph.\<close>

lemma wf_after_unlink:
  assumes wf: "wf_graph {} w0" and qt: "quiet_handlers w0"
    and closed: "\<And>i q. i \<in> D \<Longrightarrow> up_edge w0 i q \<Longrightarrow> q \<in> D \<or> i \<in> set (dep_list deps q)"
    and bub: "\<And>i. i \<in> D \<Longrightarrow> module_of w0 i \<noteq> None \<Longrightarrow> bubbles w0 i"
    and disp: "dispose_loop k n is deps w0 = Some (None, deps', w')" and D: "D = set is"
  shows "wf_graph {} (foldl unlink w' deps')"
proof -
  from dispose_quiet [OF disp wf qt] D
  have wf': "wf_graph (UNIV \<times> D) w'" and inst: "\<And>j. installed_at w' j = (if j \<in> D then None else installed_at w0 j)"
    and len: "length (heap w') = length (heap w0)"
    and kids: "\<And>b. m_id (heap w' ! b) = m_id (heap w0 ! b) \<and> m_children (heap w' ! b) = m_children (heap w0 ! b)"
    and dl: "\<And>p. p \<notin> D \<Longrightarrow> map_of deps' p = map_of deps p" by auto
  let ?u = "foldl unlink w' deps'"
  note u = unlink_all [OF wf', of deps']
  have wfu: "wf_graph (UNIV \<times> D) ?u" using u by blast
  have lu: "length (heap ?u) = length (heap w')" and iu: "installed_at ?u = installed_at w'" using u by blast+
  have "links {} ?u"
    unfolding links_def
  proof (intro allI impI ballI)
    fix b c
    assume b: "b < length (heap ?u)" "hot_active (heap ?u ! b)" and c: "c \<in> set (m_children (heap ?u ! b))"
    let ?p = "m_id (heap ?u ! b)"
    have up: "installed_at w' ?p = Some b"
      using wf_active [OF wfu b] by (simp only: iu)
    then have pD: "?p \<notin> D" and p0: "installed_at w0 ?p = Some b" using inst [of ?p] by (auto split: if_splits)
    have c': "c \<in> set (m_children (heap w' ! b))"
      "\<forall>(q, ds) \<in> set deps'. installed_at w' q = Some b \<longrightarrow> c \<notin> set ds"
      using conjunct2 [OF conjunct2 [OF conjunct2 [OF conjunct2 [OF u]]]] b(1) c lu by simp_all
    have "c \<notin> D"
    proof
      assume cD: "c \<in> D"
      have act: "b < length (heap w0)" "m_id (heap w0 ! b) = ?p" "hot_active (heap w0 ! b)"
        using wf_installed [OF wf p0] by simp_all
      have "c \<in> set (m_children (heap w0 ! b))" using c'(1) kids by simp
      from wf_link [OF wf act(1,3) this, unfolded act(2)]
      obtain d where d: "installed_at w0 c = Some d" "?p \<in> set (m_parents (heap w0 ! d))" by blast
      have md: "module_of w0 c = Some (heap w0 ! d)" using d(1) by (simp add: module_of_def)
      with bub [OF cD] have "bubbles w0 c" by simp
      moreover have "?p \<in> set (parents_of w0 c)" using d(2) by (simp add: parents_of_def md)
      moreover have "module_of w0 ?p \<noteq> None" using p0 by (simp add: module_of_def)
      ultimately have "up_edge w0 c ?p" by (simp add: up_edge_def)
      with closed [OF cD] pD have "c \<in> set (dep_list deps ?p)" by blast
      then obtain ds where ds: "map_of deps ?p = Some ds" "c \<in> set ds"
        by (cases "map_of deps ?p") (simp_all add: dep_list_def)
      then have "(?p, ds) \<in> set deps'" using dl [OF pD] by (auto dest: map_of_SomeD)
      with c'(2) up ds(2) show False by blast
    qed
    moreover have "(?p, c) \<in> UNIV \<times> D \<or> (\<exists>d. installed_at ?u c = Some d \<and> ?p \<in> set (m_parents (heap ?u ! d)))"
      using wfu b c unfolding wf_graph_def links_def by blast
    ultimately show "(?p, c) \<in> {} \<or> (\<exists>d. installed_at ?u c = Some d \<and> ?p \<in> set (m_parents (heap ?u ! d)))" by blast
  qed
  with wfu show ?thesis by (simp add: wf_graph_def)
qed

lemma no_self_accepted:
  assumes "\<And>i. i \<in> set od \<Longrightarrow> module_of w i \<noteq> None \<Longrightarrow> bubbles w i"
  shows "self_accepted w od = []"
proof -
  have "(case installed_at w i of None \<Rightarrow> None | Some a \<Rightarrow> if selfAccepted (heap w ! a) = NotAccepted then None
      else Some (i, a, selfAccepted (heap w ! a))) = None" if "i \<in> set od" for i
    using assms [OF that] by (auto simp: bubbles_def module_of_def split: option.splits)
  then show ?thesis by (simp add: self_accepted_def List.map_filter_def filter_empty_conv)
qed

text \<open>The shape of a run that got past the plan.\<close>

lemma hotApply_cases:
  assumes "hotApply k n o' s = Some (res, t)"
  obtains (status) "hotStatus s \<noteq> Ready" "t = s" "res = Threw ''apply() is only allowed in ready status''"
  | (abort) e tr where "hotStatus s = Ready" "res = Rejected e"
      "t = s\<lparr>hotStatus := Abort, rt := (rt s)\<lparr>trace := tr\<rparr>\<rparr>"
  | (threw) e p s1 tr deps w where "hotStatus s = Ready" "plan_loop o' (hotUpdate s) no_plan s = (Inr p, s1)"
      "same_but_trace s s1" "res = Threw e" "hotStatus t = Dispose"
      "dispose_loop k n (rev (outdatedModules p)) (outdatedDependencies p) ((rt s)\<lparr>trace := tr\<rparr>) = Some (Some e, deps, w)"
      "t = (dispose_chunks (hotSetStatus Dispose s1))\<lparr>rt := w\<rparr>"
  | (applied) p s1 tr deps w where "hotStatus s = Ready" "plan_loop o' (hotUpdate s) no_plan s = (Inr p, s1)"
      "same_but_trace s s1"
      "dispose_loop k n (rev (outdatedModules p)) (outdatedDependencies p) ((rt s)\<lparr>trace := tr\<rparr>) = Some (None, deps, w)"
      "apply_phase n o' p deps (self_accepted (rt s) (outdatedModules p))
         ((dispose_chunks (hotSetStatus Dispose s1))\<lparr>rt := w\<rparr>) = Some (res, t)"
proof (cases "hotStatus s = Ready")
  case False
  with assms show thesis by (intro status) (simp_all add: hotApply_def)
next
  case True
  obtain pr s1 where pl: "plan_loop o' (hotUpdate s) no_plan s = (pr, s1)"
    by (cases "plan_loop o' (hotUpdate s) no_plan s")
  note same = plan_loop_same [OF pl]
  show thesis
  proof (cases pr)
    case (Inl e)
    with assms True pl same show thesis by (auto simp: hotApply_def intro: abort)
  next
    case (Inr p)
    let ?s = "dispose_chunks (hotSetStatus Dispose s1)"
    from same Inr have sm: "same_but_trace s s1" by simp
    then obtain tr1 where s1: "rt s1 = (rt s)\<lparr>trace := tr1\<rparr>" by (auto simp: same_but_trace_def)
    obtain tr2 where "rt (hotSetStatus Dispose s1) = (rt s1)\<lparr>trace := tr2\<rparr>" using rt_status by blast
    then have rs: "rt (hotSetStatus Dispose s1) = (rt s)\<lparr>trace := tr2\<rparr>" by (simp add: s1)
    have st: "hotStatus ?s = Dispose"
    proof -
      have "hotStatus (foldl (\<lambda>s (c, b). if b then s else hotDisposeChunk c s) s m) = hotStatus s" for m and s :: hmr
        by (induction m arbitrary: s) (auto simp: hotDisposeChunk_def split: prod.splits)
      then show ?thesis by (simp add: dispose_chunks_def hotSetStatus_def upd_rt_def)
    qed
    from assms True pl Inr have dp: "dispose_phase k n o' p s1 = Some (res, t)" by (simp add: hotApply_def)
    then obtain x deps w where
      d: "dispose_loop k n (rev (outdatedModules p)) (outdatedDependencies p) ((rt s)\<lparr>trace := tr2\<rparr>) = Some (x, deps, w)"
      by (auto simp: dispose_phase_def Let_def rs split: option.splits)
    show thesis
    proof (cases x)
      case None
      with dp d have "apply_phase n o' p deps (self_accepted (rt s) (outdatedModules p)) (?s\<lparr>rt := w\<rparr>) = Some (res, t)"
        by (simp add: dispose_phase_def Let_def rs s1)
      then show thesis by (rule applied [OF True pl [unfolded Inr] sm d [unfolded None]])
    next
      case (Some e)
      with dp d have "res = Threw e" "t = ?s\<lparr>rt := w\<rparr>" by (simp_all add: dispose_phase_def Let_def rs)
      with st show thesis by (intro threw [OF True pl [unfolded Inr] sm _ _ d [unfolded Some]]) simp_all
    qed
  qed
qed

section \<open>What callbacks leave alone\<close>

definition only_rt :: "hmr \<Rightarrow> hmr \<Rightarrow> bool" where
  "only_rt s t \<longleftrightarrow> (\<exists>w. t = s\<lparr>rt := w\<rparr>)"

lemma only_rt_refl [simp]: "only_rt s s"
  by (simp add: only_rt_def exI [of _ "rt s"])

lemma only_rt_trans: "only_rt s t \<Longrightarrow> only_rt t u \<Longrightarrow> only_rt s u"
  by (auto simp: only_rt_def)

lemma only_rt_upd [simp]: "only_rt s (s\<lparr>rt := w\<rparr>)" "only_rt s (hook b nm i (s\<lparr>rt := w\<rparr>))" "only_rt s (upd_rt f s)"
  by (auto simp: only_rt_def hook_def upd_rt_def)

lemma run_callbacks_rt: "run_callbacks n o' i a cbs error s = Some (e, t) \<Longrightarrow> only_rt s t"
proof (induction cbs arbitrary: error s)
  case (Cons cb cbs)
  have step: "only_rt s t" if "run_callbacks n o' i a cbs e' s' = Some (e, t)" "only_rt s s'" for e' s'
    using only_rt_trans [OF that(2) Cons.IH [OF that(1)]] .
  note steps = step [OF _ only_rt_refl] step [OF _ only_rt_upd(1)] step [OF _ only_rt_upd(2)]
  from Cons.prems show ?case by (auto split: option.splits dest: steps)
qed simp

lemma accept_loop_rt: "accept_loop n o' deps error s = Some (e, t) \<Longrightarrow> only_rt s t"
proof (induction deps arbitrary: error s)
  case (Cons x deps)
  obtain i ds where x: "x = (i, ds)" by (cases x)
  show ?case
  proof (cases "installed_at (rt s) i")
    case None
    with Cons show ?thesis by (simp add: x)
  next
    case (Some a)
    with Cons.prems obtain e1 u where
      u: "run_callbacks n o' i a (collect_callbacks (acceptedDependencies (heap (rt s) ! a)) ds []) error s = Some (e1, u)"
      "accept_loop n o' deps e1 u = Some (e, t)"
      by (auto simp: x split: option.splits)
    from run_callbacks_rt [OF u(1)] Cons.IH [OF u(2)] show ?thesis by (rule only_rt_trans)
  qed
qed simp

lemma reload_loop_rt: "reload_loop n o' items error s = Some (e, t) \<Longrightarrow> only_rt s t"
proof (induction items arbitrary: error s)
  case (Cons x items)
  obtain i a h where x: "x = (i, a, h)" by (cases x)
  have step: "only_rt s t" if "reload_loop n o' items e' s' = Some (e, t)" "only_rt s s'" for e' s'
    using only_rt_trans [OF that(2) Cons.IH [OF that(1)]] .
  note steps = step [OF _ only_rt_upd(1)] step [OF _ only_rt_upd(2)]
  from Cons.prems show ?case
    by (auto simp: x split: option.splits sum.splits self_accept.splits) (rule step, assumption, simp)+
qed simp

lemma apply_phase_fields:
  assumes "apply_phase n o' p deps items s = Some (res, t)"
  shows "hotCurrentHash t = hotUpdateNewHash s \<and>
    (res = Applied (outdatedModules p) \<and> hotStatus t = Idle \<or> (\<exists>e. res = Rejected e) \<and> hotStatus t = Fail)"
proof -
  let ?s2 = "hotSetStatus Apply (upd_rt (\<lambda>w. foldl unlink w deps) s)"
  let ?s3 = "upd_rt (insert_code p) (?s2\<lparr>hotCurrentHash := hotUpdateNewHash ?s2\<rparr>)"
  obtain error s4 where s4: "accept_loop n o' deps None ?s3 = Some (error, s4)"
    using assms(1) by (auto simp: apply_phase_def Let_def split: option.splits)
  obtain error' s5 where s5: "reload_loop n o' items error s4 = Some (error', s5)"
    using assms(1) s4 by (auto simp: apply_phase_def Let_def split: option.splits)
  have "only_rt ?s3 s5" using accept_loop_rt [OF s4] reload_loop_rt [OF s5] by (rule only_rt_trans)
  then have "hotCurrentHash s5 = hotUpdateNewHash s" by (auto simp: only_rt_def hotSetStatus_def upd_rt_def)
  with assms s4 s5 show ?thesis
    by (cases error') (auto simp: apply_phase_def Let_def hotSetStatus_def upd_rt_def)
qed

section \<open>Disposing, whatever the handlers do\<close>

lemma only_old_retire:
  "only_old gone w0 w \<Longrightarrow> only_old (insert i gone) w0 (retire i a w)"
  by (auto simp: only_old_def retire_simps)

lemma dispose_old:
  "dispose_loop k n is deps w = Some (None, deps', w') \<Longrightarrow> only_old gone w0 w \<Longrightarrow>
   (\<forall>i b. installed_at w0 i = Some b \<longrightarrow> b < length (heap w0)) \<Longrightarrow> only_old (gone \<union> set is) w0 w'"
proof (induction "is" arbitrary: deps w gone)
  case (Cons i "is")
  show ?case
  proof (cases "installed_at w i")
    case None
    then have "only_old (insert i gone) w0 w" using Cons.prems(2) by (auto simp: only_old_def)
    with Cons.IH [of deps w "insert i gone"] Cons.prems None show ?thesis by simp
  next
    case (Some a)
    with Cons.prems(1) obtain u where u: "run_handlers k n a 0 (w\<lparr>cur_data := []\<rparr>) = Some (None, u)"
      "dispose_loop k n is (obj_del i deps) (retire i a u) = Some (None, deps', w')"
      by (auto split: option.splits)
    have "only_old gone w0 u"
      by (rule old.run_handlers_P [OF u(1)]) (simp_all add: old.data Cons.prems(2))
    then have "only_old (insert i gone) w0 (retire i a u)" by (rule only_old_retire)
    from Cons.IH [OF u(2) this Cons.prems(3)] show ?thesis by simp
  qed
qed simp

lemma dispose_modules:
  "dispose_loop k n is deps w = Some (x, deps', w') \<Longrightarrow> modules w' = modules w"
proof (induction "is" arbitrary: deps w)
  case (Cons i "is")
  show ?case
  proof (cases "installed_at w i")
    case None
    with Cons show ?thesis by simp
  next
    case (Some a)
    with Cons.prems obtain y u where u: "run_handlers k n a 0 (w\<lparr>cur_data := []\<rparr>) = Some (y, u)"
      by (auto split: option.splits)
    have m: "modules u = modules w"
      by (rule table.run_handlers_P [OF u]) simp_all
    show ?thesis
    proof (cases y)
      case None
      with Cons.prems Some u have "dispose_loop k n is (obj_del i deps) (retire i a u) = Some (x, deps', w')" by simp
      from Cons.IH [OF this] m show ?thesis by (simp add: retire_simps)
    next
      case (Some e)
      with Cons.prems \<open>installed_at w i = Some a\<close> u m show ?thesis by simp
    qed
  qed
qed simp

lemma unlinks_frame [simp]:
  "modules (foldl unlink w deps) = modules w" "installed_at (foldl unlink w deps) = installed_at w"
  "length (heap (foldl unlink w deps)) = length (heap w)"
  by (induction deps arbitrary: w) simp_all

lemma insert_code_frame [simp]:
  "installed_at (insert_code p w) = installed_at w" "heap (insert_code p w) = heap w"
  "installed (insert_code p w) = installed w"
  by (simp_all add: insert_code_def installed_at_def fun_eq_iff)

lemma map_of_insert_all:
  "distinct (map fst us) \<Longrightarrow> map_of (foldl (\<lambda>ms (i, code). obj_set i (f code) ms) ms us) u =
     (case map_of us u of None \<Rightarrow> map_of ms u | Some c \<Rightarrow> Some (f c))"
proof (induction us arbitrary: ms)
  case (Cons x us)
  obtain i c where x: "x = (i, c)" by (cases x)
  have "map_of us i = None" using Cons.prems by (simp add: x map_of_eq_None_iff)
  with Cons show ?case by (auto simp: x split: option.splits)
qed simp

lemma plan_loop_distinct:
  "plan_loop o' us p s = (Inr q, t) \<Longrightarrow> distinct (map fst (appliedUpdate p)) \<Longrightarrow> distinct (map fst (appliedUpdate q))"
proof (induction us arbitrary: p s)
  case (Cons x us)
  have "distinct (map fst (appliedUpdate (add_to_plan u code r (p\<lparr>last_id := l\<rparr>))))" for u code r l
    using Cons.prems(2) by (cases r) (simp_all add: add_to_plan_def)
  with Cons show ?case by (cases x) (auto simp: Let_def split: option.splits)
qed simp

end
