(* ===== verification/Webpack_Mutual.thy ===== *)
theory Webpack_Mutual
  imports Webpack_Update
begin

text \<open>
  The other half of the module graph: each parent that an active module names is active too and has the module among
  its children. Loading modules keeps it, and so does an update that disposes modules, because a disposed module is
  removed from the parents of its children and from the children of the modules that accepted it.
\<close>

section \<open>Parents\<close>

definition parents_linked :: "wp \<Rightarrow> bool" where
  "parents_linked s \<longleftrightarrow> (\<forall>a < length (heap s). hot_active (heap s ! a) \<longrightarrow> distinct (m_parents (heap s ! a)) \<and>
     (\<forall>p \<in> set (m_parents (heap s ! a)). \<exists>b. installed_at s p = Some b \<and> m_id (heap s ! a) \<in> set (m_children (heap s ! b))))"

text \<open>What the pending parents of a module that is about to be created need.\<close>

definition parents_ready :: "mid \<Rightarrow> wp \<Rightarrow> bool" where
  "parents_ready i s \<longleftrightarrow> installed_at s i = None \<longrightarrow> distinct (hotCurrentParents s) \<and>
     (\<forall>p \<in> set (hotCurrentParents s). \<exists>b. installed_at s p = Some b \<and> i \<in> set (m_children (heap s ! b)))"

lemma parents_linkedD:
  assumes "parents_linked s" "a < length (heap s)" "hot_active (heap s ! a)"
  shows "distinct (m_parents (heap s ! a))"
    "p \<in> set (m_parents (heap s ! a)) \<Longrightarrow> \<exists>b. installed_at s p = Some b \<and> m_id (heap s ! a) \<in> set (m_children (heap s ! b))"
  using assms unfolding parents_linked_def by blast+

text \<open>A state in which nothing of this is lost.\<close>

lemma parents_linked_cong:
  assumes "parents_linked s" "length (heap t) = length (heap s)"
    and "\<And>a. a < length (heap s) \<Longrightarrow> hot_active (heap t ! a) \<Longrightarrow> hot_active (heap s ! a) \<and> m_id (heap t ! a) = m_id (heap s ! a) \<and>
      distinct (m_parents (heap t ! a)) \<and>
      (\<forall>p \<in> set (m_parents (heap t ! a)). p \<in> set (m_parents (heap s ! a)) \<and>
        (\<forall>b. installed_at s p = Some b \<longrightarrow> m_id (heap s ! a) \<in> set (m_children (heap s ! b)) \<longrightarrow>
          installed_at t p = Some b \<and> m_id (heap s ! a) \<in> set (m_children (heap t ! b))))"
  shows "parents_linked t"
  unfolding parents_linked_def
proof (intro allI impI)
  fix a
  assume a: "a < length (heap t)" "hot_active (heap t ! a)"
  then have l: "a < length (heap s)" using assms(2) by simp
  note k = assms(3) [OF l a(2)]
  have "\<exists>b. installed_at t p = Some b \<and> m_id (heap t ! a) \<in> set (m_children (heap t ! b))" if "p \<in> set (m_parents (heap t ! a))" for p
    using k that parents_linkedD(2) [OF assms(1) l, of p] by auto
  then show "distinct (m_parents (heap t ! a)) \<and>
      (\<forall>p \<in> set (m_parents (heap t ! a)). \<exists>b. installed_at t p = Some b \<and> m_id (heap t ! a) \<in> set (m_children (heap t ! b)))"
    using k by blast
qed

lemma parents_linked_frame: "parents_linked s \<Longrightarrow> heap t = heap s \<Longrightarrow> installed_at t = installed_at s \<Longrightarrow> parents_linked t"
  unfolding parents_linked_def by simp

lemma parents_linked_trace: "parents_linked s \<Longrightarrow> parents_linked (s\<lparr>trace := tr\<rparr>)"
  by (rule parents_linked_frame) simp_all

lemma parents_linked_upd:
  assumes "parents_linked s" "keeps_links f"
  shows "parents_linked (upd_mod a f s)"
  by (rule parents_linked_cong [OF assms(1)])
    (use parents_linkedD(1) [OF assms(1)] assms(2) in \<open>auto simp: heap_upd_mod keeps_links_def\<close>)

lemma parents_linked_simple: "parents_linked s \<Longrightarrow> parents_linked (simple_act a act s)"
proof (rule simple_act_rule)
  assume p: "parents_linked s"
  show "keeps_links f \<Longrightarrow> parents_linked (upd_mod a f s)" for f by (rule parents_linked_upd [OF p])
  show "parents_linked (emit (Console e) s)" for e by (rule parents_linked_frame [OF p]) simp_all
  show "parents_linked (s\<lparr>cur_data := d\<rparr>)" for d
    by (rule parents_linked_frame [OF p]) (simp_all add: installed_at_def fun_eq_iff)
qed

section \<open>Loading\<close>

lemma linked_known:
  assumes "wf_graph {} s" "a < length (heap s)" "hot_active (heap s ! a)" "installed_at s r = Some b" "parents_linked s"
  shows "parents_linked (upd_mod a (\<lambda>m. m\<lparr>m_children := push_new (m_children m) r\<rparr>)
    (upd_mod b (\<lambda>m. m\<lparr>m_parents := push_new (m_parents m) (m_id (heap s ! a))\<rparr>) s))" (is "parents_linked ?t")
proof -
  let ?p = "m_id (heap s ! a)"
  have b: "b < length (heap s)" "m_id (heap s ! b) = r" using wf_installed [OF assms(1,4)] by simp_all
  have a: "installed_at s ?p = Some a" using wf_active [OF assms(1-3)] .
  have t: "m_id (heap ?t ! x) = m_id (heap s ! x)" "hot_active (heap ?t ! x) = hot_active (heap s ! x)"
    "m_parents (heap ?t ! x) = (if x = b then push_new (m_parents (heap s ! x)) ?p else m_parents (heap s ! x))"
    "set (m_children (heap ?t ! x)) = (if x = a then insert r (set (m_children (heap s ! x))) else set (m_children (heap s ! x)))" for x
    using assms(2) b(1) by (auto simp: heap_upd_mod)
  show ?thesis
    unfolding parents_linked_def
  proof (intro allI impI)
    fix x
    assume "x < length (heap ?t)" "hot_active (heap ?t ! x)"
    then have x: "x < length (heap s)" "hot_active (heap s ! x)" by (simp_all add: t)
    have "\<exists>c. installed_at ?t p = Some c \<and> m_id (heap ?t ! x) \<in> set (m_children (heap ?t ! c))" if "p \<in> set (m_parents (heap ?t ! x))" for p
    proof (cases "x = b \<and> p = ?p")
      case True
      then show ?thesis using a b(2) by (auto simp: t)
    next
      case False
      then have "p \<in> set (m_parents (heap s ! x))" using that by (auto simp: t split: if_splits)
      then obtain c where c: "installed_at s p = Some c" "m_id (heap s ! x) \<in> set (m_children (heap s ! c))"
        using parents_linkedD(2) [OF assms(5) x] by blast
      from c(2) have "m_id (heap ?t ! x) \<in> set (m_children (heap ?t ! c))" unfolding t by (cases "c = a") simp_all
      with c(1) show ?thesis by auto
    qed
    moreover have "distinct (m_parents (heap ?t ! x))"
      using parents_linkedD(1) [OF assms(5) x] unfolding t by (cases "x = b") simp_all
    ultimately show "distinct (m_parents (heap ?t ! x)) \<and>
        (\<forall>p \<in> set (m_parents (heap ?t ! x)). \<exists>b. installed_at ?t p = Some b \<and> m_id (heap ?t ! x) \<in> set (m_children (heap ?t ! b)))"
      by blast
  qed
qed

lemma linked_hot_link:
  assumes "wf_graph {} s" "a < length (heap s)" "parents_linked s"
  shows "parents_linked (hot_link a r s) \<and> parents_ready r (hot_link a r s)"
proof (rule hot_link_rule)
  fix b assume "hot_active (heap s ! a)" "installed_at s r = Some b"
  then show "parents_linked (upd_mod a (\<lambda>m. m\<lparr>m_children := push_new (m_children m) r\<rparr>)
      (upd_mod b (\<lambda>m. m\<lparr>m_parents := push_new (m_parents m) (m_id (heap s ! a))\<rparr>) s)) \<and>
    parents_ready r (upd_mod a (\<lambda>m. m\<lparr>m_children := push_new (m_children m) r\<rparr>)
      (upd_mod b (\<lambda>m. m\<lparr>m_parents := push_new (m_parents m) (m_id (heap s ! a))\<rparr>) s))"
    using linked_known [OF assms(1,2) _ _ assms(3)] by (simp add: parents_ready_def)
next
  assume act: "hot_active (heap s ! a)" and "installed_at s r = None"
  let ?u = "s\<lparr>hotCurrentParents := [m_id (heap s ! a)], hotCurrentChildModule := Some r\<rparr>"
  have u: "parents_linked ?u" by (rule parents_linked_frame [OF assms(3)]) (simp_all add: installed_at_def fun_eq_iff)
  have "parents_linked (upd_mod a (\<lambda>m. m\<lparr>m_children := push_new (m_children m) r\<rparr>) ?u)"
    by (rule parents_linked_cong [OF u]) (use parents_linkedD(1) [OF assms(3)] in \<open>auto simp: heap_upd_mod\<close>)
  moreover have "parents_ready r (upd_mod a (\<lambda>m. m\<lparr>m_children := push_new (m_children m) r\<rparr>) ?u)"
    using wf_active [OF assms(1,2) act] assms(2) by (simp add: parents_ready_def heap_upd_mod) (simp add: installed_at_def)
  ultimately show "parents_linked (upd_mod a (\<lambda>m. m\<lparr>m_children := push_new (m_children m) r\<rparr>) ?u) \<and>
    parents_ready r (upd_mod a (\<lambda>m. m\<lparr>m_children := push_new (m_children m) r\<rparr>) ?u)" by blast
next
  fix msg
  show "parents_linked (emit (Console msg) (s\<lparr>hotCurrentParents := []\<rparr>)) \<and> parents_ready r (emit (Console msg) (s\<lparr>hotCurrentParents := []\<rparr>))"
    using parents_linked_frame [OF assms(3), of "emit (Console msg) (s\<lparr>hotCurrentParents := []\<rparr>)"]
    by (simp add: parents_ready_def) (simp add: installed_at_def fun_eq_iff)
qed

lemma linked_create:
  assumes "wf_graph X s" "installed_at s i = None" "parents_linked s" "parents_ready i s"
  shows "parents_linked (create_module i s)"
proof -
  let ?t = "create_module i s" and ?n = "length (heap s)"
  have heap: "heap ?t = heap s @ [new_module i s]" by (simp add: create_module_def)
  have old: "\<exists>b. installed_at ?t p = Some b \<and> j \<in> set (m_children (heap ?t ! b))"
    if ex: "\<exists>b. installed_at s p = Some b \<and> j \<in> set (m_children (heap s ! b))" for p j
  proof -
    obtain b where b: "installed_at s p = Some b" "j \<in> set (m_children (heap s ! b))" using ex by blast
    have "b < ?n" using wf_installed [OF assms(1) b(1)] by simp
    moreover have "p \<noteq> i" using b(1) assms(2) by auto
    ultimately show ?thesis using b by (simp add: heap nth_append)
  qed
  show ?thesis
    unfolding parents_linked_def
  proof (intro allI impI)
    fix a
    assume a: "a < length (heap ?t)" "hot_active (heap ?t ! a)"
    show "distinct (m_parents (heap ?t ! a)) \<and>
        (\<forall>p \<in> set (m_parents (heap ?t ! a)). \<exists>b. installed_at ?t p = Some b \<and> m_id (heap ?t ! a) \<in> set (m_children (heap ?t ! b)))"
    proof (cases "a < ?n")
      case True
      then have at: "heap ?t ! a = heap s ! a" by (simp add: heap nth_append)
      show ?thesis using parents_linkedD [OF assms(3) True] a(2) old unfolding at by blast
    next
      case False
      then have at: "heap ?t ! a = new_module i s" using a(1) by (simp add: heap nth_append)
      show ?thesis using assms(2,4) old unfolding at parents_ready_def by (simp add: new_module_def)
    qed
  qed
qed

lemma exec_require_linked:
  "exec n a acts s = Some (e, t) \<Longrightarrow> wf_graph {} s \<Longrightarrow> a < length (heap s) \<Longrightarrow> parents_linked s \<Longrightarrow> parents_linked t"
  "require n i s' = Some (r, t') \<Longrightarrow> wf_graph (pending i s') s' \<Longrightarrow> parents_linked s' \<Longrightarrow> parents_ready i s' \<Longrightarrow> parents_linked t'"
proof (induction n a acts s and n i s' arbitrary: e t and r t' rule: exec_require_rule)
  case (Require n a r acts s)
  from Require.prems(1) obtain res u where u: "require n r (hot_link a r s) = Some (res, u)"
    by (auto split: option.splits)
  note wl = wf_hot_link [OF Require.prems(2,3), of r]
  have wu: "wf_graph {} u" by (rule exec_require_wf(2) [OF u wl])
  have au: "a < length (heap u)"
    using extends_trans [OF extends_hot_link exec_require_extends(2) [OF u]] Require.prems(3) by (rule extends_length)
  have lu: "parents_linked u" using Require.IH(1) [OF u wl] linked_hot_link [OF Require.prems(2-4)] by blast
  show ?case
  proof (cases res)
    case (Inl x)
    with Require.prems(1) u lu show ?thesis by simp
  next
    case (Inr b)
    with Require.prems(1) u have "exec n a acts u = Some (e, t)" by simp
    from Require.IH(2) [OF u [unfolded Inr] this wu au lu] show ?thesis .
  qed
next
  case (Simple n a act acts s)
  have "a < length (heap (simple_act a act s))" using extends_simple Simple.prems(3) by (rule extends_length)
  with Simple wf_simple_act parents_linked_simple show ?case by simp
next
  case (Load n i s)
  let ?s1 = "emit (Ran i) (create_module i s)"
  have wf2: "wf_graph {} ?s1" if "installed_at s i = None"
    by (rule wf_frame [OF wf_create [of "pending i s"]]) (use Load.prems(2) that in \<open>auto simp: pending_def\<close>)
  have l1: "parents_linked (create_module i s)" if "installed_at s i = None"
    by (rule linked_create [OF Load.prems(2) that Load.prems(3,4)])
  have l2: "parents_linked ?s1" if "installed_at s i = None" by (rule parents_linked_frame [OF l1 [OF that]]) simp_all
  from Load.prems(1) show ?case
  proof (cases rule: require_cases)
    case (cached a)
    with Load.prems(3) show ?thesis by simp
  next
    case no_code
    with l1 show ?thesis by simp
  next
    case (threw code m x)
    show ?thesis by (rule Load.IH [OF threw(1-4) wf2 [OF threw(1)] _ l2 [OF threw(1)]]) simp
  next
    case (loaded code m u)
    have "parents_linked u" by (rule Load.IH [OF loaded(1-4) wf2 [OF loaded(1)] _ l2 [OF loaded(1)]]) simp
    then show ?thesis unfolding loaded(6) by (rule parents_linked_upd) (simp add: keeps_links_def)
  qed
qed simp_all

interpretation mutual: callback_code "\<lambda>w. wf_graph {} w \<and> parents_linked w" "\<lambda>a w. a < length (heap w)"
proof
  show "wf_graph {} w \<and> parents_linked w \<Longrightarrow> installed_at w i = Some a \<Longrightarrow> a < length (heap w)" for w i a
    using wf_installed by blast
  show "wf_graph {} w \<and> parents_linked w \<Longrightarrow> a < length (heap w) \<Longrightarrow> exec n a acts w = Some (e, w') \<Longrightarrow>
      wf_graph {} w' \<and> parents_linked w'" for w a n acts e w'
    using exec_require_wf(1) exec_require_linked(1) by blast
  show "wf_graph {} w \<and> parents_linked w \<Longrightarrow> wf_graph {} (emit ef w) \<and> parents_linked (emit ef w)" for w ef
    by (auto intro: wf_frame parents_linked_frame)
  show "wf_graph {} w \<and> parents_linked w \<Longrightarrow> wf_graph {} (w\<lparr>cur_data := d\<rparr>) \<and> parents_linked (w\<lparr>cur_data := d\<rparr>)" for w d
    by (auto intro!: wf_frame [of "{}" w] parents_linked_frame [of w] simp: installed_at_def fun_eq_iff)
qed (rule extends_length)

section \<open>Disposing\<close>

lemma drop_parent_parents:
  assumes "distinct (m_parents (heap w ! b))"
  shows "distinct (m_parents (heap (drop_parent i w c) ! b)) \<and>
    set (m_parents (heap (drop_parent i w c) ! b)) \<subseteq> set (m_parents (heap w ! b)) \<and>
    (installed_at w c = Some b \<longrightarrow> b < length (heap w) \<longrightarrow> i \<notin> set (m_parents (heap (drop_parent i w c) ! b)))"
  using assms by (auto simp: drop_parent_def heap_upd_mod js_array split: option.splits)

lemma drop_parents_parents:
  assumes "distinct (m_parents (heap w ! b))"
  shows "distinct (m_parents (heap (foldl (drop_parent i) w cs) ! b)) \<and>
    set (m_parents (heap (foldl (drop_parent i) w cs) ! b)) \<subseteq> set (m_parents (heap w ! b)) \<and>
    (\<forall>c \<in> set cs. installed_at w c = Some b \<longrightarrow> b < length (heap w) \<longrightarrow>
       i \<notin> set (m_parents (heap (foldl (drop_parent i) w cs) ! b)))"
  using assms
proof (induction cs arbitrary: w)
  case (Cons c cs)
  note one = drop_parent_parents [OF Cons.prems, of i c]
  note rest = Cons.IH [OF conjunct1 [OF one]]
  show ?case using one rest by auto
qed simp

lemma linked_retire:
  assumes wf: "wf_graph X w" and ia: "installed_at w i = Some a" and p: "parents_linked w"
  shows "parents_linked (retire i a w)"
proof (rule parents_linked_cong [OF p])
  let ?t = "retire i a w"
  show "length (heap ?t) = length (heap w)" by (simp add: retire_simps)
  fix b
  assume b: "b < length (heap w)" "hot_active (heap ?t ! b)"
  have a: "a < length (heap w)" "m_id (heap w ! a) = i" using wf_installed [OF wf ia] by simp_all
  have act: "b \<noteq> a" "hot_active (heap w ! b)" using b a(1) by (simp_all add: retire_nth)
  have ib: "installed_at w (m_id (heap w ! b)) = Some b" by (rule wf_active [OF wf b(1) act(2)])
  have ne: "m_id (heap w ! b) \<noteq> i" using ib ia act(1) by auto
  define u where "u = (upd_mod a (\<lambda>m. m\<lparr>hot_active := False\<rparr>)
    (w\<lparr>hotCurrentModuleData := obj_set i (cur_data w) (hotCurrentModuleData w)\<rparr>))\<lparr>installed := obj_del i (installed w)\<rparr>"
  have ru: "?t = foldl (drop_parent i) u (m_children (heap w ! a))"
    by (simp add: retire_def Let_def u_def heap_upd_mod)
  have u: "m_parents (heap u ! b) = m_parents (heap w ! b)" "length (heap u) = length (heap w)"
    "installed_at u = (installed_at w)(i := None)"
    using act(1) by (simp_all add: u_def heap_upd_mod installed_at_def fun_eq_iff)
  have d: "distinct (m_parents (heap u ! b))" using parents_linkedD(1) [OF p b(1) act(2)] u(1) by simp
  note dp = drop_parents_parents [OF d, of i "m_children (heap w ! a)", folded ru]
  have gone: "i \<notin> set (m_parents (heap ?t ! b))"
  proof
    assume i: "i \<in> set (m_parents (heap ?t ! b))"
    then have "i \<in> set (m_parents (heap w ! b))" using dp u(1) by auto
    from parents_linkedD(2) [OF p b(1) act(2) this] ia have "m_id (heap w ! b) \<in> set (m_children (heap w ! a))" by simp
    moreover have "installed_at u (m_id (heap w ! b)) = Some b" using ib ne u(3) by simp
    ultimately show False using dp b(1) u(2) i by auto
  qed
  show "hot_active (heap w ! b) \<and> m_id (heap ?t ! b) = m_id (heap w ! b) \<and> distinct (m_parents (heap ?t ! b)) \<and>
      (\<forall>q \<in> set (m_parents (heap ?t ! b)). q \<in> set (m_parents (heap w ! b)) \<and>
        (\<forall>c. installed_at w q = Some c \<longrightarrow> m_id (heap w ! b) \<in> set (m_children (heap w ! c)) \<longrightarrow>
          installed_at ?t q = Some c \<and> m_id (heap w ! b) \<in> set (m_children (heap ?t ! c))))"
    using act(2) dp gone u(1) by (auto simp: retire_simps retire_nth)
qed

lemma linked_same:
  assumes "same_links w w'" "parents_linked w"
  shows "parents_linked w'"
  by (rule parents_linked_cong [OF assms(2)])
    (use assms(1) parents_linkedD(1) [OF assms(2)] in \<open>auto simp: same_links_def installed_at_def\<close>)

lemma dispose_linked:
  assumes "dispose_loop k n is deps w = Some (None, deps', w')" "wf_graph X w" "quiet_handlers w" "parents_linked w"
  shows "parents_linked w'"
  using assms
proof (induction "is" arbitrary: deps w X)
  case (Cons i "is")
  show ?case
  proof (cases "installed_at w i")
    case None
    with Cons show ?thesis by simp
  next
    case (Some a)
    let ?w = "w\<lparr>cur_data := []\<rparr>"
    from Cons.prems(1) Some obtain u where u: "run_handlers k n a 0 ?w = Some (None, u)"
      and rest: "dispose_loop k n is (obj_del i deps) (retire i a u) = Some (None, deps', w')"
      by (auto split: option.splits)
    have al: "a < length (heap w)" using wf_installed [OF Cons.prems(2) Some] by simp
    have "same_links w ?w" by (simp add: same_links_def)
    moreover have "quiet_handlers ?w" using Cons.prems(3) by (simp add: quiet_handlers_def)
    with al have "same_links ?w u" by (intro run_handlers_quiet [OF u]) simp_all
    ultimately have wu: "same_links w u" by (rule same_links_trans)
    have iu: "installed_at u i = Some a" using wu Some by (simp add: same_links_def installed_at_def)
    note wfu = same_links_wf [OF wu Cons.prems(2)]
    show ?thesis
    proof (rule Cons.IH [OF rest wf_retire [OF wfu iu]])
      show "quiet_handlers (retire i a u)"
        using same_links_quiet [OF wu Cons.prems(3)] by (simp add: quiet_handlers_def retire_simps retire_nth)
      show "parents_linked (retire i a u)" by (rule linked_retire [OF wfu iu linked_same [OF wu Cons.prems(4)]])
    qed
  qed
qed simp

section \<open>Only outdated modules are outdated dependencies\<close>

definition deps_in :: "mid set \<Rightarrow> mid list obj \<Rightarrow> bool" where
  "deps_in D deps \<longleftrightarrow> (\<forall>(q, ds) \<in> set deps. set ds \<subseteq> D)"

lemma deps_in_mono: "deps_in D deps \<Longrightarrow> D \<subseteq> E \<Longrightarrow> deps_in E deps"
  unfolding deps_in_def by blast

lemma set_obj_set: "set (obj_set k v ms) \<subseteq> insert (k, v) (set ms)"
  by (induction k v ms rule: obj_set.induct) auto

lemma deps_in_add:
  assumes "deps_in D deps" "set is \<subseteq> D"
  shows "deps_in D (add_deps p is deps)"
proof -
  have "set (dep_list deps p) \<subseteq> D"
    using assms(1) map_of_SomeD [of deps p] by (cases "map_of deps p") (fastforce simp: dep_list_def deps_in_def)+
  with assms(2) have "set (push_all_new (dep_list deps p) is) \<subseteq> D" by simp
  with set_obj_set [of p "push_all_new (dep_list deps p) is" deps] assms(1) show ?thesis
    unfolding deps_in_def add_deps_def by blast
qed

lemma deps_in_del: "deps_in D deps \<Longrightarrow> deps_in D (obj_del p deps)"
  by (simp add: deps_in_def obj_del_def)

lemma deps_in_merge: "deps_in D deps \<Longrightarrow> deps_in D new \<Longrightarrow> deps_in D (merge_deps deps new)"
  by (induction new arbitrary: deps) (auto simp: merge_deps_def deps_in_add deps_in_def [of _ "_ # _"] deps_in_def [symmetric])

definition walk_in :: "walk \<Rightarrow> bool" where
  "walk_in w = (case w of (od, deps, queue) \<Rightarrow> deps_in (set od) deps \<and> snd ` set queue \<subseteq> set od)"

lemma parents_loop_in:
  "parents_loop s i c ps w = r \<Longrightarrow> walk_in w \<Longrightarrow> i \<in> set (fst w) \<Longrightarrow>
   (case r of Inl x \<Rightarrow> \<exists>ch p. x = Declined ch i p | Inr w' \<Rightarrow> walk_in w')"
proof (induction s i c ps w rule: parents_loop.induct)
  case (2 s i c p ps od deps queue)
  have "walk_in (od, add_deps p [i] deps, queue)" using 2(6,7) by (simp add: walk_in_def deps_in_add)
  moreover have "walk_in (od @ [p], obj_del p deps, queue @ [(c @ [p], p)])"
    using 2(6) by (auto simp: walk_in_def intro: deps_in_del deps_in_mono)
  ultimately show ?case using 2 by (cases "module_of s p") (auto split: if_splits)
qed auto

lemma affected_loop_in:
  "affected_loop s u w = Accepted v od deps \<Longrightarrow> walk_in w \<Longrightarrow> deps_in (set od) deps"
proof (induction "walk_size s w" arbitrary: w rule: less_induct)
  case less
  obtain od0 deps0 queue where w: "w = (od0, deps0, queue)" by (cases w)
  show ?case
  proof (cases "queue = []")
    case True
    with less.prems show ?thesis by (simp add: w affected_loop.simps walk_in_def)
  next
    case False
    obtain c i where l: "last queue = (c, i)" by (cases "last queue")
    have i: "i \<in> set od0" using less.prems(2) last_in_set [OF False] l by (force simp: w walk_in_def)
    have rest: "walk_in (od0, deps0, butlast queue)" using less.prems(2) by (auto simp: w walk_in_def dest: in_set_butlastD)
    have small: "walk_size s (od0, deps0, butlast queue) < walk_size s w" using False by (simp add: w walk_size_def)
    note skip = less.hyps [OF small _ rest]
    have loop: "case parents_loop s i c ps (od0, deps0, butlast queue) of Inl x \<Rightarrow> \<exists>ch p. x = Declined ch i p
      | Inr w' \<Rightarrow> affected_loop s u w' = Accepted v od deps \<longrightarrow> deps_in (set od) deps" for ps
      using parents_loop_in [OF refl rest, of i s c ps] i parents_loop_size [of s i c ps "(od0, deps0, butlast queue)"]
        less.hyps small by (auto split: sum.splits intro: le_less_trans)
    from less.prems(1) loop skip show ?thesis
      unfolding w affected_loop.simps [of s u od0 deps0 queue] l Let_def prod.case
      by (fastforce simp: False split: option.splits if_splits sum.splits)
  qed
qed

lemma plan_loop_in:
  "plan_loop o' us p s = (Inr q, t) \<Longrightarrow> deps_in (set (outdatedModules p)) (outdatedDependencies p) \<Longrightarrow>
   deps_in (set (outdatedModules q)) (outdatedDependencies q)"
proof (induction us arbitrary: p s)
  case (Cons x us)
  obtain u code where x: "x = (u, code)" by (cases x)
  define r where "r = (case code of None \<Rightarrow> Disposed u | Some _ \<Rightarrow> getAffectedStuff (rt s) u)"
  let ?p = "add_to_plan u code r (p\<lparr>last_id := result_id r\<rparr>)"
  from Cons.prems(1) have pl: "plan_loop o' us ?p (result_hook o' r s) = (Inr q, t)"
    by (auto simp: x r_def Let_def split: option.splits)
  have "deps_in (set od) deps" if "r = Accepted v od deps" for v od deps
    using that affected_loop_in [of "rt s" u "([u], [], [([u], u)])" v od deps]
    by (auto simp: r_def getAffectedStuff_def walk_in_def deps_in_def split: option.splits)
  then have "deps_in (set (outdatedModules ?p)) (outdatedDependencies ?p)"
    using Cons.prems(2) by (cases r) (auto simp: add_to_plan_def intro: deps_in_mono intro!: deps_in_merge)
  with Cons.IH [OF pl] show ?case .
qed simp

lemma dispose_deps: "dispose_loop k n is deps w = Some (x, deps', w') \<Longrightarrow> set deps' \<subseteq> set deps"
proof (induction "is" arbitrary: deps w)
  case (Cons i "is")
  have "set (obj_del i deps) \<subseteq> set deps" by (auto simp: obj_del_def)
  with Cons show ?case by (fastforce split: option.splits)
qed simp

section \<open>Unlinking\<close>

lemma splice_others: "j \<in> set cs \<Longrightarrow> j \<notin> set ds \<Longrightarrow> j \<in> set (foldl (\<lambda>cs d. splice_first d cs) cs ds)"
  by (induction ds arbitrary: cs) (auto simp: js_array)

lemma unlink_nth:
  "m_id (heap (unlink w pd) ! b) = m_id (heap w ! b)" "m_parents (heap (unlink w pd) ! b) = m_parents (heap w ! b)"
  "hot_active (heap (unlink w pd) ! b) = hot_active (heap w ! b)"
  "j \<in> set (m_children (heap w ! b)) \<Longrightarrow> j \<notin> set (snd pd) \<Longrightarrow> j \<in> set (m_children (heap (unlink w pd) ! b))"
  by (auto simp: unlink_def heap_upd_mod splice_others split: option.splits)

lemma linked_unlink:
  assumes "wf_graph X w" "parents_linked w" "\<forall>j \<in> D. installed_at w j = None" "deps_in D deps"
  shows "parents_linked (foldl unlink w deps)"
  using assms
proof (induction deps arbitrary: w)
  case (Cons pd deps)
  have pd: "set (snd pd) \<subseteq> D" "deps_in D deps" using Cons.prems(4) by (auto simp: deps_in_def)
  have "parents_linked (unlink w pd)"
  proof (rule parents_linked_cong [OF Cons.prems(2)])
    fix a
    assume a: "a < length (heap w)" "hot_active (heap (unlink w pd) ! a)"
    then have act: "hot_active (heap w ! a)" by (simp add: unlink_nth)
    have "m_id (heap w ! a) \<notin> set (snd pd)" using wf_active [OF Cons.prems(1) a(1) act] Cons.prems(3) pd(1) by auto
    then show "hot_active (heap w ! a) \<and> m_id (heap (unlink w pd) ! a) = m_id (heap w ! a) \<and>
      distinct (m_parents (heap (unlink w pd) ! a)) \<and>
      (\<forall>p \<in> set (m_parents (heap (unlink w pd) ! a)). p \<in> set (m_parents (heap w ! a)) \<and>
        (\<forall>b. installed_at w p = Some b \<longrightarrow> m_id (heap w ! a) \<in> set (m_children (heap w ! b)) \<longrightarrow>
          installed_at (unlink w pd) p = Some b \<and> m_id (heap w ! a) \<in> set (m_children (heap (unlink w pd) ! b))))"
      using act parents_linkedD(1) [OF Cons.prems(2) a(1) act] by (simp add: unlink_nth)
  qed simp
  with Cons.IH [OF wf_unlink [OF Cons.prems(1)]] Cons.prems(3) pd(2) show ?case by simp
qed simp

text \<open>The whole of it: dispose what is outdated, then unlink it.\<close>

lemma linked_after_unlink:
  assumes wf: "wf_graph {} w0" and qt: "quiet_handlers w0" and p: "parents_linked w0"
    and disp: "dispose_loop k n is deps w0 = Some (None, deps', w')" and ind: "deps_in (set is) deps"
  shows "parents_linked (foldl unlink w' deps')"
proof (rule linked_unlink)
  note d = dispose_quiet [OF disp wf qt]
  show "wf_graph ({} \<union> UNIV \<times> set is) w'" using d by simp
  show "parents_linked w'" by (rule dispose_linked [OF disp wf qt p])
  show "\<forall>j \<in> set is. installed_at w' j = None" using d by simp
  show "deps_in (set is) deps'" using ind dispose_deps [OF disp] unfolding deps_in_def by blast
qed

end
