(* ===== verification/Webpack_Hot.thy ===== *)
theory Webpack_Hot
  imports Webpack_Mutual
begin

text \<open>
  The properties of \<open>hotApply\<close>, with the runs that show them on small applications, and the runs that
  show where the code does not keep them.
\<close>

section \<open>Consequences of the phases\<close>

lemma phase_start:
  "\<exists>tr. rt (hotSetStatus Apply (upd_rt (\<lambda>w. foldl unlink w deps) s)) = (foldl unlink (rt s) deps)\<lparr>trace := tr\<rparr>"
  by (auto simp: hotSetStatus_def upd_rt_def)

lemma apply_graph:
  assumes "apply_phase n o' p deps [] s = Some (res, t)" and wf: "wf_graph {} (foldl unlink (rt s) deps)"
    and pl: "parents_linked (foldl unlink (rt s) deps)"
  shows "wf_graph {} (rt t) \<and> parents_linked (rt t)"
proof (rule mutual.accept_phase_P [OF assms(1)])
  let ?w = "rt (hotSetStatus Apply (upd_rt (\<lambda>w. foldl unlink w deps) s))"
  obtain tr where tr: "?w = (foldl unlink (rt s) deps)\<lparr>trace := tr\<rparr>" using phase_start by blast
  have "wf_graph {} (insert_code p ?w)" unfolding tr by (rule wf_frame [OF wf]) simp_all
  moreover have "parents_linked (insert_code p ?w)" unfolding tr by (rule parents_linked_frame [OF pl]) simp_all
  ultimately show "wf_graph {} (insert_code p ?w) \<and> parents_linked (insert_code p ?w)" ..
qed

lemma apply_old:
  assumes "apply_phase n o' p deps items s = Some (res, t)" and old: "only_old gone w0 (rt s)"
  shows "only_old gone w0 (rt t)"
proof (rule old.apply_phase_P [OF assms(1) _ _ accept_loop_extends])
  obtain tr where tr: "rt (hotSetStatus Apply (upd_rt (\<lambda>w. foldl unlink w deps) s)) =
      (foldl unlink (rt s) deps)\<lparr>trace := tr\<rparr>" using phase_start by blast
  show "only_old gone w0 (insert_code p (rt (hotSetStatus Apply (upd_rt (\<lambda>w. foldl unlink w deps) s))))"
    unfolding tr by (rule only_old_frame [OF old]) simp_all
qed simp

lemma apply_modules:
  assumes "apply_phase n o' p deps items s = Some (res, t)"
  shows "modules (rt t) = modules (insert_code p (rt s))"
proof (rule table.apply_phase_P [OF assms _ _ accept_loop_extends])
  obtain tr where tr: "rt (hotSetStatus Apply (upd_rt (\<lambda>w. foldl unlink w deps) s)) =
      (foldl unlink (rt s) deps)\<lparr>trace := tr\<rparr>" using phase_start by blast
  show "modules (insert_code p (rt (hotSetStatus Apply (upd_rt (\<lambda>w. foldl unlink w deps) s)))) =
      modules (insert_code p (rt s))" unfolding tr by (simp add: insert_code_def)
qed simp

lemma dispose_chunks_hash [simp]: "hotUpdateNewHash (dispose_chunks s) = hotUpdateNewHash s"
proof -
  have "hotUpdateNewHash (foldl (\<lambda>s (c, b). if b then s else hotDisposeChunk c s) s m) = hotUpdateNewHash s"
    for m and s :: hmr
    by (induction m arbitrary: s) (auto simp: hotDisposeChunk_def split: prod.splits)
  then show ?thesis by (simp add: dispose_chunks_def)
qed

text \<open>Every update of \<open>hotUpdate\<close> is in the module table, and nothing else changed there.\<close>

definition code_installed :: "hmr \<Rightarrow> hmr \<Rightarrow> bool" where
  "code_installed s t \<longleftrightarrow> (\<forall>u. case map_of (hotUpdate s) u of
      None \<Rightarrow> map_of (modules (rt t)) u = map_of (modules (rt s)) u
    | Some (Some c) \<Rightarrow> map_of (modules (rt t)) u = Some c
    | Some None \<Rightarrow> \<exists>i. map_of (modules (rt t)) u = Some (warn_code i))"

lemma insert_plan:
  assumes "plan_loop o' (hotUpdate s) no_plan s = (Inr p, s1)" "\<not> ignoreDeclined o'" "\<not> ignoreUnaccepted o'"
    "distinct (map fst (hotUpdate s))" "modules w = modules (rt s)" "modules (rt t) = modules (insert_code p w)"
  shows "code_installed s t"
proof -
  have app: "map_of (appliedUpdate p) u = map_of (hotUpdate s) u" for u
    using plan_loop_applies [OF assms(1-4)] by (simp add: no_plan_def split: option.splits)
  have d: "distinct (map fst (appliedUpdate p))"
    by (rule plan_loop_distinct [OF assms(1)]) (simp add: no_plan_def)
  have "map_of (modules (rt t)) u = (case map_of (hotUpdate s) u of None \<Rightarrow> map_of (modules (rt s)) u
      | Some code \<Rightarrow> Some (case code of None \<Rightarrow> warn_code (last_id p) | Some c \<Rightarrow> c))" for u
    unfolding assms(6) insert_code_def using map_of_insert_all [OF d] by (simp add: app assms(5))
  then show ?thesis by (auto simp: code_installed_def split: option.splits)
qed

section \<open>Properties\<close>

text \<open>An application for the examples: \<open>app\<close> accepts \<open>page\<close> with a callback that requires it again;
  \<open>page\<close> keeps data when it is disposed, and uses \<open>style\<close>, which accepts itself. \<open>main\<close> is the entry.\<close>

definition demo :: "action list obj" where
  "demo = [(''app'', [Require ''page'', AcceptDeps [''page''] (Some (Fn 1 [Require ''page'']))]),
     (''page'', [Require ''style'', AddDispose (Fn 2 [SetData ''k'' ''v''])]),
     (''style'', [AcceptSelf None])]"

definition loaded :: "mid \<Rightarrow> action list obj \<Rightarrow> wp" where
  "loaded i ms = (case require (length ms) i (fresh ms) of Some (_, w) \<Rightarrow> w | None \<Rightarrow> fresh ms)"

definition ready :: "action list option obj \<Rightarrow> wp \<Rightarrow> hmr" where
  "ready us w = \<lparr>rt = w, installedChunks = [], deferredModules = [], resolved = [], jsonpArray = [],
     has_parent = True, hotStatus = Ready, hotStatusHandlers = [7], hotUpdate = us, hotUpdateNewHash = ''new'',
     hotCurrentHash = ''old'', hotAvailableFilesMap = [], hotRequestedFilesMap = [], hotWaitingFilesMap = [],
     hotWaitingFiles = 0, hotChunksLoading = 0, hotDeferred = None, hotApplyOnUpdate = Some no_options,
     jobs = [], settled = [], next_promise = 0\<rparr>"

lemma loaded_wf: "wf_graph {} (loaded i ms)"
proof -
  obtain r w where "require (length ms) i (fresh ms) = Some (r, w)"
    using require_enough [of "fresh ms" "length ms" i] by (auto simp: fresh_def)
  moreover from exec_require_wf(2) [OF this] have "wf_graph {} w"
    by (simp add: pending_def fresh_ok)
  ultimately show ?thesis by (simp add: loaded_def)
qed

definition new_page :: "action list" where
  "new_page = [Require ''style'', Log ''page v2'']"

definition demo_ready :: hmr where
  "demo_ready = ready [(''page'', Some new_page)] (loaded ''app'' demo)"

lemma demo_run:
  "\<exists>t. hotApply 1 5 no_options demo_ready = Some (Applied [''page''], t) \<and>
     trace (rt t) = [Ran ''app'', Ran ''page'', Ran ''style'', Status 7 Dispose, Status 7 Apply,
       Ran ''page'', Console ''page v2'', Status 7 Idle]"
proof -
  have "map_option (\<lambda>x. (fst x, trace (rt (snd x)))) (hotApply 1 5 no_options demo_ready) =
      Some (Applied [''page''], [Ran ''app'', Ran ''page'', Ran ''style'', Status 7 Dispose, Status 7 Apply,
       Ran ''page'', Console ''page v2'', Status 7 Idle])" by code_simp
  then show ?thesis by auto
qed

text \<open>C2: When nothing is ignored and each module is in the update once, \<open>hotApply\<close> ends in one of these ways. It aborts, and
  only the status has changed, and the trace of the handlers told of it. Or it installs the code of every updated module, no
  other, and the new hash, and ends idle or, after an error of a callback or a reload, failed. Or it throws: because it is not
  called in the status \<open>ready\<close>, and then nothing has changed, or because a dispose handler throws, and then the
  status stays \<open>dispose\<close> and no code has been installed, but modules may have been disposed already.\<close>

theorem update_all_or_nothing:
  assumes "hotApply k n o' s = Some (res, t)" "\<not> ignoreDeclined o'" "\<not> ignoreUnaccepted o'"
    "distinct (map fst (hotUpdate s))"
  shows "case res of
      Applied _ \<Rightarrow> hotStatus t = Idle \<and> code_installed s t \<and> hotCurrentHash t = hotUpdateNewHash s
    | Rejected _ \<Rightarrow>
        hotStatus t = Abort \<and> (\<exists>tr. t = s\<lparr>hotStatus := Abort, rt := (rt s)\<lparr>trace := tr\<rparr>\<rparr>) \<or>
        hotStatus t = Fail \<and> code_installed s t \<and> hotCurrentHash t = hotUpdateNewHash s
    | Threw _ \<Rightarrow> t = s \<and> hotStatus s \<noteq> Ready \<or> hotStatus t = Dispose \<and> modules (rt t) = modules (rt s)"
  using assms(1)
proof (cases rule: hotApply_cases)
  case (applied p s1 tr deps w)
  note f = apply_phase_fields [OF applied(5)]
  have "modules w = modules (rt s)" using dispose_modules [OF applied(4)] by simp
  moreover have "modules (rt t) = modules (insert_code p w)" using apply_modules [OF applied(5)] by simp
  ultimately have c: "code_installed s t" by (rule insert_plan [OF applied(2) assms(2-4)])
  have "hotUpdateNewHash ((dispose_chunks (hotSetStatus Dispose s1))\<lparr>rt := w\<rparr>) = hotUpdateNewHash s"
    using applied(3) by (auto simp: same_but_trace_def hotSetStatus_def upd_rt_def)
  with f c show ?thesis by auto
next
  case (threw e p s1 tr deps w)
  with dispose_modules [OF threw(6)] show ?thesis by simp
qed auto

theorem update_all_or_nothing_witness:
  "\<exists>t. hotApply 1 5 no_options demo_ready = Some (Applied [''page''], t) \<and> hotStatus t = Idle \<and>
     map_of (modules (rt t)) ''page'' = Some new_page"
proof -
  obtain t where t: "hotApply 1 5 no_options demo_ready = Some (Applied [''page''], t)" using demo_run by blast
  from update_all_or_nothing [OF t] have "hotStatus t = Idle \<and> code_installed demo_ready t"
    by (simp add: no_options_def demo_ready_def ready_def)
  moreover from this have "map_of (modules (rt t)) ''page'' = Some new_page"
    unfolding code_installed_def by (auto simp: demo_ready_def ready_def dest: spec [of _ "''page''"])
  ultimately show ?thesis using t by blast
qed

text \<open>After an update has been applied, no outdated module object is left in the cache: an outdated
  id is uncached or has a new module object, whatever the handlers and callbacks did.\<close>

theorem outdated_objects_leave_cache:
  assumes "hotApply k n o' s = Some (Applied od, t)" "wf_graph {} (rt s)" "i \<in> set od"
    "installed_at (rt s) i = Some a"
  shows "installed_at (rt t) i \<noteq> Some a"
  using assms(1)
proof (cases rule: hotApply_cases)
  case (applied p s1 tr deps w)
  have od: "od = outdatedModules p" using apply_phase_fields [OF applied(5)] by simp
  have "only_old {} (rt s) ((rt s)\<lparr>trace := tr\<rparr>)" by (simp add: only_old_def)
  from dispose_old [OF applied(4) this] wf_installed [OF assms(2)]
  have "only_old (set od) (rt s) w" by (simp add: od)
  then have "only_old (set od) (rt s) (rt t)" using apply_old [OF applied(5)] by simp
  with assms(3) wf_installed [OF assms(2,4)] show ?thesis by (auto simp: only_old_def)
qed auto

theorem outdated_objects_leave_cache_witness:
  "\<exists>t. hotApply 1 5 no_options demo_ready = Some (Applied [''page''], t) \<and>
     installed_at (rt demo_ready) ''page'' = Some 1 \<and> installed_at (rt t) ''page'' \<noteq> Some 1"
proof -
  obtain t where t: "hotApply 1 5 no_options demo_ready = Some (Applied [''page''], t)" using demo_run by blast
  have wf: "wf_graph {} (rt demo_ready)" by (simp add: demo_ready_def ready_def loaded_wf)
  have a: "installed_at (rt demo_ready) ''page'' = Some 1" by code_simp
  from outdated_objects_leave_cache [OF t wf _ a] t a show ?thesis by auto
qed

lemma loaded_linked: "parents_linked (loaded i ms)"
proof -
  obtain r w where w: "require (length ms) i (fresh ms) = Some (r, w)"
    using require_enough [of "fresh ms" "length ms" i] by (auto simp: fresh_def)
  have "parents_linked w"
    by (rule exec_require_linked(2) [OF w]) (simp_all add: pending_def fresh_ok parents_ready_def,
      simp add: parents_linked_def fresh_def)
  with w show ?thesis by (simp add: loaded_def)
qed

text \<open>C4: An update that is accepted by parents keeps the module graph intact in both directions, so that the
  next update propagates correctly: each child of an active module is active and names the module among its
  parents, and each parent of an active module is active and has the module among its children. Required are
  dispose handlers that are quiet (they neither require modules nor register further handlers), a run in
  which \<open>hotApply\<close> does not throw, and an update that removes no module and makes no module outdated that
  accepts itself; the code the update installs and the accept callbacks are arbitrary.\<close>

theorem hot_update_keeps_graph:
  assumes "hotApply k n o' s = Some (res, t)" "\<And>e. res \<noteq> Threw e"
    and wf: "wf_graph {} (rt s)" and pl: "parents_linked (rt s)" and qt: "quiet_handlers (rt s)"
    and upd: "\<forall>(u, c) \<in> set (hotUpdate s). c \<noteq> None \<and>
      (\<forall>i. outdated (rt s) u i \<longrightarrow> module_of (rt s) i \<noteq> None \<longrightarrow> bubbles (rt s) i)"
  shows "wf_graph {} (rt t) \<and> parents_linked (rt t)"
  using assms(1)
proof (cases rule: hotApply_cases)
  case (abort e tr)
  with wf_trace [OF wf] parents_linked_trace [OF pl] show ?thesis by simp
next
  case (applied p s1 tr deps w)
  let ?S = "{i. module_of (rt s) i \<noteq> None \<longrightarrow> bubbles (rt s) i}" and ?w = "(rt s)\<lparr>trace := tr\<rparr>"
  have "\<forall>(u, c) \<in> set (hotUpdate s). {i. outdated (rt s) u i} \<subseteq> ?S" using upd by auto
  moreover have "\<forall>(u, c) \<in> set (hotUpdate s). c \<noteq> None" using upd by auto
  ultimately have cl: "plan_closed (rt s) p" and sub: "set (outdatedModules p) \<subseteq> ?S"
    using plan_loop_closed [OF applied(2) same_refl, of ?S] by (simp_all add: plan_closed_def no_plan_def)
  have qw: "quiet_handlers ?w" and wfw: "wf_graph {} ?w" using qt wf_trace [OF wf] by simp_all
  have "wf_graph {} (foldl unlink w deps)"
  proof (rule wf_after_unlink [OF wfw qw _ _ applied(4)])
    show "q \<in> set (outdatedModules p) \<or> i \<in> set (dep_list (outdatedDependencies p) q)"
      if "i \<in> set (outdatedModules p)" and "up_edge ?w i q" for i q
      using cl that by (simp add: plan_closed_def)
    show "bubbles ?w i" if "i \<in> set (outdatedModules p)" "module_of ?w i \<noteq> None" for i
      using sub that by (auto simp: bubbles_def)
  qed simp
  moreover have "deps_in (set (outdatedModules p)) (outdatedDependencies p)"
    by (rule plan_loop_in [OF applied(2)]) (simp add: deps_in_def no_plan_def)
  then have "parents_linked (foldl unlink w deps)"
    by (intro linked_after_unlink [OF wfw qw parents_linked_trace [OF pl] applied(4)]) simp
  moreover have "self_accepted (rt s) (outdatedModules p) = []"
    by (rule no_self_accepted) (use sub in auto)
  ultimately show ?thesis using apply_graph [of n o' p deps _ res t] applied(5) by simp
qed (use wf pl assms(2) in auto)

theorem hot_update_keeps_graph_witness:
  "\<exists>t. hotApply 1 5 no_options demo_ready = Some (Applied [''page''], t) \<and> wf_graph {} (rt t) \<and> parents_linked (rt t)"
proof -
  obtain t where t: "hotApply 1 5 no_options demo_ready = Some (Applied [''page''], t)" using demo_run by blast
  have wf: "wf_graph {} (rt demo_ready)" and pl: "parents_linked (rt demo_ready)"
    by (simp_all add: demo_ready_def ready_def loaded_wf loaded_linked)
  have q: "quiet_handlers (rt demo_ready)" by code_simp
  have "getAffectedStuff (rt demo_ready) ''page'' = Accepted ''page'' [''page''] [(''app'', [''page''])]"
    by code_simp
  with getAffectedStuff_ok [of "rt demo_ready" "''page''"]
  have "{i. outdated (rt demo_ready) ''page'' i} = {''page''}" by (simp add: affected_ok_def)
  then have o: "outdated (rt demo_ready) ''page'' i \<longleftrightarrow> i = ''page''" for i by blast
  have b: "bubbles (rt demo_ready) ''page''" by code_simp
  have h: "hotUpdate demo_ready = [(''page'', Some new_page)]" by (simp add: demo_ready_def ready_def)
  have "wf_graph {} (rt t) \<and> parents_linked (rt t)"
    by (rule hot_update_keeps_graph [OF t _ wf pl q]) (use o b in \<open>simp_all add: h\<close>)
  with t show ?thesis by blast
qed

section \<open>\<open>hotApply\<close> returns\<close>

lemma exec_quiet_returns: "quiet acts \<Longrightarrow> \<exists>e w'. exec n a acts w = Some (e, w')"
proof (induction acts arbitrary: w)
  case (Cons act acts)
  then show ?case by (cases "is_simple act"; cases act) (auto simp: is_simple_def quiet_def)
qed simp

definition few_handlers :: "nat \<Rightarrow> wp \<Rightarrow> bool" where
  "few_handlers k w \<longleftrightarrow> (\<forall>a < length (heap w). length (disposeHandlers (heap w ! a)) \<le> k)"

lemma same_links_few: "same_links w w' \<Longrightarrow> few_handlers k w \<Longrightarrow> few_handlers k w'"
  using same_links_handlers [of w w'] unfolding few_handlers_def by (metis le_trans same_links_def)

lemma run_handlers_returns:
  "length (disposeHandlers (heap w ! a)) - j \<le> k \<Longrightarrow> quiet_handlers w \<Longrightarrow> a < length (heap w) \<Longrightarrow>
   \<exists>e w'. run_handlers k n a j w = Some (e, w')"
proof (induction k arbitrary: j w)
  case 0
  then show ?case by (simp add: run_handlers.simps [of 0])
next
  case (Suc k)
  show ?case
  proof (cases "j < length (disposeHandlers (heap w ! a))")
    case True
    let ?f = "disposeHandlers (heap w ! a) ! j"
    have q: "quiet (fn_code ?f)" using Suc.prems(2,3) True by (simp add: quiet_handlers_def)
    obtain e u where u: "exec n a (fn_code ?f) w = Some (e, u)" using exec_quiet_returns [OF q] by blast
    note wu = exec_quiet [OF u q]
    have "length (disposeHandlers (heap u ! a)) \<le> length (disposeHandlers (heap w ! a))" "a < length (heap u)"
      using wu Suc.prems(3) by (simp_all add: same_links_def)
    with Suc.prems(1) True have "length (disposeHandlers (heap u ! a)) - Suc j \<le> k" by linarith
    with Suc.IH [OF _ same_links_quiet [OF wu Suc.prems(2)] \<open>a < length (heap u)\<close>]
    have "\<exists>e w'. run_handlers k n a (Suc j) u = Some (e, w')" by blast
    with True u show ?thesis by (cases e) (simp_all add: run_handlers.simps [of "Suc k"])
  qed (simp add: run_handlers.simps [of "Suc k"])
qed

lemma dispose_returns:
  "quiet_handlers w \<Longrightarrow> few_handlers k w \<Longrightarrow> (\<forall>i a. installed_at w i = Some a \<longrightarrow> a < length (heap w)) \<Longrightarrow>
   \<exists>e deps' w'. dispose_loop k n is deps w = Some (e, deps', w')"
proof (induction "is" arbitrary: deps w)
  case (Cons i "is")
  show ?case
  proof (cases "installed_at w i")
    case None
    with Cons show ?thesis by simp
  next
    case (Some a)
    let ?w = "w\<lparr>cur_data := []\<rparr>"
    have a: "a < length (heap w)" using Cons.prems(3) Some by blast
    have q: "quiet_handlers ?w" using Cons.prems(1) by (simp add: quiet_handlers_def)
    have "length (disposeHandlers (heap ?w ! a)) - 0 \<le> k" using Cons.prems(2) a by (simp add: few_handlers_def)
    then obtain e u where u: "run_handlers k n a 0 ?w = Some (e, u)"
      using run_handlers_returns [OF _ q, of a 0 k n] a by auto
    have "same_links w ?w" by (simp add: same_links_def)
    then have wu: "same_links w u" using run_handlers_quiet [OF u q] a by (auto intro: same_links_trans)
    have "\<exists>e deps' w'. dispose_loop k n is (obj_del i deps) (retire i a u) = Some (e, deps', w')"
    proof (rule Cons.IH)
      show "quiet_handlers (retire i a u)"
        using same_links_quiet [OF wu Cons.prems(1)] by (simp add: quiet_handlers_def retire_simps retire_nth)
      show "few_handlers k (retire i a u)"
        using same_links_few [OF wu Cons.prems(2)] by (simp add: few_handlers_def retire_simps retire_nth)
      have "installed_at u = installed_at w" using wu by (simp add: same_links_def installed_at_def fun_eq_iff)
      with wu Cons.prems(3) show "\<forall>j b. installed_at (retire i a u) j = Some b \<longrightarrow> b < length (heap (retire i a u))"
        by (simp add: retire_simps same_links_def)
    qed
    with Some u show ?thesis by (cases e) simp_all
  qed
qed simp

lemma exec_enough: "length (modules w) \<le> n \<Longrightarrow> \<exists>e w'. exec n a acts w = Some (e, w') \<and> modules w' = modules w"
  using exec_require_fuel(1) [of w n a acts] missing_le [of w] exec_require_extends(1) [of n a acts w]
  unfolding extends_def by (meson order_trans)

lemma upd_rt_modules [simp]:
  "modules (rt (hook b nm i s)) = modules (rt s)" "modules (rt (hotSetStatus st s)) = modules (rt s)"
  by (simp_all add: hook_def upd_rt_def hotSetStatus_def)

lemma run_callbacks_returns:
  "length (modules (rt s)) \<le> n \<Longrightarrow> \<exists>e t. run_callbacks n o' i a cbs error s = Some (e, t)"
proof (induction cbs arbitrary: error s)
  case (Cons cb cbs)
  show ?case
  proof (cases cb)
    case (Some f)
    from exec_enough [OF Cons.prems] obtain e w where w: "exec n a (fn_code f) (rt s) = Some (e, w)"
      "modules w = modules (rt s)" by blast
    have l: "length (modules (rt (s\<lparr>rt := w\<rparr>))) \<le> n" using w(2) Cons.prems by simp
    then have "length (modules (rt (hook (onErrored o') ''accept-errored'' i (s\<lparr>rt := w\<rparr>)))) \<le> n" by simp
    with Cons.IH [OF l] Cons.IH w(1) Some show ?thesis by (cases e) simp_all
  qed (use Cons in simp)
qed simp

lemma accept_loop_returns:
  "length (modules (rt s)) \<le> n \<Longrightarrow> \<exists>e t. accept_loop n o' deps error s = Some (e, t)"
proof (induction deps arbitrary: error s)
  case (Cons x deps)
  obtain i ds where x: "x = (i, ds)" by (cases x)
  show ?case
  proof (cases "installed_at (rt s) i")
    case (Some a)
    let ?c = "collect_callbacks (acceptedDependencies (heap (rt s) ! a)) ds []"
    obtain e u where u: "run_callbacks n o' i a ?c error s = Some (e, u)"
      using run_callbacks_returns [OF Cons.prems] by blast
    have "modules (rt u) = modules (rt s)" using u by (rule table.run_callbacks_P) simp_all
    with Cons u Some show ?thesis by (simp add: x)
  qed (use Cons in \<open>simp add: x\<close>)
qed simp

lemma reload_loop_returns:
  "length (modules (rt s)) \<le> n \<Longrightarrow> \<exists>e t. reload_loop n o' items error s = Some (e, t)"
proof (induction items arbitrary: error s)
  case (Cons x items)
  obtain i a h where x: "x = (i, a, h)" by (cases x)
  let ?w = "(rt s)\<lparr>hotCurrentParents := [i]\<rparr>"
  obtain r u where u: "require n i ?w = Some (r, u)"
    using require_enough [of ?w n i] Cons.prems by auto
  have mu: "modules u = modules (rt s)" using exec_require_extends(2) [OF u] by (simp add: extends_def)
  then have lu: "length (modules u) \<le> n" using Cons.prems by simp
  have go: "\<exists>e t. reload_loop n o' items e' s' = Some (e, t)" if "length (modules (rt s')) \<le> n" for e' s'
    using Cons.IH [OF that] .
  show ?case
  proof (cases r)
    case (Inr b)
    with u go [of "s\<lparr>rt := u\<rparr>"] lu show ?thesis by (simp add: x)
  next
    case (Inl err)
    show ?thesis
    proof (cases h)
      case (AcceptedFn f)
      from exec_enough [OF lu] obtain e v where v: "exec n a (fn_code f) u = Some (e, v)" "modules v = modules u" by blast
      with lu have "length (modules (rt (s\<lparr>rt := v\<rparr>))) \<le> n"
        "length (modules (rt (hook (onErrored o') ''self-accept-error-handler-errored'' i (s\<lparr>rt := v\<rparr>)))) \<le> n" by simp_all
      with go u v(1) Inl AcceptedFn show ?thesis by (cases e) (simp_all add: x)
    qed (use u Inl lu go [of "hook (onErrored o') ''self-accept-errored'' i (s\<lparr>rt := u\<rparr>)"] in \<open>simp_all add: x\<close>)
  qed
qed simp

lemma apply_phase_returns:
  assumes "length (modules (insert_code p (rt s))) \<le> n"
  shows "\<exists>res t. apply_phase n o' p deps items s = Some (res, t)"
proof -
  let ?s2 = "hotSetStatus Apply (upd_rt (\<lambda>w. foldl unlink w deps) s)"
  let ?s3 = "upd_rt (insert_code p) (?s2\<lparr>hotCurrentHash := hotUpdateNewHash ?s2\<rparr>)"
  have m: "length (modules (rt ?s3)) \<le> n" using assms by (simp add: upd_rt_def hotSetStatus_def insert_code_def)
  then obtain e u where u: "accept_loop n o' deps None ?s3 = Some (e, u)" using accept_loop_returns by blast
  have "modules (rt u) = modules (rt ?s3)" using u by (rule table.accept_loop_P) simp
  with m have "length (modules (rt u)) \<le> n" by simp
  then obtain e' v where "reload_loop n o' items e u = Some (e', v)" using reload_loop_returns by blast
  with u show ?thesis by (cases e') (simp_all add: apply_phase_def Let_def)
qed

lemma plan_loop_length:
  "plan_loop o' us p s = (Inr q, t) \<Longrightarrow> length (appliedUpdate q) \<le> length (appliedUpdate p) + length us"
proof (induction us arbitrary: p s)
  case (Cons x us)
  have l: "length (appliedUpdate (add_to_plan u code r (p\<lparr>last_id := l\<rparr>))) \<le> Suc (length (appliedUpdate p))" for u code r l
    by (cases r) (simp_all add: add_to_plan_def length_obj_set)
  obtain u code where x: "x = (u, code)" by (cases x)
  from Cons.prems obtain r s' where
    "plan_loop o' us (add_to_plan u code r (p\<lparr>last_id := result_id r\<rparr>)) s' = (Inr q, t)"
    by (auto simp: x Let_def split: option.splits)
  from Cons.IH [OF this] l [of u code r "result_id r"] show ?case by simp
qed simp

lemma insert_length: "length (modules (insert_code p w)) \<le> length (modules w) + length (appliedUpdate p)"
proof -
  have "length (foldl (\<lambda>ms (i, code). obj_set i (f code) ms) ms us) \<le> length ms + length us" for f :: "action list option \<Rightarrow> action list" and ms us
  proof (induction us arbitrary: ms)
    case (Cons x us)
    have "length (obj_set (fst x) (f (snd x)) ms) \<le> Suc (length ms)" by (rule length_obj_set)
    with Cons.IH [of "obj_set (fst x) (f (snd x)) ms"] show ?case by (cases x) simp
  qed simp
  then show ?thesis by (simp add: insert_code_def)
qed

text \<open>C8: \<open>hotApply\<close> returns, with a result or an error, in a well-formed module graph when the dispose handlers are
  quiet (they neither require modules nor register further handlers, which could keep the loop over the handlers
  running for ever): for every \<open>k\<close> that is at least the number of handlers of any module, and every \<open>n\<close> that is at least
  the number of known and updated modules.\<close>

theorem hot_apply_returns:
  assumes "wf_graph {} (rt s)" "quiet_handlers (rt s)" "few_handlers k (rt s)"
    "length (modules (rt s)) + length (hotUpdate s) \<le> n"
  shows "\<exists>res t. hotApply k n o' s = Some (res, t)"
proof -
  obtain r s1 where pl: "plan_loop o' (hotUpdate s) no_plan s = (r, s1)"
    by (cases "plan_loop o' (hotUpdate s) no_plan s")
  have "\<exists>res t. dispose_phase k n o' p s1 = Some (res, t)" if r: "r = Inr p" for p
  proof -
    have "same_but_trace s s1" using plan_loop_same [OF pl] r by simp
    then obtain tr1 where s1: "rt s1 = (rt s)\<lparr>trace := tr1\<rparr>" by (auto simp: same_but_trace_def)
    obtain tr2 where "rt (hotSetStatus Dispose s1) = (rt s1)\<lparr>trace := tr2\<rparr>" using rt_status by blast
    then have rs: "rt (hotSetStatus Dispose s1) = (rt s)\<lparr>trace := tr2\<rparr>" by (simp add: s1)
    let ?w = "(rt s)\<lparr>trace := tr2\<rparr>"
    have "quiet_handlers ?w" "few_handlers k ?w" using assms(2,3) by (simp_all add: few_handlers_def)
    then obtain x deps w
      where d: "dispose_loop k n (rev (outdatedModules p)) (outdatedDependencies p) ?w = Some (x, deps, w)"
      using dispose_returns [of ?w k n "rev (outdatedModules p)" "outdatedDependencies p"]
        wf_installed [OF assms(1)] by auto
    show ?thesis
    proof (cases x)
      case None
      have "modules w = modules (rt s)" using dispose_modules [OF d] by simp
      moreover have "length (appliedUpdate p) \<le> length (hotUpdate s)"
        using plan_loop_length [OF pl [unfolded r]] by (simp add: no_plan_def)
      ultimately have "length (modules (insert_code p w)) \<le> n"
        using insert_length [of p w] assms(4) by simp
      then have "length (modules (insert_code p (rt ((dispose_chunks (hotSetStatus Dispose s1))\<lparr>rt := w\<rparr>)))) \<le> n" by simp
      with apply_phase_returns d None show ?thesis by (simp add: dispose_phase_def Let_def rs)
    next
      case (Some e)
      with d show ?thesis by (simp add: dispose_phase_def Let_def rs)
    qed
  qed
  with pl show ?thesis by (cases r) (simp_all add: hotApply_def)
qed

theorem hot_apply_returns_witness:
  "\<exists>res t. hotApply 1 5 no_options demo_ready = Some (res, t)"
proof (rule hot_apply_returns)
  show "wf_graph {} (rt demo_ready)" by (simp add: demo_ready_def ready_def loaded_wf)
  show "quiet_handlers (rt demo_ready)" "few_handlers 1 (rt demo_ready)"
    "length (modules (rt demo_ready)) + length (hotUpdate demo_ready) \<le> 5" by code_simp+
qed

section \<open>Where the code does not keep the properties\<close>

text \<open>The state with the status and the update set for the next \<open>hotApply\<close>, as \<open>hotCheck\<close> would leave it.\<close>

definition next_update :: "action list option obj \<Rightarrow> hmr \<Rightarrow> hmr" where
  "next_update us s = s\<lparr>hotStatus := Ready, hotUpdate := us\<rparr>"

definition then_apply :: "options \<Rightarrow> action list option obj \<Rightarrow> (apply_result \<times> hmr) option \<Rightarrow> (apply_result \<times> hmr) option" where
  "then_apply o' us x = Option.bind x (\<lambda>(res, s). hotApply 2 5 o' (next_update us s))"

text \<open>\<open>main\<close> accepts its dependency \<open>c\<close>, and \<open>c\<close> accepts itself as well.\<close>

definition self_app :: "action list obj" where
  "self_app = [(''main'', [Require ''c'', AcceptDeps [''c''] None]), (''c'', [AcceptSelf None])]"

text \<open>A self-accepted module that is reloaded loses its parents: it is created with itself as the only
  parent and as a main module. When its new version no longer accepts itself, the next update of it is
  aborted as unaccepted, although \<open>main\<close>, which requires it, accepts it; and the graph is not well-formed.\<close>

theorem reload_of_self_accepted_loses_parents:
  "map_option (\<lambda>x. (fst x, map_option m_parents (module_of (rt (snd x)) ''c''), map_option hot_main (module_of (rt (snd x)) ''c'')))
     (hotApply 2 5 no_options (ready [(''c'', Some [])] (loaded ''main'' self_app))) =
     Some (Applied [''c''], Some [''c''], Some True) \<and>
   map_option (\<lambda>x. (fst x, hotStatus (snd x)))
     (then_apply no_options [(''c'', Some [Log ''v3''])]
       (hotApply 2 5 no_options (ready [(''c'', Some [])] (loaded ''main'' self_app)))) =
     Some (Rejected (''Aborted because c is not accepted'' @ chainInfo [''c'']), Abort)"
proof
  show "map_option (\<lambda>x. (fst x, map_option m_parents (module_of (rt (snd x)) ''c''), map_option hot_main (module_of (rt (snd x)) ''c'')))
     (hotApply 2 5 no_options (ready [(''c'', Some [])] (loaded ''main'' self_app))) =
     Some (Applied [''c''], Some [''c''], Some True)" by code_simp
  show "map_option (\<lambda>x. (fst x, hotStatus (snd x)))
     (then_apply no_options [(''c'', Some [Log ''v3''])]
       (hotApply 2 5 no_options (ready [(''c'', Some [])] (loaded ''main'' self_app)))) =
     Some (Rejected (''Aborted because c is not accepted'' @ chainInfo [''c'']), Abort)" by code_simp
qed

text \<open>\<open>bad\<close> is accepted by \<open>main\<close> and registers a dispose handler that throws.\<close>

definition bad_app :: "action list obj" where
  "bad_app = [(''main'', [Require ''bad'', AcceptDeps [''bad''] None]), (''bad'', [AddDispose (Fn 1 [Throw ''oops!''])])]"

text \<open>When a dispose handler throws, \<open>hotApply\<close> throws in the middle of the dispose phase: the module
  stays in the cache, no new code is installed, and the status is \<open>dispose\<close>, from which no later
  \<open>hotApply\<close> (nor \<open>hotCheck\<close>) is allowed.\<close>

theorem throwing_dispose_handler_blocks_updates:
  "map_option (\<lambda>x. (fst x, hotStatus (snd x), installed_at (rt (snd x)) ''bad'',
      map_option (\<lambda>y. fst y) (hotApply 2 5 no_options (snd x))))
     (hotApply 2 5 no_options (ready [(''bad'', Some [])] (loaded ''main'' bad_app))) =
   Some (Threw ''oops!'', Dispose, Some 1, Some (Threw ''apply() is only allowed in ready status''))"
  by code_simp

text \<open>\<open>self\<close> accepts itself with an error handler that throws; the options say that errors are ignored.\<close>

definition err_app :: "action list obj" where
  "err_app = [(''self'', [AcceptSelf (Some (Fn 1 [Throw ''handler'']))])]"

text \<open>\<open>ignoreErrored\<close> does not cover an error handler that throws: the error of the reload is reported
  although errors are ignored, and the update ends in \<open>fail\<close>; the same error without a handler is ignored.\<close>

theorem ignore_errored_is_not_honoured:
  "map_option (\<lambda>x. (fst x, hotStatus (snd x)))
     (hotApply 2 5 (no_options\<lparr>ignoreErrored := True\<rparr>)
       (ready [(''self'', Some [Throw ''load''])] (loaded ''self'' err_app))) =
     Some (Rejected ''load'', Fail) \<and>
   map_option (\<lambda>x. (fst x, hotStatus (snd x)))
     (hotApply 2 5 (no_options\<lparr>ignoreErrored := True\<rparr>)
       (ready [(''self'', Some [Throw ''load''])] (loaded ''self'' [(''self'', [AcceptSelf None])]))) =
     Some (Applied [''self''], Idle)"
proof
  show "map_option (\<lambda>x. (fst x, hotStatus (snd x)))
     (hotApply 2 5 (no_options\<lparr>ignoreErrored := True\<rparr>)
       (ready [(''self'', Some [Throw ''load''])] (loaded ''self'' err_app))) =
     Some (Rejected ''load'', Fail)" by code_simp
  show "map_option (\<lambda>x. (fst x, hotStatus (snd x)))
     (hotApply 2 5 (no_options\<lparr>ignoreErrored := True\<rparr>)
       (ready [(''self'', Some [Throw ''load''])] (loaded ''self'' [(''self'', [AcceptSelf None])]))) =
     Some (Applied [''self''], Idle)" by code_simp
qed

text \<open>The warning for a removed module names the wrong module: the stub that replaces it reads the id
  of the last update of the list, so requiring the removed module \<open>old\<close> warns about \<open>c\<close>.\<close>

theorem removed_module_warning_names_last_update:
  "map_option (\<lambda>x. map_of (modules (rt (snd x))) ''old'')
     (hotApply 2 5 no_options (ready [(''old'', None), (''c'', Some [])] (loaded ''main'' self_app))) =
   Some (Some [Log ''[HMR] unexpected require(c) to disposed module''])"
  by code_simp

end
