(* ===== verification/Webpack_Check.thy ===== *)
theory Webpack_Check
  imports Webpack_Hot
begin

text \<open>
  Looking for an update and downloading it, \<^verbatim>\<open>runtime.js\<close>: \<open>hotCheck\<close>, the downloads,
  \<open>hotAddUpdateChunk\<close>, \<open>hotUpdateDownloaded\<close>, and the status of the hot update as a step relation.

  In this runtime a download is a synchronous \<open>require\<close> of a file next to the bundles. The files are a
  parameter: what requiring a path gives (for a chunk, the call of \<open>webpackHotUpdate\<close> it makes), or
  nothing when it throws. Reactions on promises run later: they are jobs in a queue.
\<close>

section \<open>Downloading\<close>

text \<open>\<open>update_files\<close>: the argument \<open>(chunkId, moreModules)\<close> an update file passes to \<open>webpackHotUpdate\<close>;
  \<open>manifest_files\<close>: the JSON value, where \<open>Some None\<close> is a falsy one.\<close>

record files =
  update_files :: "string \<Rightarrow> (string \<times> action list option obj) option"
  manifest_files :: "string \<Rightarrow> manifest option option"

definition update_path :: "string \<Rightarrow> string \<Rightarrow> string" where
  "update_path chunk hash = ''./'' @ chunk @ ''.'' @ hash @ ''.hot-update.js''"

definition manifest_path :: "string \<Rightarrow> string" where
  "manifest_path hash = ''./'' @ hash @ ''.hot-update.json''"

definition flag :: "bool obj \<Rightarrow> string \<Rightarrow> bool" where
  "flag m c \<longleftrightarrow> map_of m c = Some True"

definition settle :: "nat \<Rightarrow> outcome \<Rightarrow> hmr \<Rightarrow> hmr" where
  "settle p r s = s\<lparr>settled := settled s @ [(p, r)]\<rparr>"

definition hotUpdateDownloaded :: "hmr \<Rightarrow> hmr" where
  "hotUpdateDownloaded s =
     (let s1 = hotSetStatus Ready s; s2 = s1\<lparr>hotDeferred := None\<rparr> in
      case hotDeferred s1 of
        None \<Rightarrow> s2
      | Some p \<Rightarrow>
          (case hotApplyOnUpdate s2 of
             Some _ \<Rightarrow> s2\<lparr>jobs := jobs s2 @ [ApplyUpdate p]\<rparr>
           | None \<Rightarrow> settle p (Modules (obj_keys (hotUpdate s2))) s2))"

definition hotAddUpdateChunk :: "string \<Rightarrow> action list option obj \<Rightarrow> hmr \<Rightarrow> hmr" where
  "hotAddUpdateChunk c mods s =
     (if \<not> flag (hotAvailableFilesMap s) c \<or> \<not> flag (hotRequestedFilesMap s) c then s
      else (let s1 = s\<lparr>hotRequestedFilesMap := obj_set c False (hotRequestedFilesMap s),
                  hotUpdate := foldl (\<lambda>u (i, code). obj_set i code u) (hotUpdate s) mods,
                  hotWaitingFiles := hotWaitingFiles s - 1\<rparr>
            in if hotWaitingFiles s1 = 0 \<and> hotChunksLoading s1 = 0 then hotUpdateDownloaded s1 else s1))"

definition console :: "string \<Rightarrow> hmr \<Rightarrow> hmr" where
  "console m = upd_rt (emit (Console m))"

definition hotDownloadUpdateChunk :: "files \<Rightarrow> string \<Rightarrow> hmr \<Rightarrow> hmr" where
  "hotDownloadUpdateChunk fs c s =
     (case update_files fs (update_path c (hotCurrentHash s)) of
        Some (c', mods) \<Rightarrow> hotAddUpdateChunk c' mods s
      | None \<Rightarrow> console ''Hot download for update chunk failed.'' s)"

definition hotEnsureUpdateChunk :: "files \<Rightarrow> string \<Rightarrow> hmr \<Rightarrow> hmr" where
  "hotEnsureUpdateChunk fs c s =
     (if \<not> flag (hotAvailableFilesMap s) c
      then s\<lparr>hotWaitingFilesMap := obj_set c True (hotWaitingFilesMap s)\<rparr>
      else hotDownloadUpdateChunk fs c
             (s\<lparr>hotRequestedFilesMap := obj_set c True (hotRequestedFilesMap s),
                hotWaitingFiles := hotWaitingFiles s + 1\<rparr>))"

section \<open>Checking\<close>

definition hotDownloadManifest :: "files \<Rightarrow> hmr \<Rightarrow> manifest option option \<times> hmr" where
  "hotDownloadManifest fs s =
     (case manifest_files fs (manifest_path (hotCurrentHash s)) of
        None \<Rightarrow> (None, console ''Hot download for manifest failed.'' s)
      | Some m \<Rightarrow> (Some m, s))"

text \<open>\<open>hotCheck\<close>: the call, which reads the manifest, and the reaction on it.\<close>

definition hotCheck :: "files \<Rightarrow> options option \<Rightarrow> hmr \<Rightarrow> (err + nat) \<times> hmr" where
  "hotCheck fs apply s =
     (if hotStatus s \<noteq> Idle then (Inl ''check() is only allowed in idle status'', s)
      else (let s1 = hotSetStatus Check (s\<lparr>hotApplyOnUpdate := apply\<rparr>);
                (m, s2) = hotDownloadManifest fs s1; p = next_promise s2
            in (Inr p, s2\<lparr>next_promise := Suc p, jobs := jobs s2 @ [ManifestLoaded p m]\<rparr>)))"

definition start_prepare :: "nat \<Rightarrow> manifest \<Rightarrow> hmr \<Rightarrow> hmr" where
  "start_prepare p m s =
     (hotSetStatus Prepare (s\<lparr>hotRequestedFilesMap := [], hotWaitingFilesMap := [],
        hotAvailableFilesMap := mf_chunks m, hotUpdateNewHash := mf_hash m\<rparr>))\<lparr>hotDeferred := Some p, hotUpdate := []\<rparr>"

definition finish_prepare :: "hmr \<Rightarrow> hmr" where
  "finish_prepare s = (if hotStatus s = Prepare \<and> hotChunksLoading s = 0 \<and> hotWaitingFiles s = 0
     then hotUpdateDownloaded s else s)"

definition hotManifestLoaded :: "files \<Rightarrow> nat \<Rightarrow> manifest option option \<Rightarrow> hmr \<Rightarrow> hmr" where
  "hotManifestLoaded fs p mf s =
     (case mf of
        None \<Rightarrow> settle p (Failed ''manifest'') s
      | Some None \<Rightarrow> settle p NoUpdate (hotSetStatus Idle s)
      | Some (Some m) \<Rightarrow>
          (let s1 = start_prepare p m s
           in finish_prepare (foldl (\<lambda>s c. hotEnsureUpdateChunk fs c s) s1 (obj_keys (installedChunks s1)))))"

text \<open>The reaction that applies the update and settles the promise of the check.\<close>

definition apply_outcome :: "apply_result \<Rightarrow> outcome" where
  "apply_outcome r = (case r of Applied od \<Rightarrow> Modules od | Rejected e \<Rightarrow> Failed e | Threw e \<Rightarrow> Failed e)"

definition run_job :: "nat \<Rightarrow> nat \<Rightarrow> files \<Rightarrow> job \<Rightarrow> hmr \<Rightarrow> hmr option" where
  "run_job k n fs j s =
     (case j of
        ManifestLoaded p m \<Rightarrow> Some (hotManifestLoaded fs p m s)
      | ApplyUpdate p \<Rightarrow>
          (case hotApply k n (case hotApplyOnUpdate s of None \<Rightarrow> no_options | Some o' \<Rightarrow> o') s of
             None \<Rightarrow> None
           | Some (r, t) \<Rightarrow> Some (settle p (apply_outcome r) t)))"

section \<open>The rest of the management API\<close>

definition addStatusHandler :: "nat \<Rightarrow> hmr \<Rightarrow> hmr" where
  "addStatusHandler l s = s\<lparr>hotStatusHandlers := hotStatusHandlers s @ [l]\<rparr>"

definition removeStatusHandler :: "nat \<Rightarrow> hmr \<Rightarrow> hmr" where
  "removeStatusHandler l s = s\<lparr>hotStatusHandlers := splice_first l (hotStatusHandlers s)\<rparr>"

text \<open>\<open>fn.e\<close>, the chunk loader of a module's \<open>require\<close>: this runtime defines no \<open>__webpack_require__.e\<close>, so
  the call throws a \<open>TypeError\<close> after the counter has been incremented.\<close>

definition require_e :: "hmr \<Rightarrow> err \<times> hmr" where
  "require_e s =
     (let s1 = (if hotStatus s = Ready then hotSetStatus Prepare s else s)
      in (type_error, s1\<lparr>hotChunksLoading := hotChunksLoading s1 + 1\<rparr>))"

section \<open>Steps of the hot update\<close>

text \<open>What can happen: a call of \<open>check\<close> or \<open>apply\<close> on \<open>module.hot\<close>, a change of the status handlers, and
  the next job of the queue.\<close>

datatype hot_event =
    CallCheck "options option"
  | CallApply options
  | AddHandler nat
  | RemoveHandler nat
  | NextJob

inductive hot_step :: "nat \<Rightarrow> nat \<Rightarrow> files \<Rightarrow> hmr \<Rightarrow> hot_event \<Rightarrow> hmr \<Rightarrow> bool" for k n fs where
  call_check: "hotCheck fs a s = (r, t) \<Longrightarrow> hot_step k n fs s (CallCheck a) t"
| call_apply: "hotApply k n o' s = Some (r, t) \<Longrightarrow> hot_step k n fs s (CallApply o') t"
| add_handler: "hot_step k n fs s (AddHandler l) (addStatusHandler l s)"
| remove_handler: "hot_step k n fs s (RemoveHandler l) (removeStatusHandler l s)"
| next_job: "jobs s = j # js \<Longrightarrow> run_job k n fs j (s\<lparr>jobs := js\<rparr>) = Some t \<Longrightarrow> hot_step k n fs s NextJob t"

inductive_cases check_stepE: "hot_step k n fs s (CallCheck a) t"
inductive_cases job_stepE: "hot_step k n fs s NextJob t"

inductive hot_steps :: "nat \<Rightarrow> nat \<Rightarrow> files \<Rightarrow> hmr \<Rightarrow> hmr \<Rightarrow> bool" for k n fs where
  refl: "hot_steps k n fs s s"
| step: "hot_steps k n fs s t \<Longrightarrow> hot_step k n fs t e u \<Longrightarrow> hot_steps k n fs s u"

section \<open>Frames\<close>

text \<open>What a step of the update leaves to the others: the queue and the promises.\<close>

definition same_promises :: "hmr \<Rightarrow> hmr \<Rightarrow> bool" where
  "same_promises s t \<longleftrightarrow> jobs t = jobs s \<and> settled t = settled s \<and> hotDeferred t = hotDeferred s \<and>
     next_promise t = next_promise s"

lemma same_promises_trans: "same_promises s t \<Longrightarrow> same_promises t u \<Longrightarrow> same_promises s u"
  by (simp add: same_promises_def)

lemma same_promises_basic:
  "same_promises s s" "same_promises s (hotSetStatus st s)" "same_promises s (upd_rt f s)" "same_promises s (s\<lparr>rt := w\<rparr>)"
  "same_promises s (s\<lparr>hotStatus := st, rt := w\<rparr>)" "same_promises s (s\<lparr>hotCurrentHash := h\<rparr>)"
  "same_promises s (console m s)"
  by (simp_all add: same_promises_def hotSetStatus_def upd_rt_def console_def)

lemma only_rt_promises: "only_rt s t \<Longrightarrow> same_promises s t"
  by (auto simp: only_rt_def same_promises_def)

lemma dispose_chunks_promises: "same_promises s (dispose_chunks s)"
proof -
  have "same_promises s (foldl (\<lambda>s (c, b). if b then s else hotDisposeChunk c s) s m)" for m and s :: hmr
    by (induction m arbitrary: s)
      (auto simp: hotDisposeChunk_def same_promises_def split: prod.splits)
  then show ?thesis by (simp add: dispose_chunks_def)
qed

lemma apply_phase_promises:
  assumes "apply_phase n o' p deps items s = Some (res, t)"
  shows "same_promises s t"
proof -
  let ?s1 = "upd_rt (\<lambda>w. foldl unlink w deps) s" let ?s2 = "hotSetStatus Apply ?s1"
  let ?s3 = "upd_rt (insert_code p) (?s2\<lparr>hotCurrentHash := hotUpdateNewHash ?s2\<rparr>)"
  obtain error s4 where s4: "accept_loop n o' deps None ?s3 = Some (error, s4)"
    using assms(1) by (auto simp: apply_phase_def Let_def split: option.splits)
  obtain error' s5 where s5: "reload_loop n o' items error s4 = Some (error', s5)"
    using assms(1) s4 by (auto simp: apply_phase_def Let_def split: option.splits)
  have "same_promises s ?s3" by (simp add: same_promises_def hotSetStatus_def upd_rt_def)
  moreover have "same_promises ?s3 s5"
    using only_rt_trans [OF accept_loop_rt [OF s4] reload_loop_rt [OF s5]] by (rule only_rt_promises)
  moreover have "same_promises s5 t"
    using assms s4 s5 by (cases error') (auto simp: apply_phase_def Let_def same_promises_basic)
  ultimately show ?thesis by (blast intro: same_promises_trans)
qed

lemma same_but_trace_promises: "same_but_trace s t \<Longrightarrow> same_promises s t"
  by (auto simp: same_but_trace_def same_promises_def)

lemma hotApply_promises:
  assumes "hotApply k n o' s = Some (res, t)"
  shows "same_promises s t"
  using assms
proof (cases rule: hotApply_cases)
  case (threw e p s1 tr deps w)
  have "same_promises s1 t" unfolding threw(7)
    using dispose_chunks_promises [of "hotSetStatus Dispose s1"] by (simp add: same_promises_def hotSetStatus_def upd_rt_def)
  with same_but_trace_promises [OF threw(3)] show ?thesis by (rule same_promises_trans)
next
  case (applied p s1 tr deps w)
  have "same_promises s1 ((dispose_chunks (hotSetStatus Dispose s1))\<lparr>rt := w\<rparr>)"
    using dispose_chunks_promises [of "hotSetStatus Dispose s1"] by (simp add: same_promises_def hotSetStatus_def upd_rt_def)
  with same_but_trace_promises [OF applied(3)] apply_phase_promises [OF applied(5)] show ?thesis
    by (blast intro: same_promises_trans)
qed (simp_all add: same_promises_basic)

section \<open>Promises\<close>

definition job_promise :: "job \<Rightarrow> nat" where
  "job_promise j = (case j of ManifestLoaded p m \<Rightarrow> p | ApplyUpdate p \<Rightarrow> p)"

text \<open>Every promise is at one place: settled, waiting for the download, or in the queue.\<close>

definition open_promises :: "hmr \<Rightarrow> nat list" where
  "open_promises s = (case hotDeferred s of None \<Rightarrow> [] | Some p \<Rightarrow> [p]) @ map job_promise (jobs s)"

definition promises_ok :: "hmr \<Rightarrow> bool" where
  "promises_ok s \<longleftrightarrow> distinct (map fst (settled s) @ open_promises s) \<and>
     (\<forall>p \<in> set (map fst (settled s) @ open_promises s). p < next_promise s)"

lemma promises_ok_cong: "same_promises s t \<Longrightarrow> promises_ok s \<Longrightarrow> promises_ok t"
  by (simp add: same_promises_def promises_ok_def open_promises_def)

lemma promises_downloaded: "promises_ok s \<Longrightarrow> promises_ok (hotUpdateDownloaded s)"
  by (auto simp: promises_ok_def open_promises_def hotUpdateDownloaded_def Let_def hotSetStatus_def upd_rt_def
      settle_def job_promise_def split: option.splits)

lemma promises_ensure:
  assumes "promises_ok s"
  shows "promises_ok (hotEnsureUpdateChunk fs c s)"
proof -
  have frame: "promises_ok (s\<lparr>hotWaitingFilesMap := a\<rparr>)" "promises_ok (s\<lparr>hotRequestedFilesMap := a, hotWaitingFiles := b\<rparr>)"
    for a b using assms by (simp_all add: promises_ok_def open_promises_def)
  have add: "promises_ok (hotAddUpdateChunk c' mods s')" if "promises_ok s'" for c' mods s'
  proof -
    have "promises_ok (s'\<lparr>hotRequestedFilesMap := a, hotUpdate := u, hotWaitingFiles := b\<rparr>)" for a b u
      using that by (simp add: promises_ok_def open_promises_def)
    then show ?thesis using that by (simp add: hotAddUpdateChunk_def Let_def promises_downloaded)
  qed
  show ?thesis
    using frame add promises_ok_cong [OF same_promises_basic(7)]
    by (auto simp: hotEnsureUpdateChunk_def hotDownloadUpdateChunk_def split: option.splits)
qed

lemma promises_finish: "promises_ok s \<Longrightarrow> promises_ok (finish_prepare s)"
  by (simp add: finish_prepare_def promises_downloaded)

lemma promises_manifest:
  assumes "promises_ok (s\<lparr>jobs := ManifestLoaded p mf # js\<rparr>)"
  shows "promises_ok (hotManifestLoaded fs p mf (s\<lparr>jobs := js\<rparr>))"
proof -
  let ?s = "s\<lparr>jobs := js\<rparr>"
  have st: "promises_ok (settle p r t)" if "same_promises ?s t" for r t
    using assms that by (auto simp: promises_ok_def open_promises_def settle_def same_promises_def job_promise_def
      split: option.splits)
  have pr: "promises_ok (start_prepare p m ?s)" for m
    using assms by (auto simp: start_prepare_def promises_ok_def open_promises_def hotSetStatus_def upd_rt_def
      job_promise_def split: option.splits)
  have "promises_ok (foldl (\<lambda>s c. hotEnsureUpdateChunk fs c s) t cs)" if "promises_ok t" for t cs
    using that by (induction cs arbitrary: t) (simp_all add: promises_ensure)
  with pr show ?thesis
    by (auto simp: hotManifestLoaded_def Let_def st same_promises_basic promises_finish split: option.splits)
qed

lemma hotCheck_fields:
  assumes "hotCheck fs a s = (r, t)"
  shows "t = s \<or> settled t = settled s \<and> hotDeferred t = hotDeferred s \<and>
    (\<exists>m. jobs t = jobs s @ [ManifestLoaded (next_promise s) m]) \<and> next_promise t = Suc (next_promise s)"
  using assms by (cases "hotStatus s = Idle")
    (auto simp: hotCheck_def hotDownloadManifest_def Let_def hotSetStatus_def upd_rt_def console_def split: option.splits)

lemma promises_check:
  assumes "hotCheck fs a s = (r, t)" "promises_ok s"
  shows "promises_ok t"
  using hotCheck_fields [OF assms(1)]
proof
  assume f: "settled t = settled s \<and> hotDeferred t = hotDeferred s \<and>
    (\<exists>m. jobs t = jobs s @ [ManifestLoaded (next_promise s) m]) \<and> next_promise t = Suc (next_promise s)"
  then have o': "open_promises t = open_promises s @ [next_promise s]"
    by (auto simp: open_promises_def job_promise_def)
  have "next_promise s \<notin> set (map fst (settled s) @ open_promises s)" using assms(2) by (auto simp: promises_ok_def)
  moreover have "\<forall>p \<in> set (map fst (settled s) @ open_promises s). p < Suc (next_promise s)"
    using assms(2) by (auto simp: promises_ok_def less_Suc_eq)
  ultimately show ?thesis using assms(2) f by (simp add: promises_ok_def o')
qed (use assms(2) in simp)

lemma promises_step:
  assumes "hot_step k n fs s e t" "promises_ok s"
  shows "promises_ok t"
  using assms(1)
proof cases
  case (call_check a r)
  from promises_check [OF call_check(2) assms(2)] show ?thesis .
next
  case (call_apply o' r)
  from promises_ok_cong [OF hotApply_promises [OF call_apply(2)] assms(2)] show ?thesis .
next
  case (next_job j js)
  have ok: "promises_ok (s\<lparr>jobs := j # js\<rparr>)" using assms(2) next_job(2) by (simp flip: next_job(2))
  show ?thesis
  proof (cases j)
    case (ManifestLoaded p m)
    with next_job(3) have "t = hotManifestLoaded fs p m (s\<lparr>jobs := js\<rparr>)" by (simp add: run_job_def)
    with promises_manifest [OF ok [unfolded ManifestLoaded]] show ?thesis by simp
  next
    case (ApplyUpdate p)
    with next_job(3) obtain o' r u where u: "hotApply k n o' (s\<lparr>jobs := js\<rparr>) = Some (r, u)" "t = settle p (apply_outcome r) u"
      by (auto simp: run_job_def split: option.splits)
    from hotApply_promises [OF u(1)] ok ApplyUpdate show ?thesis unfolding u(2)
      by (auto simp: promises_ok_def open_promises_def settle_def same_promises_def job_promise_def split: option.splits)
  qed
qed (use assms(2) in \<open>simp_all add: promises_ok_def open_promises_def addStatusHandler_def removeStatusHandler_def\<close>)

section \<open>A download that succeeds\<close>

text \<open>The modules of the chunks \<open>cs\<close> that the manifest lists, in the order of the chunks.\<close>

definition available :: "bool obj \<Rightarrow> string list \<Rightarrow> string list" where
  "available m cs = filter (flag m) cs"

definition merge_update :: "action list option obj \<Rightarrow> action list option obj \<Rightarrow> action list option obj" where
  "merge_update u mods = foldl (\<lambda>u (i, code). obj_set i code u) u mods"

text \<open>\<open>prepared p js avail ups s\<close>: the update \<open>ups\<close> has been collected; the first chunk that arrived has
  made the status ready and queued the application.\<close>

definition prepared :: "nat \<Rightarrow> job list \<Rightarrow> bool \<Rightarrow> action list option obj \<Rightarrow> hmr \<Rightarrow> bool" where
  "prepared p js got ups s \<longleftrightarrow> hotUpdate s = ups \<and> hotWaitingFiles s = 0 \<and> hotChunksLoading s = 0 \<and>
     (if got then hotStatus s = Ready \<and> hotDeferred s = None \<and> jobs s = js @ [ApplyUpdate p]
      else hotStatus s = Prepare \<and> hotDeferred s = Some p \<and> jobs s = js)"

text \<open>What stays as it is while chunks are downloaded.\<close>

definition download_frame :: "hmr \<Rightarrow> hmr \<Rightarrow> bool" where
  "download_frame s t \<longleftrightarrow> hotAvailableFilesMap t = hotAvailableFilesMap s \<and> hotCurrentHash t = hotCurrentHash s \<and>
     hotApplyOnUpdate t = hotApplyOnUpdate s \<and> hotUpdateNewHash t = hotUpdateNewHash s \<and>
     settled t = settled s \<and> (\<exists>tr. rt t = (rt s)\<lparr>trace := tr\<rparr>)"

lemma download_frame_refl [simp]: "download_frame s s"
  by (simp add: download_frame_def exI [of _ "trace (rt s)"])

lemma download_frame_trans: "download_frame s t \<Longrightarrow> download_frame t u \<Longrightarrow> download_frame s u"
  by (auto simp: download_frame_def)

lemma downloaded_prepared:
  assumes "prepared p js got ups s" "hotApplyOnUpdate s = Some o'"
  shows "prepared p js True ups (hotUpdateDownloaded s) \<and> download_frame s (hotUpdateDownloaded s)"
  using assms by (cases got) (auto simp: prepared_def hotUpdateDownloaded_def Let_def hotSetStatus_def upd_rt_def
    download_frame_def)

lemma ensure_skip:
  assumes "prepared p js got ups s" "\<not> flag (hotAvailableFilesMap s) c"
  shows "prepared p js got ups (hotEnsureUpdateChunk fs c s) \<and> download_frame s (hotEnsureUpdateChunk fs c s)"
  using assms by (auto simp: hotEnsureUpdateChunk_def prepared_def download_frame_def intro: exI [of _ "trace (rt s)"])

lemma ensure_present:
  assumes "prepared p js got ups s" "flag (hotAvailableFilesMap s) c" "hotApplyOnUpdate s = Some o'"
    "update_files fs (update_path c (hotCurrentHash s)) = Some (c, mods)"
  shows "prepared p js True (merge_update ups mods) (hotEnsureUpdateChunk fs c s) \<and>
    download_frame s (hotEnsureUpdateChunk fs c s)"
proof -
  let ?s1 = "s\<lparr>hotRequestedFilesMap := obj_set c True (hotRequestedFilesMap s), hotWaitingFiles := hotWaitingFiles s + 1\<rparr>"
  let ?s2 = "?s1\<lparr>hotRequestedFilesMap := obj_set c False (hotRequestedFilesMap ?s1),
    hotUpdate := merge_update ups mods, hotWaitingFiles := hotWaitingFiles ?s1 - 1\<rparr>"
  have "hotEnsureUpdateChunk fs c s = hotUpdateDownloaded ?s2"
    using assms by (simp add: hotEnsureUpdateChunk_def hotDownloadUpdateChunk_def hotAddUpdateChunk_def Let_def
      flag_def prepared_def merge_update_def)
  moreover have "prepared p js got (merge_update ups mods) ?s2" using assms(1) by (simp add: prepared_def)
  moreover have "download_frame s ?s2" by (simp add: download_frame_def exI [of _ "trace (rt s)"])
  ultimately show ?thesis using downloaded_prepared [of p js got _ ?s2 o'] assms(3) download_frame_trans by simp
qed

lemma ensure_all:
  assumes "prepared p js got ups s" "hotApplyOnUpdate s = Some o'"
    "\<forall>c \<in> set cs. flag (hotAvailableFilesMap s) c \<longrightarrow>
       update_files fs (update_path c (hotCurrentHash s)) = Some (c, upd c)"
  shows "prepared p js (got \<or> available (hotAvailableFilesMap s) cs \<noteq> [])
      (foldl merge_update ups (map upd (available (hotAvailableFilesMap s) cs)))
      (foldl (\<lambda>s c. hotEnsureUpdateChunk fs c s) s cs) \<and>
    download_frame s (foldl (\<lambda>s c. hotEnsureUpdateChunk fs c s) s cs)"
  using assms
proof (induction cs arbitrary: s got ups)
  case Nil
  then show ?case by (simp add: available_def)
next
  case (Cons c cs)
  let ?t = "hotEnsureUpdateChunk fs c s"
  show ?case
  proof (cases "flag (hotAvailableFilesMap s) c")
    case True
    from Cons.prems(3) True
    have f: "update_files fs (update_path c (hotCurrentHash s)) = Some (c, upd c)" by simp
    note t = ensure_present [OF Cons.prems(1) True Cons.prems(2) f]
    then have fr: "hotAvailableFilesMap ?t = hotAvailableFilesMap s" "hotCurrentHash ?t = hotCurrentHash s"
      "hotApplyOnUpdate ?t = hotApplyOnUpdate s" by (simp_all add: download_frame_def)
    have "prepared p js (True \<or> available (hotAvailableFilesMap ?t) cs \<noteq> [])
        (foldl merge_update (merge_update ups (upd c)) (map upd (available (hotAvailableFilesMap ?t) cs)))
        (foldl (\<lambda>s c. hotEnsureUpdateChunk fs c s) ?t cs) \<and>
      download_frame ?t (foldl (\<lambda>s c. hotEnsureUpdateChunk fs c s) ?t cs)"
      by (rule Cons.IH) (use t Cons.prems fr in auto)
    with t True fr(1) show ?thesis by (auto simp: available_def intro: download_frame_trans)
  next
    case False
    note t = ensure_skip [OF Cons.prems(1) False, of fs]
    then have fr: "hotAvailableFilesMap ?t = hotAvailableFilesMap s" "hotCurrentHash ?t = hotCurrentHash s"
      "hotApplyOnUpdate ?t = hotApplyOnUpdate s" by (simp_all add: download_frame_def)
    have "prepared p js (got \<or> available (hotAvailableFilesMap ?t) cs \<noteq> [])
        (foldl merge_update ups (map upd (available (hotAvailableFilesMap ?t) cs)))
        (foldl (\<lambda>s c. hotEnsureUpdateChunk fs c s) ?t cs) \<and>
      download_frame ?t (foldl (\<lambda>s c. hotEnsureUpdateChunk fs c s) ?t cs)"
      by (rule Cons.IH) (use t Cons.prems fr in auto)
    with t False fr(1) show ?thesis by (auto simp: available_def intro: download_frame_trans)
  qed
qed

section \<open>Properties\<close>

text \<open>An idle page for the examples, with the chunks of the application, and an update of two chunks.\<close>

definition idle_page :: hmr where
  "idle_page = (ready [] (loaded ''app'' demo))\<lparr>hotStatus := Idle, hotCurrentHash := ''h1'',
     installedChunks := [(''runtime'', ChunkLoaded), (''vendor'', ChunkLoaded), (''bundle'', ChunkLoaded)]\<rparr>"

definition two_chunks :: manifest where
  "two_chunks = \<lparr>mf_hash = ''h2'', mf_chunks = [(''vendor'', True), (''bundle'', True)]\<rparr>"

definition chunk_mods :: "string \<Rightarrow> action list option obj" where
  "chunk_mods c = (if c = ''vendor'' then [(''page'', Some new_page)] else [(''lib'', Some [Log ''lib v2''])])"

text \<open>The server of the examples: the manifest and the update files of the chunks of \<open>have\<close>.\<close>

definition server :: "string list \<Rightarrow> files" where
  "server have_chunks = \<lparr>
     update_files = (\<lambda>p. map_of (map (\<lambda>c. (update_path c ''h1'', (c, chunk_mods c))) have_chunks) p),
     manifest_files = (\<lambda>p. if p = manifest_path ''h1'' then Some (Some two_chunks) else None)\<rparr>"

text \<open>When every update file the manifest announces can be loaded, the reaction on the manifest
  collects the modules of all announced chunks, in the order of the chunks, makes the status ready and
  queues exactly one application of the update.\<close>

theorem downloaded_update_is_complete:
  assumes "hotApplyOnUpdate s = Some o'" "hotWaitingFiles s = 0" "hotChunksLoading s = 0"
    "\<forall>c \<in> set (obj_keys (installedChunks s)). flag (mf_chunks m) c \<longrightarrow>
       update_files fs (update_path c (hotCurrentHash s)) = Some (c, upd c)"
  shows "hotStatus (hotManifestLoaded fs p (Some (Some m)) s) = Ready \<and>
    jobs (hotManifestLoaded fs p (Some (Some m)) s) = jobs s @ [ApplyUpdate p] \<and>
    hotUpdate (hotManifestLoaded fs p (Some (Some m)) s) =
      foldl merge_update [] (map upd (available (mf_chunks m) (obj_keys (installedChunks s)))) \<and>
    hotUpdateNewHash (hotManifestLoaded fs p (Some (Some m)) s) = mf_hash m \<and> settled (hotManifestLoaded fs p (Some (Some m)) s) = settled s"
proof -
  let ?s1 = "start_prepare p m s" let ?cs = "obj_keys (installedChunks s)"
  let ?t = "foldl (\<lambda>s c. hotEnsureUpdateChunk fs c s) ?s1 ?cs"
  have s1: "prepared p (jobs s) False [] ?s1" "hotAvailableFilesMap ?s1 = mf_chunks m" "hotApplyOnUpdate ?s1 = Some o'"
    "hotCurrentHash ?s1 = hotCurrentHash s" "installedChunks ?s1 = installedChunks s"
    "hotUpdateNewHash ?s1 = mf_hash m" "settled ?s1 = settled s"
    using assms(1-3) by (simp_all add: start_prepare_def prepared_def hotSetStatus_def upd_rt_def)
  let ?ups = "foldl merge_update [] (map upd (available (mf_chunks m) ?cs))"
  have t: "prepared p (jobs s) (False \<or> available (mf_chunks m) ?cs \<noteq> []) ?ups ?t" "download_frame ?s1 ?t"
    using ensure_all [OF s1(1,3), of ?cs fs upd] assms(4) by (simp_all only: s1(2,4))
  have res: "hotManifestLoaded fs p (Some (Some m)) s = finish_prepare ?t"
    using s1(5) by (simp add: hotManifestLoaded_def Let_def)
  have a: "hotApplyOnUpdate ?t = Some o'" using t(2) s1(3) by (simp add: download_frame_def)
  have "prepared p (jobs s) True ?ups (finish_prepare ?t) \<and> download_frame ?t (finish_prepare ?t)"
  proof (cases "available (mf_chunks m) ?cs = []")
    case True
    with t(1) have p': "prepared p (jobs s) False ?ups ?t" by simp
    then have "finish_prepare ?t = hotUpdateDownloaded ?t" by (simp add: finish_prepare_def prepared_def)
    with downloaded_prepared [OF p' a] show ?thesis by simp
  next
    case False
    with t(1) have p': "prepared p (jobs s) True ?ups ?t" by simp
    then have "finish_prepare ?t = ?t" by (simp add: finish_prepare_def prepared_def)
    with p' show ?thesis by simp
  qed
  then have "prepared p (jobs s) True ?ups (finish_prepare ?t)" "download_frame ?s1 (finish_prepare ?t)"
    using t(2) download_frame_trans by blast+
  then show ?thesis using s1(6,7) by (simp add: res prepared_def download_frame_def)
qed

theorem downloaded_update_is_complete_witness:
  "jobs (hotManifestLoaded (server [''vendor'', ''bundle'']) 0 (Some (Some two_chunks)) idle_page) = [ApplyUpdate 0] \<and>
   hotUpdate (hotManifestLoaded (server [''vendor'', ''bundle'']) 0 (Some (Some two_chunks)) idle_page) =
     [(''page'', Some new_page), (''lib'', Some [Log ''lib v2''])]"
proof -
  let ?fs = "server [''vendor'', ''bundle'']"
  have "\<forall>c \<in> set (obj_keys (installedChunks idle_page)). flag (mf_chunks two_chunks) c \<longrightarrow>
       update_files ?fs (update_path c (hotCurrentHash idle_page)) = Some (c, chunk_mods c)"
    by code_simp
  moreover have "foldl merge_update [] (map chunk_mods (available (mf_chunks two_chunks) (obj_keys (installedChunks idle_page)))) =
      [(''page'', Some new_page), (''lib'', Some [Log ''lib v2''])]" by code_simp
  ultimately show ?thesis
    using downloaded_update_is_complete [of idle_page no_options two_chunks ?fs chunk_mods 0]
    by (simp add: idle_page_def ready_def)
qed

text \<open>Doing the first \<open>m\<close> jobs of the queue.\<close>

definition run_jobs :: "nat \<Rightarrow> files \<Rightarrow> hmr \<Rightarrow> hmr option" where
  "run_jobs m fs s = (((\<lambda>x. Option.bind x (\<lambda>s. case jobs s of [] \<Rightarrow> Some s
     | j # js \<Rightarrow> run_job 1 5 fs j (s\<lparr>jobs := js\<rparr>))) ^^ m) (Some s))"

lemma run_jobs_steps: "run_jobs m fs s = Some t \<Longrightarrow> hot_steps 1 5 fs s t"
proof (induction m arbitrary: t)
  case (Suc m)
  then obtain u where u: "run_jobs m fs s = Some u"
    "(case jobs u of [] \<Rightarrow> Some u | j # js \<Rightarrow> run_job 1 5 fs j (u\<lparr>jobs := js\<rparr>)) = Some t"
    by (auto simp: run_jobs_def bind_eq_Some_conv)
  show ?case
  proof (cases "jobs u")
    case Nil
    with u Suc.IH show ?thesis by simp
  next
    case (Cons j js)
    with u(2) have "hot_step 1 5 fs u NextJob t" by (intro hot_step.next_job) simp_all
    with Suc.IH [OF u(1)] show ?thesis by (rule hot_steps.step)
  qed
qed (simp add: run_jobs_def hot_steps.refl)

text \<open>C6: The promise a check returns is settled at most once, in every run of checks, applications and
  queued reactions.\<close>

theorem promise_settled_once:
  assumes "hot_steps k n fs s t" "promises_ok s"
  shows "distinct (map fst (settled t))"
proof -
  have "promises_ok t" using assms by induction (auto intro: promises_step)
  then show ?thesis by (simp add: promises_ok_def)
qed

theorem promise_settled_once_witness:
  "\<exists>t. hot_steps 1 5 (server [''vendor'', ''bundle'']) (snd (hotCheck (server [''vendor'', ''bundle'']) (Some no_options) idle_page)) t \<and>
     settled t = [(0, Modules [''page'', ''lib''])] \<and> distinct (map fst (settled t))"
proof -
  let ?fs = "server [''vendor'', ''bundle'']" and ?s = "snd (hotCheck (server [''vendor'', ''bundle'']) (Some no_options) idle_page)"
  have "map_option settled (run_jobs 2 ?fs ?s) = Some [(0, Modules [''page'', ''lib''])]" by code_simp
  then obtain t where t: "run_jobs 2 ?fs ?s = Some t" "settled t = [(0, Modules [''page'', ''lib''])]" by auto
  have ok: "promises_ok ?s" by code_simp
  from promise_settled_once [OF run_jobs_steps [OF t(1)] ok] run_jobs_steps [OF t(1)] t(2) show ?thesis by blast
qed

text \<open>Once the status is neither idle nor ready and no reaction is queued, the hot update is dead: no
  call of \<open>check\<close> or \<open>apply\<close> ever changes the status, the code or the modules again.\<close>

theorem dead_status_is_final:
  assumes "hot_steps k n fs s t" "hotStatus s \<noteq> Idle" "hotStatus s \<noteq> Ready" "jobs s = []"
  shows "hotStatus t = hotStatus s \<and> jobs t = [] \<and> rt t = rt s \<and> settled t = settled s"
  using assms
proof induction
  case (step s t e u)
  then have t: "hotStatus t = hotStatus s" "jobs t = []" "rt t = rt s" "settled t = settled s" by simp_all
  from step.hyps(2) show ?case
  proof cases
    case (call_check a r)
    with t step.prems show ?thesis by (simp add: hotCheck_def)
  next
    case (call_apply o' r)
    with t step.prems show ?thesis by (simp add: hotApply_def)
  qed (use t in \<open>simp_all add: addStatusHandler_def removeStatusHandler_def\<close>)
qed simp

theorem dead_status_is_final_witness:
  "\<exists>s. s = hotManifestLoaded (server []) 0 (Some (Some two_chunks)) idle_page \<and> hotStatus s = Prepare \<and>
     (\<forall>t. hot_steps 1 5 (server []) s t \<longrightarrow> hotStatus t = Prepare \<and> settled t = [])"
proof -
  let ?s = "hotManifestLoaded (server []) 0 (Some (Some two_chunks)) idle_page"
  have s: "hotStatus ?s = Prepare" "jobs ?s = []" "settled ?s = []" by code_simp+
  have "hotStatus t = Prepare \<and> settled t = []" if "hot_steps 1 5 (server []) ?s t" for t
    using dead_status_is_final [OF that] s by simp
  with s show ?thesis by blast
qed

text \<open>An update file that cannot be loaded is not noticed when another one was loaded before it: the
  update is applied without the missing chunk, the new hash is taken over, and because the count of
  awaited files is never reset, the next update never becomes ready.\<close>

theorem partial_update_is_applied:
  "map_option (\<lambda>s. (settled s, hotStatus s, hotCurrentHash s, hotWaitingFiles s, map_of (modules (rt s)) ''lib''))
     (run_jobs 2 (server [''vendor'']) (snd (hotCheck (server [''vendor'']) (Some no_options) idle_page))) =
   Some ([(0, Modules [''page''])], Idle, ''h2'', 1, None)"
  by code_simp

text \<open>With \<open>apply\<close> switched off, the list of updated modules handed to the caller holds only those of
  the first chunk, because the first file already makes the update ready.\<close>

theorem check_without_apply_reports_first_chunk:
  "map_option (\<lambda>s. (settled s, obj_keys (hotUpdate s)))
     (run_jobs 1 (server [''vendor'', ''bundle'']) (snd (hotCheck (server [''vendor'', ''bundle'']) None idle_page))) =
   Some ([(0, Modules [''page''])], [''page'', ''lib''])"
  by code_simp

end
