(* ===== verification/Layout_Spec.thy ===== *)
theory Layout_Spec
  imports Complex_Main "HOL-Library.Word" NS_Prelude
begin

text \<open>
  Sizes of the layout system in \<^verbatim>\<open>vendor.js\<close> (\<^verbatim>\<open>utils/utils-common.js\<close>, \<^verbatim>\<open>utils/utils.js\<close>,
  \<^verbatim>\<open>ui/styling/style-properties.js\<close> and the static functions of \<^verbatim>\<open>ui/core/view/view-common.js\<close>): measure
  specs, which pack a size and a mode into the 32 bits of a JavaScript bitwise operation, measured
  dimensions with their state bits, and CSS lengths.

  A JavaScript number is a \<open>rat\<close>: sizes are exact, the rounding of doubles is not modelled (sizes on a
  screen are far below 2^53 and mostly multiples of a half). What a bitwise operation makes of a
  number is \<open>to_int32\<close>, a \<open>32 word\<close>.
\<close>

unbundle bit_operations_syntax

section \<open>Numbers\<close>

text \<open>\<open>Math.round\<close> rounds a half up; the operand of a bitwise operation is truncated and reduced modulo
  2^32.\<close>

definition js_round :: "rat \<Rightarrow> int" where
  "js_round x = \<lfloor>x + 1 / 2\<rfloor>"

definition js_trunc :: "rat \<Rightarrow> int" where
  "js_trunc x = (if x < 0 then \<lceil>x\<rceil> else \<lfloor>x\<rfloor>)"

definition to_int32 :: "rat \<Rightarrow> 32 word" where
  "to_int32 x = word_of_int (js_trunc x)"

definition from_int32 :: "32 word \<Rightarrow> rat" where
  "from_int32 w = of_int (sint w)"

text \<open>\<open>layout.round\<close>: a length that is not zero never becomes zero.\<close>

definition layout_round :: "rat \<Rightarrow> int" where
  "layout_round v =
     (let res = \<lfloor>v + 1 / 2\<rfloor> in
      if res \<noteq> 0 then res else if v = 0 then 0 else if v > 0 then 1 else - 1)"

section \<open>Measure specs\<close>

definition MODE_MASK :: "32 word" where "MODE_MASK = push_bit 30 3"
definition UNSPECIFIED :: "32 word" where "UNSPECIFIED = push_bit 30 0"
definition EXACTLY :: "32 word" where "EXACTLY = push_bit 30 1"
definition AT_MOST :: "32 word" where "AT_MOST = push_bit 30 2"
definition MEASURED_STATE_TOO_SMALL :: "32 word" where "MEASURED_STATE_TOO_SMALL = 0x01000000"
definition MEASURED_STATE_MASK :: "32 word" where "MEASURED_STATE_MASK = 0xff000000"
definition MEASURED_SIZE_MASK :: "32 word" where "MEASURED_SIZE_MASK = 0x00ffffff"

definition getMeasureSpecMode :: "32 word \<Rightarrow> 32 word" where
  "getMeasureSpecMode spec = spec AND MODE_MASK"

definition getMeasureSpecSize :: "32 word \<Rightarrow> rat" where
  "getMeasureSpecSize spec = from_int32 (spec AND NOT MODE_MASK)"

definition makeMeasureSpec :: "rat \<Rightarrow> 32 word \<Rightarrow> 32 word" where
  "makeMeasureSpec sz mode =
     (to_int32 (of_int (js_round (max 0 sz))) AND NOT MODE_MASK) OR (mode AND MODE_MASK)"

text \<open>\<open>View.resolveSizeAndState\<close>; the value for \<open>AT_MOST\<close> is truncated by the bitwise operation, the
  others are rounded up.\<close>

definition resolveSizeAndState :: "rat \<Rightarrow> rat \<Rightarrow> 32 word \<Rightarrow> 32 word \<Rightarrow> 32 word" where
  "resolveSizeAndState sz specSize specMode childMeasuredState =
     (let result =
        (if specMode = UNSPECIFIED then to_int32 (of_int \<lceil>sz\<rceil>)
         else if specMode = AT_MOST then
           (if specSize < sz then to_int32 (of_int \<lceil>specSize\<rceil>) OR MEASURED_STATE_TOO_SMALL
            else to_int32 sz)
         else if specMode = EXACTLY then to_int32 (of_int \<lceil>specSize\<rceil>)
         else to_int32 sz)
      in result OR (childMeasuredState AND MEASURED_STATE_MASK))"

text \<open>\<open>getMeasuredWidth\<close> and \<open>getMeasuredHeight\<close> read the size bits; \<open>getMeasuredState\<close> packs the states
  of both dimensions.\<close>

definition measured_size :: "32 word \<Rightarrow> rat" where
  "measured_size w = from_int32 (w AND MEASURED_SIZE_MASK)"

definition measured_state :: "32 word \<Rightarrow> 32 word \<Rightarrow> 32 word" where
  "measured_state w h = (w AND MEASURED_STATE_MASK) OR
     (signed_drop_bit 16 h AND signed_drop_bit 16 MEASURED_STATE_MASK)"

text \<open>\<open>View.getMeasureSpec\<close>: the spec of a child with the given margins and requested length (negative:
  \<open>auto\<close>) under its parent's spec.\<close>

definition getMeasureSpec :: "32 word \<Rightarrow> rat \<Rightarrow> rat \<Rightarrow> bool \<Rightarrow> 32 word" where
  "getMeasureSpec parentSpec margins childLength stretched =
     (let parentLength = getMeasureSpecSize parentSpec; parentSpecMode = getMeasureSpecMode parentSpec in
      if childLength \<ge> 0 then
        makeMeasureSpec (if parentSpecMode = UNSPECIFIED then childLength else min parentLength childLength) EXACTLY
      else if parentSpecMode = EXACTLY then
        makeMeasureSpec (max 0 (parentLength - margins)) (if stretched then EXACTLY else AT_MOST)
      else if parentSpecMode = AT_MOST then makeMeasureSpec (max 0 (parentLength - margins)) AT_MOST
      else makeMeasureSpec 0 UNSPECIFIED)"

section \<open>CSS lengths\<close>

datatype css_length = Auto | Num rat | Px rat | Percent rat | Dip rat | NoLength

text \<open>\<open>density\<close> is \<open>mainScreenScale\<close>.\<close>

definition toDevicePixels :: "rat \<Rightarrow> rat \<Rightarrow> rat" where
  "toDevicePixels density value = value * density"

fun toDevicePixelsCommon :: "rat \<Rightarrow> css_length \<Rightarrow> rat \<Rightarrow> rat \<Rightarrow> rat" where
  "toDevicePixelsCommon density Auto auto' avail = auto'"
| "toDevicePixelsCommon density (Num n) auto' avail = of_int (layout_round (toDevicePixels density n))"
| "toDevicePixelsCommon density NoLength auto' avail = auto'"
| "toDevicePixelsCommon density (Px v) auto' avail = of_int (layout_round v)"
| "toDevicePixelsCommon density (Percent v) auto' avail = of_int (layout_round (avail * v))"
| "toDevicePixelsCommon density (Dip v) auto' avail = of_int (layout_round (toDevicePixels density v))"

fun equalsCommon :: "css_length \<Rightarrow> css_length \<Rightarrow> bool" where
  "equalsCommon Auto b = (b = Auto)"
| "equalsCommon (Num a) b = (case b of Auto \<Rightarrow> False | Num b \<Rightarrow> a = b | NoLength \<Rightarrow> False
     | Dip b \<Rightarrow> a = b | _ \<Rightarrow> False)"
| "equalsCommon NoLength b = False"
| "equalsCommon a Auto = False"
| "equalsCommon a (Num b) = (case a of Dip a \<Rightarrow> a = b | _ \<Rightarrow> False)"
| "equalsCommon a NoLength = False"
| "equalsCommon a b = (a = b)"

section \<open>Words\<close>

lemmas spec_defs = MODE_MASK_def UNSPECIFIED_def EXACTLY_def AT_MOST_def

lemma mode_values [simp]:
  "UNSPECIFIED \<noteq> EXACTLY" "UNSPECIFIED \<noteq> AT_MOST" "EXACTLY \<noteq> AT_MOST"
  "EXACTLY \<noteq> UNSPECIFIED" "AT_MOST \<noteq> UNSPECIFIED" "AT_MOST \<noteq> EXACTLY"
  by (simp_all add: spec_defs)

lemma mode_masked [simp]:
  "UNSPECIFIED AND MODE_MASK = UNSPECIFIED" "EXACTLY AND MODE_MASK = EXACTLY" "AT_MOST AND MODE_MASK = AT_MOST"
  by (simp_all add: spec_defs)

lemma not_mode_mask: "NOT MODE_MASK = mask 30"
  by (simp add: spec_defs mask_eq_exp_minus_1)

lemma size_mask: "MEASURED_SIZE_MASK = mask 24"
  by (simp add: MEASURED_SIZE_MASK_def mask_eq_exp_minus_1)

lemma from_int32_mask:
  assumes "n < 32"
  shows "from_int32 (w AND mask n) = of_int (take_bit n (uint w))"
proof -
  have "uint (w AND mask n) = take_bit n (uint w)"
    by (simp add: unsigned_take_bit_eq flip: take_bit_eq_mask)
  moreover have "take_bit n (uint w) < 2 ^ 31"
    using take_bit_int_less_exp [of n "uint w"] power_increasing [of n 31 "2::int"] assms by linarith
  ultimately have "sint (w AND mask n) = take_bit n (uint w)"
    by (simp add: sint_uint signed_take_bit_int_eq_self order_trans [OF _ take_bit_nonnegative])
  then show ?thesis by (simp add: from_int32_def)
qed

lemma from_int32_inject: "from_int32 a = from_int32 b \<longleftrightarrow> a = b"
  unfolding from_int32_def of_int_eq_iff by (auto dest: signed_word_eqI)

lemma js_trunc_of_int [simp]: "js_trunc (of_int i) = i"
  by (simp add: js_trunc_def)

lemma getMeasureSpecMode_make [simp]: "getMeasureSpecMode (makeMeasureSpec s m) = m AND MODE_MASK"
  unfolding getMeasureSpecMode_def makeMeasureSpec_def by (rule bit_word_eqI) (auto simp: bit_simps)

lemma getMeasureSpecSize_make:
  "getMeasureSpecSize (makeMeasureSpec s m) = of_int (js_round (max 0 s) mod 2 ^ 30)"
proof -
  have "makeMeasureSpec s m AND NOT MODE_MASK = to_int32 (of_int (js_round (max 0 s))) AND mask 30"
    unfolding makeMeasureSpec_def not_mode_mask [symmetric] by (rule bit_word_eqI) (auto simp: bit_simps)
  then show ?thesis
    by (simp add: getMeasureSpecSize_def from_int32_mask to_int32_def uint_word_of_int_eq take_bit_eq_mod
        mod_mod_cancel)
qed

lemma getMeasureSpecSize_bounds: "0 \<le> getMeasureSpecSize w" "getMeasureSpecSize w < 2 ^ 30"
proof -
  have e: "getMeasureSpecSize w = of_int (take_bit 30 (uint w))"
    by (simp add: getMeasureSpecSize_def not_mode_mask from_int32_mask)
  then show "0 \<le> getMeasureSpecSize w" by simp
  have "take_bit 30 (uint w) < (2 ^ 30 :: int)" by (rule take_bit_int_less_exp)
  then show "getMeasureSpecSize w < 2 ^ 30" unfolding e by (metis of_int_less_iff of_int_numeral of_int_power)
qed

lemma js_round_of_int [simp]: "js_round (of_int i) = i"
  unfolding js_round_def by (simp add: floor_eq_iff)

lemma js_round_nonneg: "0 \<le> x \<Longrightarrow> 0 \<le> js_round x"
  by (simp add: js_round_def)

lemma js_round_mono: "x \<le> y \<Longrightarrow> js_round x \<le> js_round y"
  by (simp add: js_round_def floor_mono)

lemma js_trunc_nonneg: "0 \<le> x \<Longrightarrow> 0 \<le> js_trunc x \<and> of_int (js_trunc x) \<le> x"
  by (simp add: js_trunc_def)

lemma getMeasureSpecSize_small:
  assumes "0 \<le> s" "js_round s < 2 ^ 30"
  shows "getMeasureSpecSize (makeMeasureSpec s m) = of_int (js_round s)"
  using assms js_round_nonneg [OF assms(1)] by (simp add: getMeasureSpecSize_make max_def)

lemma getMeasureSpecSize_Ints: "\<exists>i. getMeasureSpecSize w = of_int i"
  unfolding getMeasureSpecSize_def from_int32_def by blast

lemma spec_eqI:
  assumes "getMeasureSpecSize a = getMeasureSpecSize b" "getMeasureSpecMode a = getMeasureSpecMode b"
  shows "a = b"
proof -
  have "a AND NOT MODE_MASK = b AND NOT MODE_MASK"
    using assms(1) by (simp add: getMeasureSpecSize_def from_int32_inject)
  moreover have "a AND MODE_MASK = b AND MODE_MASK"
    using assms(2) by (simp add: getMeasureSpecMode_def)
  ultimately have "(a AND NOT MODE_MASK) OR (a AND MODE_MASK) = (b AND NOT MODE_MASK) OR (b AND MODE_MASK)"
    by simp
  moreover have "(w AND NOT MODE_MASK) OR (w AND MODE_MASK) = w" for w :: "32 word"
    by (rule bit_word_eqI) (auto simp: bit_simps)
  ultimately show ?thesis by simp
qed

lemma measured_size_to_int32: "measured_size (to_int32 x) = of_int (js_trunc x mod 2 ^ 24)"
  by (simp add: measured_size_def size_mask from_int32_mask to_int32_def uint_word_of_int_eq take_bit_eq_mod
      mod_mod_cancel)

lemma measured_size_too_small [simp]: "measured_size (w OR MEASURED_STATE_TOO_SMALL) = measured_size w"
proof -
  have "MEASURED_STATE_TOO_SMALL AND MEASURED_SIZE_MASK = 0"
    by (simp add: MEASURED_STATE_TOO_SMALL_def MEASURED_SIZE_MASK_def)
  then have "(w OR MEASURED_STATE_TOO_SMALL) AND MEASURED_SIZE_MASK = w AND MEASURED_SIZE_MASK"
    by (simp add: bit.conj_disj_distrib2)
  then show ?thesis by (simp add: measured_size_def)
qed

lemma measured_size_bounds: "0 \<le> measured_size w" "measured_size w < 2 ^ 24"
proof -
  have e: "measured_size w = of_int (take_bit 24 (uint w))"
    by (simp add: measured_size_def size_mask from_int32_mask)
  then show "0 \<le> measured_size w" by simp
  have "take_bit 24 (uint w) < (2 ^ 24 :: int)" by (rule take_bit_int_less_exp)
  then show "measured_size w < 2 ^ 24" unfolding e by (metis of_int_less_iff of_int_numeral of_int_power)
qed

lemma measured_size_Ints: "\<exists>i. measured_size w = of_int i"
  unfolding measured_size_def from_int32_def by blast

lemma measured_size_small:
  assumes "0 \<le> x" "x < 2 ^ 24"
  shows "measured_size (to_int32 x) = of_int (js_trunc x)"
proof -
  have "of_int (js_trunc x) < (2 ^ 24 :: rat)" using assms js_trunc_nonneg [OF assms(1)] by linarith
  then have "js_trunc x < 2 ^ 24" by (metis of_int_less_iff of_int_numeral of_int_power)
  then show ?thesis using js_trunc_nonneg [OF assms(1)] by (simp add: measured_size_to_int32)
qed

section \<open>Fitting into a spec\<close>

text \<open>What a parent asks of a measured size.\<close>

definition fits :: "32 word \<Rightarrow> rat \<Rightarrow> bool" where
  "fits spec m \<longleftrightarrow>
     (getMeasureSpecMode spec = EXACTLY \<longrightarrow> m = getMeasureSpecSize spec) \<and>
     (getMeasureSpecMode spec = AT_MOST \<longrightarrow> 0 \<le> m \<and> m \<le> getMeasureSpecSize spec)"

text \<open>The size of a spec a layout can honour: a measured dimension has only 24 bits for the size.\<close>

definition measurable_spec :: "32 word \<Rightarrow> bool" where
  "measurable_spec spec \<longleftrightarrow> getMeasureSpecSize spec < 2 ^ 24"

lemma resolved_fits:
  assumes "measurable_spec spec" "0 \<le> sz"
  shows "fits spec (measured_size (resolveSizeAndState sz (getMeasureSpecSize spec) (getMeasureSpecMode spec) 0))"
proof -
  obtain i where i: "getMeasureSpecSize spec = of_int i" using getMeasureSpecSize_Ints by blast
  have ss: "0 \<le> getMeasureSpecSize spec" "getMeasureSpecSize spec < 2 ^ 24"
    using assms(1) getMeasureSpecSize_bounds(1) by (auto simp: measurable_spec_def)
  have full: "measured_size (to_int32 (of_int i)) = of_int i"
    using ss measured_size_small [of "of_int i"] by (simp add: i)
  have "measured_size (to_int32 sz) \<le> getMeasureSpecSize spec" if "sz \<le> getMeasureSpecSize spec"
    using that ss measured_size_small [OF assms(2)] js_trunc_nonneg [OF assms(2)] by simp
  with full show ?thesis
    by (auto simp: fits_def resolveSizeAndState_def Let_def i measured_size_bounds not_less)
qed

lemma fits_children_spec:
  assumes "fits spec m" "getMeasureSpecMode spec \<in> {EXACTLY, AT_MOST}"
  shows "m \<le> getMeasureSpecSize spec"
  using assms by (auto simp: fits_def)

text \<open>The size of a child's spec, without the wrap of \<open>makeMeasureSpec\<close>.\<close>

lemma getMeasureSpec_auto:
  assumes "len < 0" "0 \<le> margins" "getMeasureSpecMode spec \<in> {EXACTLY, AT_MOST}"
  shows "getMeasureSpecSize (getMeasureSpec spec margins len st) =
    of_int (js_round (max 0 (getMeasureSpecSize spec - margins)))"
proof -
  obtain i where i: "getMeasureSpecSize spec = of_int i" using getMeasureSpecSize_Ints by blast
  let ?r = "max 0 (getMeasureSpecSize spec - margins)"
  have "js_round ?r \<le> js_round (getMeasureSpecSize spec)"
    using assms(2) getMeasureSpecSize_bounds(1) by (intro js_round_mono) simp
  also have "\<dots> = i" by (simp add: i)
  also have "i < 2 ^ 30"
    using getMeasureSpecSize_bounds(2) [of spec] unfolding i by (metis of_int_less_iff of_int_numeral of_int_power)
  finally have "getMeasureSpecSize (makeMeasureSpec ?r m) = of_int (js_round ?r)" for m
    by (intro getMeasureSpecSize_small) simp_all
  with assms(1,3) show ?thesis by (auto simp: getMeasureSpec_def Let_def)
qed

end
