(* ===== verification/Layout_View.thy ===== *)
theory Layout_View
  imports Layout_Spec
begin

text \<open>
  The measure and layout protocol every view follows (\<^verbatim>\<open>ui/core/view/view-common.js\<close> and
  \<^verbatim>\<open>ui/core/view/view.js\<close>): \<open>measure\<close> caches the specs and calls the virtual \<open>onMeasure\<close>, \<open>layout\<close> keeps
  the bounds and calls the virtual \<open>onLayout\<close>; \<open>measureChild\<close> and \<open>layoutChild\<close> are what a parent calls.

  A view is a record; a subclass extends it. The virtual methods are arguments (\<open>om\<close>, \<open>ol\<close>), so that
  the protocol is stated once for all classes. What the native view does is a parameter: its size that
  fits (\<open>native\<close>) and the position that its frame has after it was set (\<open>pos\<close>).
\<close>

section \<open>State\<close>

datatype halign = HLeft | HCenter | HRight | HStretch
datatype valign = VTop | VMiddle | VBottom | VStretch
datatype dock = DockLeft | DockTop | DockRight | DockBottom

record insets =
  ins_left :: rat
  ins_top :: rat
  ins_right :: rat
  ins_bottom :: rat

type_synonym bounds = "rat \<times> rat \<times> rat \<times> rat"

record view =
  isCollapsed :: bool
  s_width :: css_length
  s_height :: css_length
  s_marginLeft :: css_length
  s_marginTop :: css_length
  s_marginRight :: css_length
  s_marginBottom :: css_length
  horizontalAlignment :: halign
  verticalAlignment :: valign
  effectiveWidth :: rat
  effectiveHeight :: rat
  effectiveMarginLeft :: rat
  effectiveMarginTop :: rat
  effectiveMarginRight :: rat
  effectiveMarginBottom :: rat
  effectiveMinWidth :: rat
  effectiveMinHeight :: rat
  padding :: insets
  border :: insets
  effectiveLeft :: rat
  effectiveTop :: rat
  dock_of :: dock
  row :: int
  col :: int
  rowSpan :: int
  colSpan :: int
  currentWidthMeasureSpec :: "32 word option"
  currentHeightMeasureSpec :: "32 word option"
  measuredWidth :: "32 word"
  measuredHeight :: "32 word"
  privateFlags :: "32 word"
  isLayoutValid :: bool
  old_bounds :: "bounds option"
  nativeFrame :: "bounds option"

definition PFLAG_FORCE_LAYOUT :: "32 word" where "PFLAG_FORCE_LAYOUT = push_bit 0 1"
definition PFLAG_MEASURED_DIMENSION_SET :: "32 word" where "PFLAG_MEASURED_DIMENSION_SET = push_bit 1 1"
definition PFLAG_LAYOUT_REQUIRED :: "32 word" where "PFLAG_LAYOUT_REQUIRED = push_bit 2 1"

lemmas pflag_defs = PFLAG_FORCE_LAYOUT_def PFLAG_MEASURED_DIMENSION_SET_def PFLAG_LAYOUT_REQUIRED_def

definition has_flag :: "32 word \<Rightarrow> 'a view_scheme \<Rightarrow> bool" where
  "has_flag f v \<longleftrightarrow> privateFlags v AND f = f"

definition set_flag :: "32 word \<Rightarrow> 'a view_scheme \<Rightarrow> 'a view_scheme" where
  "set_flag f v = v\<lparr>privateFlags := privateFlags v OR f\<rparr>"

definition clear_flag :: "32 word \<Rightarrow> 'a view_scheme \<Rightarrow> 'a view_scheme" where
  "clear_flag f v = v\<lparr>privateFlags := privateFlags v AND NOT f\<rparr>"

text \<open>Errors are values; \<open>and_then\<close> passes an error on.\<close>

definition and_then :: "'e + 'a \<Rightarrow> ('a \<Rightarrow> 'e + 'b) \<Rightarrow> 'e + 'b" where
  "and_then r f = (case r of Inl e \<Rightarrow> Inl e | Inr x \<Rightarrow> f x)"

lemma and_then_simps [simp]: "and_then (Inl e) f = Inl e" "and_then (Inr x) f = f x"
  by (simp_all add: and_then_def)

lemma and_then_Inr: "and_then r f = Inr y \<longleftrightarrow> (\<exists>x. r = Inr x \<and> f x = Inr y)"
  by (cases r) simp_all

section \<open>Measuring\<close>

definition measured_width :: "'a view_scheme \<Rightarrow> rat" where
  "measured_width v = measured_size (measuredWidth v)"

definition measured_height :: "'a view_scheme \<Rightarrow> rat" where
  "measured_height v = measured_size (measuredHeight v)"

definition getMeasuredState :: "'a view_scheme \<Rightarrow> 32 word" where
  "getMeasuredState v = measured_state (measuredWidth v) (measuredHeight v)"

definition setMeasuredDimension :: "32 word \<Rightarrow> 32 word \<Rightarrow> 'a view_scheme \<Rightarrow> 'a view_scheme" where
  "setMeasuredDimension w h v =
     set_flag PFLAG_MEASURED_DIMENSION_SET (v\<lparr>measuredWidth := w, measuredHeight := h\<rparr>)"

definition requestLayout :: "'a view_scheme \<Rightarrow> 'a view_scheme" where
  "requestLayout v = set_flag PFLAG_FORCE_LAYOUT (v\<lparr>isLayoutValid := False\<rparr>)"

definition setCurrentMeasureSpecs :: "32 word \<Rightarrow> 32 word \<Rightarrow> 'a view_scheme \<Rightarrow> bool \<times> 'a view_scheme" where
  "setCurrentMeasureSpecs ws hs v =
     (currentWidthMeasureSpec v \<noteq> Some ws \<or> currentHeightMeasureSpec v \<noteq> Some hs,
      v\<lparr>currentWidthMeasureSpec := Some ws, currentHeightMeasureSpec := Some hs\<rparr>)"

type_synonym 'v on_measure = "32 word \<Rightarrow> 32 word \<Rightarrow> 'v \<Rightarrow> string + 'v"

definition no_dimension :: string where
  "no_dimension = ''onMeasure() did not set the measured dimension by calling setMeasuredDimension() ''"

definition measure :: "'a view_scheme on_measure \<Rightarrow> 'a view_scheme on_measure" where
  "measure om ws hs v =
     (let (changed, v1) = setCurrentMeasureSpecs ws hs v in
      if has_flag PFLAG_FORCE_LAYOUT v1 \<or> changed then
        and_then (om ws hs (clear_flag PFLAG_MEASURED_DIMENSION_SET v1))
          (\<lambda>v2. let v3 = set_flag PFLAG_LAYOUT_REQUIRED v2 in
                if has_flag PFLAG_MEASURED_DIMENSION_SET v3 then Inr v3 else Inl no_dimension)
      else Inr v1)"

text \<open>The lengths of a style that may be percentages of the space of the parent.\<close>

definition updateEffectiveLayoutValues :: "rat \<Rightarrow> rat \<Rightarrow> 32 word \<Rightarrow> rat \<Rightarrow> 32 word \<Rightarrow> 'a view_scheme \<Rightarrow> 'a view_scheme" where
  "updateEffectiveLayoutValues density w wmode h hmode v =
     (let aw = (if wmode = UNSPECIFIED then - 1 else w); ah = (if hmode = UNSPECIFIED then - 1 else h) in
      v\<lparr>effectiveWidth := toDevicePixelsCommon density (s_width v) (- 2) aw,
        effectiveMarginLeft := toDevicePixelsCommon density (s_marginLeft v) 0 aw,
        effectiveMarginRight := toDevicePixelsCommon density (s_marginRight v) 0 aw,
        effectiveHeight := toDevicePixelsCommon density (s_height v) (- 2) ah,
        effectiveMarginTop := toDevicePixelsCommon density (s_marginTop v) 0 ah,
        effectiveMarginBottom := toDevicePixelsCommon density (s_marginBottom v) 0 ah\<rparr>)"

lemma isCollapsed_update [simp]: "isCollapsed (updateEffectiveLayoutValues density w wm h hm v) = isCollapsed v"
  by (simp add: updateEffectiveLayoutValues_def Let_def)

definition horizontal_margins :: "'a view_scheme \<Rightarrow> rat" where
  "horizontal_margins v = effectiveMarginLeft v + effectiveMarginRight v"

definition vertical_margins :: "'a view_scheme \<Rightarrow> rat" where
  "vertical_margins v = effectiveMarginTop v + effectiveMarginBottom v"

definition spec_or_zero :: "32 word option \<Rightarrow> 32 word" where
  "spec_or_zero s = (case s of None \<Rightarrow> 0 | Some w \<Rightarrow> w)"

definition measureChild :: "'a view_scheme on_measure \<Rightarrow> rat \<Rightarrow> 'p view_scheme \<Rightarrow> 'a view_scheme \<Rightarrow>
    32 word \<Rightarrow> 32 word \<Rightarrow> string + 'a view_scheme \<times> rat \<times> rat" where
  "measureChild om density parent child ws hs =
     (if isCollapsed child then Inr (child, 0, 0)
      else (let pw = spec_or_zero (currentWidthMeasureSpec parent);
                ph = spec_or_zero (currentHeightMeasureSpec parent);
                c = updateEffectiveLayoutValues density (getMeasureSpecSize pw) (getMeasureSpecMode pw)
                      (getMeasureSpecSize ph) (getMeasureSpecMode ph) child;
                cw = getMeasureSpec ws (horizontal_margins c) (effectiveWidth c) (horizontalAlignment c = HStretch);
                ch = getMeasureSpec hs (vertical_margins c) (effectiveHeight c) (verticalAlignment c = VStretch)
            in and_then (measure om cw ch c)
                 (\<lambda>c'. Inr (c', of_int (js_round (measured_width c' + horizontal_margins c)),
                                of_int (js_round (measured_height c' + vertical_margins c))))))"

text \<open>\<open>View.onMeasure\<close>, for a view without children: the size its native view wants, in device pixels;
  \<open>native\<close> is \<open>measureNativeView\<close> (\<open>None\<close> without a native view).\<close>

definition view_onMeasure :: "(rat \<Rightarrow> 32 word \<Rightarrow> rat \<Rightarrow> 32 word \<Rightarrow> rat \<times> rat) option \<Rightarrow> 'a view_scheme on_measure" where
  "view_onMeasure native ws hs v =
     (let width = getMeasureSpecSize ws; widthMode = getMeasureSpecMode ws;
          height = getMeasureSpecSize hs; heightMode = getMeasureSpecMode hs;
          (nw, nh) = (case native of None \<Rightarrow> (0, 0) | Some f \<Rightarrow> f width widthMode height heightMode);
          mw = max nw (effectiveMinWidth v); mh = max nh (effectiveMinHeight v)
      in Inr (setMeasuredDimension (resolveSizeAndState mw width widthMode 0)
                (resolveSizeAndState mh height heightMode 0) v))"

section \<open>Layout\<close>

type_synonym 'v on_layout = "rat \<Rightarrow> rat \<Rightarrow> rat \<Rightarrow> rat \<Rightarrow> 'v \<Rightarrow> 'v"

definition setCurrentLayoutBounds :: "rat \<Rightarrow> rat \<Rightarrow> rat \<Rightarrow> rat \<Rightarrow> 'a view_scheme \<Rightarrow> bool \<times> bool \<times> 'a view_scheme" where
  "setCurrentLayoutBounds l t r b v =
     (old_bounds v \<noteq> Some (l, t, r, b),
      (case old_bounds v of None \<Rightarrow> True | Some (ol, ot, or', ob) \<Rightarrow> or' - ol \<noteq> r - l \<or> ob - ot \<noteq> b - t),
      v\<lparr>isLayoutValid := True, old_bounds := Some (l, t, r, b)\<rparr>)"

definition layout :: "'a view_scheme on_layout \<Rightarrow> (bounds \<Rightarrow> bounds) \<Rightarrow> bool \<Rightarrow> 'a view_scheme on_layout" where
  "layout ol pos setFrame l t r b v =
     (let (boundsChanged, _, v1) = setCurrentLayoutBounds l t r b v;
          v2 = (if setFrame then v1\<lparr>nativeFrame := Some (l, t, r, b)\<rparr> else v1);
          v3 = (if boundsChanged \<or> has_flag PFLAG_LAYOUT_REQUIRED v2
                then (let (l', t', r', b') = pos (l, t, r, b)
                      in clear_flag PFLAG_LAYOUT_REQUIRED (ol l' t' r' b' v2))
                else v2)
      in clear_flag PFLAG_FORCE_LAYOUT v3)"

text \<open>The position of a child of measured length \<open>len\<close> between \<open>from\<close> and \<open>to\<close>: the alignment, with
  \<open>stretch\<close> taken as \<open>middle\<close> when the length is given.\<close>

definition effective_valign :: "'a view_scheme \<Rightarrow> valign" where
  "effective_valign c = (if effectiveHeight c \<ge> 0 \<and> verticalAlignment c = VStretch then VMiddle else verticalAlignment c)"

definition effective_halign :: "'a view_scheme \<Rightarrow> halign" where
  "effective_halign c = (if effectiveWidth c \<ge> 0 \<and> horizontalAlignment c = HStretch then HCenter else horizontalAlignment c)"

definition child_bounds :: "'a view_scheme \<Rightarrow> rat \<Rightarrow> rat \<Rightarrow> rat \<Rightarrow> rat \<Rightarrow> bounds" where
  "child_bounds c l t r b =
     (let mt = effectiveMarginTop c; mb = effectiveMarginBottom c; h = measured_height c;
          (childTop, childHeight) = (case effective_valign c of
              VTop \<Rightarrow> (t + mt, h)
            | VMiddle \<Rightarrow> (t + (b - t - h + (mt - mb)) / 2, h)
            | VBottom \<Rightarrow> (b - h - mb, h)
            | VStretch \<Rightarrow> (t + mt, b - t - (mt + mb)));
          ml = effectiveMarginLeft c; mr = effectiveMarginRight c; w = measured_width c;
          (childLeft, childWidth) = (case effective_halign c of
              HLeft \<Rightarrow> (l + ml, w)
            | HCenter \<Rightarrow> (l + (r - l - w + (ml - mr)) / 2, w)
            | HRight \<Rightarrow> (r - w - mr, w)
            | HStretch \<Rightarrow> (l + ml, r - l - (ml + mr)))
      in (of_int (js_round childLeft), of_int (js_round childTop),
          of_int (js_round (childLeft + childWidth)), of_int (js_round (childTop + childHeight))))"

definition layoutChild :: "'a view_scheme on_layout \<Rightarrow> 'a view_scheme \<Rightarrow> rat \<Rightarrow> rat \<Rightarrow> rat \<Rightarrow> rat \<Rightarrow> 'a view_scheme" where
  "layoutChild lay c l t r b =
     (if isCollapsed c then c
      else (let (cl, ct, cr, cb) = child_bounds c l t r b in lay cl ct cr cb c))"

text \<open>\<open>_setLayoutFlags\<close>: a view that is laid out by its native controller takes its frame as measured.\<close>

definition setLayoutFlags :: "rat \<Rightarrow> rat \<Rightarrow> rat \<Rightarrow> rat \<Rightarrow> 'a view_scheme \<Rightarrow> 'a view_scheme" where
  "setLayoutFlags l t r b v =
     (let v1 = snd (setCurrentMeasureSpecs (makeMeasureSpec (r - l) EXACTLY) (makeMeasureSpec (b - t) EXACTLY) v);
          v2 = setMeasuredDimension (to_int32 (r - l)) (to_int32 (b - t)) (clear_flag PFLAG_FORCE_LAYOUT v1);
          v3 = snd (snd (setCurrentLayoutBounds l t r b v2))
      in clear_flag PFLAG_LAYOUT_REQUIRED v3)"

section \<open>Flags\<close>

lemma and_flag: "n < 32 \<Longrightarrow> (w AND push_bit n 1 = push_bit n (1 :: 32 word)) = bit w n"
proof
  assume n: "n < 32" and "w AND push_bit n 1 = push_bit n (1 :: 32 word)"
  then have "bit (w AND push_bit n 1) n = bit (push_bit n (1 :: 32 word)) n" by simp
  with n show "bit w n" by (simp add: bit_and_iff bit_push_bit_iff bit_1_iff del: push_bit_of_1)
next
  assume "bit w n"
  then show "w AND push_bit n 1 = push_bit n (1 :: 32 word)"
    by (intro bit_word_eqI) (auto simp: bit_and_iff bit_push_bit_iff bit_1_iff simp del: push_bit_of_1)
qed

lemma has_flag_bit:
  "has_flag PFLAG_FORCE_LAYOUT v = bit (privateFlags v) 0"
  "has_flag PFLAG_MEASURED_DIMENSION_SET v = bit (privateFlags v) 1"
  "has_flag PFLAG_LAYOUT_REQUIRED v = bit (privateFlags v) 2"
  by (simp_all only: has_flag_def pflag_defs and_flag)

lemma bit_flag:
  "bit PFLAG_FORCE_LAYOUT n = (n = 0)" "bit PFLAG_MEASURED_DIMENSION_SET n = (n = 1)"
  "bit PFLAG_LAYOUT_REQUIRED n = (n = 2)"
  unfolding pflag_defs bit_push_bit_iff bit_1_iff by auto

lemma flags [simp]:
  "has_flag f (set_flag f v)"
  "has_flag PFLAG_MEASURED_DIMENSION_SET (set_flag PFLAG_LAYOUT_REQUIRED v) = has_flag PFLAG_MEASURED_DIMENSION_SET v"
  "has_flag PFLAG_FORCE_LAYOUT (set_flag PFLAG_MEASURED_DIMENSION_SET v) = has_flag PFLAG_FORCE_LAYOUT v"
  "has_flag PFLAG_FORCE_LAYOUT (set_flag PFLAG_LAYOUT_REQUIRED v) = has_flag PFLAG_FORCE_LAYOUT v"
  "has_flag PFLAG_FORCE_LAYOUT (clear_flag PFLAG_MEASURED_DIMENSION_SET v) = has_flag PFLAG_FORCE_LAYOUT v"
  "has_flag PFLAG_FORCE_LAYOUT (clear_flag PFLAG_LAYOUT_REQUIRED v) = has_flag PFLAG_FORCE_LAYOUT v"
  "\<not> has_flag PFLAG_FORCE_LAYOUT (clear_flag PFLAG_FORCE_LAYOUT v)"
  "\<not> has_flag PFLAG_LAYOUT_REQUIRED (clear_flag PFLAG_LAYOUT_REQUIRED v)"
  "\<not> has_flag PFLAG_MEASURED_DIMENSION_SET (clear_flag PFLAG_MEASURED_DIMENSION_SET v)"
  "has_flag PFLAG_LAYOUT_REQUIRED (clear_flag PFLAG_FORCE_LAYOUT v) = has_flag PFLAG_LAYOUT_REQUIRED v"
  "has_flag PFLAG_MEASURED_DIMENSION_SET (clear_flag PFLAG_FORCE_LAYOUT v) = has_flag PFLAG_MEASURED_DIMENSION_SET v"
  "has_flag PFLAG_MEASURED_DIMENSION_SET (clear_flag PFLAG_LAYOUT_REQUIRED v) = has_flag PFLAG_MEASURED_DIMENSION_SET v"
  by (auto simp: has_flag_def [of f] has_flag_bit set_flag_def clear_flag_def bit_simps bit_flag)

section \<open>The contract of \<open>onMeasure\<close>\<close>

text \<open>Of the fields every view has, \<open>onMeasure\<close> changes the measured dimension and the flags only.\<close>

definition only_measured :: "'a view_scheme \<Rightarrow> 'b view_scheme \<Rightarrow> bool" where
  "only_measured v v' \<longleftrightarrow> view.truncate v' = (view.truncate v)\<lparr>measuredWidth := measuredWidth v',
     measuredHeight := measuredHeight v', privateFlags := privateFlags v'\<rparr>"

lemma only_measuredD:
  assumes "only_measured v v'"
  shows "isCollapsed v' = isCollapsed v" "effectiveMinWidth v' = effectiveMinWidth v"
    "effectiveMinHeight v' = effectiveMinHeight v" "horizontal_margins v' = horizontal_margins v"
    "vertical_margins v' = vertical_margins v" "currentWidthMeasureSpec v' = currentWidthMeasureSpec v"
    "currentHeightMeasureSpec v' = currentHeightMeasureSpec v" "old_bounds v' = old_bounds v"
  using assms by (simp_all add: only_measured_def view.truncate_def horizontal_margins_def vertical_margins_def)

lemma only_measured_refl [simp]: "only_measured v v"
  by (simp add: only_measured_def view.truncate_def)

lemma only_measured_setDimension [simp]: "only_measured v (setMeasuredDimension w h v)"
  by (simp add: only_measured_def view.truncate_def setMeasuredDimension_def set_flag_def)

lemma only_measured_flags [simp]:
  "only_measured v (set_flag f v') = only_measured v v'" "only_measured v (clear_flag f v') = only_measured v v'"
  "only_measured (set_flag f v) v' = only_measured v v'" "only_measured (clear_flag f v) v' = only_measured v v'"
  by (simp_all add: only_measured_def view.truncate_def set_flag_def clear_flag_def)

lemma flag_fields [simp]:
  "measured_width (set_flag f v) = measured_width v" "measured_height (set_flag f v) = measured_height v"
  "measured_width (clear_flag f v) = measured_width v" "measured_height (clear_flag f v) = measured_height v"
  "currentWidthMeasureSpec (set_flag f v) = currentWidthMeasureSpec v"
  "currentHeightMeasureSpec (set_flag f v) = currentHeightMeasureSpec v"
  "currentWidthMeasureSpec (clear_flag f v) = currentWidthMeasureSpec v"
  "currentHeightMeasureSpec (clear_flag f v) = currentHeightMeasureSpec v"
  "effectiveMinWidth (clear_flag f v) = effectiveMinWidth v" "effectiveMinHeight (clear_flag f v) = effectiveMinHeight v"
  "isCollapsed (clear_flag f v) = isCollapsed v" "old_bounds (clear_flag f v) = old_bounds v"
  "isCollapsed (set_flag f v) = isCollapsed v" "old_bounds (set_flag f v) = old_bounds v"
  by (simp_all add: set_flag_def clear_flag_def measured_width_def measured_height_def)

lemma setMeasuredDimension_simps [simp]:
  "measured_width (setMeasuredDimension w h v) = measured_size w"
  "measured_height (setMeasuredDimension w h v) = measured_size h"
  "has_flag PFLAG_MEASURED_DIMENSION_SET (setMeasuredDimension w h v)"
  by (simp_all add: setMeasuredDimension_def measured_width_def measured_height_def) (simp_all add: set_flag_def)

definition fits_specs :: "32 word \<Rightarrow> 32 word \<Rightarrow> 'a view_scheme \<Rightarrow> bool" where
  "fits_specs ws hs v \<longleftrightarrow> (measurable_spec ws \<longrightarrow> fits ws (measured_width v)) \<and>
     (measurable_spec hs \<longrightarrow> fits hs (measured_height v))"

lemma fits_specs_flags [simp]:
  "fits_specs ws hs (set_flag f v) = fits_specs ws hs v" "fits_specs ws hs (clear_flag f v) = fits_specs ws hs v"
  by (simp_all add: fits_specs_def)

text \<open>What the protocol promises of the sizes it keeps: they fit the specs they were measured for.\<close>

definition measured_ok :: "'a view_scheme \<Rightarrow> bool" where
  "measured_ok v \<longleftrightarrow> (\<forall>ws hs. currentWidthMeasureSpec v = Some ws \<longrightarrow> currentHeightMeasureSpec v = Some hs \<longrightarrow>
     fits_specs ws hs v)"

definition min_ok :: "'a view_scheme \<Rightarrow> bool" where
  "min_ok v \<longleftrightarrow> 0 \<le> effectiveMinWidth v \<and> 0 \<le> effectiveMinHeight v"

lemma min_ok_cong: "only_measured v v' \<Longrightarrow> min_ok v' = min_ok v"
  by (simp add: min_ok_def only_measuredD)

text \<open>Every implementation of \<open>onMeasure\<close> ends by resolving a size that is at least the minimum.\<close>

lemma fits_resolved:
  assumes "0 \<le> w" "0 \<le> h"
  shows "fits_specs ws hs (setMeasuredDimension
     (resolveSizeAndState w (getMeasureSpecSize ws) (getMeasureSpecMode ws) 0)
     (resolveSizeAndState h (getMeasureSpecSize hs) (getMeasureSpecMode hs) 0) v)"
  using assms by (simp add: fits_specs_def resolved_fits)

lemma same_specs:
  assumes "currentWidthMeasureSpec v = Some ws" "currentHeightMeasureSpec v = Some hs"
  shows "snd (setCurrentMeasureSpecs ws hs v) = v"
  using assms by (cases v) (simp add: setCurrentMeasureSpecs_def)

text \<open>The interface a class of views implements.\<close>

locale measurable_view =
  fixes om :: "'a view_scheme on_measure"
  assumes returns: "\<exists>v'. om ws hs v = Inr v'"
    and sets: "om ws hs v = Inr v' \<Longrightarrow> has_flag PFLAG_MEASURED_DIMENSION_SET v'"
    and frame: "om ws hs v = Inr v' \<Longrightarrow> only_measured v v'"
    and fitting: "om ws hs v = Inr v' \<Longrightarrow> min_ok v \<Longrightarrow> fits_specs ws hs v'"
begin

lemma measure_cases:
  obtains (measured) v' where "measure om ws hs v = Inr v'" "only_measured (snd (setCurrentMeasureSpecs ws hs v)) v'"
      "min_ok v \<Longrightarrow> fits_specs ws hs v'"
    | (cached) "\<not> has_flag PFLAG_FORCE_LAYOUT v" "currentWidthMeasureSpec v = Some ws"
      "currentHeightMeasureSpec v = Some hs" "measure om ws hs v = Inr v"
proof -
  let ?v1 = "v\<lparr>currentWidthMeasureSpec := Some ws, currentHeightMeasureSpec := Some hs\<rparr>"
  let ?v2 = "clear_flag PFLAG_MEASURED_DIMENSION_SET ?v1"
  let ?changed = "currentWidthMeasureSpec v \<noteq> Some ws \<or> currentHeightMeasureSpec v \<noteq> Some hs"
  obtain v' where v': "om ws hs ?v2 = Inr v'" using returns by blast
  have flag: "has_flag PFLAG_FORCE_LAYOUT ?v1 = has_flag PFLAG_FORCE_LAYOUT v" by (simp add: has_flag_def)
  show thesis
  proof (cases "has_flag PFLAG_FORCE_LAYOUT v \<or> ?changed")
    case True
    then have "measure om ws hs v = Inr (set_flag PFLAG_LAYOUT_REQUIRED v')"
      using sets [OF v'] by (simp add: measure_def setCurrentMeasureSpecs_def flag v' Let_def)
    moreover have "only_measured ?v1 v'" using frame [OF v'] by simp
    moreover have "fits_specs ws hs v'" if "min_ok v"
      by (rule fitting [OF v']) (use that in \<open>simp add: min_ok_def\<close>)
    ultimately show thesis
      by (intro measured [of "set_flag PFLAG_LAYOUT_REQUIRED v'"]) (simp_all add: setCurrentMeasureSpecs_def)
  next
    case False
    then have "?v1 = v" using same_specs [of v ws hs] by (simp add: setCurrentMeasureSpecs_def)
    with False show thesis by (intro cached) (auto simp: measure_def setCurrentMeasureSpecs_def flag)
  qed
qed

lemma measure_returns: "\<exists>v'. measure om ws hs v = Inr v'"
  by (rule measure_cases [of ws hs v]) blast+

lemma measure_frame:
  assumes "measure om ws hs v = Inr v'"
  shows "only_measured (snd (setCurrentMeasureSpecs ws hs v)) v'"
proof (rule measure_cases [of ws hs v])
  assume "currentWidthMeasureSpec v = Some ws" "currentHeightMeasureSpec v = Some hs" "measure om ws hs v = Inr v"
  with assms same_specs [of v ws hs] show ?thesis by simp
qed (use assms in simp)

lemma measure_ok:
  assumes "measure om ws hs v = Inr v'" "measured_ok v" "min_ok v"
  shows "fits_specs ws hs v'" "measured_ok v'"
proof -
  show f: "fits_specs ws hs v'"
    by (rule measure_cases [of ws hs v]) (use assms in \<open>auto simp: measured_ok_def\<close>)
  have "currentWidthMeasureSpec v' = Some ws" "currentHeightMeasureSpec v' = Some hs"
    using only_measuredD(6,7) [OF measure_frame [OF assms(1)]] by (simp_all add: setCurrentMeasureSpecs_def)
  with f show "measured_ok v'" by (simp add: measured_ok_def)
qed

end

interpretation leaf: measurable_view "view_onMeasure native"
  by unfold_locales
    (auto simp: view_onMeasure_def Let_def min_ok_def split: option.splits prod.splits intro!: fits_resolved)

end
