(* ===== verification/Layout_Panels.thy ===== *)
theory Layout_Panels
  imports Layout_View
begin

text \<open>
  The layouts that place their children one after the other: \<open>StackLayout\<close>, \<open>DockLayout\<close>,
  \<open>AbsoluteLayout\<close> and \<open>WrapLayout\<close> (\<^verbatim>\<open>ui/layouts\<close> of \<^verbatim>\<open>vendor.js\<close>), with the iteration over the visible
  children of \<open>LayoutBase\<close>. A layout is a view with children, which are views of any one class: the
  class is the argument \<open>om\<close> (its \<open>onMeasure\<close>) or \<open>lay\<close> (its \<open>layout\<close>).

  \<open>Number.MAX_VALUE\<close>, the remaining length under an unspecified mode, absorbs what is subtracted from it
  and becomes size 0 in a spec: a remaining length is \<open>None\<close> in that case.
\<close>

section \<open>Children\<close>

record 'c layout_view = view +
  subViews :: "'c list"

text \<open>\<open>eachLayoutChild\<close>: the visible children, with a flag for the last one. The callback is delayed by
  one child, and a collapsed last child suppresses it: then no child is flagged as last.\<close>

fun each_layout_child :: "('a view_scheme \<Rightarrow> bool \<Rightarrow> 's \<Rightarrow> string + 'a view_scheme \<times> 's) \<Rightarrow>
    'a view_scheme list \<Rightarrow> 's \<Rightarrow> string + 'a view_scheme list \<times> 's" where
  "each_layout_child f [] s = Inr ([], s)"
| "each_layout_child f (c # cs) s =
     (if isCollapsed c then and_then (each_layout_child f cs s) (\<lambda>(cs', s'). Inr (c # cs', s'))
      else and_then (f c (cs = []) s)
             (\<lambda>(c', s1). and_then (each_layout_child f cs s1) (\<lambda>(cs', s2). Inr (c' # cs', s2))))"

fun place_children :: "('a view_scheme \<Rightarrow> bool \<Rightarrow> 's \<Rightarrow> 'a view_scheme \<times> 's) \<Rightarrow>
    'a view_scheme list \<Rightarrow> 's \<Rightarrow> 'a view_scheme list" where
  "place_children f [] s = []"
| "place_children f (c # cs) s =
     (if isCollapsed c then c # place_children f cs s
      else (let (c', s') = f c (cs = []) s in c' # place_children f cs s'))"

definition horizontal_space :: "'a view_scheme \<Rightarrow> rat" where
  "horizontal_space v = ins_left (padding v) + ins_right (padding v) + ins_left (border v) + ins_right (border v)"

definition vertical_space :: "'a view_scheme \<Rightarrow> rat" where
  "vertical_space v = ins_top (padding v) + ins_bottom (padding v) + ins_top (border v) + ins_bottom (border v)"

text \<open>The insets of the content: border, padding and safe area.\<close>

definition content_insets :: "insets \<Rightarrow> 'a view_scheme \<Rightarrow> insets" where
  "content_insets safe v =
     \<lparr>ins_left = ins_left (border v) + ins_left (padding v) + ins_left safe,
      ins_top = ins_top (border v) + ins_top (padding v) + ins_top safe,
      ins_right = ins_right (border v) + ins_right (padding v) + ins_right safe,
      ins_bottom = ins_bottom (border v) + ins_bottom (padding v) + ins_bottom safe\<rparr>"

text \<open>The end of every \<open>onMeasure\<close>.\<close>

definition resolve_dimension :: "32 word \<Rightarrow> 32 word \<Rightarrow> rat \<Rightarrow> rat \<Rightarrow> 'a view_scheme \<Rightarrow> 'a view_scheme" where
  "resolve_dimension ws hs w h v =
     setMeasuredDimension
       (resolveSizeAndState (max w (effectiveMinWidth v)) (getMeasureSpecSize ws) (getMeasureSpecMode ws) 0)
       (resolveSizeAndState (max h (effectiveMinHeight v)) (getMeasureSpecSize hs) (getMeasureSpecMode hs) 0) v"

section \<open>AbsoluteLayout\<close>

definition absolute_child :: "'a view_scheme on_measure \<Rightarrow> rat \<Rightarrow> 'p view_scheme \<Rightarrow> 'a view_scheme \<Rightarrow> bool \<Rightarrow>
    rat \<times> rat \<Rightarrow> string + 'a view_scheme \<times> rat \<times> rat" where
  "absolute_child om density this child is_last mwh =
     (let spec = makeMeasureSpec 0 UNSPECIFIED in
      and_then (measureChild om density this child spec spec)
        (\<lambda>(c, w, h). Inr (c, max (fst mwh) (effectiveLeft c + w), max (snd mwh) (effectiveTop c + h))))"

definition absolute_onMeasure :: "'a view_scheme on_measure \<Rightarrow> rat \<Rightarrow> ('a view_scheme, 'b) layout_view_scheme on_measure" where
  "absolute_onMeasure om density ws hs this =
     and_then (each_layout_child (absolute_child om density this) (subViews this) (0, 0))
       (\<lambda>(cs, w, h). Inr (resolve_dimension ws hs (w + horizontal_space this) (h + vertical_space this)
          (this\<lparr>subViews := cs\<rparr>)))"

definition absolute_place :: "'a view_scheme on_layout \<Rightarrow> insets \<Rightarrow> 'a view_scheme \<Rightarrow> bool \<Rightarrow> unit \<Rightarrow> 'a view_scheme \<times> unit" where
  "absolute_place lay ins child is_last u =
     (let childLeft = ins_left ins + effectiveLeft child; childTop = ins_top ins + effectiveTop child in
      (layoutChild lay child childLeft childTop (childLeft + measured_width child + horizontal_margins child)
         (childTop + measured_height child + vertical_margins child), ()))"

definition absolute_onLayout :: "'a view_scheme on_layout \<Rightarrow> insets \<Rightarrow> ('a view_scheme, 'b) layout_view_scheme on_layout" where
  "absolute_onLayout lay safe l t r b this =
     this\<lparr>subViews := place_children (absolute_place lay (content_insets safe this)) (subViews this) ()\<rparr>"

section \<open>StackLayout\<close>

record 'c stack_layout = "'c layout_view" +
  is_vertical :: bool
  totalLength :: rat

type_synonym stack_state = "rat \<times> rat \<times> rat"

definition stack_child :: "'a view_scheme on_measure \<Rightarrow> rat \<Rightarrow> 'p view_scheme \<Rightarrow> bool \<Rightarrow> 32 word \<Rightarrow> 32 word \<Rightarrow>
    'a view_scheme \<Rightarrow> bool \<Rightarrow> stack_state \<Rightarrow> string + 'a view_scheme \<times> stack_state" where
  "stack_child om density this vert mode childMeasureSpec child is_last st =
     (case st of (mw, mh, remaining) \<Rightarrow>
      if vert then
        and_then (measureChild om density this child childMeasureSpec (makeMeasureSpec remaining mode))
          (\<lambda>(c, w, h). Inr (c, max mw w, mh + h, max 0 (remaining - h)))
      else
        and_then (measureChild om density this child (makeMeasureSpec remaining mode) childMeasureSpec)
          (\<lambda>(c, w, h). Inr (c, mw + w, max mh h, max 0 (remaining - w))))"

definition stack_onMeasure :: "'a view_scheme on_measure \<Rightarrow> rat \<Rightarrow> ('a view_scheme, 'b) stack_layout_scheme on_measure" where
  "stack_onMeasure om density ws hs this =
     (let width = getMeasureSpecSize ws; widthMode = getMeasureSpecMode ws;
          height = getMeasureSpecSize hs; heightMode = getMeasureSpecMode hs;
          vert = is_vertical this; hp = horizontal_space this; vp = vertical_space this;
          mode = (if vert then heightMode else widthMode);
          measureSpec = (if mode = UNSPECIFIED then UNSPECIFIED else AT_MOST);
          remaining = (if mode = UNSPECIFIED then 0 else if vert then height - vp else width - hp);
          childMeasureSpec =
            (if vert then makeMeasureSpec (max 0 (if widthMode = UNSPECIFIED then 0 else width - hp)) widthMode
             else makeMeasureSpec (max 0 (if heightMode = UNSPECIFIED then 0 else height - vp)) heightMode)
      in and_then (each_layout_child (stack_child om density this vert measureSpec childMeasureSpec)
                     (subViews this) (0, 0, remaining))
           (\<lambda>(cs, mw, mh, _).
              let w = max (mw + hp) (effectiveMinWidth this); h = max (mh + vp) (effectiveMinHeight this)
              in Inr (resolve_dimension ws hs w h
                   (this\<lparr>subViews := cs, totalLength := (if vert then h else w)\<rparr>))))"

definition stack_place_vertical :: "'a view_scheme on_layout \<Rightarrow> rat \<Rightarrow> rat \<Rightarrow> 'a view_scheme \<Rightarrow> bool \<Rightarrow> rat \<Rightarrow>
    'a view_scheme \<times> rat" where
  "stack_place_vertical lay childLeft childRight child is_last childTop =
     (let childHeight = measured_height child + vertical_margins child
      in (layoutChild lay child childLeft childTop childRight (childTop + childHeight), childTop + childHeight))"

definition stack_place_horizontal :: "'a view_scheme on_layout \<Rightarrow> rat \<Rightarrow> rat \<Rightarrow> 'a view_scheme \<Rightarrow> bool \<Rightarrow> rat \<Rightarrow>
    'a view_scheme \<times> rat" where
  "stack_place_horizontal lay childTop childBottom child is_last childLeft =
     (let childWidth = measured_width child + horizontal_margins child
      in (layoutChild lay child childLeft childTop (childLeft + childWidth) childBottom, childLeft + childWidth))"

definition start_top :: "insets \<Rightarrow> rat \<Rightarrow> rat \<Rightarrow> ('a view_scheme, 'b) stack_layout_scheme \<Rightarrow> rat" where
  "start_top ins t b this = (case verticalAlignment this of
     VMiddle \<Rightarrow> (b - t - totalLength this) / 2 + ins_top ins - ins_bottom ins
   | VBottom \<Rightarrow> b - t - totalLength this + ins_top ins - ins_bottom ins
   | _ \<Rightarrow> ins_top ins)"

definition start_left :: "insets \<Rightarrow> rat \<Rightarrow> rat \<Rightarrow> ('a view_scheme, 'b) stack_layout_scheme \<Rightarrow> rat" where
  "start_left ins l r this = (case horizontalAlignment this of
     HCenter \<Rightarrow> (r - l - totalLength this) / 2 + ins_left ins - ins_right ins
   | HRight \<Rightarrow> r - l - totalLength this + ins_left ins - ins_right ins
   | _ \<Rightarrow> ins_left ins)"

definition layoutVertical :: "'a view_scheme on_layout \<Rightarrow> insets \<Rightarrow> ('a view_scheme, 'b) stack_layout_scheme on_layout" where
  "layoutVertical lay safe l t r b this =
     (let ins = content_insets safe this
      in this\<lparr>subViews := place_children (stack_place_vertical lay (ins_left ins) (r - l - ins_right ins))
                (subViews this) (start_top ins t b this)\<rparr>)"

definition layoutHorizontal :: "'a view_scheme on_layout \<Rightarrow> insets \<Rightarrow> ('a view_scheme, 'b) stack_layout_scheme on_layout" where
  "layoutHorizontal lay safe l t r b this =
     (let ins = content_insets safe this
      in this\<lparr>subViews := place_children (stack_place_horizontal lay (ins_top ins) (b - t - ins_bottom ins))
                (subViews this) (start_left ins l r this)\<rparr>)"

definition stack_onLayout :: "'a view_scheme on_layout \<Rightarrow> insets \<Rightarrow> ('a view_scheme, 'b) stack_layout_scheme on_layout" where
  "stack_onLayout lay safe l t r b this =
     (if is_vertical this then layoutVertical lay safe l t r b this else layoutHorizontal lay safe l t r b this)"

section \<open>DockLayout\<close>

record 'c dock_layout = "'c layout_view" +
  stretchLastChild :: bool

text \<open>A remaining length: \<open>None\<close> is \<open>Number.MAX_VALUE\<close>.\<close>

definition minus_length :: "rat option \<Rightarrow> rat \<Rightarrow> rat option" where
  "minus_length rem x = map_option (\<lambda>y. y - x) rem"

definition shrink :: "rat option \<Rightarrow> rat \<Rightarrow> rat option" where
  "shrink rem x = map_option (\<lambda>y. max 0 (y - x)) rem"

definition length_spec :: "rat option \<Rightarrow> 32 word \<Rightarrow> 32 word" where
  "length_spec rem mode = makeMeasureSpec (case rem of None \<Rightarrow> 0 | Some x \<Rightarrow> x) mode"

record dock_state =
  remW :: "rat option"
  remH :: "rat option"
  tempW :: rat
  tempH :: rat
  measW :: rat
  measH :: rat

definition dock_child :: "'a view_scheme on_measure \<Rightarrow> rat \<Rightarrow> 'p view_scheme \<Rightarrow> bool \<Rightarrow> 32 word \<Rightarrow> 32 word \<Rightarrow>
    'a view_scheme \<Rightarrow> bool \<Rightarrow> dock_state \<Rightarrow> string + 'a view_scheme \<times> dock_state" where
  "dock_child om density this stretchLast widthMode heightMode child is_last st =
     (let cws = length_spec (remW st) (if stretchLast \<and> is_last then widthMode
                  else if widthMode = EXACTLY then AT_MOST else widthMode);
          chs = length_spec (remH st) (if stretchLast \<and> is_last then heightMode
                  else if heightMode = EXACTLY then AT_MOST else heightMode)
      in and_then (measureChild om density this child cws chs)
           (\<lambda>(c, w, h). Inr (c,
              case dock_of child of
                DockTop \<Rightarrow> st\<lparr>remH := shrink (remH st) h, tempH := tempH st + h,
                  measW := max (measW st) (tempW st + w), measH := max (measH st) (tempH st + h)\<rparr>
              | DockBottom \<Rightarrow> st\<lparr>remH := shrink (remH st) h, tempH := tempH st + h,
                  measW := max (measW st) (tempW st + w), measH := max (measH st) (tempH st + h)\<rparr>
              | _ \<Rightarrow> st\<lparr>remW := shrink (remW st) w, tempW := tempW st + w,
                  measW := max (measW st) (tempW st + w), measH := max (measH st) (tempH st + h)\<rparr>)))"

definition dock_onMeasure :: "'a view_scheme on_measure \<Rightarrow> rat \<Rightarrow> ('a view_scheme, 'b) dock_layout_scheme on_measure" where
  "dock_onMeasure om density ws hs this =
     (let width = getMeasureSpecSize ws; widthMode = getMeasureSpecMode ws;
          height = getMeasureSpecSize hs; heightMode = getMeasureSpecMode hs;
          hp = horizontal_space this; vp = vertical_space this;
          st = \<lparr>remW = (if widthMode = UNSPECIFIED then None else Some (width - hp)),
                remH = (if heightMode = UNSPECIFIED then None else Some (height - vp)),
                tempW = 0, tempH = 0, measW = 0, measH = 0\<rparr>
      in and_then (each_layout_child (dock_child om density this (stretchLastChild this) widthMode heightMode)
                     (subViews this) st)
           (\<lambda>(cs, st'). Inr (resolve_dimension ws hs (measW st' + hp) (measH st' + vp) (this\<lparr>subViews := cs\<rparr>))))"

text \<open>The rectangle that is left, \<open>(x, y, width, height)\<close>, and the slot a docked child takes of it.\<close>

type_synonym rect = "rat \<times> rat \<times> rat \<times> rat"

fun dock_slot :: "dock \<Rightarrow> rat \<Rightarrow> rat \<Rightarrow> rect \<Rightarrow> rect \<times> rect" where
  "dock_slot DockTop w h (x, y, rw, rh) = ((x, y, rw, h), (x, y + h, rw, max 0 (rh - h)))"
| "dock_slot DockBottom w h (x, y, rw, rh) = ((x, y + rh - h, rw, h), (x, y, rw, max 0 (rh - h)))"
| "dock_slot DockRight w h (x, y, rw, rh) = ((x + rw - w, y, w, rh), (x, y, max 0 (rw - w), rh))"
| "dock_slot DockLeft w h (x, y, rw, rh) = ((x, y, w, rh), (x + w, y, max 0 (rw - w), rh))"

definition dock_place :: "'a view_scheme on_layout \<Rightarrow> bool \<Rightarrow> 'a view_scheme \<Rightarrow> bool \<Rightarrow> rect \<Rightarrow> 'a view_scheme \<times> rect" where
  "dock_place lay stretchLast child is_last st =
     (if is_last \<and> stretchLast then
        (case st of (x, y, rw, rh) \<Rightarrow> (layoutChild lay child x y (x + rw) (y + rh), st))
      else
        (case dock_slot (dock_of child) (measured_width child + horizontal_margins child)
                (measured_height child + vertical_margins child) st of
           ((sx, sy, sw, sh), st') \<Rightarrow> (layoutChild lay child sx sy (sx + sw) (sy + sh), st')))"

definition dock_onLayout :: "'a view_scheme on_layout \<Rightarrow> insets \<Rightarrow> ('a view_scheme, 'b) dock_layout_scheme on_layout" where
  "dock_onLayout lay safe l t r b this =
     (let ins = content_insets safe this;
          rest = (ins_left ins, ins_top ins, max 0 (r - l - (ins_left ins + ins_right ins)),
                  max 0 (b - t - (ins_top ins + ins_bottom ins)))
      in this\<lparr>subViews := place_children (dock_place lay (stretchLastChild this)) (subViews this) rest\<rparr>)"

section \<open>WrapLayout\<close>

record 'c wrap_layout = "'c layout_view" +
  wrap_vertical :: bool
  itemWidth :: rat
  itemHeight :: rat
  lengths :: "rat list"

definition getChildMeasureSpec :: "32 word \<Rightarrow> rat option \<Rightarrow> rat \<Rightarrow> 32 word" where
  "getChildMeasureSpec parentMode parentLength itemLength =
     (if itemLength > 0 then makeMeasureSpec itemLength EXACTLY
      else if parentMode = UNSPECIFIED then makeMeasureSpec 0 UNSPECIFIED
      else length_spec parentLength AT_MOST)"

text \<open>\<open>array[i] = x\<close>, for an index up to the length.\<close>

definition put :: "nat \<Rightarrow> 'a \<Rightarrow> 'a list \<Rightarrow> 'a list" where
  "put i x xs = (if i < length xs then xs[i := x] else xs @ [x])"

text \<open>The state of the loop along the main axis (width of a horizontal layout, height of a vertical
  one): index of the row or column, its length so far, the longest one, what remains, and the lengths
  across.\<close>

record wrap_state =
  rowOrColumn :: nat
  lineLength :: rat
  maxLength :: rat
  remLength :: "rat option"
  crossLengths :: "rat list"

definition exceeds :: "rat \<Rightarrow> rat option \<Rightarrow> bool" where
  "exceeds x rem = (case rem of None \<Rightarrow> False | Some y \<Rightarrow> x > y)"

definition wrap_step :: "rat option \<Rightarrow> rat \<Rightarrow> rat \<Rightarrow> wrap_state \<Rightarrow> wrap_state" where
  "wrap_step available along across st =
     (let isFirst = length (crossLengths st) \<le> rowOrColumn st;
          st1 = (if exceeds along (remLength st) then
                   (let k = rowOrColumn st + 1 in
                    st\<lparr>rowOrColumn := k, maxLength := max (maxLength st) (lineLength st), lineLength := along,
                       remLength := minus_length available along,
                       crossLengths := put (if isFirst then k - 1 else k) across (crossLengths st)\<rparr>)
                 else st\<lparr>remLength := minus_length (remLength st) along, lineLength := lineLength st + along\<rparr>);
          i = rowOrColumn st1
      in st1\<lparr>crossLengths := put i (if isFirst then across else max (crossLengths st1 ! i) across) (crossLengths st1)\<rparr>)"

definition wrap_child :: "'a view_scheme on_measure \<Rightarrow> rat \<Rightarrow> ('a view_scheme, 'b) wrap_layout_scheme \<Rightarrow> 32 word \<Rightarrow>
    32 word \<Rightarrow> rat option \<Rightarrow> 'a view_scheme \<Rightarrow> bool \<Rightarrow> wrap_state \<Rightarrow> string + 'a view_scheme \<times> wrap_state" where
  "wrap_child om density this cws chs available child is_last st =
     and_then (measureChild om density this child cws chs)
       (\<lambda>(c, w, h).
          let cw = (if itemWidth this > 0 then itemWidth this else w);
              ch = (if itemHeight this > 0 then itemHeight this else h)
          in Inr (c, if wrap_vertical this then wrap_step available ch cw st else wrap_step available cw ch st))"

definition wrap_onMeasure :: "'a view_scheme on_measure \<Rightarrow> rat \<Rightarrow> ('a view_scheme, 'b) wrap_layout_scheme on_measure" where
  "wrap_onMeasure om density ws hs this =
     (let width = getMeasureSpecSize ws; widthMode = getMeasureSpecMode ws;
          height = getMeasureSpecSize hs; heightMode = getMeasureSpecMode hs;
          hp = horizontal_space this; vp = vertical_space this;
          availableWidth = (if widthMode = UNSPECIFIED then None else Some (width - hp));
          availableHeight = (if heightMode = UNSPECIFIED then None else Some (height - vp));
          cws = getChildMeasureSpec widthMode availableWidth (itemWidth this);
          chs = getChildMeasureSpec heightMode availableHeight (itemHeight this);
          available = (if wrap_vertical this then availableHeight else availableWidth)
      in and_then (each_layout_child (wrap_child om density this cws chs available) (subViews this)
                     \<lparr>rowOrColumn = 0, lineLength = 0, maxLength = 0, remLength = available, crossLengths = []\<rparr>)
           (\<lambda>(cs, st).
              let along = max (maxLength st) (lineLength st); across = sum_list (crossLengths st);
                  (w, h) = (if wrap_vertical this then (across, along) else (along, across))
              in Inr (resolve_dimension ws hs (w + hp) (h + vp)
                   (this\<lparr>subViews := cs, lengths := crossLengths st\<rparr>))))"

text \<open>Placing: a cursor along and across the lines. A line beyond the measured ones has no length; its
  child then gets bounds that are not numbers, which the model leaves out (\<open>None\<close>).\<close>

definition length_at :: "rat list \<Rightarrow> nat \<Rightarrow> rat option" where
  "length_at xs i = (if i < length xs then Some (xs ! i) else None)"

record wrap_cursor =
  curLine :: nat
  curAlong :: rat
  curAcross :: rat

text \<open>One child along the line from \<open>start\<close>: the new cursor, the place of the child and its extent
  across; \<open>alongEnd\<close> and \<open>acrossEnd\<close> are the ends of the content.\<close>

definition wrap_advance :: "rat list \<Rightarrow> rat \<Rightarrow> rat \<Rightarrow> rat \<Rightarrow> rat \<Rightarrow> wrap_cursor \<Rightarrow> wrap_cursor \<times> rat option" where
  "wrap_advance lens start alongEnd acrossEnd along cur =
     (case length_at lens (curLine cur) of
        None \<Rightarrow> (cur, None)
      | Some len \<Rightarrow>
          let isFirst = (curAlong cur = start) in
          if curAlong cur + along > alongEnd \<and> curAcross cur + len \<le> acrossEnd then
            (let k = curLine cur + 1 in
             (cur\<lparr>curLine := k, curAlong := start,
                       curAcross := (if isFirst then curAcross cur else curAcross cur + len)\<rparr>,
                   length_at lens (if isFirst then k - 1 else k)))
          else (cur, Some len))"

definition wrap_place :: "'a view_scheme on_layout \<Rightarrow> ('a view_scheme, 'b) wrap_layout_scheme \<Rightarrow> insets \<Rightarrow> rat \<Rightarrow> rat \<Rightarrow>
    'a view_scheme \<Rightarrow> wrap_cursor \<Rightarrow> ('a view_scheme \<times> wrap_cursor) option" where
  "wrap_place lay this ins childrenWidth childrenHeight child cur =
     (let h = measured_height child + vertical_margins child; w = measured_width child + horizontal_margins child;
          along = (if wrap_vertical this then (if itemHeight this > 0 then itemHeight this else h)
                   else (if itemWidth this > 0 then itemWidth this else w));
          start = (if wrap_vertical this then ins_top ins else ins_left ins);
          alongEnd = (if wrap_vertical this then childrenHeight else childrenWidth);
          acrossEnd = (if wrap_vertical this then childrenWidth else childrenHeight)
      in case wrap_advance (lengths this) start alongEnd acrossEnd along cur of
           (cur1, across) \<Rightarrow>
             let (x, y) = (if wrap_vertical this then (curAcross cur1, curAlong cur1)
                           else (curAlong cur1, curAcross cur1));
                 cur2 = cur1\<lparr>curAlong := curAlong cur1 + along\<rparr>
             in if x < childrenWidth \<and> y < childrenHeight then
                  (case across of
                     None \<Rightarrow> None
                   | Some a \<Rightarrow>
                       if wrap_vertical this then Some (layoutChild lay child x y (x + a) (y + along), cur2)
                       else Some (layoutChild lay child x y (x + along) (y + a), cur2))
                else Some (child, cur2))"

fun wrap_children :: "('a view_scheme \<Rightarrow> wrap_cursor \<Rightarrow> ('a view_scheme \<times> wrap_cursor) option) \<Rightarrow> 'a view_scheme list \<Rightarrow>
    wrap_cursor \<Rightarrow> 'a view_scheme list option" where
  "wrap_children f [] cur = Some []"
| "wrap_children f (c # cs) cur =
     (if isCollapsed c then map_option ((#) c) (wrap_children f cs cur)
      else case f c cur of None \<Rightarrow> None
        | Some (c', cur') \<Rightarrow> map_option ((#) c') (wrap_children f cs cur'))"

definition wrap_onLayout :: "'a view_scheme on_layout \<Rightarrow> insets \<Rightarrow> rat \<Rightarrow> rat \<Rightarrow> rat \<Rightarrow> rat \<Rightarrow>
    ('a view_scheme, 'b) wrap_layout_scheme \<Rightarrow> ('a view_scheme, 'b) wrap_layout_scheme option" where
  "wrap_onLayout lay safe l t r b this =
     (let ins = content_insets safe this
      in map_option (\<lambda>cs. this\<lparr>subViews := cs\<rparr>)
           (wrap_children (wrap_place lay this ins (r - l - ins_right ins) (b - t - ins_bottom ins)) (subViews this)
              \<lparr>curLine = 0, curAlong = (if wrap_vertical this then ins_top ins else ins_left ins),
               curAcross = (if wrap_vertical this then ins_left ins else ins_top ins)\<rparr>))"

end
