(* ===== verification/Layout_Place.thy ===== *)
theory Layout_Place
  imports Layout_Panels
begin

text \<open>
  The properties of the measure and layout protocol and of the simple layouts. The locale
  \<open>child_views\<close> is the client side of \<open>measurable_view\<close>: a layout whose children implement it
  implements it too, so that it holds for any nesting of layouts.
\<close>

section \<open>Iterating over the children\<close>

lemma and_then_returns: "\<exists>r. x = Inr r \<Longrightarrow> (\<And>r. \<exists>y. f r = Inr y) \<Longrightarrow> \<exists>y. and_then x f = Inr y"
  by auto

lemma each_returns:
  assumes "\<And>c l s. \<exists>r. f c l s = Inr r"
  shows "\<exists>r. each_layout_child f cs s = Inr r"
proof (induction cs arbitrary: s)
  case (Cons c cs)
  obtain c' s1 where f: "f c (cs = []) s = Inr (c', s1)" using assms by (metis surj_pair)
  obtain r1 r2 where "each_layout_child f cs s = Inr r1" "each_layout_child f cs s1 = Inr r2"
    using Cons.IH by blast
  with f show ?case by (auto split: prod.splits)
qed simp

text \<open>What every visible child and the state become.\<close>

lemma each_induct:
  assumes "each_layout_child f cs s = Inr (cs', s')" "P s"
    and "\<And>c l s c' s1. c \<in> set cs \<Longrightarrow> \<not> isCollapsed c \<Longrightarrow> P s \<Longrightarrow> f c l s = Inr (c', s1) \<Longrightarrow> P s1 \<and> Q c c'"
  shows "P s' \<and> list_all2 (\<lambda>c c'. if isCollapsed c then c' = c else Q c c') cs cs'"
  using assms
proof (induction cs arbitrary: s cs')
  case (Cons c cs)
  note hyp = Cons.prems(3)
  have hyp': "P s1 \<and> Q d c'" if "d \<in> set cs" "\<not> isCollapsed d" "P t" "f d l t = Inr (c', s1)" for d l t c' s1
    using hyp [of d t l c' s1] that by simp
  show ?case
  proof (cases "isCollapsed c")
    case True
    with Cons.prems(1) obtain cs2 where "each_layout_child f cs s = Inr (cs2, s')" "cs' = c # cs2"
      by (auto simp: and_then_Inr split: prod.splits)
    moreover have "P s' \<and> list_all2 (\<lambda>c c'. if isCollapsed c then c' = c else Q c c') cs cs2"
      by (rule Cons.IH [OF \<open>each_layout_child f cs s = Inr (cs2, s')\<close> Cons.prems(2)]) (rule hyp')
    ultimately show ?thesis using True by simp
  next
    case False
    with Cons.prems(1) obtain c' s1 cs2 where f: "f c (cs = []) s = Inr (c', s1)"
      and r: "each_layout_child f cs s1 = Inr (cs2, s')" "cs' = c' # cs2"
      by (auto simp: and_then_Inr split: prod.splits)
    from hyp [OF _ False Cons.prems(2) f] have "P s1" "Q c c'" by simp_all
    moreover have "P s' \<and> list_all2 (\<lambda>c c'. if isCollapsed c then c' = c else Q c c') cs cs2"
      by (rule Cons.IH [OF r(1) \<open>P s1\<close>]) (rule hyp')
    ultimately show ?thesis using False r(2) by simp
  qed
qed simp

section \<open>Layouts implement the contract of their children\<close>

lemma resolve_dimension_simps [simp]:
  "has_flag PFLAG_MEASURED_DIMENSION_SET (resolve_dimension ws hs w h v)"
  "only_measured v (resolve_dimension ws hs w h v')  = only_measured v v'"
  by (simp_all add: resolve_dimension_def) (simp add: only_measured_def view.truncate_def setMeasuredDimension_def set_flag_def)

lemma resolve_dimension_fits: "min_ok v \<Longrightarrow> fits_specs ws hs (resolve_dimension ws hs w h v)"
  unfolding resolve_dimension_def by (rule fits_resolved) (simp_all add: min_ok_def le_max_iff_disj)

lemma only_measured_subViews [simp]:
  "only_measured v (v\<lparr>subViews := cs\<rparr>)"
  "only_measured u (u\<lparr>subViews := cs, totalLength := x\<rparr>)"
  "only_measured w (w\<lparr>subViews := cs, lengths := ys\<rparr>)"
  by (simp_all add: only_measured_def view.truncate_def)

lemma min_ok_subViews [simp]:
  "min_ok (v\<lparr>subViews := cs\<rparr>) = min_ok v"
  "min_ok (u\<lparr>subViews := cs, totalLength := x\<rparr>) = min_ok u"
  "min_ok (w\<lparr>subViews := cs, lengths := ys\<rparr>) = min_ok w"
  by (simp_all add: min_ok_def)

locale child_views = measurable_view om
  for om :: "'a view_scheme on_measure" +
  fixes density :: rat
begin

lemma measureChild_returns: "\<exists>r. measureChild om density this c ws hs = Inr r"
proof (cases "isCollapsed c")
  case False
  show ?thesis
    unfolding measureChild_def Let_def if_not_P [OF False]
    by (rule and_then_returns [OF measure_returns]) blast
qed (simp add: measureChild_def)

lemma stack_child_returns: "\<exists>r. stack_child om density this vert m spec c l st = Inr r"
  by (cases st; cases vert; simp only: stack_child_def prod.case if_True if_False)
    (rule and_then_returns [OF measureChild_returns], simp split: prod.splits)+

lemma absolute_child_returns: "\<exists>r. absolute_child om density this c l st = Inr r"
  unfolding absolute_child_def Let_def
  by (rule and_then_returns [OF measureChild_returns]) (simp split: prod.splits)

lemma dock_child_returns: "\<exists>r. dock_child om density this sl wm hm c l st = Inr r"
  unfolding dock_child_def Let_def
  by (rule and_then_returns [OF measureChild_returns]) (simp split: prod.splits)

lemma wrap_child_returns: "\<exists>r. wrap_child om density this cws chs av c l st = Inr r"
  unfolding wrap_child_def Let_def
  by (rule and_then_returns [OF measureChild_returns]) (simp split: prod.splits)

lemmas child_returns = stack_child_returns absolute_child_returns dock_child_returns wrap_child_returns

text \<open>What \<open>measureChild\<close> gives: the child's outer size, and a child that fits the specs its parent chose.\<close>

lemma measureChild_cases:
  assumes "measureChild om density this c ws hs = Inr (c', w, h)" "\<not> isCollapsed c"
  obtains cw ch c0 where "measure om cw ch c0 = Inr c'"
    "w = of_int (js_round (measured_width c' + horizontal_margins c'))"
    "h = of_int (js_round (measured_height c' + vertical_margins c'))" "isCollapsed c' = isCollapsed c"
proof -
  let ?pw = "spec_or_zero (currentWidthMeasureSpec this)" and ?ph = "spec_or_zero (currentHeightMeasureSpec this)"
  define c0 where "c0 = updateEffectiveLayoutValues density (getMeasureSpecSize ?pw) (getMeasureSpecMode ?pw)
    (getMeasureSpecSize ?ph) (getMeasureSpecMode ?ph) c"
  obtain cw ch where m: "measure om cw ch c0 = Inr c'"
    and wh: "w = of_int (js_round (measured_width c' + horizontal_margins c0))"
      "h = of_int (js_round (measured_height c' + vertical_margins c0))"
    using assms by (auto simp: measureChild_def Let_def and_then_Inr simp flip: c0_def)
  have c0: "isCollapsed c0 = isCollapsed c" by (simp add: c0_def)
  note d = only_measuredD [OF measure_frame [OF m]]
  have "horizontal_margins c' = horizontal_margins c0" "vertical_margins c' = vertical_margins c0"
    "isCollapsed c' = isCollapsed c"
    using d(1,4,5) c0 by (simp_all add: setCurrentMeasureSpecs_def horizontal_margins_def vertical_margins_def)
  with m wh show thesis by (intro that) simp_all
qed

end

lemma resolve_mono: "max (max w (effectiveMinWidth v)) (effectiveMinWidth v) = max w (effectiveMinWidth v)"
  by simp

sublocale child_views \<subseteq> absolute: measurable_view
  "absolute_onMeasure om density :: 'a view_scheme layout_view on_measure"
proof
  fix ws hs :: "32 word" and v v' :: "'a view_scheme layout_view"
  show "\<exists>v'. absolute_onMeasure om density ws hs v = Inr v'"
    unfolding absolute_onMeasure_def
    by (rule and_then_returns [OF each_returns [OF absolute_child_returns]]) (simp split: prod.splits)
  assume "absolute_onMeasure om density ws hs v = Inr v'"
  then show "has_flag PFLAG_MEASURED_DIMENSION_SET v'" "only_measured v v'" "min_ok v \<Longrightarrow> fits_specs ws hs v'"
    by (auto simp: absolute_onMeasure_def and_then_Inr intro: resolve_dimension_fits split: prod.splits)
qed

sublocale child_views \<subseteq> stack: measurable_view
  "stack_onMeasure om density :: 'a view_scheme stack_layout on_measure"
proof
  fix ws hs :: "32 word" and v v' :: "'a view_scheme stack_layout"
  show "\<exists>v'. stack_onMeasure om density ws hs v = Inr v'"
    unfolding stack_onMeasure_def Let_def
    by (rule and_then_returns [OF each_returns [OF stack_child_returns]]) (simp split: prod.splits)
  assume "stack_onMeasure om density ws hs v = Inr v'"
  then show "has_flag PFLAG_MEASURED_DIMENSION_SET v'" "only_measured v v'" "min_ok v \<Longrightarrow> fits_specs ws hs v'"
    by (auto simp: stack_onMeasure_def Let_def and_then_Inr intro: resolve_dimension_fits split: prod.splits)
qed

sublocale child_views \<subseteq> dock: measurable_view
  "dock_onMeasure om density :: 'a view_scheme dock_layout on_measure"
proof
  fix ws hs :: "32 word" and v v' :: "'a view_scheme dock_layout"
  show "\<exists>v'. dock_onMeasure om density ws hs v = Inr v'"
    unfolding dock_onMeasure_def Let_def
    by (rule and_then_returns [OF each_returns [OF dock_child_returns]]) (simp split: prod.splits)
  assume "dock_onMeasure om density ws hs v = Inr v'"
  then show "has_flag PFLAG_MEASURED_DIMENSION_SET v'" "only_measured v v'" "min_ok v \<Longrightarrow> fits_specs ws hs v'"
    by (auto simp: dock_onMeasure_def Let_def and_then_Inr intro: resolve_dimension_fits split: prod.splits)
qed

sublocale child_views \<subseteq> wrap: measurable_view
  "wrap_onMeasure om density :: 'a view_scheme wrap_layout on_measure"
proof
  fix ws hs :: "32 word" and v v' :: "'a view_scheme wrap_layout"
  show "\<exists>v'. wrap_onMeasure om density ws hs v = Inr v'"
    unfolding wrap_onMeasure_def Let_def
    by (rule and_then_returns [OF each_returns [OF wrap_child_returns]]) (simp split: prod.splits)
  assume "wrap_onMeasure om density ws hs v = Inr v'"
  then show "has_flag PFLAG_MEASURED_DIMENSION_SET v'" "only_measured v v'" "min_ok v \<Longrightarrow> fits_specs ws hs v'"
    by (auto simp: wrap_onMeasure_def Let_def and_then_Inr intro: resolve_dimension_fits split: prod.splits if_splits)
qed

text \<open>Leaves as children, and one more level of nesting.\<close>

interpretation leaves: child_views "view_onMeasure native" density for native density
  by unfold_locales

interpretation stacks: child_views
  "stack_onMeasure (view_onMeasure native) density :: 'a view_scheme stack_layout on_measure" density for native density
  by (rule child_views.intro) (rule leaves.stack.measurable_view_axioms)

section \<open>Runs of the protocol\<close>

text \<open>What can happen to a view: it is measured, asked to be laid out again, and laid out.\<close>

datatype view_op = Measure "32 word" "32 word" | RequestLayout | Layout bool rat rat rat rat

fun view_run :: "'a view_scheme on_measure \<Rightarrow> 'a view_scheme on_layout \<Rightarrow> (bounds \<Rightarrow> bounds) \<Rightarrow> view_op list \<Rightarrow>
    'a view_scheme \<Rightarrow> string + 'a view_scheme" where
  "view_run om ol pos [] v = Inr v"
| "view_run om ol pos (Measure ws hs # ops) v = and_then (measure om ws hs v) (view_run om ol pos ops)"
| "view_run om ol pos (RequestLayout # ops) v = view_run om ol pos ops (requestLayout v)"
| "view_run om ol pos (Layout sf l t r b # ops) v = view_run om ol pos ops (layout ol pos sf l t r b v)"

text \<open>\<open>onLayout\<close> of a layout changes its children only.\<close>

definition quiet_layout :: "'a view_scheme on_layout \<Rightarrow> bool" where
  "quiet_layout ol \<longleftrightarrow> (\<forall>l t r b v. view.truncate (ol l t r b v) = view.truncate v)"

lemma quiet_layoutD:
  assumes "quiet_layout ol"
  shows "currentWidthMeasureSpec (ol l t r b v) = currentWidthMeasureSpec v"
    "currentHeightMeasureSpec (ol l t r b v) = currentHeightMeasureSpec v"
    "measured_width (ol l t r b v) = measured_width v" "measured_height (ol l t r b v) = measured_height v"
    "effectiveMinWidth (ol l t r b v) = effectiveMinWidth v" "effectiveMinHeight (ol l t r b v) = effectiveMinHeight v"
    "old_bounds (ol l t r b v) = old_bounds v" "isCollapsed (ol l t r b v) = isCollapsed v"
proof -
  from assms have "view.truncate (ol l t r b v) = view.truncate v" by (simp add: quiet_layout_def)
  then show "currentWidthMeasureSpec (ol l t r b v) = currentWidthMeasureSpec v"
    "currentHeightMeasureSpec (ol l t r b v) = currentHeightMeasureSpec v"
    "measured_width (ol l t r b v) = measured_width v" "measured_height (ol l t r b v) = measured_height v"
    "effectiveMinWidth (ol l t r b v) = effectiveMinWidth v" "effectiveMinHeight (ol l t r b v) = effectiveMinHeight v"
    "old_bounds (ol l t r b v) = old_bounds v" "isCollapsed (ol l t r b v) = isCollapsed v"
    by (simp_all add: view.truncate_def measured_width_def measured_height_def)
qed

lemma stack_onLayout_quiet: "quiet_layout (stack_onLayout lay safe)"
  by (simp add: quiet_layout_def stack_onLayout_def layoutVertical_def layoutHorizontal_def Let_def view.truncate_def)

lemma dock_onLayout_quiet: "quiet_layout (dock_onLayout lay safe)"
  by (simp add: quiet_layout_def dock_onLayout_def Let_def view.truncate_def)

lemma absolute_onLayout_quiet: "quiet_layout (absolute_onLayout lay safe)"
  by (simp add: quiet_layout_def absolute_onLayout_def view.truncate_def)

lemma layout_frame:
  assumes "quiet_layout ol"
  shows "currentWidthMeasureSpec (layout ol pos sf l t r b v) = currentWidthMeasureSpec v"
    "currentHeightMeasureSpec (layout ol pos sf l t r b v) = currentHeightMeasureSpec v"
    "measured_width (layout ol pos sf l t r b v) = measured_width v"
    "measured_height (layout ol pos sf l t r b v) = measured_height v"
    "effectiveMinWidth (layout ol pos sf l t r b v) = effectiveMinWidth v"
    "effectiveMinHeight (layout ol pos sf l t r b v) = effectiveMinHeight v"
    "old_bounds (layout ol pos sf l t r b v) = Some (l, t, r, b)"
  by (auto simp: layout_def setCurrentLayoutBounds_def Let_def quiet_layoutD [OF assms] measured_width_def
      measured_height_def clear_flag_def has_flag_def split: prod.splits)
    (simp_all add: quiet_layoutD [OF assms, unfolded measured_width_def measured_height_def])

lemma layout_not_forced: "\<not> has_flag PFLAG_FORCE_LAYOUT (layout ol pos sf l t r b v)"
  by (simp add: layout_def Let_def split_def)

lemma requestLayout_frame:
  "currentWidthMeasureSpec (requestLayout v) = currentWidthMeasureSpec v"
  "currentHeightMeasureSpec (requestLayout v) = currentHeightMeasureSpec v"
  "measured_width (requestLayout v) = measured_width v" "measured_height (requestLayout v) = measured_height v"
  "effectiveMinWidth (requestLayout v) = effectiveMinWidth v" "effectiveMinHeight (requestLayout v) = effectiveMinHeight v"
  by (simp_all add: requestLayout_def set_flag_def measured_width_def measured_height_def)


lemma ok_frame:
  assumes "currentWidthMeasureSpec v' = currentWidthMeasureSpec v" "currentHeightMeasureSpec v' = currentHeightMeasureSpec v"
    "measured_width v' = measured_width v" "measured_height v' = measured_height v"
    "effectiveMinWidth v' = effectiveMinWidth v" "effectiveMinHeight v' = effectiveMinHeight v"
  shows "measured_ok v' = measured_ok v" "min_ok v' = min_ok v"
  using assms by (simp_all add: measured_ok_def fits_specs_def min_ok_def)

context measurable_view
begin

lemma run_ok:
  assumes "quiet_layout ol" "measured_ok v" "min_ok v"
  shows "\<exists>v'. view_run om ol pos ops v = Inr v' \<and> measured_ok v' \<and> min_ok v'"
  using assms(2,3)
proof (induction ops arbitrary: v)
  case (Cons oper ops)
  show ?case
  proof (cases oper)
    case (Measure ws hs)
    obtain v1 where m: "measure om ws hs v = Inr v1" using measure_returns by blast
    have "effectiveMinWidth v1 = effectiveMinWidth v" "effectiveMinHeight v1 = effectiveMinHeight v"
      using only_measuredD(2,3) [OF measure_frame [OF m]] by (simp_all add: setCurrentMeasureSpecs_def)
    then have "min_ok v1" using Cons.prems(2) by (simp add: min_ok_def)
    with measure_ok [OF m] Cons.prems Cons.IH [of v1] m Measure show ?thesis by simp
  next
    case RequestLayout
    with Cons.IH [of "requestLayout v"] Cons.prems ok_frame [OF requestLayout_frame, of v] show ?thesis by simp
  next
    case (Layout sf l t r b)
    note frame = layout_frame [OF assms(1), of pos sf l t r b v]
    from ok_frame [OF frame(1-6)] Cons.prems Cons.IH [of "layout ol pos sf l t r b v"] Layout show ?thesis by simp
  qed
qed simp

end

context child_views
begin

lemma stack_fits: "measured_ok v \<and> min_ok v \<Longrightarrow> \<exists>v'. measure (stack_onMeasure om density) ws hs v = Inr v' \<and> fits_specs ws hs v'"
  for v :: "'a view_scheme stack_layout"
  using stack.measure_returns stack.measure_ok(1) by blast

lemma dock_fits: "measured_ok v \<and> min_ok v \<Longrightarrow> \<exists>v'. measure (dock_onMeasure om density) ws hs v = Inr v' \<and> fits_specs ws hs v'"
  for v :: "'a view_scheme dock_layout"
  using dock.measure_returns dock.measure_ok(1) by blast

lemma wrap_fits: "measured_ok v \<and> min_ok v \<Longrightarrow> \<exists>v'. measure (wrap_onMeasure om density) ws hs v = Inr v' \<and> fits_specs ws hs v'"
  for v :: "'a view_scheme wrap_layout"
  using wrap.measure_returns wrap.measure_ok(1) by blast

lemma absolute_fits: "measured_ok v \<and> min_ok v \<Longrightarrow> \<exists>v'. measure (absolute_onMeasure om density) ws hs v = Inr v' \<and> fits_specs ws hs v'"
  for v :: "'a view_scheme layout_view"
  using absolute.measure_returns absolute.measure_ok(1) by blast

lemmas panels_fit = stack_fits dock_fits wrap_fits absolute_fits

end

section \<open>Properties\<close>

lemmas spec_simps = fits_specs_def measured_ok_def min_ok_def

text \<open>A view as it is created: nothing measured, layout required.\<close>

definition plain_view :: view where
  "plain_view = \<lparr>isCollapsed = False, s_width = Auto, s_height = Auto, s_marginLeft = Px 0, s_marginTop = Px 0,
     s_marginRight = Px 0, s_marginBottom = Px 0, horizontalAlignment = HStretch, verticalAlignment = VStretch,
     effectiveWidth = 0, effectiveHeight = 0, effectiveMarginLeft = 0, effectiveMarginTop = 0,
     effectiveMarginRight = 0, effectiveMarginBottom = 0, effectiveMinWidth = 0, effectiveMinHeight = 0,
     padding = \<lparr>ins_left = 0, ins_top = 0, ins_right = 0, ins_bottom = 0\<rparr>,
     border = \<lparr>ins_left = 0, ins_top = 0, ins_right = 0, ins_bottom = 0\<rparr>,
     effectiveLeft = 0, effectiveTop = 0, dock_of = DockLeft, row = 0, col = 0, rowSpan = 1, colSpan = 1,
     currentWidthMeasureSpec = None, currentHeightMeasureSpec = None, measuredWidth = 0, measuredHeight = 0,
     privateFlags = PFLAG_LAYOUT_REQUIRED OR PFLAG_FORCE_LAYOUT, isLayoutValid = False, old_bounds = None,
     nativeFrame = None\<rparr>"

text \<open>C14: Whatever happens to a view - measuring with any specs, requests for layout and layouts, in any
  order - nothing is thrown, and its measured size fits the specs it was last measured with. It holds of
  every class of views whose \<open>onMeasure\<close> keeps the contract, with any \<open>onLayout\<close> that leaves the view itself alone.\<close>

theorem protocol_keeps_sizes:
  assumes "measurable_view om" "quiet_layout ol" "measured_ok v" "min_ok v"
  shows "\<exists>v'. view_run om ol pos ops v = Inr v' \<and> measured_ok v'"
  using measurable_view.run_ok [OF assms] by blast

theorem protocol_keeps_sizes_witness:
  "\<exists>v'. view_run (view_onMeasure (Some (\<lambda>_ _ _ _. (50, 70)))) (\<lambda>_ _ _ _ v. v) id
     [Measure (makeMeasureSpec 100 AT_MOST) (makeMeasureSpec 40 AT_MOST), RequestLayout] plain_view = Inr v' \<and> measured_ok v'"
  by (rule protocol_keeps_sizes [OF leaf.measurable_view_axioms])
    (simp_all add: quiet_layout_def measured_ok_def min_ok_def plain_view_def)

text \<open>C19: A stack, dock, wrap or absolute layout of children that keep the contract measures without an
  error and within its specs: exactly the given size, or at most the available one, per dimension.\<close>

theorem layouts_fit_specs:
  assumes "measurable_view om"
    and "measured_ok st \<and> min_ok st" "measured_ok dk \<and> min_ok dk" "measured_ok wr \<and> min_ok wr" "measured_ok ab \<and> min_ok ab"
  shows "(\<exists>v. measure (stack_onMeasure om density) ws hs (st :: 'a view_scheme stack_layout) = Inr v \<and> fits_specs ws hs v) \<and>
    (\<exists>v. measure (dock_onMeasure om density) ws hs (dk :: 'a view_scheme dock_layout) = Inr v \<and> fits_specs ws hs v) \<and>
    (\<exists>v. measure (wrap_onMeasure om density) ws hs (wr :: 'a view_scheme wrap_layout) = Inr v \<and> fits_specs ws hs v) \<and>
    (\<exists>v. measure (absolute_onMeasure om density) ws hs (ab :: 'a view_scheme layout_view) = Inr v \<and> fits_specs ws hs v)"
proof -
  have c: "child_views om" using assms(1) by (rule child_views.intro)
  show ?thesis
    using child_views.stack_fits [OF c assms(2)] child_views.dock_fits [OF c assms(3)]
      child_views.wrap_fits [OF c assms(4)] child_views.absolute_fits [OF c assms(5)] by blast
qed

text \<open>Two empty layouts of leaves and two with a leaf, 100 by 40 pixels at most.\<close>

theorem layouts_fit_specs_witness:
  "let ws = makeMeasureSpec 100 AT_MOST; hs = makeMeasureSpec 40 AT_MOST;
       om = view_onMeasure (Some (\<lambda>_ _ _ _. (50, 70))); v = plain_view
   in (\<exists>st. measure (stack_onMeasure om 2) ws hs (view.extend v (layout_view_ext [v] (stack_layout_ext True 0 ()))) = Inr st \<and>
         fits_specs ws hs st) \<and>
      (\<exists>dk. measure (dock_onMeasure om 2) ws hs (view.extend v (layout_view_ext [v] (dock_layout_ext True ()))) = Inr dk \<and>
         fits_specs ws hs dk)"
proof -
  have ok: "measured_ok (view.extend plain_view x) \<and> min_ok (view.extend plain_view x)" for x :: 'x
    by (simp add: measured_ok_def min_ok_def plain_view_def view.extend_def)
  from layouts_fit_specs [OF leaf.measurable_view_axioms ok ok ok ok] show ?thesis unfolding Let_def by blast
qed

end
