(* ===== verification/Layout_Slots.thy ===== *)
theory Layout_Slots
  imports Layout_Place
begin

text \<open>
  Where the simple layouts put their children: the children of a stack follow each other, the slots of
  a dock layout share the content without overlapping, a layout pass that follows a measure pass
  leaves nothing to be measured; and two places where the code does not do what it means to.
\<close>

section \<open>Nothing is measured twice\<close>

text \<open>After a view has been measured and laid out, measuring it again with the same specs changes nothing
  and does not call \<open>onMeasure\<close> (whatever \<open>onMeasure\<close> is by then), until a layout is requested.\<close>

theorem measured_view_is_cached:
  assumes "measurable_view om" "quiet_layout ol" "measure om ws hs v = Inr v1"
  shows "measure any ws hs (layout ol pos sf l t r b v1) = Inr (layout ol pos sf l t r b v1)"
proof -
  let ?v = "layout ol pos sf l t r b v1"
  note d = only_measuredD [OF measurable_view.measure_frame [OF assms(1,3)]]
  have w: "currentWidthMeasureSpec ?v = Some ws" and h: "currentHeightMeasureSpec ?v = Some hs"
    using d(6,7) by (simp_all add: layout_frame [OF assms(2)] setCurrentMeasureSpecs_def)
  have "setCurrentMeasureSpecs ws hs ?v = (False, ?v)"
    using same_specs [OF w h] w h by (simp add: setCurrentMeasureSpecs_def)
  then show ?thesis by (simp add: measure_def layout_not_forced)
qed

theorem measured_view_is_cached_witness:
  "\<exists>v1. measure (view_onMeasure None) 5 6 plain_view = Inr v1 \<and>
     measure (\<lambda>_ _ _. Inl ''called'') 5 6 (layout (\<lambda>_ _ _ _ v. v) id True 0 0 5 6 v1) =
       Inr (layout (\<lambda>_ _ _ _ v. v) id True 0 0 5 6 v1)"
proof -
  obtain v1 where v1: "measure (view_onMeasure None) 5 6 plain_view = Inr v1" using leaf.measure_returns by blast
  have "quiet_layout (\<lambda>_ _ _ _ v. v :: view)" by (simp add: quiet_layout_def)
  from measured_view_is_cached [OF leaf.measurable_view_axioms this v1] v1 show ?thesis by blast
qed

section \<open>Stacks\<close>

text \<open>The length of the visible children among the first ones.\<close>

definition outer_height :: "'a view_scheme \<Rightarrow> rat" where
  "outer_height c = (if isCollapsed c then 0 else measured_height c + vertical_margins c)"

definition outer_width :: "'a view_scheme \<Rightarrow> rat" where
  "outer_width c = (if isCollapsed c then 0 else measured_width c + horizontal_margins c)"

lemma place_length [simp]: "length (place_children f cs s) = length cs"
  by (induction f cs s rule: place_children.induct) (auto split: prod.splits)

lemma place_vertical_nth:
  assumes "i < length cs" "\<not> isCollapsed (cs ! i)"
  shows "place_children (stack_place_vertical lay L R) cs y ! i =
    (let top = y + sum_list (map outer_height (take i cs))
     in layoutChild lay (cs ! i) L top R (top + outer_height (cs ! i)))"
  using assms
proof (induction cs arbitrary: y i)
  case (Cons c cs)
  then show ?case
    by (cases i) (auto simp: stack_place_vertical_def outer_height_def Let_def add.assoc)
qed simp

lemma place_horizontal_nth:
  assumes "i < length cs" "\<not> isCollapsed (cs ! i)"
  shows "place_children (stack_place_horizontal lay T B) cs x ! i =
    (let left = x + sum_list (map outer_width (take i cs))
     in layoutChild lay (cs ! i) left T (left + outer_width (cs ! i)) B)"
  using assms
proof (induction cs arbitrary: x i)
  case (Cons c cs)
  then show ?case
    by (cases i) (auto simp: stack_place_horizontal_def outer_width_def Let_def add.assoc)
qed simp

text \<open>In a slot as high as the child with its margins, the alignment makes no difference.\<close>

lemma child_bounds_vertical:
  assumes "\<not> isCollapsed c"
  shows "\<exists>l' r'. child_bounds c l t r (t + outer_height c) =
    (l', of_int (js_round (t + effectiveMarginTop c)), r', of_int (js_round (t + effectiveMarginTop c + measured_height c)))"
  using assms
  by (auto simp: child_bounds_def Let_def outer_height_def vertical_margins_def field_simps split: valign.splits halign.splits)

lemma child_bounds_horizontal:
  assumes "\<not> isCollapsed c"
  shows "\<exists>t' b'. child_bounds c l t (l + outer_width c) b =
    (of_int (js_round (l + effectiveMarginLeft c)), t', of_int (js_round (l + effectiveMarginLeft c + measured_width c)), b')"
  using assms
  by (auto simp: child_bounds_def Let_def outer_width_def horizontal_margins_def field_simps split: valign.splits halign.splits)

text \<open>A stack places its visible children one after the other along its direction, without gaps or
  overlaps: the slot of a child begins where the slots of the children before it end, and in it the
  child has its margin and its measured length, whatever its alignment.\<close>

theorem stack_children_follow_each_other:
  assumes "quiet_layout ol" "i < length (subViews this)" "c = subViews this ! i" "\<not> isCollapsed c"
    and "out = old_bounds (subViews (stack_onLayout (layout ol pos True) safe l t r b this) ! i)"
    and "y = start_top (content_insets safe this) t b this + sum_list (map outer_height (take i (subViews this)))"
    and "x = start_left (content_insets safe this) l r this + sum_list (map outer_width (take i (subViews this)))"
  shows "if is_vertical this
    then \<exists>l' r'. out = Some (l', of_int (js_round (y + effectiveMarginTop c)), r',
                            of_int (js_round (y + effectiveMarginTop c + measured_height c)))
    else \<exists>t' b'. out = Some (of_int (js_round (x + effectiveMarginLeft c)), t',
                            of_int (js_round (x + effectiveMarginLeft c + measured_width c)), b')"
proof -
  have lay: "old_bounds (layoutChild (layout ol pos True) c l t r b) = Some (child_bounds c l t r b)" for l t r b
    using assms(4) by (simp add: layoutChild_def layout_frame [OF assms(1)] split: prod.splits)
  show ?thesis
  proof (cases "is_vertical this")
    case True
    obtain l' r' where "child_bounds c (ins_left (content_insets safe this)) y (r - l - ins_right (content_insets safe this))
        (y + outer_height c) = (l', of_int (js_round (y + effectiveMarginTop c)), r',
        of_int (js_round (y + effectiveMarginTop c + measured_height c)))"
      using child_bounds_vertical [OF assms(4)] by blast
    with True assms(2-6) lay show ?thesis
      by (simp add: stack_onLayout_def layoutVertical_def Let_def place_vertical_nth)
  next
    case False
    obtain t' b' where "child_bounds c x (ins_top (content_insets safe this)) (x + outer_width c)
        (b - t - ins_bottom (content_insets safe this)) = (of_int (js_round (x + effectiveMarginLeft c)), t',
        of_int (js_round (x + effectiveMarginLeft c + measured_width c)), b')"
      using child_bounds_horizontal [OF assms(4)] by blast
    with False assms(2-5,7) lay show ?thesis
      by (simp add: stack_onLayout_def layoutHorizontal_def Let_def place_horizontal_nth)
  qed
qed

text \<open>Two children of 30 and 20 pixels in a vertical stack.\<close>

definition sized :: "nat \<Rightarrow> nat \<Rightarrow> view" where
  "sized w h = plain_view\<lparr>effectiveWidth := - 2, effectiveHeight := - 2, measuredWidth := of_nat w, measuredHeight := of_nat h\<rparr>"

definition stack_of :: "bool \<Rightarrow> view list \<Rightarrow> view stack_layout" where
  "stack_of vert cs = view.extend plain_view (layout_view_ext cs (stack_layout_ext vert 0 ()))"

definition no_insets :: insets where
  "no_insets = \<lparr>ins_left = 0, ins_top = 0, ins_right = 0, ins_bottom = 0\<rparr>"

theorem stack_children_follow_each_other_witness:
  "\<exists>l' r'. old_bounds (subViews (stack_onLayout (layout (\<lambda>_ _ _ _ v. v) id True) no_insets 0 0 100 100
     (stack_of True [sized 10 30, sized 10 20])) ! 1) = Some (l', 30, r', 50)"
proof -
  let ?st = "stack_of True [sized 10 30, sized 10 20]"
  have q: "quiet_layout (\<lambda>_ _ _ _ v. v :: view)" by (simp add: quiet_layout_def)
  have y: "30 = start_top (content_insets no_insets ?st) 0 100 ?st + sum_list (map outer_height (take 1 (subViews ?st)))"
    by code_simp
  have c: "1 < length (subViews ?st)" "sized 10 20 = subViews ?st ! 1" "\<not> isCollapsed (sized 10 20)" "is_vertical ?st"
    "effectiveMarginTop (sized 10 20) = 0" "measured_height (sized 10 20) = 20" by code_simp+
  have "js_round 30 = 30" "js_round 50 = 50" using js_round_of_int [of 30] js_round_of_int [of 50] by simp_all
  with stack_children_follow_each_other [OF q c(1-3) refl y refl, of id 0 100] c(4-6) show ?thesis by simp
qed

section \<open>Dock layouts\<close>

text \<open>The slots of the visible children, as \<open>onLayout\<close> computes them.\<close>

fun dock_slots :: "bool \<Rightarrow> 'a view_scheme list \<Rightarrow> rect \<Rightarrow> rect option list" where
  "dock_slots stretch [] rest = []"
| "dock_slots stretch (c # cs) rest =
     (if isCollapsed c then None # dock_slots stretch cs rest
      else if cs = [] \<and> stretch then [Some rest]
      else (let (slot, rest') = dock_slot (dock_of c) (outer_width c) (outer_height c) rest
            in Some slot # dock_slots stretch cs rest'))"

definition in_slot :: "'a view_scheme on_layout \<Rightarrow> 'a view_scheme \<Rightarrow> rect option \<Rightarrow> 'a view_scheme" where
  "in_slot lay c slot = (case slot of None \<Rightarrow> c | Some (x, y, w, h) \<Rightarrow> layoutChild lay c x y (x + w) (y + h))"

lemma place_dock: "place_children (dock_place lay stretch) cs rest = map2 (in_slot lay) cs (dock_slots stretch cs rest)"
  by (induction stretch cs rest rule: dock_slots.induct)
    (auto simp: dock_place_def in_slot_def outer_width_def outer_height_def split: prod.splits)

fun area :: "rect \<Rightarrow> rat" where
  "area (x, y, w, h) = w * h"

fun inside :: "rect \<Rightarrow> rect \<Rightarrow> bool" where
  "inside (x, y, w, h) (x', y', w', h') \<longleftrightarrow> x' \<le> x \<and> x + w \<le> x' + w' \<and> y' \<le> y \<and> y + h \<le> y' + h' \<and> 0 \<le> w \<and> 0 \<le> h"

fun disjoint_rects :: "rect \<Rightarrow> rect \<Rightarrow> bool" where
  "disjoint_rects (x, y, w, h) (x', y', w', h') \<longleftrightarrow> x + w \<le> x' \<or> x' + w' \<le> x \<or> y + h \<le> y' \<or> y' + h' \<le> y"

text \<open>A child fits when its outer size along its direction is not more than what is left.\<close>

fun slot_fits :: "dock \<Rightarrow> rat \<Rightarrow> rat \<Rightarrow> rect \<Rightarrow> bool" where
  "slot_fits d w h (x, y, rw, rh) \<longleftrightarrow> (if d \<in> {DockTop, DockBottom} then 0 \<le> h \<and> h \<le> rh else 0 \<le> w \<and> w \<le> rw)"

fun dock_fits :: "bool \<Rightarrow> 'a view_scheme list \<Rightarrow> rect \<Rightarrow> bool" where
  "dock_fits stretch [] rest = True"
| "dock_fits stretch (c # cs) rest =
     (if isCollapsed c then dock_fits stretch cs rest
      else (cs = [] \<and> stretch) \<or> (slot_fits (dock_of c) (outer_width c) (outer_height c) rest \<and>
        dock_fits stretch cs (snd (dock_slot (dock_of c) (outer_width c) (outer_height c) rest))))"

lemma dock_slot_splits:
  assumes "slot_fits d w h rest" "inside rest rest" "dock_slot d w h rest = (slot, rest')"
  shows "inside slot rest" "inside rest' rest" "disjoint_rects slot rest'" "area slot + area rest' = area rest"
  using assms by (cases rest; cases d; auto simp: algebra_simps)+

lemma inside_trans: "inside a b \<Longrightarrow> inside b c \<Longrightarrow> inside a c"
  by (cases a; cases b; cases c) auto

lemma inside_refl: "inside a b \<Longrightarrow> inside a a"
  by (cases a; cases b) auto

lemma disjoint_inside: "disjoint_rects a b \<Longrightarrow> inside c b \<Longrightarrow> disjoint_rects a c"
  by (cases a; cases b; cases c) auto

definition shown :: "rect option list \<Rightarrow> rect list" where
  "shown = List.map_filter id"

lemma shown_simps [simp]: "shown [] = []" "shown (None # xs) = shown xs" "shown (Some r # xs) = r # shown xs"
  by (simp_all add: shown_def map_filter_simps)

text \<open>The invariant of the loop: the slots lie in what is left, do not overlap, and, when the last child
  is stretched, fill it.\<close>

lemma dock_slots_tile:
  assumes "dock_fits stretch cs rest" "inside rest rest"
  shows "list_all (\<lambda>r. inside r rest) (shown (dock_slots stretch cs rest))" (is "?in stretch cs rest")
    and "sorted_wrt disjoint_rects (shown (dock_slots stretch cs rest))" (is "?dis stretch cs rest")
    and "stretch \<Longrightarrow> cs \<noteq> [] \<Longrightarrow> \<not> isCollapsed (last cs) \<Longrightarrow>
      sum_list (map area (shown (dock_slots stretch cs rest))) = area rest" (is "_ \<Longrightarrow> _ \<Longrightarrow> _ \<Longrightarrow> ?sum stretch cs rest")
proof -
  have "?in stretch cs rest \<and> ?dis stretch cs rest \<and> (stretch \<longrightarrow> cs \<noteq> [] \<longrightarrow> \<not> isCollapsed (last cs) \<longrightarrow> ?sum stretch cs rest)"
    using assms
  proof (induction stretch cs rest rule: dock_slots.induct)
    case (2 stretch c cs rest)
    show ?case
    proof (cases "isCollapsed c \<or> cs = [] \<and> stretch")
      case True
      with 2 show ?thesis by (cases "isCollapsed c") auto
    next
      case False
      obtain slot rest' where d: "dock_slot (dock_of c) (outer_width c) (outer_height c) rest = (slot, rest')"
        by (metis surj_pair)
      have "slot_fits (dock_of c) (outer_width c) (outer_height c) rest" "dock_fits stretch cs rest'"
        using 2(3) False d by auto
      note s = dock_slot_splits [OF this(1) 2(4) d]
      from 2(2) [OF _ _ d [symmetric] refl, OF _ _ \<open>dock_fits stretch cs rest'\<close> inside_refl [OF s(2)]] False
      have ih: "?in stretch cs rest' \<and> ?dis stretch cs rest' \<and> (stretch \<longrightarrow> cs \<noteq> [] \<longrightarrow> \<not> isCollapsed (last cs) \<longrightarrow> ?sum stretch cs rest')"
        by blast
      have "list_all (\<lambda>r. inside r rest \<and> disjoint_rects slot r) (shown (dock_slots stretch cs rest'))"
        using ih s(2,3) by (auto simp: list_all_iff intro: inside_trans disjoint_inside)
      with ih s(1,4) False d show ?thesis by (auto simp: list_all_iff)
    qed
  qed simp
  then show "?in stretch cs rest" "?dis stretch cs rest" "stretch \<Longrightarrow> cs \<noteq> [] \<Longrightarrow> \<not> isCollapsed (last cs) \<Longrightarrow> ?sum stretch cs rest" by auto
qed

text \<open>C16: A dock layout whose children fit, each into what the ones before it have left (only the last one, when it is
  stretched, need not), gives every visible child a slot inside its content, and no two slots overlap; when the last child is
  to be stretched and is visible, the slots fill the content. (Without the fit they overlap or stick out, and with a
  collapsed last child nothing is stretched.)\<close>

theorem dock_children_tile:
  assumes "dock_fits (stretchLastChild this) (subViews this) content"
    and "content = (ins_left ins, ins_top ins, max 0 (r - l - (ins_left ins + ins_right ins)),
                    max 0 (b - t - (ins_top ins + ins_bottom ins)))"
    and "ins = content_insets safe this"
    and "slots = dock_slots (stretchLastChild this) (subViews this) content"
  shows "subViews (dock_onLayout lay safe l t r b this) = map2 (in_slot lay) (subViews this) slots \<and>
    list_all (\<lambda>x. inside x content) (shown slots) \<and> sorted_wrt disjoint_rects (shown slots) \<and>
    (stretchLastChild this \<and> subViews this \<noteq> [] \<and> \<not> isCollapsed (last (subViews this)) \<longrightarrow>
       sum_list (map area (shown slots)) = area content)"
proof -
  have "inside content content" by (simp add: assms(2))
  from dock_slots_tile [OF assms(1) this] place_dock [of lay "stretchLastChild this" "subViews this" content]
  show ?thesis by (simp add: assms(2-4) dock_onLayout_def Let_def)
qed

definition dock_layout_of :: "bool \<Rightarrow> view list \<Rightarrow> view dock_layout" where
  "dock_layout_of stretch cs = view.extend plain_view (layout_view_ext cs (dock_layout_ext stretch ()))"

theorem dock_children_tile_witness:
  "let this = dock_layout_of True [(sized 10 30)\<lparr>dock_of := DockTop\<rparr>, (sized 20 10)\<lparr>dock_of := DockRight\<rparr>, sized 5 5];
       slots = dock_slots True (subViews this) (0, 0, 100, 100)
   in slots = [Some (0, 0, 100, 30), Some (80, 30, 20, 70), Some (0, 30, 80, 70)] \<and>
      sorted_wrt disjoint_rects (shown slots)"
proof -
  let ?d = "dock_layout_of True [(sized 10 30)\<lparr>dock_of := DockTop\<rparr>, (sized 20 10)\<lparr>dock_of := DockRight\<rparr>, sized 5 5]"
  have f: "dock_fits (stretchLastChild ?d) (subViews ?d) (0, 0, 100, 100)"
    "(0, 0, 100, 100) = (let ins = content_insets no_insets ?d in (ins_left ins, ins_top ins,
       max 0 (100 - 0 - (ins_left ins + ins_right ins)), max 0 (100 - 0 - (ins_top ins + ins_bottom ins))))" by code_simp+
  have e: "dock_slots True (subViews ?d) (0, 0, 100, 100) =
      [Some (0, 0, 100, 30), Some (80, 30, 20, 70), Some (0, 30, 80, 70)]" "stretchLastChild ?d = True" by code_simp+
  from dock_children_tile [OF f(1) f(2) [unfolded Let_def] refl refl] e show ?thesis by (simp add: Let_def)
qed

text \<open>The flag for the last child is lost when the last child is collapsed: then nothing is stretched, the
  visible last child keeps its size.\<close>

theorem collapsed_last_child_stops_stretching:
  "map old_bounds (subViews (dock_onLayout (layout (\<lambda>_ _ _ _ v. v) id True) no_insets 0 0 100 100
     (dock_layout_of True [sized 5 5, (sized 5 5)\<lparr>isCollapsed := True\<rparr>]))) = [Some (0, 0, 5, 100), None]"
  "map old_bounds (subViews (dock_onLayout (layout (\<lambda>_ _ _ _ v. v) id True) no_insets 0 0 100 100
     (dock_layout_of True [sized 5 5]))) = [Some (0, 0, 100, 100)]"
  by code_simp+

section \<open>Wrap layouts\<close>

definition wrap_layout_of :: "view list \<Rightarrow> view wrap_layout" where
  "wrap_layout_of cs = view.extend plain_view (layout_view_ext cs (wrap_layout_ext False (- 1) (- 1) [] ()))"

text \<open>A first child that is wider than the layout is counted as two rows: in a layout 100 pixels wide, a
  child as wide as its parent, 30 pixels high and with a margin on its left makes it 60 pixels high.\<close>

theorem wide_first_child_counts_twice:
  "map_sum id (\<lambda>v. (lengths v, measured_height v))
     (measure (wrap_onMeasure (view_onMeasure None) 1) (makeMeasureSpec 100 EXACTLY) (makeMeasureSpec 0 UNSPECIFIED)
        (wrap_layout_of [plain_view\<lparr>effectiveMinHeight := 30, s_width := Percent 1, s_marginLeft := Px 5\<rparr>])) =
   Inr ([30, 30], 60)"
  by code_simp

end
