(* ===== verification/Grid_Layout.thy ===== *)
theory Grid_Layout
  imports Layout_Place
begin

text \<open>
  \<open>GridLayout\<close> (\<^verbatim>\<open>ui/layouts/grid-layout\<close> of \<^verbatim>\<open>vendor.js\<close>): the row and column specs, the groups of the
  \<open>MeasureHelper\<close>, which share the available size among pixel, auto and star columns, and the placing of
  the children in the cells.

  The value and the unit of an \<open>ItemSpec\<close> never change: a spec is a value with an identity \<open>spec_id\<close>; what
  changes, its owner and its actual length, is kept by the grid. A child is named by its position in
  \<open>subViews\<close>, which is also that of its \<open>MeasureSpecs\<close> (the map of the code has an entry per child).
\<close>

section \<open>Specs and groups\<close>

datatype grid_unit = PixelUnit | StarUnit | AutoUnit

record item_spec =
  spec_id :: nat
  spec_value :: rat
  unitType :: grid_unit

record item_group =
  g_length :: rat
  measuredCount :: nat
  g_children :: "nat list"
  measureToFix :: nat
  currentMeasureToFixCount :: nat
  infinityLength :: bool
  rowOrColumn :: item_spec

definition new_group :: "item_spec \<Rightarrow> item_group" where
  "new_group spec = \<lparr>g_length = 0, measuredCount = 0, g_children = [], measureToFix = 0,
     currentMeasureToFixCount = 0, infinityLength = False, rowOrColumn = spec\<rparr>"

definition isAuto :: "item_group \<Rightarrow> bool" where
  "isAuto g \<longleftrightarrow> unitType (rowOrColumn g) = AutoUnit \<or> (unitType (rowOrColumn g) = StarUnit \<and> infinityLength g)"

definition isStar :: "item_group \<Rightarrow> bool" where
  "isStar g \<longleftrightarrow> unitType (rowOrColumn g) = StarUnit \<and> \<not> infinityLength g"

definition isAbsolute :: "item_group \<Rightarrow> bool" where
  "isAbsolute g \<longleftrightarrow> unitType (rowOrColumn g) = PixelUnit"

text \<open>\<open>init\<close> does not reset \<open>measureToFix\<close>.\<close>

definition group_init :: "rat \<Rightarrow> item_group \<Rightarrow> item_group" where
  "group_init density g = g\<lparr>measuredCount := 0, currentMeasureToFixCount := 0,
     g_length := (if isAbsolute g then spec_value (rowOrColumn g) * density else 0)\<rparr>"

definition getAllMeasured :: "item_group \<Rightarrow> bool" where
  "getAllMeasured g \<longleftrightarrow> measuredCount g = length (g_children g)"

definition getCanBeFixed :: "item_group \<Rightarrow> bool" where
  "getCanBeFixed g \<longleftrightarrow> currentMeasureToFixCount g = measureToFix g"

definition canFix :: "item_group list \<Rightarrow> bool" where
  "canFix gs \<longleftrightarrow> list_all getCanBeFixed gs"

definition getMeasureLength :: "item_group list \<Rightarrow> rat" where
  "getMeasureLength gs = sum_list (map g_length gs)"

record measure_specs =
  columnSpan' :: nat
  rowSpan' :: nat
  pixelWidth :: rat
  pixelHeight :: rat
  starColumnsCount :: rat
  starRowsCount :: rat
  autoColumnsCount :: nat
  autoRowsCount :: nat
  measured :: bool
  columnIndex :: nat
  rowIndex :: nat

definition new_measure_specs :: measure_specs where
  "new_measure_specs = \<lparr>columnSpan' = 1, rowSpan' = 1, pixelWidth = 0, pixelHeight = 0, starColumnsCount = 0,
     starRowsCount = 0, autoColumnsCount = 0, autoRowsCount = 0, measured = False, columnIndex = 0, rowIndex = 0\<rparr>"

definition getSpanned :: "measure_specs \<Rightarrow> bool" where
  "getSpanned m \<longleftrightarrow> columnSpan' m > 1 \<or> rowSpan' m > 1"

definition specs_isStar :: "measure_specs \<Rightarrow> bool" where
  "specs_isStar m \<longleftrightarrow> starRowsCount m > 0 \<or> starColumnsCount m > 0"

text \<open>The groups a child spans, \<open>for (i = index; i < index + span; i++)\<close>.\<close>

definition span :: "nat \<Rightarrow> nat \<Rightarrow> 'a list \<Rightarrow> 'a list" where
  "span i n gs = take n (drop i gs)"

definition on_span :: "nat \<Rightarrow> nat \<Rightarrow> ('a \<Rightarrow> 'a) \<Rightarrow> 'a list \<Rightarrow> 'a list" where
  "on_span i n f gs = take i gs @ List.map f (take n (drop i gs)) @ drop (i + n) gs"

section \<open>The helper\<close>

record helper =
  h_rows :: "item_group list"
  h_cols :: "item_group list"
  h_width :: rat
  h_height :: rat
  stretchedHorizontally :: bool
  stretchedVertically :: bool
  infinityWidth :: bool
  infinityHeight :: bool
  minColumnStarValue :: rat
  maxColumnStarValue :: rat
  minRowStarValue :: rat
  maxRowStarValue :: rat
  h_measuredWidth :: rat
  h_measuredHeight :: rat
  fakeRowAdded :: bool
  fakeColumnAdded :: bool
  singleRowGroup :: item_group
  singleColumnGroup :: item_group

definition setInfinityWidth :: "bool \<Rightarrow> helper \<Rightarrow> helper" where
  "setInfinityWidth v h = h\<lparr>infinityWidth := v, h_cols := List.map (\<lambda>g. g\<lparr>infinityLength := v\<rparr>) (h_cols h)\<rparr>"

definition setInfinityHeight :: "bool \<Rightarrow> helper \<Rightarrow> helper" where
  "setInfinityHeight v h = h\<lparr>infinityHeight := v, h_rows := List.map (\<lambda>g. g\<lparr>infinityLength := v\<rparr>) (h_rows h)\<rparr>"

definition clearMeasureSpecs :: "helper \<Rightarrow> helper" where
  "clearMeasureSpecs h = h\<lparr>h_cols := List.map (\<lambda>g. g\<lparr>g_children := []\<rparr>) (h_cols h),
     h_rows := List.map (\<lambda>g. g\<lparr>g_children := []\<rparr>) (h_rows h)\<rparr>"

text \<open>A grid without rows gets the single row, which leaves again once there are real rows beside it.
  The single group is one object, known by its spec: leaving, it keeps what it became.\<close>

definition left_group :: "item_group \<Rightarrow> item_group \<Rightarrow> item_group" where
  "left_group g single = (if spec_id (rowOrColumn g) = spec_id (rowOrColumn single) then g else single)"

definition init_rows :: "helper \<Rightarrow> helper" where
  "init_rows h =
     (if h_rows h = [] then
        (let g = (singleRowGroup h)\<lparr>infinityLength := infinityHeight h\<rparr>
         in h\<lparr>singleRowGroup := g, h_rows := [g], fakeRowAdded := True\<rparr>)
      else if length (h_rows h) > 1 \<and> fakeRowAdded h then
        h\<lparr>singleRowGroup := left_group (hd (h_rows h)) (singleRowGroup h), h_rows := tl (h_rows h), fakeRowAdded := False\<rparr>
      else h)"

definition init_cols :: "helper \<Rightarrow> helper" where
  "init_cols h =
     (if h_cols h = [] then
        (let g = (singleColumnGroup h)\<lparr>infinityLength := infinityWidth h\<rparr>
         in h\<lparr>singleColumnGroup := g, h_cols := [g], fakeColumnAdded := True\<rparr>)
      else if length (h_cols h) > 1 \<and> fakeColumnAdded h then
        h\<lparr>singleColumnGroup := left_group (hd (h_cols h)) (singleColumnGroup h), h_cols := tl (h_cols h), fakeColumnAdded := False\<rparr>
      else h)"

definition helper_init :: "rat \<Rightarrow> helper \<Rightarrow> helper" where
  "helper_init density h =
     (let h1 = init_cols (init_rows h)
      in h1\<lparr>h_rows := List.map (group_init density) (h_rows h1), h_cols := List.map (group_init density) (h_cols h1),
            minColumnStarValue := - 1, minRowStarValue := - 1, maxColumnStarValue := - 1, maxRowStarValue := - 1\<rparr>)"

text \<open>\<open>addMeasureSpec\<close>: count what the child spans, and register it with its first column and row.\<close>

definition count_auto :: "item_group list \<Rightarrow> nat" where
  "count_auto gs = length (filter isAuto gs)"

definition star_sum :: "item_group list \<Rightarrow> rat" where
  "star_sum gs = sum_list (map (\<lambda>g. spec_value (rowOrColumn g)) (filter isStar gs))"

definition pixel_sum :: "rat \<Rightarrow> item_group list \<Rightarrow> rat" where
  "pixel_sum density gs = sum_list (map (\<lambda>g. toDevicePixels density (spec_value (rowOrColumn g)))
     (filter (\<lambda>g. \<not> isAuto g \<and> \<not> isStar g \<and> isAbsolute g) gs))"

definition bump_fix :: "item_group \<Rightarrow> item_group" where
  "bump_fix g = (if isAuto g then g\<lparr>measureToFix := measureToFix g + 1\<rparr> else g)"

definition add_child :: "nat \<Rightarrow> item_group \<Rightarrow> item_group" where
  "add_child k g = g\<lparr>g_children := g_children g @ [k]\<rparr>"

definition addMeasureSpec :: "rat \<Rightarrow> nat \<Rightarrow> measure_specs \<Rightarrow> helper \<Rightarrow> measure_specs \<times> helper" where
  "addMeasureSpec density k m h =
     (let cols = span (columnIndex m) (columnSpan' m) (h_cols h);
          m1 = m\<lparr>autoColumnsCount := autoColumnsCount m + count_auto cols,
                 starColumnsCount := starColumnsCount m + star_sum cols,
                 pixelWidth := pixelWidth m + pixel_sum density cols\<rparr>;
          h1 = (if autoColumnsCount m1 > 0 \<and> starColumnsCount m1 = 0
                then h\<lparr>h_cols := on_span (columnIndex m1) (columnSpan' m1) bump_fix (h_cols h)\<rparr> else h);
          rows = span (rowIndex m) (rowSpan' m) (h_rows h1);
          m2 = m1\<lparr>autoRowsCount := autoRowsCount m1 + count_auto rows,
                  starRowsCount := starRowsCount m1 + star_sum rows,
                  pixelHeight := pixelHeight m1 + pixel_sum density rows\<rparr>;
          h2 = (if autoRowsCount m2 > 0 \<and> starRowsCount m2 = 0
                then h1\<lparr>h_rows := on_span (rowIndex m2) (rowSpan' m2) bump_fix (h_rows h1)\<rparr> else h1)
      in (m2, h2\<lparr>h_cols := on_span (columnIndex m2) 1 (add_child k) (h_cols h2),
                 h_rows := on_span (rowIndex m2) 1 (add_child k) (h_rows h2)\<rparr>))"

text \<open>\<open>itemMeasured\<close>.\<close>

definition bump_measured :: "item_group \<Rightarrow> item_group" where
  "bump_measured g = g\<lparr>measuredCount := measuredCount g + 1\<rparr>"

definition bump_current :: "item_group \<Rightarrow> item_group" where
  "bump_current g = (if isAuto g then g\<lparr>currentMeasureToFixCount := currentMeasureToFixCount g + 1\<rparr> else g)"

definition itemMeasured :: "measure_specs \<Rightarrow> bool \<Rightarrow> helper \<Rightarrow> measure_specs \<times> helper" where
  "itemMeasured m isFake h =
     (let h1 = (if isFake then h else h\<lparr>h_cols := on_span (columnIndex m) 1 bump_measured (h_cols h),
                                         h_rows := on_span (rowIndex m) 1 bump_measured (h_rows h)\<rparr>);
          m1 = (if isFake then m else m\<lparr>measured := True\<rparr>);
          h2 = (if autoColumnsCount m1 > 0 \<and> starColumnsCount m1 = 0
                then h1\<lparr>h_cols := on_span (columnIndex m1) (columnSpan' m1) bump_current (h_cols h1)\<rparr> else h1);
          h3 = (if autoRowsCount m1 > 0 \<and> starRowsCount m1 = 0
                then h2\<lparr>h_rows := on_span (rowIndex m1) (rowSpan' m1) bump_current (h_rows h2)\<rparr> else h2)
      in (m1, h3))"

text \<open>Star lengths: the exact offsets are rounded, so that the errors do not add up.\<close>

fun updateStarLength :: "rat \<Rightarrow> rat \<Rightarrow> rat \<Rightarrow> item_group list \<Rightarrow> item_group list" where
  "updateStarLength starValue offset roundedOffset [] = []"
| "updateStarLength starValue offset roundedOffset (g # gs) =
     (if isStar g then
        (let offset' = offset + spec_value (rowOrColumn g) * starValue;
             roundedLength = of_int (js_round (offset' - roundedOffset))
         in g\<lparr>g_length := roundedLength\<rparr> # updateStarLength starValue offset' (roundedOffset + roundedLength) gs)
      else g # updateStarLength starValue offset roundedOffset gs)"

definition unit_star :: "item_group \<Rightarrow> bool" where
  "unit_star g \<longleftrightarrow> unitType (rowOrColumn g) = StarUnit"

definition star_count :: "item_group list \<Rightarrow> rat" where
  "star_count gs = sum_list (map (\<lambda>g. spec_value (rowOrColumn g)) (filter unit_star gs))"

definition fixed_length :: "item_group list \<Rightarrow> rat" where
  "fixed_length gs = sum_list (map g_length (filter (\<lambda>g. \<not> unit_star g) gs))"

definition fixColumns :: "helper \<Rightarrow> helper" where
  "fixColumns h =
     (let starCount = star_count (h_cols h);
          widthForStarColumns = max 0 (h_width h - fixed_length (h_cols h));
          maxStar = (if starCount > 0 then widthForStarColumns / starCount else 0)
      in h\<lparr>maxColumnStarValue := maxStar, h_cols := updateStarLength maxStar 0 0 (h_cols h)\<rparr>)"

definition fixRows :: "helper \<Rightarrow> helper" where
  "fixRows h =
     (let starCount = star_count (h_rows h);
          heightForStarRows = max 0 (h_height h - fixed_length (h_rows h));
          maxStar = (if starCount > 0 then heightForStarRows / starCount else 0)
      in h\<lparr>maxRowStarValue := maxStar, h_rows := updateStarLength maxStar 0 0 (h_rows h)\<rparr>)"

text \<open>What a child needs beyond the groups it spans is shared among the auto groups.\<close>

definition grow :: "nat \<Rightarrow> nat \<Rightarrow> nat \<Rightarrow> rat \<Rightarrow> item_group list \<Rightarrow> item_group list" where
  "grow i n autoCount need gs =
     (let remainingSpace = need - getMeasureLength (span i n gs) in
      if remainingSpace > 0 then
        on_span i n (\<lambda>g. if isAuto g then g\<lparr>g_length := g_length g + remainingSpace / of_nat autoCount\<rparr> else g) gs
      else gs)"

definition updateMinRowStarValueIfNeeded :: "measure_specs \<Rightarrow> rat \<Rightarrow> helper \<Rightarrow> helper" where
  "updateMinRowStarValueIfNeeded m need h =
     (if \<not> stretchedVertically h \<and> starRowsCount m > 0 then
        (let remainingSpace = need - getMeasureLength (filter (\<lambda>g. \<not> isStar g) (span (rowIndex m) (rowSpan' m) (h_rows h))) in
         if remainingSpace > 0
         then h\<lparr>minRowStarValue := max (remainingSpace / starRowsCount m) (minRowStarValue h)\<rparr> else h)
      else h)"

definition updateMinColumnStarValueIfNeeded :: "measure_specs \<Rightarrow> rat \<Rightarrow> helper \<Rightarrow> helper" where
  "updateMinColumnStarValueIfNeeded m need h =
     (if \<not> stretchedHorizontally h \<and> starColumnsCount m > 0 then
        (let remainingSpace = need - getMeasureLength (filter (\<lambda>g. \<not> isStar g) (span (columnIndex m) (columnSpan' m) (h_cols h))) in
         if remainingSpace > 0
         then h\<lparr>minColumnStarValue := max (remainingSpace / starColumnsCount m) (minColumnStarValue h)\<rparr> else h)
      else h)"

section \<open>Measuring the children\<close>

record 'v grid_run =
  r_children :: "'v list"
  r_specs :: "measure_specs list"
  r_help :: helper

definition infinity :: "32 word" where
  "infinity = makeMeasureSpec 0 UNSPECIFIED"

text \<open>One child measured with the given specs, then \<open>after\<close> with its size, then \<open>itemMeasured\<close>.\<close>

definition measure_item :: "'a view_scheme on_measure \<Rightarrow> rat \<Rightarrow> 'p view_scheme \<Rightarrow> nat \<Rightarrow> bool \<Rightarrow> 32 word \<Rightarrow> 32 word \<Rightarrow>
    (rat \<Rightarrow> rat \<Rightarrow> helper \<Rightarrow> helper) \<Rightarrow> 'a view_scheme grid_run \<Rightarrow> string + 'a view_scheme grid_run" where
  "measure_item om density this k isFake ws hs after s =
     and_then (Layout_View.measureChild om density this (r_children s ! k) ws hs)
       (\<lambda>(c, w, h).
          let (m, help) = itemMeasured (r_specs s ! k) isFake (after w h (r_help s))
          in Inr (s\<lparr>r_children := (r_children s)[k := c], r_specs := (r_specs s)[k := m], r_help := help\<rparr>))"

definition grid_measureChild :: "'a view_scheme on_measure \<Rightarrow> rat \<Rightarrow> 'p view_scheme \<Rightarrow> bool \<Rightarrow> nat \<Rightarrow>
    'a view_scheme grid_run \<Rightarrow> string + 'a view_scheme grid_run" where
  "grid_measureChild om density this isFake k s =
     (let m = r_specs s ! k;
          ws = (if autoColumnsCount m > 0 then infinity else makeMeasureSpec (pixelWidth m) EXACTLY);
          hs = (if isFake \<or> autoRowsCount m > 0 then infinity else makeMeasureSpec (pixelHeight m) EXACTLY)
      in measure_item om density this k isFake ws hs
           (\<lambda>w h help.
              let help1 = (if autoColumnsCount m > 0
                    then help\<lparr>h_cols := grow (columnIndex m) (columnSpan' m) (autoColumnsCount m) w (h_cols help)\<rparr> else help)
              in if \<not> isFake \<and> autoRowsCount m > 0
                 then help1\<lparr>h_rows := grow (rowIndex m) (rowSpan' m) (autoRowsCount m) h (h_rows help1)\<rparr> else help1) s)"

definition measureChildFixedColumns :: "'a view_scheme on_measure \<Rightarrow> rat \<Rightarrow> 'p view_scheme \<Rightarrow> nat \<Rightarrow>
    'a view_scheme grid_run \<Rightarrow> string + 'a view_scheme grid_run" where
  "measureChildFixedColumns om density this k s =
     (let m = r_specs s ! k; help = r_help s;
          measureWidth = getMeasureLength (span (columnIndex m) (columnSpan' m) (h_cols help));
          ws = makeMeasureSpec measureWidth (if stretchedHorizontally help then EXACTLY else AT_MOST);
          hs = (if autoRowsCount m > 0 then infinity else makeMeasureSpec (pixelHeight m) EXACTLY)
      in measure_item om density this k False ws hs
           (\<lambda>w h help.
              let help1 = updateMinColumnStarValueIfNeeded m w help
              in if autoRowsCount m > 0
                 then help1\<lparr>h_rows := grow (rowIndex m) (rowSpan' m) (autoRowsCount m) h (h_rows help1)\<rparr> else help1) s)"

definition measureChildFixedRows :: "'a view_scheme on_measure \<Rightarrow> rat \<Rightarrow> 'p view_scheme \<Rightarrow> nat \<Rightarrow>
    'a view_scheme grid_run \<Rightarrow> string + 'a view_scheme grid_run" where
  "measureChildFixedRows om density this k s =
     (let m = r_specs s ! k; help = r_help s;
          measureHeight = getMeasureLength (span (rowIndex m) (rowSpan' m) (h_rows help));
          ws = (if autoColumnsCount m > 0 then infinity else makeMeasureSpec (pixelWidth m) EXACTLY);
          hs = makeMeasureSpec measureHeight (if stretchedVertically help then EXACTLY else AT_MOST)
      in measure_item om density this k False ws hs
           (\<lambda>w h help.
              let help1 = (if autoColumnsCount m > 0
                    then help\<lparr>h_cols := grow (columnIndex m) (columnSpan' m) (autoColumnsCount m) w (h_cols help)\<rparr> else help)
              in updateMinRowStarValueIfNeeded m h help1) s)"

definition measureChildFixedColumnsAndRows :: "'a view_scheme on_measure \<Rightarrow> rat \<Rightarrow> 'p view_scheme \<Rightarrow> nat \<Rightarrow>
    'a view_scheme grid_run \<Rightarrow> string + 'a view_scheme grid_run" where
  "measureChildFixedColumnsAndRows om density this k s =
     (let m = r_specs s ! k; help = r_help s;
          measureWidth = getMeasureLength (span (columnIndex m) (columnSpan' m) (h_cols help));
          measureHeight = getMeasureLength (span (rowIndex m) (rowSpan' m) (h_rows help));
          ws = makeMeasureSpec measureWidth
                 (if starColumnsCount m > 0 \<and> \<not> stretchedHorizontally help then AT_MOST else EXACTLY);
          hs = makeMeasureSpec measureHeight
                 (if starRowsCount m > 0 \<and> \<not> stretchedVertically help then AT_MOST else EXACTLY)
      in measure_item om density this k False ws hs
           (\<lambda>w h help. updateMinRowStarValueIfNeeded m h (updateMinColumnStarValueIfNeeded m w help)) s)"

text \<open>The loops over the columns and their children.\<close>

fun each_m :: "('i \<Rightarrow> 's \<Rightarrow> string + 's) \<Rightarrow> 'i list \<Rightarrow> 's \<Rightarrow> string + 's" where
  "each_m f [] s = Inr s"
| "each_m f (i # is) s = and_then (f i s) (each_m f is)"

definition each_item :: "(nat \<Rightarrow> 'v grid_run \<Rightarrow> string + 'v grid_run) \<Rightarrow> 'v grid_run \<Rightarrow> string + 'v grid_run" where
  "each_item f s =
     each_m (\<lambda>i s. each_m f (g_children (h_cols (r_help s) ! i)) s) [0..<length (h_cols (r_help s))] s"

definition when_spec :: "(measure_specs \<Rightarrow> bool) \<Rightarrow> (nat \<Rightarrow> 'v grid_run \<Rightarrow> string + 'v grid_run) \<Rightarrow> nat \<Rightarrow>
    'v grid_run \<Rightarrow> string + 'v grid_run" where
  "when_spec P f k s = (if P (r_specs s ! k) then f k s else Inr s)"

definition fakeMeasure :: "'a view_scheme on_measure \<Rightarrow> rat \<Rightarrow> 'p view_scheme \<Rightarrow> 'a view_scheme grid_run \<Rightarrow>
    string + 'a view_scheme grid_run" where
  "fakeMeasure om density this s =
     each_m (\<lambda>i s. if getAllMeasured (h_cols (r_help s) ! i) then Inr s
                   else each_m (when_spec (\<lambda>m. starRowsCount m > 0 \<and> autoColumnsCount m > 0 \<and> starColumnsCount m = 0)
                                 (grid_measureChild om density this True)) (g_children (h_cols (r_help s) ! i)) s)
       [0..<length (h_cols (r_help s))] s"

definition measureFixedColumnsNoStarRows :: "'a view_scheme on_measure \<Rightarrow> rat \<Rightarrow> 'p view_scheme \<Rightarrow>
    'a view_scheme grid_run \<Rightarrow> string + 'a view_scheme grid_run" where
  "measureFixedColumnsNoStarRows om density this =
     each_item (when_spec (\<lambda>m. starColumnsCount m > 0 \<and> starRowsCount m = 0) (measureChildFixedColumns om density this))"

definition measureNoStarColumnsFixedRows :: "'a view_scheme on_measure \<Rightarrow> rat \<Rightarrow> 'p view_scheme \<Rightarrow>
    'a view_scheme grid_run \<Rightarrow> string + 'a view_scheme grid_run" where
  "measureNoStarColumnsFixedRows om density this =
     each_item (when_spec (\<lambda>m. starRowsCount m > 0 \<and> starColumnsCount m = 0) (measureChildFixedRows om density this))"

definition on_help :: "(helper \<Rightarrow> helper) \<Rightarrow> 'v grid_run \<Rightarrow> 'v grid_run" where
  "on_help f s = s\<lparr>r_help := f (r_help s)\<rparr>"

text \<open>The choice of the order: what can be fixed is fixed first.\<close>

definition fix_phase :: "'a view_scheme on_measure \<Rightarrow> rat \<Rightarrow> 'p view_scheme \<Rightarrow> 'a view_scheme grid_run \<Rightarrow>
    string + 'a view_scheme grid_run" where
  "fix_phase om density this s =
     (let fixC = canFix (h_cols (r_help s)); fixR = canFix (h_rows (r_help s));
          s1 = (if fixC then on_help fixColumns s else s);
          s2 = (if fixR then on_help fixRows s1 else s1)
      in if \<not> fixC \<and> \<not> fixR then
           and_then (fakeMeasure om density this s2)
             (\<lambda>s3. and_then (measureFixedColumnsNoStarRows om density this (on_help fixColumns s3))
               (\<lambda>s4. Inr (on_help fixRows s4)))
         else if fixC \<and> \<not> fixR then
           and_then (measureFixedColumnsNoStarRows om density this s2) (\<lambda>s3. Inr (on_help fixRows s3))
         else if \<not> fixC \<and> fixR then
           and_then (measureNoStarColumnsFixedRows om density this s2) (\<lambda>s3. Inr (on_help fixColumns s3))
         else Inr s2)"

definition shrink_stars :: "helper \<Rightarrow> helper" where
  "shrink_stars h =
     (let h1 = (if \<not> stretchedHorizontally h \<and> minColumnStarValue h \<noteq> - 1 \<and> minColumnStarValue h < maxColumnStarValue h
                then h\<lparr>h_cols := updateStarLength (minColumnStarValue h) 0 0 (h_cols h)\<rparr> else h);
          h2 = (if \<not> stretchedVertically h1 \<and> minRowStarValue h1 \<noteq> - 1 \<and> minRowStarValue h1 < maxRowStarValue h1
                then h1\<lparr>h_rows := updateStarLength (minRowStarValue h1) 0 0 (h_rows h1)\<rparr> else h1)
      in h2\<lparr>h_measuredWidth := getMeasureLength (h_cols h2), h_measuredHeight := getMeasureLength (h_rows h2)\<rparr>)"

definition helper_measure :: "'a view_scheme on_measure \<Rightarrow> rat \<Rightarrow> 'p view_scheme \<Rightarrow> 'a view_scheme grid_run \<Rightarrow>
    string + 'a view_scheme grid_run" where
  "helper_measure om density this s =
     and_then (each_item (when_spec (\<lambda>m. \<not> specs_isStar m \<and> \<not> getSpanned m) (grid_measureChild om density this False)) s)
       (\<lambda>s1. and_then (each_item (when_spec (\<lambda>m. \<not> specs_isStar m \<and> getSpanned m) (grid_measureChild om density this False)) s1)
         (\<lambda>s2. and_then (fix_phase om density this s2)
           (\<lambda>s3. and_then (each_item (when_spec (\<lambda>m. \<not> measured m) (measureChildFixedColumnsAndRows om density this)) s3)
             (\<lambda>s4. Inr (on_help shrink_stars s4)))))"

section \<open>The grid\<close>

record 'c grid_layout = "'c layout_view" +
  rowSpecs :: "item_spec list"
  colSpecs :: "item_spec list"
  g_specs :: "measure_specs list"
  g_helper :: helper
  columnOffsets :: "rat list"
  rowOffsets :: "rat list"
  actualLengths :: "(nat \<times> rat) list"

text \<open>\<open>Math.max(0, Math.min(index, count - 1))\<close>, and the span that is left.\<close>

definition clamp_index :: "int \<Rightarrow> nat \<Rightarrow> nat" where
  "clamp_index i n = nat (max 0 (min i (int n - 1)))"

definition clamp_span :: "int \<Rightarrow> nat \<Rightarrow> nat \<Rightarrow> nat" where
  "clamp_span s n i = nat (max 1 (min s (int n - int i)))"

definition updateMeasureSpecs :: "('a view_scheme, 'b) grid_layout_scheme \<Rightarrow> 'a view_scheme \<Rightarrow> measure_specs" where
  "updateMeasureSpecs this child =
     (let ci = clamp_index (col child) (length (colSpecs this)); ri = clamp_index (row child) (length (rowSpecs this))
      in \<lparr>columnSpan' = max 1 (clamp_span (colSpan child) (length (colSpecs this)) ci),
          rowSpan' = max 1 (clamp_span (rowSpan child) (length (rowSpecs this)) ri),
          pixelWidth = 0, pixelHeight = 0, starColumnsCount = 0, starRowsCount = 0, autoColumnsCount = 0,
          autoRowsCount = 0, measured = False, columnIndex = ci, rowIndex = ri\<rparr>)"

text \<open>\<open>eachLayoutChild\<close> with \<open>updateMeasureSpecs\<close> and \<open>addMeasureSpec\<close>.\<close>

fun register_children :: "rat \<Rightarrow> ('a view_scheme, 'b) grid_layout_scheme \<Rightarrow> nat \<Rightarrow> 'a view_scheme list \<Rightarrow>
    measure_specs list \<times> helper \<Rightarrow> measure_specs list \<times> helper" where
  "register_children density this k [] st = st"
| "register_children density this k (c # cs) (ms, h) =
     (if isCollapsed c then register_children density this (Suc k) cs (ms, h)
      else (let (m, h') = addMeasureSpec density k (updateMeasureSpecs this c) h
            in register_children density this (Suc k) cs (ms[k := m], h')))"

definition grid_start :: "rat \<Rightarrow> 32 word \<Rightarrow> 32 word \<Rightarrow> ('a view_scheme, 'b) grid_layout_scheme \<Rightarrow> 'a view_scheme grid_run" where
  "grid_start density ws hs this =
     (let width = getMeasureSpecSize ws; widthMode = getMeasureSpecMode ws;
          height = getMeasureSpecSize hs; heightMode = getMeasureSpecMode hs;
          infW = (widthMode = UNSPECIFIED); infH = (heightMode = UNSPECIFIED);
          h0 = (g_helper this)\<lparr>h_width := max 0 (width - horizontal_space this),
                 h_height := max 0 (height - vertical_space this),
                 stretchedHorizontally := (widthMode = EXACTLY \<or> (horizontalAlignment this = HStretch \<and> \<not> infW)),
                 stretchedVertically := (heightMode = EXACTLY \<or> (verticalAlignment this = VStretch \<and> \<not> infH))\<rparr>;
          h1 = helper_init density (clearMeasureSpecs (setInfinityHeight infH (setInfinityWidth infW h0)));
          (ms, h2) = register_children density this 0 (subViews this) (g_specs this, h1)
      in \<lparr>r_children = subViews this, r_specs = ms, r_help = h2\<rparr>)"

definition grid_onMeasure :: "'a view_scheme on_measure \<Rightarrow> rat \<Rightarrow> ('a view_scheme, 'b) grid_layout_scheme on_measure" where
  "grid_onMeasure om density ws hs this =
     and_then (helper_measure om density this (grid_start density ws hs this))
       (\<lambda>s. Inr (resolve_dimension ws hs (h_measuredWidth (r_help s) + horizontal_space this)
                  (h_measuredHeight (r_help s) + vertical_space this)
                  (this\<lparr>subViews := r_children s, g_specs := r_specs s, g_helper := r_help s\<rparr>)))"

text \<open>The offsets of the columns (rows): the exact offset is rounded at every border.\<close>

fun offsets_loop :: "rat \<Rightarrow> rat \<Rightarrow> item_group list \<Rightarrow> rat list" where
  "offsets_loop offset roundedOffset [] = []"
| "offsets_loop offset roundedOffset (g # gs) =
     (let offset' = offset + g_length g;
          roundedLength = of_int (js_round (offset' - roundedOffset))
      in (roundedOffset + roundedLength) # offsets_loop offset' (roundedOffset + roundedLength) gs)"

definition offsets :: "rat \<Rightarrow> item_group list \<Rightarrow> rat list" where
  "offsets p gs = p # offsets_loop p p gs"

text \<open>The actual length of a column, in device independent pixels.\<close>

definition actual_lengths :: "rat \<Rightarrow> rat list \<Rightarrow> item_group list \<Rightarrow> (nat \<times> rat) list" where
  "actual_lengths density offs gs =
     map (\<lambda>i. (spec_id (rowOrColumn (gs ! i)),
               of_int (layout_round ((offs ! Suc i - offs ! i) / density)))) [0..<length gs]"

definition place_item :: "'a view_scheme on_layout \<Rightarrow> rat list \<Rightarrow> rat list \<Rightarrow> measure_specs list \<Rightarrow> 'a view_scheme list \<Rightarrow>
    nat \<Rightarrow> 'a view_scheme list" where
  "place_item lay colOffs rowOffs ms cs k =
     (let m = ms ! k
      in cs[k := layoutChild lay (cs ! k) (colOffs ! columnIndex m) (rowOffs ! rowIndex m)
                  (colOffs ! (columnIndex m + columnSpan' m)) (rowOffs ! (rowIndex m + rowSpan' m))])"

definition grid_onLayout :: "'a view_scheme on_layout \<Rightarrow> rat \<Rightarrow> insets \<Rightarrow> ('a view_scheme, 'b) grid_layout_scheme on_layout" where
  "grid_onLayout lay density safe l t r b this =
     (let ins = content_insets safe this; h = g_helper this;
          colOffs = offsets (ins_left ins) (h_cols h); rowOffs = offsets (ins_top ins) (h_rows h)
      in this\<lparr>columnOffsets := colOffs, rowOffsets := rowOffs,
              actualLengths := actual_lengths density colOffs (h_cols h) @ actual_lengths density rowOffs (h_rows h),
              subViews := foldl (place_item lay colOffs rowOffs (g_specs this)) (subViews this)
                            (concat (map g_children (h_cols h)))\<rparr>)"

end
