(* ===== verification/Grid_Measure.thy ===== *)
theory Grid_Measure
  imports Grid_Layout
begin

text \<open>
  Properties of \<open>GridLayout\<close>: the star columns fill what the others leave, rounding errors do not add
  up, every access to a group or an offset is in range, every visible child ends up measured, and the
  grid keeps the contract of \<open>onMeasure\<close>.
\<close>

section \<open>Rounding\<close>

lemma js_round_diff_int: "js_round (x - of_int i) = js_round x - i"
proof -
  have "x - of_int i + 1 / 2 = (x + 1 / 2) - of_int i" by simp
  then show ?thesis by (simp only: js_round_def floor_diff_of_int)
qed

definition star_part :: "item_group list \<Rightarrow> rat" where
  "star_part gs = getMeasureLength (filter isStar gs)"

definition other_part :: "item_group list \<Rightarrow> rat" where
  "other_part gs = getMeasureLength (filter (\<lambda>g. \<not> isStar g) gs)"

lemma parts: "getMeasureLength gs = star_part gs + other_part gs"
  by (induction gs) (auto simp: getMeasureLength_def star_part_def other_part_def)

lemma isStar_length [simp]: "isStar (g\<lparr>g_length := x\<rparr>) = isStar g" "unit_star (g\<lparr>g_length := x\<rparr>) = unit_star g"
  by (simp_all add: isStar_def unit_star_def)

text \<open>The running offset is always the exact one, rounded.\<close>

lemma updateStarLength_parts:
  "star_part (updateStarLength v off (of_int (js_round off)) gs) = of_int (js_round (off + star_sum gs * v) - js_round off)"
  "other_part (updateStarLength v off r gs) = other_part gs"
proof -
  show "star_part (updateStarLength v off (of_int (js_round off)) gs) =
    of_int (js_round (off + star_sum gs * v) - js_round off)"
  proof (induction gs arbitrary: off)
    case (Cons g gs)
    let ?o = "off + spec_value (rowOrColumn g) * v"
    show ?case
    proof (cases "isStar g")
      case True
      have r: "of_int (js_round off) + of_int (js_round (?o - of_int (js_round off))) = (of_int (js_round ?o) :: rat)"
        by (simp add: js_round_diff_int)
      have "off + star_sum (g # gs) * v = ?o + star_sum gs * v" using True by (simp add: star_sum_def algebra_simps)
      with True Cons.IH [of ?o] r show ?thesis
        by (simp add: Let_def star_part_def getMeasureLength_def js_round_diff_int add.assoc)
    next
      case False
      with Cons.IH show ?thesis by (simp add: star_part_def star_sum_def)
    qed
  qed (simp add: star_part_def getMeasureLength_def star_sum_def)
  show "other_part (updateStarLength v off r gs) = other_part gs"
    by (induction gs arbitrary: off r) (auto simp: Let_def other_part_def getMeasureLength_def)
qed

lemma js_round_0 [simp]: "js_round 0 = 0"
  using js_round_of_int [of 0] by simp

lemma updateStarLength_total:
  "getMeasureLength (updateStarLength v 0 0 gs) = other_part gs + of_int (js_round (star_sum gs * v))"
  using updateStarLength_parts(1) [of v 0 gs] updateStarLength_parts(2) [of v 0 0 gs] by (simp add: parts)

text \<open>Without infinite groups, a star unit is a star group.\<close>

definition finite_groups :: "item_group list \<Rightarrow> bool" where
  "finite_groups gs \<longleftrightarrow> (\<forall>g \<in> set gs. \<not> infinityLength g)"

lemma finite_groups_star:
  assumes "finite_groups gs"
  shows "star_count gs = star_sum gs" "fixed_length gs = other_part gs"
proof -
  have e: "isStar g = unit_star g" if "g \<in> set gs" for g using assms that by (simp add: finite_groups_def isStar_def unit_star_def)
  then have "filter isStar gs = filter unit_star gs" "filter (\<lambda>g. \<not> isStar g) gs = filter (\<lambda>g. \<not> unit_star g) gs"
    by (auto intro: filter_cong)
  then show "star_count gs = star_sum gs" "fixed_length gs = other_part gs"
    by (simp_all add: star_count_def star_sum_def fixed_length_def other_part_def getMeasureLength_def)
qed

text \<open>C17: Fixing the columns of a grid of finite width shares out exactly what the other columns leave: with
  star columns, all columns together are as wide as the grid, rounded once; each rounding error is
  made up for by the next column.\<close>

theorem star_columns_fill_the_grid:
  assumes "finite_groups (h_cols h)" "star_count (h_cols h) > 0"
  shows "getMeasureLength (h_cols (fixColumns h)) =
    fixed_length (h_cols h) + of_int (js_round (max 0 (h_width h - fixed_length (h_cols h))))"
  using assms finite_groups_star [OF assms(1)]
  by (simp add: fixColumns_def Let_def updateStarLength_total)

text \<open>Three columns share 100 pixels.\<close>

definition star_groups :: "nat \<Rightarrow> item_group list" where
  "star_groups n = map (\<lambda>i. new_group \<lparr>spec_id = i, spec_value = 1, unitType = StarUnit\<rparr>) [0..<n]"

definition helper_of :: "item_group list \<Rightarrow> item_group list \<Rightarrow> rat \<Rightarrow> helper" where
  "helper_of rs cs w = (let single = new_group \<lparr>spec_id = 0, spec_value = 1, unitType = StarUnit\<rparr> in
     \<lparr>h_rows = rs, h_cols = cs, h_width = w, h_height = w, stretchedHorizontally = False,
       stretchedVertically = False, infinityWidth = False, infinityHeight = False, minColumnStarValue = - 1,
       maxColumnStarValue = - 1, minRowStarValue = - 1, maxRowStarValue = - 1, h_measuredWidth = 0,
       h_measuredHeight = 0, fakeRowAdded = False, fakeColumnAdded = False,
       singleRowGroup = single, singleColumnGroup = single\<rparr>)"

theorem star_columns_fill_the_grid_witness:
  "map g_length (h_cols (fixColumns (helper_of [] (star_groups 3) 100))) = [33, 34, 33] \<and>
   getMeasureLength (h_cols (fixColumns (helper_of [] (star_groups 3) 100))) = 100"
proof -
  let ?h = "helper_of [] (star_groups 3) 100"
  have "finite_groups (h_cols ?h)" "star_count (h_cols ?h) > 0" "fixed_length (h_cols ?h) = 0" "h_width ?h = 100"
    "map g_length (h_cols (fixColumns ?h)) = [33, 34, 33]" "js_round 100 = 100" by code_simp+
  with star_columns_fill_the_grid [of ?h] show ?thesis by simp
qed

section \<open>Offsets\<close>

lemma offsets_loop_closed:
  "offsets_loop (p + x) (p + of_int (js_round x)) gs =
   map (\<lambda>k. p + of_int (js_round (x + getMeasureLength (take (Suc k) gs)))) [0..<length gs]"
proof (induction gs arbitrary: x)
  case (Cons g gs)
  have "p + x + g_length g - (p + of_int (js_round x)) = x + g_length g - of_int (js_round x)" by simp
  then have "p + of_int (js_round x) + of_int (js_round (p + x + g_length g - (p + of_int (js_round x)))) =
      p + of_int (js_round (x + g_length g))" by (simp only: js_round_diff_int)
  with Cons.IH [of "x + g_length g"] show ?case
    by (simp add: Let_def getMeasureLength_def add.assoc upt_rec [of 0 "Suc (length gs)"] map_Suc_upt [symmetric]
        comp_def del: upt_Suc)
qed simp

text \<open>The border of a column (row) lies at the exact sum of the lengths before it, rounded: the error of a
  border is at most half a pixel, however many columns there are.\<close>

theorem offsets_are_rounded_sums:
  "k \<le> length gs \<Longrightarrow> offsets p gs ! k = p + of_int (js_round (getMeasureLength (take k gs)))"
  using offsets_loop_closed [of p 0 gs]
  by (cases k) (simp_all add: offsets_def getMeasureLength_def del: upt_Suc)

theorem offsets_are_rounded_sums_witness:
  "offsets 5 (star_groups 2) ! 1 = 5 + of_int (js_round (getMeasureLength (take 1 (star_groups 2))))"
  by (rule offsets_are_rounded_sums) (simp add: star_groups_def)

section \<open>What measuring keeps\<close>

lemma on_span_simps [simp]: "length (on_span i n f gs) = length gs"
  by (simp add: on_span_def)

lemma map_on_span: "(\<And>g. k (f g) = k g) \<Longrightarrow> map k (on_span i n f gs) = map k gs"
proof -
  assume "\<And>g. k (f g) = k g"
  then have "map k (on_span i n f gs) = map k (take i gs) @ map k (take n (drop i gs)) @ map k (drop n (drop i gs))"
    by (simp add: on_span_def comp_def add.commute)
  also have "\<dots> = map k gs" by (simp only: map_append [symmetric] append_take_drop_id)
  finally show ?thesis .
qed

lemma map_updateStarLength: "(\<And>g x. k (g\<lparr>g_length := x\<rparr>) = k g) \<Longrightarrow> map k (updateStarLength v off r gs) = map k gs"
  by (induction gs arbitrary: off r) (simp_all add: Let_def)

definition same_items :: "helper \<Rightarrow> helper \<Rightarrow> bool" where
  "same_items h h' \<longleftrightarrow> map g_children (h_cols h') = map g_children (h_cols h) \<and>
     map g_children (h_rows h') = map g_children (h_rows h) \<and> map rowOrColumn (h_cols h') = map rowOrColumn (h_cols h) \<and>
     map rowOrColumn (h_rows h') = map rowOrColumn (h_rows h) \<and> singleRowGroup h' = singleRowGroup h \<and> fakeColumnAdded h' = fakeColumnAdded h \<and>
     fakeRowAdded h' = fakeRowAdded h \<and> singleColumnGroup h' = singleColumnGroup h"

lemma same_items_refl [simp]: "same_items h h"
  by (simp add: same_items_def)

lemma same_items_trans: "same_items a b \<Longrightarrow> same_items b c \<Longrightarrow> same_items a c"
  by (simp add: same_items_def)

lemma grow_items [simp]:
  "map g_children (grow i n k x gs) = map g_children gs" "map rowOrColumn (grow i n k x gs) = map rowOrColumn gs"
  by (auto simp: grow_def Let_def intro!: map_on_span)

lemma updateMin_items [simp]:
  "same_items h (updateMinRowStarValueIfNeeded m x h')  = same_items h h'"
  "same_items h (updateMinColumnStarValueIfNeeded m x h')  = same_items h h'"
  by (simp_all add: same_items_def updateMinRowStarValueIfNeeded_def updateMinColumnStarValueIfNeeded_def Let_def)

lemma fix_items [simp]: "same_items h (fixColumns h') = same_items h h'" "same_items h (fixRows h') = same_items h h'"
  by (simp_all add: same_items_def fixColumns_def fixRows_def Let_def map_updateStarLength)

lemma shrink_items [simp]: "same_items h (shrink_stars h') = same_items h h'"
  by (simp add: same_items_def shrink_stars_def Let_def map_updateStarLength)

lemma itemMeasured_items:
  "itemMeasured m isFake h = (m', h') \<Longrightarrow> same_items h h' \<and> m' = (if isFake then m else m\<lparr>measured := True\<rparr>)"
  by (cases isFake) (auto simp: itemMeasured_def Let_def same_items_def map_on_span bump_measured_def bump_current_def
      split: if_splits)

text \<open>A step of the measuring keeps the cells of the children and never unmarks a measured one.\<close>

definition spec_step :: "measure_specs \<Rightarrow> measure_specs \<Rightarrow> bool" where
  "spec_step m m' \<longleftrightarrow> m' = m \<or> m' = m\<lparr>measured := True\<rparr>"

definition run_step :: "'v grid_run \<Rightarrow> 'v grid_run \<Rightarrow> bool" where
  "run_step s s' \<longleftrightarrow> same_items (r_help s) (r_help s') \<and> length (r_children s') = length (r_children s) \<and>
     list_all2 spec_step (r_specs s) (r_specs s')"

lemma spec_step_refl [simp]: "spec_step m m"
  by (simp add: spec_step_def)

lemma run_step_refl [simp]: "run_step s s"
  by (simp add: run_step_def list_all2_refl)

lemma spec_step_trans: "spec_step a b \<Longrightarrow> spec_step b c \<Longrightarrow> spec_step a c"
  by (auto simp: spec_step_def)

lemma run_step_trans: "run_step a b \<Longrightarrow> run_step b c \<Longrightarrow> run_step a c"
  unfolding run_step_def using list_all2_trans [of spec_step spec_step spec_step] spec_step_trans same_items_trans
  by metis

lemma on_help_step: "same_items (r_help s) (f (r_help s)) \<Longrightarrow> run_step s (on_help f s)"
  by (simp add: run_step_def on_help_def list_all2_refl)

text \<open>Actions that always succeed and are steps.\<close>

definition steady :: "('v grid_run \<Rightarrow> string + 'v grid_run) \<Rightarrow> bool" where
  "steady f \<longleftrightarrow> (\<forall>s. \<exists>s'. f s = Inr s' \<and> run_step s s')"

lemma steadyI: "(\<And>s. \<exists>s'. f s = Inr s' \<and> run_step s s') \<Longrightarrow> steady f"
  by (simp add: steady_def)

lemma steady_Inr: "steady Inr"
  by (simp add: steady_def)

lemma steadyE:
  assumes "steady f"
  obtains s' where "f s = Inr s'" "run_step s s'"
  using assms by (auto simp: steady_def)

lemma steady_step: "steady f \<Longrightarrow> f s = Inr s' \<Longrightarrow> run_step s s'"
  unfolding steady_def by (metis sum.inject(2))

lemma steady_then: "steady f \<Longrightarrow> steady g \<Longrightarrow> steady (\<lambda>s. and_then (f s) g)"
  unfolding steady_def by (metis and_then_simps(2) run_step_trans)

lemma steady_help: "(\<And>h. same_items h (f h)) \<Longrightarrow> steady (\<lambda>s. Inr (on_help f s))"
  by (simp add: steady_def on_help_step)

lemma steadyD: "steady f \<Longrightarrow> \<exists>s'. f s = Inr s' \<and> run_step s s'"
  by (simp add: steady_def)

lemma steady_each_m:
  assumes "\<And>i. steady (f i)"
  shows "steady (each_m f is)"
proof (induction "is")
  case Nil
  show ?case by (rule steadyI) simp
next
  case (Cons i "is")
  have "each_m f (i # is) = (\<lambda>s. and_then (f i s) (each_m f is))" by (simp add: fun_eq_iff)
  then show ?case using steady_then [OF assms [of i] Cons.IH] by simp
qed

lemma steady_each_item:
  assumes "\<And>k. steady (f k)"
  shows "steady (each_item f)"
proof (rule steadyI)
  fix s
  have "steady (\<lambda>s. each_m f (g_children (h_cols (r_help s) ! i)) s)" for i
    by (rule steadyI) (rule steadyD [OF steady_each_m [OF assms]])
  then show "\<exists>s'. each_item f s = Inr s' \<and> run_step s s'"
    unfolding each_item_def by (rule steadyD [OF steady_each_m])
qed

lemma steady_when: "steady (f k) \<Longrightarrow> steady (when_spec P f k)"
  by (simp add: steady_def when_spec_def)

context child_views
begin

lemma measure_item_step:
  assumes "\<And>w h hp. same_items hp (after w h hp)"
  shows "\<exists>s'. measure_item om density this k isFake ws hs after s = Inr s' \<and> run_step s s'"
proof -
  obtain c w h where c: "Layout_View.measureChild om density this (r_children s ! k) ws hs = Inr (c, w, h)"
    using measureChild_returns by (metis surj_pair)
  obtain m hp where m: "itemMeasured (r_specs s ! k) isFake (after w h (r_help s)) = (m, hp)" by fastforce
  have "same_items (r_help s) hp" using itemMeasured_items [OF m] assms same_items_trans by blast
  moreover have "spec_step (r_specs s ! k) m" using itemMeasured_items [OF m] by (simp add: spec_step_def)
  then have "list_all2 spec_step (r_specs s) ((r_specs s)[k := m])"
    unfolding list_all2_conv_all_nth by (metis length_list_update nth_list_update_eq nth_list_update_neq spec_step_refl)
  ultimately show ?thesis by (simp add: measure_item_def c m run_step_def)
qed

lemma steady_measureChild: "steady (grid_measureChild om density this isFake k)"
  by (rule steadyI, unfold grid_measureChild_def Let_def, rule measure_item_step) (simp add: same_items_def)

lemma steady_fixedColumns: "steady (measureChildFixedColumns om density this k)"
  by (rule steadyI, unfold measureChildFixedColumns_def Let_def, rule measure_item_step)
    (simp add: same_items_def updateMinColumnStarValueIfNeeded_def Let_def)

lemma steady_fixedRows: "steady (measureChildFixedRows om density this k)"
  by (rule steadyI, unfold measureChildFixedRows_def Let_def, rule measure_item_step)
    (simp add: same_items_def updateMinRowStarValueIfNeeded_def Let_def)

lemma steady_fixedBoth: "steady (measureChildFixedColumnsAndRows om density this k)"
  by (rule steadyI, unfold measureChildFixedColumnsAndRows_def Let_def, rule measure_item_step) simp

lemma steady_fakeMeasure: "steady (fakeMeasure om density this)"
proof (rule steadyI)
  fix s :: "'a view_scheme grid_run"
  let ?f = "\<lambda>i s. if getAllMeasured (h_cols (r_help s) ! i) then Inr s
    else each_m (when_spec (\<lambda>m. starRowsCount m > 0 \<and> autoColumnsCount m > 0 \<and> starColumnsCount m = 0)
           (grid_measureChild om density this True)) (g_children (h_cols (r_help s) ! i)) s"
  have "steady (?f i)" for i
  proof (rule steadyI)
    fix s :: "'a view_scheme grid_run"
    show "\<exists>s'. ?f i s = Inr s' \<and> run_step s s'"
      using steadyD [OF steady_each_m [OF steady_when [OF steady_measureChild]]] by auto
  qed
  then show "\<exists>s'. fakeMeasure om density this s = Inr s' \<and> run_step s s'"
    unfolding fakeMeasure_def by (rule steadyD [OF steady_each_m])
qed

lemma steady_fix_phase: "steady (fix_phase om density this)"
proof (rule steadyI)
  fix s :: "'a view_scheme grid_run"
  have fc: "run_step s (on_help fixColumns s)" and fr: "run_step s (on_help fixRows s)" for s :: "'a view_scheme grid_run"
    by (simp_all add: on_help_step)
  have mc: "steady (measureFixedColumnsNoStarRows om density this)"
    and mr: "steady (measureNoStarColumnsFixedRows om density this)"
    unfolding measureFixedColumnsNoStarRows_def measureNoStarColumnsFixedRows_def
    by (rule steady_each_item [OF steady_when [OF steady_fixedColumns]],
        rule steady_each_item [OF steady_when [OF steady_fixedRows]])
  have then_fix: "\<exists>s'. and_then (f s) (\<lambda>s. Inr (on_help g s)) = Inr s' \<and> run_step s s'"
    if "steady f" "\<And>h. same_items h (g h)" for f g and s :: "'a view_scheme grid_run"
    using steadyD [OF steady_then [OF that(1) steady_help [of g, OF that(2)]]] .
  obtain s3 where s3: "fakeMeasure om density this s = Inr s3" "run_step s s3" using steady_fakeMeasure by (rule steadyE)
  show "\<exists>s'. fix_phase om density this s = Inr s' \<and> run_step s s'"
    using then_fix [OF mc, of fixRows "on_help fixColumns s"] then_fix [OF mc, of fixRows "on_help fixColumns s3"]
      then_fix [OF mr, of fixColumns "on_help fixRows s"] fc [of s] fc [of s3] fr [of s] fr [of "on_help fixColumns s"] s3
    unfolding fix_phase_def Let_def by (auto intro: run_step_trans)
qed

text \<open>The last loop marks every registered child.\<close>

lemma measure_item_marks:
  assumes "measure_item om density this k False ws hs after s = Inr s'" "k < length (r_specs s)"
  shows "measured (r_specs s' ! k)"
proof -
  from assms(1) obtain c w h where
    c: "Layout_View.measureChild om density this (r_children s ! k) ws hs = Inr (c, w, h)"
    by (auto simp: measure_item_def and_then_Inr)
  obtain m hp where m: "itemMeasured (r_specs s ! k) False (after w h (r_help s)) = (m, hp)" by fastforce
  have "s' = s\<lparr>r_children := (r_children s)[k := c], r_specs := (r_specs s)[k := m], r_help := hp\<rparr>"
    using assms(1) by (simp add: measure_item_def c m)
  with itemMeasured_items [OF m] assms(2) show ?thesis by simp
qed

lemma when_unmeasured_marks:
  assumes "when_spec (\<lambda>m. \<not> measured m) (measureChildFixedColumnsAndRows om density this) k s = Inr s'" "k < length (r_specs s)"
  shows "measured (r_specs s' ! k)"
proof (cases "measured (r_specs s ! k)")
  case False
  with assms(1) have "measureChildFixedColumnsAndRows om density this k s = Inr s'" by (simp add: when_spec_def)
  then show ?thesis unfolding measureChildFixedColumnsAndRows_def Let_def using assms(2) by (rule measure_item_marks)
qed (use assms in \<open>auto simp: when_spec_def\<close>)

end

lemma run_step_measured:
  assumes "run_step s s'"
  shows "length (r_specs s') = length (r_specs s)" "k < length (r_specs s) \<Longrightarrow> measured (r_specs s ! k) \<Longrightarrow> measured (r_specs s' ! k)"
proof -
  have l: "list_all2 spec_step (r_specs s) (r_specs s')" using assms by (simp add: run_step_def)
  then show "length (r_specs s') = length (r_specs s)" by (simp add: list_all2_lengthD)
  assume "k < length (r_specs s)" "measured (r_specs s ! k)"
  with list_all2_nthD [OF l, of k] have "spec_step (r_specs s ! k) (r_specs s' ! k)" by simp
  with \<open>measured (r_specs s ! k)\<close> show "measured (r_specs s' ! k)" by (auto simp: spec_step_def)
qed

lemma run_step_children:
  assumes "run_step s s'"
  shows "map g_children (h_cols (r_help s')) = map g_children (h_cols (r_help s))"
  using assms by (simp add: run_step_def same_items_def)

lemma each_m_marks:
  assumes "\<And>i. steady (f i)" "each_m f is s = Inr s'"
    and marks: "\<And>i t t'. i \<in> set is \<Longrightarrow> run_step s t \<Longrightarrow> f i t = Inr t' \<Longrightarrow> P i t'"
    and stable: "\<And>i t t'. P i t \<Longrightarrow> run_step t t' \<Longrightarrow> P i t'"
  shows "\<forall>i \<in> set is. P i s'"
  using assms(2) marks
proof (induction "is" arbitrary: s)
  case (Cons i "is")
  from Cons.prems(1) obtain t where t: "f i s = Inr t" "each_m f is t = Inr s'" by (auto simp: and_then_Inr)
  have st: "run_step s t" using assms(1) t(1) by (rule steady_step)
  have "run_step t s'" using steady_each_m [OF assms(1)] t(2) by (rule steady_step)
  with Cons.prems(2) [of i s t] t(1) have "P i s'" by (auto intro: stable)
  moreover have "\<forall>i \<in> set is. P i s'"
    by (rule Cons.IH [OF t(2)]) (use Cons.prems(2) run_step_trans [OF st] in auto)
  ultimately show ?case by simp
qed simp

definition registered :: "helper \<Rightarrow> nat set" where
  "registered h = set (concat (map g_children (h_cols h)))"

context child_views
begin

lemma each_item_marks:
  assumes "each_item (when_spec (\<lambda>m. \<not> measured m) (measureChildFixedColumnsAndRows om density this)) s = Inr s'"
    and "k \<in> registered (r_help s)" "k < length (r_specs s)"
  shows "measured (r_specs s' ! k)"
proof -
  let ?f = "when_spec (\<lambda>m. \<not> measured m) (measureChildFixedColumnsAndRows om density this)"
  let ?g = "\<lambda>i s. each_m ?f (g_children (h_cols (r_help s) ! i)) s"
  let ?P = "\<lambda>k t. k < length (r_specs t) \<longrightarrow> measured (r_specs t ! k)"
  have sf: "steady (?f i)" for i by (rule steady_when [OF steady_fixedBoth])
  have sg: "steady (?g i)" for i by (rule steadyI) (rule steadyD [OF steady_each_m [OF sf]])
  have stable: "?P i t'" if "?P i t" "run_step t t'" for i and t t' :: "'a view_scheme grid_run"
    using that run_step_measured [OF that(2)] by simp
  have col: "\<forall>k \<in> set (g_children (h_cols (r_help s) ! i)). ?P k t'"
    if "i < length (h_cols (r_help s))" "run_step s t" "?g i t = Inr t'" for i t t'
  proof -
    have "length (h_cols (r_help t)) = length (h_cols (r_help s))"
      using run_step_children [OF that(2)] by (metis length_map)
    then have e: "g_children (h_cols (r_help t) ! i) = g_children (h_cols (r_help s) ! i)"
      using run_step_children [OF that(2)] that(1) by (metis nth_map)
    have marks: "?P k u'" if "run_step t u" "?f k u = Inr u'" for k u u'
      using when_unmeasured_marks [OF that(2)] run_step_measured(1) [OF steady_step [OF sf that(2)]] by simp
    show ?thesis unfolding e [symmetric] by (rule each_m_marks [OF sf that(3)]) (use marks stable in blast)+
  qed
  have "\<forall>i \<in> set [0..<length (h_cols (r_help s))]. \<forall>k \<in> set (g_children (h_cols (r_help s) ! i)). ?P k s'"
    by (rule each_m_marks [OF sg assms(1) [unfolded each_item_def]]) (use col stable in \<open>simp, blast\<close>)
  moreover obtain i where "i < length (h_cols (r_help s))" "k \<in> set (g_children (h_cols (r_help s) ! i))"
  proof -
    obtain g where "g \<in> set (h_cols (r_help s))" "k \<in> set (g_children g)"
      using assms(2) by (auto simp: registered_def)
    then show thesis using that by (metis in_set_conv_nth)
  qed
  moreover have "length (r_specs s') = length (r_specs s)"
    using run_step_measured(1) [OF steady_step [OF steady_each_item [OF sf] assms(1)]] .
  ultimately show ?thesis using assms(3) by auto
qed

lemma helper_measure_marks:
  "\<exists>s'. helper_measure om density this s = Inr s' \<and> run_step s s' \<and>
     (\<forall>k \<in> registered (r_help s). k < length (r_specs s) \<longrightarrow> measured (r_specs s' ! k))"
proof -
  obtain s1 where s1: "each_item (when_spec (\<lambda>m. \<not> specs_isStar m \<and> \<not> getSpanned m) (grid_measureChild om density this False)) s = Inr s1"
    "run_step s s1" by (rule steadyE [OF steady_each_item [OF steady_when [OF steady_measureChild]]])
  obtain s2 where s2: "each_item (when_spec (\<lambda>m. \<not> specs_isStar m \<and> getSpanned m) (grid_measureChild om density this False)) s1 = Inr s2"
    "run_step s1 s2" by (rule steadyE [OF steady_each_item [OF steady_when [OF steady_measureChild]]])
  obtain s3 where s3: "fix_phase om density this s2 = Inr s3" "run_step s2 s3" by (rule steadyE [OF steady_fix_phase])
  obtain s4 where s4: "each_item (when_spec (\<lambda>m. \<not> measured m) (measureChildFixedColumnsAndRows om density this)) s3 = Inr s4"
    "run_step s3 s4" by (rule steadyE [OF steady_each_item [OF steady_when [OF steady_fixedBoth]]])
  have s03: "run_step s s3" using s1(2) s2(2) s3(2) run_step_trans by blast
  have "registered (r_help s3) = registered (r_help s)"
    using run_step_children [OF s03] by (simp add: registered_def)
  then have "\<forall>k \<in> registered (r_help s). k < length (r_specs s) \<longrightarrow> measured (r_specs s4 ! k)"
    using each_item_marks [OF s4(1)] run_step_measured(1) [OF s03] by simp
  moreover have "run_step s (on_help shrink_stars s4)"
    using run_step_trans [OF run_step_trans [OF s03 s4(2)] on_help_step [of s4 shrink_stars]] by simp
  ultimately show ?thesis using s1(1) s2(1) s3(1) s4(1) by (simp add: helper_measure_def on_help_def)
qed

end

lemma only_measured_grid: "only_measured v (v\<lparr>subViews := cs, g_specs := ms, g_helper := h\<rparr>)"
  by (simp add: only_measured_def view.truncate_def)

lemma min_ok_grid: "min_ok (v\<lparr>subViews := cs, g_specs := ms, g_helper := h\<rparr>) = min_ok v"
  by (simp add: min_ok_def)

sublocale child_views \<subseteq> grid: measurable_view "grid_onMeasure om density :: 'a view_scheme grid_layout on_measure"
proof
  fix ws hs :: "32 word" and v v' :: "'a view_scheme grid_layout"
  show "\<exists>v'. grid_onMeasure om density ws hs v = Inr v'"
    unfolding grid_onMeasure_def by (rule and_then_returns) (use helper_measure_marks in blast)+
  assume "grid_onMeasure om density ws hs v = Inr v'"
  then show "has_flag PFLAG_MEASURED_DIMENSION_SET v'" "only_measured v v'" "min_ok v \<Longrightarrow> fits_specs ws hs v'"
    by (auto simp: grid_onMeasure_def and_then_Inr min_ok_grid only_measured_grid intro!: resolve_dimension_fits)
qed

section \<open>Cells\<close>

text \<open>The helper has a group per spec, and one more while the single row or column is in use.\<close>

definition grid_shape :: "('a view_scheme, 'b) grid_layout_scheme \<Rightarrow> bool" where
  "grid_shape g \<longleftrightarrow> length (g_specs g) = length (subViews g) \<and>
     length (h_cols (g_helper g)) = length (colSpecs g) + (if fakeColumnAdded (g_helper g) then 1 else 0) \<and>
     length (h_rows (g_helper g)) = length (rowSpecs g) + (if fakeRowAdded (g_helper g) then 1 else 0) \<and>
     g_children (singleColumnGroup (g_helper g)) = []"

definition cell_ok :: "nat \<Rightarrow> nat \<Rightarrow> measure_specs \<Rightarrow> bool" where
  "cell_ok ncols nrows m \<longleftrightarrow> 1 \<le> columnSpan' m \<and> columnIndex m + columnSpan' m \<le> ncols \<and>
     1 \<le> rowSpan' m \<and> rowIndex m + rowSpan' m \<le> nrows"

lemma clamp: "clamp_index i n + max 1 (clamp_span s n (clamp_index i n)) \<le> max 1 n"
  by (auto simp: clamp_index_def clamp_span_def max_def min_def)

lemma updateMeasureSpecs_cell:
  "cell_ok (max 1 (length (colSpecs this))) (max 1 (length (rowSpecs this))) (updateMeasureSpecs this c)"
  using clamp by (simp add: cell_ok_def updateMeasureSpecs_def Let_def)

lemma group_init_children [simp]: "g_children (group_init density g) = g_children g"
  by (simp add: group_init_def)

lemma add_child_children [simp]: "g_children (add_child k g) = g_children g @ [k]"
  by (simp add: add_child_def)

lemma init_lengths:
  assumes "length (h_cols h) = n + (if fakeColumnAdded h then 1 else 0)" "length (h_rows h) = r + (if fakeRowAdded h then 1 else 0)"
  shows "length (h_cols (helper_init density h)) = max 1 n" "length (h_rows (helper_init density h)) = max 1 r"
  using assms by (cases "h_cols h"; cases "h_rows h"; simp add: helper_init_def init_cols_def init_rows_def Let_def split: if_splits)+

lemma init_registered:
  assumes "\<forall>g \<in> set (h_cols h). g_children g = []" "g_children (singleColumnGroup h) = []"
  shows "registered (helper_init density h) = {}"
  using assms by (cases "h_cols h")
    (auto simp: registered_def helper_init_def init_cols_def init_rows_def Let_def)

lemma init_flags:
  assumes "length (h_cols h) = length cs + (if fakeColumnAdded h then 1 else 0)"
    "length (h_rows h) = length rs + (if fakeRowAdded h then 1 else 0)"
    "\<forall>g \<in> set (h_cols h). g_children g = []" "g_children (singleColumnGroup h) = []"
  shows "fakeColumnAdded (helper_init density h) = (cs = [])" "fakeRowAdded (helper_init density h) = (rs = [])"
    "g_children (singleColumnGroup (helper_init density h)) = []"
proof -
  have r: "fakeRowAdded (init_rows h) = (rs = [])" "fakeColumnAdded (init_rows h) = fakeColumnAdded h"
    "h_cols (init_rows h) = h_cols h" "singleColumnGroup (init_rows h) = singleColumnGroup h"
    using assms(2) by (cases "h_rows h"; cases rs; simp add: init_rows_def Let_def split: if_splits)+
  have "fakeColumnAdded (init_cols h1) = (cs = [])" if "h_cols h1 = h_cols h" "fakeColumnAdded h1 = fakeColumnAdded h" for h1
    using assms(1) that by (cases "h_cols h"; cases cs; simp add: init_cols_def Let_def split: if_splits)
  with r show "fakeColumnAdded (helper_init density h) = (cs = [])" by (simp add: helper_init_def Let_def)
  show "fakeRowAdded (helper_init density h) = (rs = [])" using r(1) by (simp add: helper_init_def init_cols_def Let_def)
  show "g_children (singleColumnGroup (helper_init density h)) = []"
    using assms(3,4) r by (cases "h_cols h") (auto simp: helper_init_def init_cols_def left_group_def Let_def)
qed

lemma registered_on_span:
  assumes "i < length gs"
  shows "set (concat (map g_children (on_span i 1 (add_child k) gs))) = insert k (set (concat (map g_children gs)))"
proof -
  have gs: "gs = take i gs @ gs ! i # drop (Suc i) gs" using assms by (simp add: id_take_nth_drop)
  have "on_span i 1 (add_child k) gs = take i gs @ add_child k (gs ! i) # drop (Suc i) gs"
    using assms by (simp add: on_span_def Cons_nth_drop_Suc [symmetric])
  then have "set (concat (map g_children (on_span i 1 (add_child k) gs))) =
      insert k (set (concat (map g_children (take i gs @ gs ! i # drop (Suc i) gs))))" by auto
  then show ?thesis by (simp only: gs [symmetric])
qed

lemma addMeasureSpec_keeps:
  assumes "addMeasureSpec density k m h = (m', h')" "cell_ok (length (h_cols h)) (length (h_rows h)) m"
  shows "cell_ok (length (h_cols h)) (length (h_rows h)) m'" "measured m' = measured m"
    "length (h_cols h') = length (h_cols h)" "length (h_rows h') = length (h_rows h)"
    "registered h' = insert k (registered h)" "fakeColumnAdded h' = fakeColumnAdded h"
    "fakeRowAdded h' = fakeRowAdded h" "singleColumnGroup h' = singleColumnGroup h"
proof -
  have b: "map g_children (on_span i n bump_fix gs) = map g_children gs" for i n gs
    by (rule map_on_span) (simp add: bump_fix_def)
  from assms show "cell_ok (length (h_cols h)) (length (h_rows h)) m'" "measured m' = measured m"
    "length (h_cols h') = length (h_cols h)" "length (h_rows h') = length (h_rows h)"
    "fakeColumnAdded h' = fakeColumnAdded h" "fakeRowAdded h' = fakeRowAdded h" "singleColumnGroup h' = singleColumnGroup h"
    by (auto simp: addMeasureSpec_def Let_def cell_ok_def simp del: all_simps split: if_splits)
  have i: "columnIndex m < length (h_cols h)" using assms(2) by (simp add: cell_ok_def)
  define gs where "gs = (if autoColumnsCount m + count_auto (span (columnIndex m) (columnSpan' m) (h_cols h)) > 0 \<and>
      starColumnsCount m + star_sum (span (columnIndex m) (columnSpan' m) (h_cols h)) = 0
    then on_span (columnIndex m) (columnSpan' m) bump_fix (h_cols h) else h_cols h)"
  have "h_cols h' = on_span (columnIndex m) 1 (add_child k) gs"
    using assms(1) by (auto simp: addMeasureSpec_def Let_def gs_def split: if_splits)
  moreover have "length gs = length (h_cols h)" "map g_children gs = map g_children (h_cols h)"
    by (simp_all add: gs_def b)
  ultimately show "registered h' = insert k (registered h)"
    using registered_on_span [of "columnIndex m" gs k] i by (simp add: registered_def)
qed

text \<open>Registering the children: every visible one gets into a column, with a cell of the grid.\<close>

lemma register_children_ok:
  assumes "register_children density this k cs (ms, h) = (ms', h')"
    and "length (h_cols h) = max 1 (length (colSpecs this))" "length (h_rows h) = max 1 (length (rowSpecs this))"
    and "k + length cs \<le> length ms"
    and "\<forall>i \<in> registered h. i < k \<and> cell_ok (length (h_cols h)) (length (h_rows h)) (ms ! i)"
  shows "length ms' = length ms \<and> length (h_cols h') = length (h_cols h) \<and> length (h_rows h') = length (h_rows h) \<and>
    registered h' = registered h \<union> {k + j |j. j < length cs \<and> \<not> isCollapsed (cs ! j)} \<and>
    (\<forall>i \<in> registered h'. i < k + length cs \<and> cell_ok (length (h_cols h)) (length (h_rows h)) (ms' ! i))"
  using assms
proof (induction cs arbitrary: k ms h)
  case (Cons c cs)
  have idx: "{k + j |j. j < length (c # cs) \<and> \<not> isCollapsed ((c # cs) ! j)} =
    (if isCollapsed c then {} else {k}) \<union> {Suc k + j |j. j < length cs \<and> \<not> isCollapsed (cs ! j)}"
    (is "?L = ?R")
  proof -
    have "x \<in> ?L \<longleftrightarrow> x \<in> ?R" for x
    proof
      assume "x \<in> ?L"
      then obtain j where "x = k + j" "j < length (c # cs)" "\<not> isCollapsed ((c # cs) ! j)" by blast
      then show "x \<in> ?R" by (cases j) auto
    next
      assume "x \<in> ?R"
      then consider "x = k" "\<not> isCollapsed c" | j where "x = Suc k + j" "j < length cs" "\<not> isCollapsed (cs ! j)"
        by (auto split: if_splits)
      then show "x \<in> ?L"
      proof cases
        case 1
        then show ?thesis by (intro CollectI exI [of _ 0]) simp
      next
        case (2 j)
        then show ?thesis by (intro CollectI exI [of _ "Suc j"]) simp
      qed
    qed
    then show ?thesis by blast
  qed
  show ?case
  proof (cases "isCollapsed c")
    case True
    have r: "register_children density this (Suc k) cs (ms, h) = (ms', h')" using Cons.prems(1) True by simp
    have len: "Suc k + length cs \<le> length ms" using Cons.prems(4) by simp
    have ok: "\<forall>i \<in> registered h. i < Suc k \<and> cell_ok (length (h_cols h)) (length (h_rows h)) (ms ! i)"
      using Cons.prems(5) by (simp add: less_SucI)
    from Cons.IH [OF r Cons.prems(2,3) len ok] show ?thesis unfolding idx by (simp add: True)
  next
    case False
    obtain m h1 where a: "addMeasureSpec density k (updateMeasureSpecs this c) h = (m, h1)" by fastforce
    have "cell_ok (length (h_cols h)) (length (h_rows h)) (updateMeasureSpecs this c)"
      using updateMeasureSpecs_cell Cons.prems(2,3) by simp
    note k = addMeasureSpec_keeps [OF a this]
    have r: "register_children density this (Suc k) cs (ms[k := m], h1) = (ms', h')"
      using Cons.prems(1) False a by simp
    have ok: "\<forall>i \<in> registered h1. i < Suc k \<and> cell_ok (length (h_cols h1)) (length (h_rows h1)) (ms[k := m] ! i)"
      using Cons.prems(4,5) k by (auto simp: nth_list_update less_SucI)
    have len: "length (h_cols h1) = max 1 (length (colSpecs this))" "length (h_rows h1) = max 1 (length (rowSpecs this))"
      "Suc k + length cs \<le> length (ms[k := m])" using Cons.prems(2-4) k(3,4) by simp_all
    note ih = Cons.IH [OF r len ok]
    have "length ms' = length ms" "length (h_cols h') = length (h_cols h)" "length (h_rows h') = length (h_rows h)"
      using ih k(3,4) by simp_all
    moreover have "registered h' = registered h1 \<union> {Suc k + j |j. j < length cs \<and> \<not> isCollapsed (cs ! j)}"
      using ih by (elim conjE)
    then have "registered h' = registered h \<union> {k + j |j. j < length (c # cs) \<and> \<not> isCollapsed ((c # cs) ! j)}"
      unfolding idx k(5) using False by simp
    moreover have "\<forall>i \<in> registered h'. i < k + length (c # cs) \<and> cell_ok (length (h_cols h)) (length (h_rows h)) (ms' ! i)"
      using ih k(3,4) by simp
    ultimately show ?thesis by (intro conjI)
  qed
qed simp

lemma register_children_frame:
  "register_children density this k cs (ms, h) = (ms', h') \<Longrightarrow>
   (\<And>c. cell_ok (length (h_cols h)) (length (h_rows h)) (updateMeasureSpecs this c)) \<Longrightarrow>
   fakeColumnAdded h' = fakeColumnAdded h \<and> fakeRowAdded h' = fakeRowAdded h \<and> singleColumnGroup h' = singleColumnGroup h"
proof (induction cs arbitrary: k ms h)
  case (Cons c cs)
  show ?case
  proof (cases "isCollapsed c")
    case False
    obtain m h1 where a: "addMeasureSpec density k (updateMeasureSpecs this c) h = (m, h1)" by fastforce
    note k = addMeasureSpec_keeps [OF a Cons.prems(2)]
    have "register_children density this (Suc k) cs (ms[k := m], h1) = (ms', h')" using Cons.prems(1) False a by simp
    from Cons.IH [OF this] Cons.prems(2) k(3,4,6-8) show ?thesis by simp
  qed (use Cons in simp)
qed simp

definition visible :: "'a view_scheme list \<Rightarrow> nat set" where
  "visible cs = {k. k < length cs \<and> \<not> isCollapsed (cs ! k)}"

lemma grid_start_ok:
  assumes "grid_shape this" "s = grid_start density ws hs this"
  shows "length (r_specs s) = length (subViews this)" "registered (r_help s) = visible (subViews this)"
    "length (h_cols (r_help s)) = max 1 (length (colSpecs this))" "length (h_rows (r_help s)) = max 1 (length (rowSpecs this))"
    "\<forall>k \<in> visible (subViews this). cell_ok (length (h_cols (r_help s))) (length (h_rows (r_help s))) (r_specs s ! k)"
    "r_children s = subViews this" "g_children (singleColumnGroup (r_help s)) = []"
    "fakeColumnAdded (r_help s) = (colSpecs this = [])" "fakeRowAdded (r_help s) = (rowSpecs this = [])"
proof -
  define h0 where "h0 = (g_helper this)\<lparr>h_width := max 0 (getMeasureSpecSize ws - horizontal_space this),
      h_height := max 0 (getMeasureSpecSize hs - vertical_space this),
      stretchedHorizontally := (getMeasureSpecMode ws = EXACTLY \<or> (horizontalAlignment this = HStretch \<and> getMeasureSpecMode ws \<noteq> UNSPECIFIED)),
      stretchedVertically := (getMeasureSpecMode hs = EXACTLY \<or> (verticalAlignment this = VStretch \<and> getMeasureSpecMode hs \<noteq> UNSPECIFIED))\<rparr>"
  define hc where "hc = clearMeasureSpecs (setInfinityHeight (getMeasureSpecMode hs = UNSPECIFIED)
      (setInfinityWidth (getMeasureSpecMode ws = UNSPECIFIED) h0))"
  define h1 where "h1 = helper_init density hc"
  obtain ms h2 where r: "register_children density this 0 (subViews this) (g_specs this, h1) = (ms, h2)" by fastforce
  have s: "r_children s = subViews this" "r_specs s = ms" "r_help s = h2"
    using assms(2) r by (simp_all add: grid_start_def Let_def h1_def hc_def h0_def)
  have hc: "length (h_cols hc) = length (colSpecs this) + (if fakeColumnAdded hc then 1 else 0)"
    "length (h_rows hc) = length (rowSpecs this) + (if fakeRowAdded hc then 1 else 0)"
    "\<forall>g \<in> set (h_cols hc). g_children g = []" "g_children (singleColumnGroup hc) = []"
    using assms(1) by (auto simp: grid_shape_def hc_def h0_def clearMeasureSpecs_def setInfinityHeight_def setInfinityWidth_def)
  have len: "length (h_cols h1) = max 1 (length (colSpecs this))" "length (h_rows h1) = max 1 (length (rowSpecs this))"
    unfolding h1_def by (rule init_lengths [OF hc(1,2)])+
  have reg: "registered h1 = {}" unfolding h1_def by (rule init_registered [OF hc(3,4)])
  have ok: "0 + length (subViews this) \<le> length (g_specs this)"
    "\<forall>i \<in> registered h1. i < 0 \<and> cell_ok (length (h_cols h1)) (length (h_rows h1)) (g_specs this ! i)"
    using assms(1) by (simp_all add: grid_shape_def reg)
  note all = register_children_ok [OF r len ok]
  have reg2: "length ms = length (g_specs this)" "length (h_cols h2) = length (h_cols h1)" "length (h_rows h2) = length (h_rows h1)"
    "\<forall>i \<in> registered h2. cell_ok (length (h_cols h1)) (length (h_rows h1)) (ms ! i)"
    by (rule all [THEN conjunct1] all [THEN conjunct2, THEN conjunct1] all [THEN conjunct2, THEN conjunct2, THEN conjunct1])+
      (use all in blast)
  have "cell_ok (length (h_cols h1)) (length (h_rows h1)) (updateMeasureSpecs this c)" for c
    using updateMeasureSpecs_cell len by simp
  note frame = register_children_frame [OF r this]
  note flags = init_flags [OF hc, of density, folded h1_def]
  have "registered h2 = registered h1 \<union> {0 + j |j. j < length (subViews this) \<and> \<not> isCollapsed (subViews this ! j)}"
    using all by (elim conjE)
  then have reg': "registered h2 = visible (subViews this)" unfolding reg visible_def add_0 by simp
  show "length (r_specs s) = length (subViews this)" using reg2 assms(1) by (simp add: s grid_shape_def)
  show "registered (r_help s) = visible (subViews this)" using reg' by (simp add: s)
  show l: "length (h_cols (r_help s)) = max 1 (length (colSpecs this))" "length (h_rows (r_help s)) = max 1 (length (rowSpecs this))"
    using reg2 len by (simp_all add: s)
  show "\<forall>k \<in> visible (subViews this). cell_ok (length (h_cols (r_help s))) (length (h_rows (r_help s))) (r_specs s ! k)"
    using reg2(4) unfolding reg' l len by (simp add: s)
  show "r_children s = subViews this" by (rule s)
  show "g_children (singleColumnGroup (r_help s)) = []" "fakeColumnAdded (r_help s) = (colSpecs this = [])"
    "fakeRowAdded (r_help s) = (rowSpecs this = [])" using frame flags by (simp_all add: s(3))
qed

lemma run_step_cells:
  assumes "run_step s s'"
  shows "length (h_cols (r_help s')) = length (h_cols (r_help s))" "length (h_rows (r_help s')) = length (h_rows (r_help s))"
    "k < length (r_specs s) \<Longrightarrow> cell_ok n r (r_specs s' ! k) = cell_ok n r (r_specs s ! k)"
    "length (r_children s') = length (r_children s)" "fakeColumnAdded (r_help s') = fakeColumnAdded (r_help s)"
    "fakeRowAdded (r_help s') = fakeRowAdded (r_help s)" "singleColumnGroup (r_help s') = singleColumnGroup (r_help s)"
proof -
  have items: "same_items (r_help s) (r_help s')" and l: "list_all2 spec_step (r_specs s) (r_specs s')"
    using assms by (simp_all add: run_step_def)
  from items have "map g_children (h_cols (r_help s')) = map g_children (h_cols (r_help s))"
    "map g_children (h_rows (r_help s')) = map g_children (h_rows (r_help s))" by (simp_all add: same_items_def)
  then show "length (h_cols (r_help s')) = length (h_cols (r_help s))" "length (h_rows (r_help s')) = length (h_rows (r_help s))"
    by (metis length_map)+
  show "k < length (r_specs s) \<Longrightarrow> cell_ok n r (r_specs s' ! k) = cell_ok n r (r_specs s ! k)"
    using list_all2_nthD [OF l, of k] by (auto simp: spec_step_def cell_ok_def)
  show "length (r_children s') = length (r_children s)" "fakeColumnAdded (r_help s') = fakeColumnAdded (r_help s)"
    "fakeRowAdded (r_help s') = fakeRowAdded (r_help s)" "singleColumnGroup (r_help s') = singleColumnGroup (r_help s)"
    using assms items by (simp_all add: run_step_def same_items_def)
qed

text \<open>What stands after measuring: a cell of the grid for every visible child, and the marks.\<close>

lemma resolve_dimension_grid [simp]:
  fixes g :: "('a view_scheme, 'b) grid_layout_scheme"
  shows "g_helper (resolve_dimension ws hs w h g) = g_helper g" "g_specs (resolve_dimension ws hs w h g) = g_specs g"
    "subViews (resolve_dimension ws hs w h g) = subViews g" "colSpecs (resolve_dimension ws hs w h g) = colSpecs g"
    "rowSpecs (resolve_dimension ws hs w h g) = rowSpecs g"
  by (simp_all add: resolve_dimension_def setMeasuredDimension_def set_flag_def Let_def)

context child_views
begin

lemma grid_measured:
  assumes "grid_shape this"
  shows "\<exists>this'. grid_onMeasure om density ws hs this = Inr this' \<and> grid_shape this' \<and>
    length (subViews this') = length (subViews this) \<and>
    (\<forall>k \<in> visible (subViews this). measured (g_specs this' ! k) \<and>
       cell_ok (length (h_cols (g_helper this'))) (length (h_rows (g_helper this'))) (g_specs this' ! k))"
proof -
  define s where "s = grid_start density ws hs this"
  note st = grid_start_ok [OF assms s_def]
  obtain s' where s': "helper_measure om density this s = Inr s'" "run_step s s'"
    "\<forall>k \<in> registered (r_help s). k < length (r_specs s) \<longrightarrow> measured (r_specs s' ! k)"
    using helper_measure_marks by blast
  note rc = run_step_cells [OF s'(2)]
  have lt: "k < length (r_specs s)" if "k \<in> visible (subViews this)" for k using that st(1) by (simp add: visible_def)
  define this' where "this' = resolve_dimension ws hs (h_measuredWidth (r_help s') + horizontal_space this)
    (h_measuredHeight (r_help s') + vertical_space this) (this\<lparr>subViews := r_children s', g_specs := r_specs s', g_helper := r_help s'\<rparr>)"
  have f: "g_helper this' = r_help s'" "g_specs this' = r_specs s'" "subViews this' = r_children s'"
    "colSpecs this' = colSpecs this" "rowSpecs this' = rowSpecs this" by (simp_all add: this'_def)
  have "grid_onMeasure om density ws hs this = Inr this'"
    using s'(1) by (simp add: grid_onMeasure_def s_def this'_def)
  moreover have "grid_shape this'"
    using st rc(1,2,4-7) run_step_measured(1) [OF s'(2)]
    by (cases "colSpecs this"; cases "rowSpecs this") (simp_all add: grid_shape_def f)
  moreover have "length (subViews this') = length (subViews this)" using rc(4) st(6) by (simp add: f)
  moreover have "measured (g_specs this' ! k) \<and> cell_ok (length (h_cols (g_helper this'))) (length (h_rows (g_helper this'))) (g_specs this' ! k)"
    if "k \<in> visible (subViews this)" for k
    using s'(3) st(2,5) lt [OF that] rc(1,2) rc(3) [of k] that by (simp add: f)
  ultimately show ?thesis by blast
qed

end

section \<open>Properties\<close>

text \<open>C15: Measuring a grid returns, and then every visible child of it has been measured, whatever the units of its
  rows and columns, the spans of its children and the specs: no child is left over by the order of the
  phases.\<close>

theorem every_visible_child_is_measured:
  assumes "measurable_view om" "grid_shape this"
  shows "\<exists>this'. grid_onMeasure om density ws hs this = Inr this' \<and>
    (\<forall>k \<in> visible (subViews this). measured (g_specs this' ! k))"
  using child_views.grid_measured [OF child_views.intro [OF assms(1)] assms(2)] by blast

definition grid_of :: "item_spec list \<Rightarrow> item_spec list \<Rightarrow> view list \<Rightarrow> view grid_layout" where
  "grid_of rs cs vs = view.extend plain_view (layout_view_ext vs (grid_layout_ext rs cs
     (replicate (length vs) new_measure_specs) (helper_of (map new_group rs) (map new_group cs) 0) [] [] [] ()))"

definition two_columns :: "item_spec list" where
  "two_columns = [\<lparr>spec_id = 0, spec_value = 1, unitType = AutoUnit\<rparr>, \<lparr>spec_id = 1, spec_value = 1, unitType = StarUnit\<rparr>]"

lemma grid_of_shape: "grid_shape (grid_of rs cs vs)"
  by (simp add: grid_shape_def grid_of_def view.extend_def plain_view_def helper_of_def new_group_def Let_def)

theorem every_visible_child_is_measured_witness:
  "\<exists>g. grid_onMeasure (view_onMeasure None) 1 (makeMeasureSpec 100 EXACTLY) (makeMeasureSpec 100 AT_MOST)
     (grid_of [] two_columns [plain_view, plain_view\<lparr>col := 1\<rparr>]) = Inr g \<and> measured (g_specs g ! 1)"
proof -
  let ?g = "grid_of [] two_columns [plain_view, plain_view\<lparr>col := 1\<rparr>]"
  have "1 \<in> visible (subViews ?g)" by (simp add: visible_def grid_of_def view.extend_def plain_view_def)
  with every_visible_child_is_measured [OF leaf.measurable_view_axioms grid_of_shape] show ?thesis by fast
qed

text \<open>C18: Measuring keeps the grid well formed - a group per column and row spec, the single group only in a grid
  without - and gives every visible child a cell inside the grid, whatever row, column and spans it asks
  for: no access to a group or an offset is out of range.\<close>

theorem grid_cells_in_range:
  assumes "measurable_view om" "grid_shape this" "grid_onMeasure om density ws hs this = Inr this'"
  shows "grid_shape this' \<and>
    (\<forall>k \<in> visible (subViews this). cell_ok (length (h_cols (g_helper this'))) (length (h_rows (g_helper this'))) (g_specs this' ! k))"
  using child_views.grid_measured [OF child_views.intro [OF assms(1)] assms(2), of density ws hs] assms(3) by auto

theorem grid_cells_in_range_witness:
  "\<exists>g. grid_onMeasure (view_onMeasure None) 1 (makeMeasureSpec 100 EXACTLY) (makeMeasureSpec 100 AT_MOST)
     (grid_of [] two_columns [plain_view\<lparr>col := 7, colSpan := 9\<rparr>]) = Inr g \<and> grid_shape g \<and>
     cell_ok (length (h_cols (g_helper g))) (length (h_rows (g_helper g))) (g_specs g ! 0)"
proof -
  let ?g = "grid_of [] two_columns [plain_view\<lparr>col := 7, colSpan := 9\<rparr>]"
  obtain g where g: "grid_onMeasure (view_onMeasure None) 1 (makeMeasureSpec 100 EXACTLY) (makeMeasureSpec 100 AT_MOST) ?g = Inr g"
    using leaves.grid.returns by blast
  have "0 \<in> visible (subViews ?g)" by (simp add: visible_def grid_of_def view.extend_def plain_view_def)
  with grid_cells_in_range [OF leaf.measurable_view_axioms grid_of_shape g] g show ?thesis by fast
qed

end
