(* ===== verification/Grid_Specs.thy ===== *)
theory Grid_Specs
  imports Grid_Measure
begin

text \<open>
  The rows and columns of a \<open>GridLayout\<close> (\<^verbatim>\<open>grid-layout-common.js\<close> and the callbacks of \<^verbatim>\<open>grid-layout.js\<close>):
  adding and removing specs, and the \<open>rows\<close> and \<open>columns\<close> setters, which parse lists like \<^verbatim>\<open>"auto, 2*, 50"\<close>.
  The grid keeps its specs, the helper a group per spec: the property is that the two stay in step.

  A spec is shared by identity among grids: \<open>owner\<close> maps the identity of a spec to that of its grid.
\<close>

section \<open>Specs\<close>

text \<open>\<open>new ItemSpec(value, type)\<close>; \<open>None\<close> for a value that is \<open>NaN\<close> or infinite. The message of the
  first error ends with the value.\<close>

definition parse_unit :: "string \<Rightarrow> string + grid_unit" where
  "parse_unit v = (let lower = map to_lower v in
     if lower = ''pixel'' then Inr PixelUnit else if lower = ''star'' then Inr StarUnit
     else if lower = ''auto'' then Inr AutoUnit else Inl (''Invalid value: '' @ v))"

definition newItemSpec :: "nat \<Rightarrow> rat option \<Rightarrow> string \<Rightarrow> string + item_spec" where
  "newItemSpec i value type =
     (case value of
        None \<Rightarrow> Inl ''Value should not be negative, NaN or Infinity: ''
      | Some v \<Rightarrow> if v < 0 then Inl ''Value should not be negative, NaN or Infinity: ''
          else and_then (parse_unit type) (\<lambda>u. Inr \<lparr>spec_id = i, spec_value = v, unitType = u\<rparr>))"

definition defaultItemSpec :: "nat \<Rightarrow> item_spec" where
  "defaultItemSpec i = \<lparr>spec_id = i, spec_value = 1, unitType = StarUnit\<rparr>"

record 'c spec_world =
  the_grid :: "'c grid_layout"
  owner :: "nat \<Rightarrow> nat option"
  next_spec :: nat

text \<open>\<open>me\<close> is the identity of the grid.\<close>

definition validateItemSpec :: "item_spec option \<Rightarrow> ('c, 'z) spec_world_scheme \<Rightarrow> string option" where
  "validateItemSpec spec w =
     (case spec of
        None \<Rightarrow> Some ''Value cannot be undefined.''
      | Some sp \<Rightarrow> if owner w (spec_id sp) \<noteq> None then Some ''itemSpec is already added to GridLayout.'' else None)"

definition on_grid :: "('c grid_layout \<Rightarrow> 'c grid_layout) \<Rightarrow> ('c, 'z) spec_world_scheme \<Rightarrow> ('c, 'z) spec_world_scheme" where
  "on_grid f w = w\<lparr>the_grid := f (the_grid w)\<rparr>"

definition onRowAdded :: "item_spec \<Rightarrow> 'c grid_layout \<Rightarrow> 'c grid_layout" where
  "onRowAdded spec g = g\<lparr>g_helper := (g_helper g)\<lparr>h_rows := h_rows (g_helper g) @ [new_group spec]\<rparr>\<rparr>"

definition onColumnAdded :: "item_spec \<Rightarrow> 'c grid_layout \<Rightarrow> 'c grid_layout" where
  "onColumnAdded spec g = g\<lparr>g_helper := (g_helper g)\<lparr>h_cols := h_cols (g_helper g) @ [new_group spec]\<rparr>\<rparr>"

definition addRow :: "nat \<Rightarrow> item_spec option \<Rightarrow> ('c, 'z) spec_world_scheme \<Rightarrow> ('c, 'z) spec_world_scheme run" where
  "addRow me spec w =
     (case validateItemSpec spec w of
        Some e \<Rightarrow> (Some e, w)
      | None \<Rightarrow> (let sp = the spec in
          (None, on_grid (\<lambda>g. requestLayout (onRowAdded sp (g\<lparr>rowSpecs := rowSpecs g @ [sp]\<rparr>)))
                   (w\<lparr>owner := (owner w)(spec_id sp \<mapsto> me)\<rparr>))))"

definition addColumn :: "nat \<Rightarrow> item_spec option \<Rightarrow> ('c, 'z) spec_world_scheme \<Rightarrow> ('c, 'z) spec_world_scheme run" where
  "addColumn me spec w =
     (case validateItemSpec spec w of
        Some e \<Rightarrow> (Some e, w)
      | None \<Rightarrow> (let sp = the spec in
          (None, on_grid (\<lambda>g. requestLayout (onColumnAdded sp (g\<lparr>colSpecs := colSpecs g @ [sp]\<rparr>)))
                   (w\<lparr>owner := (owner w)(spec_id sp \<mapsto> me)\<rparr>))))"

text \<open>The group at an index is emptied and taken out; the single group, when it is the one, remembers that.\<close>

definition take_group :: "nat \<Rightarrow> item_group list \<Rightarrow> item_group \<Rightarrow> item_group list \<times> item_group" where
  "take_group i gs single = (splice1 i gs, left_group ((gs ! i)\<lparr>g_children := []\<rparr>) single)"

definition no_group :: string where
  "no_group = ''Cannot read property 'children' of undefined''"

definition onRowRemoved :: "nat \<Rightarrow> 'c grid_layout \<Rightarrow> 'c grid_layout run" where
  "onRowRemoved i g =
     (let h = g_helper g in
      if i < length (h_rows h) then
        (let (rs, single) = take_group i (h_rows h) (singleRowGroup h)
         in (None, g\<lparr>g_helper := h\<lparr>h_rows := rs, singleRowGroup := single\<rparr>\<rparr>))
      else (Some no_group, g))"

definition onColumnRemoved :: "nat \<Rightarrow> 'c grid_layout \<Rightarrow> 'c grid_layout run" where
  "onColumnRemoved i g =
     (let h = g_helper g in
      if i < length (h_cols h) then
        (let (cs, single) = take_group i (h_cols h) (singleColumnGroup h)
         in (None, g\<lparr>g_helper := h\<lparr>h_cols := cs, singleColumnGroup := single\<rparr>\<rparr>))
      else (Some no_group, g))"

definition with_grid :: "('c grid_layout \<Rightarrow> 'c grid_layout run) \<Rightarrow> ('c, 'z) spec_world_scheme \<Rightarrow> ('c, 'z) spec_world_scheme run" where
  "with_grid f w = (case f (the_grid w) of (e, g) \<Rightarrow> (e, w\<lparr>the_grid := g\<rparr>))"

text \<open>The owner of a removed spec is kept.\<close>

definition removeRow :: "nat \<Rightarrow> item_spec option \<Rightarrow> ('c, 'z) spec_world_scheme \<Rightarrow> ('c, 'z) spec_world_scheme run" where
  "removeRow me spec w =
     (case spec of
        None \<Rightarrow> (Some ''Value is null.'', w)
      | Some sp \<Rightarrow>
          (case index_of (map spec_id (rowSpecs (the_grid w))) (spec_id sp) of
             None \<Rightarrow> (Some ''Row is not child of this GridLayout'', w)
           | Some i \<Rightarrow>
               if owner w (spec_id sp) \<noteq> Some me then (Some ''Row is not child of this GridLayout'', w)
               else with_grid (\<lambda>g. seq (onRowRemoved i (g\<lparr>rowSpecs := splice1 i (rowSpecs g)\<rparr>)) (\<lambda>g. (None, requestLayout g))) w))"

definition removeColumn :: "nat \<Rightarrow> item_spec option \<Rightarrow> ('c, 'z) spec_world_scheme \<Rightarrow> ('c, 'z) spec_world_scheme run" where
  "removeColumn me spec w =
     (case spec of
        None \<Rightarrow> (Some ''Value is null.'', w)
      | Some sp \<Rightarrow>
          (case index_of (map spec_id (colSpecs (the_grid w))) (spec_id sp) of
             None \<Rightarrow> (Some ''Column is not child of this GridLayout'', w)
           | Some i \<Rightarrow>
               if owner w (spec_id sp) \<noteq> Some me then (Some ''Column is not child of this GridLayout'', w)
               else with_grid (\<lambda>g. seq (onColumnRemoved i (g\<lparr>colSpecs := splice1 i (colSpecs g)\<rparr>)) (\<lambda>g. (None, requestLayout g))) w))"

text \<open>\<open>for (i = length - 1; i >= 0; i--)\<close>.\<close>

fun remove_down :: "(nat \<Rightarrow> 's \<Rightarrow> 's run) \<Rightarrow> nat \<Rightarrow> 's \<Rightarrow> 's run" where
  "remove_down f 0 g = (None, g)"
| "remove_down f (Suc i) g = seq (f i g) (remove_down f i)"

definition removeRows :: "('c, 'z) spec_world_scheme \<Rightarrow> ('c, 'z) spec_world_scheme run" where
  "removeRows w = with_grid (\<lambda>g. seq (remove_down onRowRemoved (length (rowSpecs g)) g)
     (\<lambda>g. (None, requestLayout (g\<lparr>rowSpecs := []\<rparr>)))) w"

definition removeColumns :: "('c, 'z) spec_world_scheme \<Rightarrow> ('c, 'z) spec_world_scheme run" where
  "removeColumns w = with_grid (\<lambda>g. seq (remove_down onColumnRemoved (length (colSpecs g)) g)
     (\<lambda>g. (None, requestLayout (g\<lparr>colSpecs := []\<rparr>)))) w"

section \<open>Parsing\<close>

text \<open>A spec to be created: its unit and its value, \<open>None\<close> when the count before the star is not a number.\<close>

definition convertGridLength :: "string \<Rightarrow> string + grid_unit \<times> int option" where
  "convertGridLength value =
     (if value = ''auto'' then Inr (AutoUnit, Some 1)
      else if CHR ''*'' \<in> set value then
        Inr (StarUnit, (let v = remove1 (CHR ''*'') value in parseInt (if v = [] then ''1'' else v)))
      else (case parseInt value of
          Some n \<Rightarrow> Inr (PixelUnit, Some n)
        | None \<Rightarrow> Inl (''Cannot parse item spec from string: '' @ value)))"

text \<open>The non-empty pieces of \<open>value.split(/[\s,]+/)\<close>.\<close>

fun pieces_of :: "string \<Rightarrow> string \<Rightarrow> string list" where
  "pieces_of w [] = (if w = [] then [] else [w])"
| "pieces_of w (c # cs) =
     (if is_ws c \<or> c = CHR '','' then (if w = [] then [] else [w]) @ pieces_of [] cs else pieces_of (w @ [c]) cs)"

text \<open>\<open>parseAndAddItemSpecs\<close>. There is no \<open>NaN\<close> among the values of the model: \<open>None\<close> when one would be stored.\<close>

fun add_pieces :: "(item_spec option \<Rightarrow> ('c, 'z) spec_world_scheme \<Rightarrow> ('c, 'z) spec_world_scheme run) \<Rightarrow> string list \<Rightarrow>
    ('c, 'z) spec_world_scheme \<Rightarrow> ('c, 'z) spec_world_scheme run option" where
  "add_pieces add [] w = Some (None, w)"
| "add_pieces add (p # ps) w =
     (case convertGridLength p of
        Inl e \<Rightarrow> Some (Some e, w)
      | Inr (u, None) \<Rightarrow> None
      | Inr (u, Some n) \<Rightarrow>
          (case add (Some \<lparr>spec_id = next_spec w, spec_value = of_int n, unitType = u\<rparr>) (w\<lparr>next_spec := next_spec w + 1\<rparr>) of
             (Some e, w1) \<Rightarrow> Some (Some e, w1)
           | (None, w1) \<Rightarrow> add_pieces add ps w1))"

definition set_rows :: "nat \<Rightarrow> string \<Rightarrow> ('c, 'z) spec_world_scheme \<Rightarrow> ('c, 'z) spec_world_scheme run option" where
  "set_rows me value w =
     (case removeRows w of
        (Some e, w1) \<Rightarrow> Some (Some e, w1)
      | (None, w1) \<Rightarrow> add_pieces (addRow me) (pieces_of [] value) w1)"

definition set_columns :: "nat \<Rightarrow> string \<Rightarrow> ('c, 'z) spec_world_scheme \<Rightarrow> ('c, 'z) spec_world_scheme run option" where
  "set_columns me value w =
     (case removeColumns w of
        (Some e, w1) \<Rightarrow> Some (Some e, w1)
      | (None, w1) \<Rightarrow> add_pieces (addColumn me) (pieces_of [] value) w1)"

end
