(* ===== verification/Grid_Step.thy ===== *)
theory Grid_Step
  imports Grid_Specs
begin

text \<open>
  The rows and columns of a grid and the groups of its helper stay in step, through every sequence of
  operations and measure passes in which nothing is removed while the single group stands in; and what
  goes wrong otherwise.
\<close>

section \<open>The invariant\<close>

text \<open>A group per spec, in the order of the specs, after the single group when it stands in.\<close>

definition in_step :: "bool \<Rightarrow> item_group \<Rightarrow> item_spec list \<Rightarrow> item_group list \<Rightarrow> bool" where
  "in_step fake single specs gs \<longleftrightarrow> map rowOrColumn gs = (if fake then [rowOrColumn single] else []) @ specs"

definition helper_in_step :: "item_spec list \<Rightarrow> item_spec list \<Rightarrow> helper \<Rightarrow> bool" where
  "helper_in_step rs cs h \<longleftrightarrow> in_step (fakeRowAdded h) (singleRowGroup h) rs (h_rows h) \<and>
     in_step (fakeColumnAdded h) (singleColumnGroup h) cs (h_cols h)"

definition specs_ok :: "('c, 'z) grid_layout_scheme \<Rightarrow> bool" where
  "specs_ok g \<longleftrightarrow> helper_in_step (rowSpecs g) (colSpecs g) (g_helper g)"

lemma in_step_add: "in_step fake single specs gs \<Longrightarrow> in_step fake single (specs @ [sp]) (gs @ [new_group sp])"
  by (simp add: in_step_def new_group_def)

lemma map_splice1: "map f (splice1 i xs) = splice1 i (map f xs)"
  by (simp add: splice1_def take_map drop_map)

lemma in_step_remove: "in_step False single specs gs \<Longrightarrow> in_step False single' (splice1 i specs) (splice1 i gs)"
  by (simp add: in_step_def map_splice1)

lemma in_step_length: "in_step False single specs gs \<Longrightarrow> length gs = length specs"
  unfolding in_step_def by (metis append_Nil length_map)

section \<open>Measuring\<close>

lemma in_step_init:
  assumes "helper_in_step rs cs h"
  shows "helper_in_step rs cs (helper_init density h)"
proof -
  have r: "in_step (fakeRowAdded (init_rows h)) (singleRowGroup (init_rows h)) rs (h_rows (init_rows h))"
    using assms
    by (cases "h_rows h") (auto simp: helper_in_step_def in_step_def init_rows_def Let_def split: if_splits)
  have f: "fakeColumnAdded (init_rows h) = fakeColumnAdded h" "h_cols (init_rows h) = h_cols h"
    "singleColumnGroup (init_rows h) = singleColumnGroup h" "infinityWidth (init_rows h) = infinityWidth h"
    by (simp_all add: init_rows_def Let_def)
  have c: "in_step (fakeColumnAdded (init_cols h1)) (singleColumnGroup (init_cols h1)) cs (h_cols (init_cols h1))"
    if "h_cols h1 = h_cols h" "fakeColumnAdded h1 = fakeColumnAdded h" "singleColumnGroup h1 = singleColumnGroup h" for h1
    using assms that
    by (cases "h_cols h") (auto simp: helper_in_step_def in_step_def init_cols_def Let_def split: if_splits)
  have k: "h_rows (init_cols h1) = h_rows h1" "fakeRowAdded (init_cols h1) = fakeRowAdded h1"
    "singleRowGroup (init_cols h1) = singleRowGroup h1" for h1 by (simp_all add: init_cols_def Let_def)
  have i: "map rowOrColumn (map (group_init density) gs) = map rowOrColumn gs" for gs
    by (simp add: group_init_def)
  show ?thesis
    using r c [OF f(2,1,3)] unfolding helper_in_step_def in_step_def helper_init_def Let_def by (simp add: k group_init_def comp_def)
qed

lemma addMeasureSpec_in_step:
  assumes "addMeasureSpec density k m h = (m', h')"
  shows "helper_in_step rs cs h' = helper_in_step rs cs h"
proof -
  have s: "map rowOrColumn (on_span i n bump_fix gs) = map rowOrColumn gs"
    "map rowOrColumn (on_span i n (add_child k) gs) = map rowOrColumn gs" for i n gs
    by (intro map_on_span; simp add: bump_fix_def add_child_def)+
  have "map rowOrColumn (h_cols h') = map rowOrColumn (h_cols h)" "map rowOrColumn (h_rows h') = map rowOrColumn (h_rows h)"
    "fakeColumnAdded h' = fakeColumnAdded h" "fakeRowAdded h' = fakeRowAdded h"
    "singleColumnGroup h' = singleColumnGroup h" "singleRowGroup h' = singleRowGroup h"
    using assms by (auto simp: addMeasureSpec_def Let_def s split: if_splits)
  then show ?thesis by (simp add: helper_in_step_def in_step_def)
qed

lemma register_in_step:
  "register_children density this k vs (ms, h) = (ms', h') \<Longrightarrow> helper_in_step rs cs h' = helper_in_step rs cs h"
proof (induction vs arbitrary: k ms h)
  case (Cons c vs)
  show ?case
  proof (cases "isCollapsed c")
    case False
    obtain m h1 where a: "addMeasureSpec density k (updateMeasureSpecs this c) h = (m, h1)" by fastforce
    with Cons.prems False have "register_children density this (Suc k) vs (ms[k := m], h1) = (ms', h')" by simp
    from Cons.IH [OF this] addMeasureSpec_in_step [OF a] show ?thesis by simp
  qed (use Cons in auto)
qed auto

lemma grid_start_in_step:
  assumes "specs_ok this"
  shows "helper_in_step (rowSpecs this) (colSpecs this) (r_help (grid_start density ws hs this))"
proof -
  let ?h0 = "(g_helper this)\<lparr>h_width := max 0 (getMeasureSpecSize ws - horizontal_space this),
      h_height := max 0 (getMeasureSpecSize hs - vertical_space this),
      stretchedHorizontally := (getMeasureSpecMode ws = EXACTLY \<or> (horizontalAlignment this = HStretch \<and> getMeasureSpecMode ws \<noteq> UNSPECIFIED)),
      stretchedVertically := (getMeasureSpecMode hs = EXACTLY \<or> (verticalAlignment this = VStretch \<and> getMeasureSpecMode hs \<noteq> UNSPECIFIED))\<rparr>"
  let ?hc = "clearMeasureSpecs (setInfinityHeight (getMeasureSpecMode hs = UNSPECIFIED)
      (setInfinityWidth (getMeasureSpecMode ws = UNSPECIFIED) ?h0))"
  obtain ms h2 where r: "register_children density this 0 (subViews this) (g_specs this, helper_init density ?hc) = (ms, h2)" by fastforce
  have "helper_in_step (rowSpecs this) (colSpecs this) ?hc"
    using assms
    by (simp add: specs_ok_def helper_in_step_def in_step_def clearMeasureSpecs_def setInfinityHeight_def
        setInfinityWidth_def comp_def)
  with register_in_step [OF r] in_step_init have "helper_in_step (rowSpecs this) (colSpecs this) h2" by blast
  moreover have "r_help (grid_start density ws hs this) = h2" using r by (simp add: grid_start_def Let_def)
  ultimately show ?thesis by simp
qed

lemma run_step_in_step:
  "run_step s s' \<Longrightarrow> helper_in_step rs cs (r_help s') = helper_in_step rs cs (r_help s)"
  by (simp add: run_step_def same_items_def helper_in_step_def in_step_def)

context child_views
begin

lemma measure_keeps_specs:
  assumes "specs_ok this" "grid_onMeasure om density ws hs this = Inr this'"
  shows "specs_ok this'"
proof -
  obtain s where s: "helper_measure om density this (grid_start density ws hs this) = Inr s"
    "run_step (grid_start density ws hs this) s" using helper_measure_marks by blast
  with assms(2) have e: "this' = resolve_dimension ws hs (h_measuredWidth (r_help s) + horizontal_space this)
      (h_measuredHeight (r_help s) + vertical_space this) (this\<lparr>subViews := r_children s, g_specs := r_specs s, g_helper := r_help s\<rparr>)"
    by (simp add: grid_onMeasure_def)
  from grid_start_in_step [OF assms(1)] run_step_in_step [OF s(2)] show ?thesis
    by (simp add: e specs_ok_def)
qed

end

section \<open>The operations\<close>

lemma requestLayout_grid [simp]:
  "rowSpecs (requestLayout g) = rowSpecs g" "colSpecs (requestLayout g) = colSpecs g" "g_helper (requestLayout g) = g_helper g"
  for g :: "('c, 'z) grid_layout_scheme"
  by (simp_all add: requestLayout_def set_flag_def)

lemma specs_ok_layout [simp]: "specs_ok (requestLayout g) = specs_ok g"
  by (simp add: specs_ok_def)

lemma add_keeps_specs:
  "specs_ok (the_grid w) \<Longrightarrow> specs_ok (the_grid (snd (addRow me spec w)))"
  "specs_ok (the_grid w) \<Longrightarrow> specs_ok (the_grid (snd (addColumn me spec w)))"
  by (auto simp: addRow_def addColumn_def on_grid_def onRowAdded_def onColumnAdded_def Let_def specs_ok_def
      helper_in_step_def intro!: in_step_add split: option.splits)

text \<open>Without the single group, the group removed is that of the spec.\<close>

lemma onRowRemoved_ok:
  assumes "specs_ok g" "\<not> fakeRowAdded (g_helper g)" "i < length (rowSpecs g)"
  shows "\<exists>g'. onRowRemoved i g = (None, g') \<and> \<not> fakeRowAdded (g_helper g') \<and> rowSpecs g' = rowSpecs g \<and>
    specs_ok (g'\<lparr>rowSpecs := splice1 i (rowSpecs g)\<rparr>)"
  using assms in_step_length [of "singleRowGroup (g_helper g)" "rowSpecs g" "h_rows (g_helper g)"]
  by (auto simp: onRowRemoved_def take_group_def Let_def specs_ok_def helper_in_step_def intro: in_step_remove)

lemma onColumnRemoved_ok:
  assumes "specs_ok g" "\<not> fakeColumnAdded (g_helper g)" "i < length (colSpecs g)"
  shows "\<exists>g'. onColumnRemoved i g = (None, g') \<and> \<not> fakeColumnAdded (g_helper g') \<and> colSpecs g' = colSpecs g \<and>
    specs_ok (g'\<lparr>colSpecs := splice1 i (colSpecs g)\<rparr>)"
  using assms in_step_length [of "singleColumnGroup (g_helper g)" "colSpecs g" "h_cols (g_helper g)"]
  by (auto simp: onColumnRemoved_def take_group_def Let_def specs_ok_def helper_in_step_def intro: in_step_remove)

lemma onRemoved_frame:
  "onRowRemoved i (g\<lparr>rowSpecs := rs\<rparr>) = (let (e, g') = onRowRemoved i g in (e, g'\<lparr>rowSpecs := rs\<rparr>))"
  "onColumnRemoved i (g\<lparr>colSpecs := cs\<rparr>) = (let (e, g') = onColumnRemoved i g in (e, g'\<lparr>colSpecs := cs\<rparr>))"
  by (simp_all add: onRowRemoved_def onColumnRemoved_def take_group_def Let_def)

lemma removeRow_ok:
  assumes "specs_ok (the_grid w)" "\<not> fakeRowAdded (g_helper (the_grid w))"
  shows "specs_ok (the_grid (snd (removeRow me spec w)))"
proof (cases spec)
  case (Some sp)
  show ?thesis
  proof (cases "index_of (map spec_id (rowSpecs (the_grid w))) (spec_id sp)")
    case (Some i)
    then have "i < length (rowSpecs (the_grid w))" using index_of_SomeD by fastforce
    from onRowRemoved_ok [OF assms this] assms(1) Some \<open>spec = Some sp\<close> show ?thesis
      by (auto simp: removeRow_def with_grid_def onRemoved_frame)
  qed (simp add: removeRow_def Some assms)
qed (simp add: removeRow_def assms)

lemma removeColumn_ok:
  assumes "specs_ok (the_grid w)" "\<not> fakeColumnAdded (g_helper (the_grid w))"
  shows "specs_ok (the_grid (snd (removeColumn me spec w)))"
proof (cases spec)
  case (Some sp)
  show ?thesis
  proof (cases "index_of (map spec_id (colSpecs (the_grid w))) (spec_id sp)")
    case (Some i)
    then have "i < length (colSpecs (the_grid w))" using index_of_SomeD by fastforce
    from onColumnRemoved_ok [OF assms this] assms(1) Some \<open>spec = Some sp\<close> show ?thesis
      by (auto simp: removeColumn_def with_grid_def onRemoved_frame)
  qed (simp add: removeColumn_def Some assms)
qed (simp add: removeColumn_def assms)

text \<open>Removing all rows (columns), from the last one.\<close>

lemma remove_rows_down:
  assumes "length (h_rows (g_helper g)) = n"
  shows "\<exists>g'. remove_down onRowRemoved n g = (None, g') \<and> h_rows (g_helper g') = [] \<and>
    fakeRowAdded (g_helper g') = fakeRowAdded (g_helper g) \<and> fakeColumnAdded (g_helper g') = fakeColumnAdded (g_helper g) \<and>
    singleColumnGroup (g_helper g') = singleColumnGroup (g_helper g) \<and> h_cols (g_helper g') = h_cols (g_helper g) \<and>
    colSpecs g' = colSpecs g"
  using assms
proof (induction n arbitrary: g)
  case (Suc n)
  obtain g1 where g1: "onRowRemoved n g = (None, g1)" "length (h_rows (g_helper g1)) = n"
    "fakeRowAdded (g_helper g1) = fakeRowAdded (g_helper g)" "fakeColumnAdded (g_helper g1) = fakeColumnAdded (g_helper g)"
    "singleColumnGroup (g_helper g1) = singleColumnGroup (g_helper g)" "h_cols (g_helper g1) = h_cols (g_helper g)"
    "colSpecs g1 = colSpecs g"
    using Suc.prems by (simp add: onRowRemoved_def take_group_def Let_def splice1_def)
  from Suc.IH [OF g1(2)] g1 show ?case by auto
qed simp

lemma remove_columns_down:
  assumes "length (h_cols (g_helper g)) = n"
  shows "\<exists>g'. remove_down onColumnRemoved n g = (None, g') \<and> h_cols (g_helper g') = [] \<and>
    fakeColumnAdded (g_helper g') = fakeColumnAdded (g_helper g) \<and> fakeRowAdded (g_helper g') = fakeRowAdded (g_helper g) \<and>
    singleRowGroup (g_helper g') = singleRowGroup (g_helper g) \<and> h_rows (g_helper g') = h_rows (g_helper g) \<and>
    rowSpecs g' = rowSpecs g"
  using assms
proof (induction n arbitrary: g)
  case (Suc n)
  obtain g1 where g1: "onColumnRemoved n g = (None, g1)" "length (h_cols (g_helper g1)) = n"
    "fakeColumnAdded (g_helper g1) = fakeColumnAdded (g_helper g)" "fakeRowAdded (g_helper g1) = fakeRowAdded (g_helper g)"
    "singleRowGroup (g_helper g1) = singleRowGroup (g_helper g)" "h_rows (g_helper g1) = h_rows (g_helper g)"
    "rowSpecs g1 = rowSpecs g"
    using Suc.prems by (simp add: onColumnRemoved_def take_group_def Let_def splice1_def)
  from Suc.IH [OF g1(2)] g1 show ?case by auto
qed simp

lemma removeRows_ok:
  assumes "specs_ok (the_grid w)" "\<not> fakeRowAdded (g_helper (the_grid w))"
  shows "fst (removeRows w) = None" "specs_ok (the_grid (snd (removeRows w)))"
proof -
  let ?g = "the_grid w"
  have "length (h_rows (g_helper ?g)) = length (rowSpecs ?g)"
    using assms in_step_length by (auto simp: specs_ok_def helper_in_step_def)
  from remove_rows_down [OF this] assms show "fst (removeRows w) = None" "specs_ok (the_grid (snd (removeRows w)))"
    by (auto simp: removeRows_def with_grid_def specs_ok_def helper_in_step_def in_step_def)
qed

lemma removeColumns_ok:
  assumes "specs_ok (the_grid w)" "\<not> fakeColumnAdded (g_helper (the_grid w))"
  shows "fst (removeColumns w) = None" "specs_ok (the_grid (snd (removeColumns w)))"
proof -
  let ?g = "the_grid w"
  have "length (h_cols (g_helper ?g)) = length (colSpecs ?g)"
    using assms in_step_length by (auto simp: specs_ok_def helper_in_step_def)
  from remove_columns_down [OF this] assms show "fst (removeColumns w) = None" "specs_ok (the_grid (snd (removeColumns w)))"
    by (auto simp: removeColumns_def with_grid_def specs_ok_def helper_in_step_def in_step_def)
qed

lemma add_pieces_ok:
  assumes "\<And>spec w. specs_ok (the_grid w) \<Longrightarrow> specs_ok (the_grid (snd (add spec w)))"
  shows "add_pieces add ps w = Some r \<Longrightarrow> specs_ok (the_grid w) \<Longrightarrow> specs_ok (the_grid (snd r))"
proof (induction ps arbitrary: w)
  case (Cons p ps)
  show ?case
  proof (cases "convertGridLength p")
    case (Inr un)
    obtain u n where un: "un = (u, Some n)" using Cons.prems(1) Inr by (cases un; cases "snd un") auto
    define sp where "sp = \<lparr>spec_id = next_spec w, spec_value = of_int n, unitType = u\<rparr>"
    define w1 where "w1 = w\<lparr>next_spec := next_spec w + 1\<rparr>"
    obtain e w2 where a: "add (Some sp) w1 = (e, w2)" by fastforce
    have "specs_ok (the_grid w1)" using Cons.prems(2) by (simp add: w1_def)
    from assms [OF this, of "Some sp"] a have ok: "specs_ok (the_grid w2)" by simp
    have "add_pieces add (p # ps) w = (case e of Some e \<Rightarrow> Some (Some e, w2) | None \<Rightarrow> add_pieces add ps w2)"
      using Inr un a by (simp add: sp_def w1_def split: option.split)
    with Cons.prems(1) Cons.IH [OF _ ok] ok show ?thesis by (auto split: option.splits)
  qed (use Cons in auto)
qed auto

section \<open>Runs\<close>

text \<open>What a client does with the rows and columns of a grid; it goes on after an error.\<close>

datatype grid_event = AddRow "item_spec option" | AddColumn "item_spec option" | RemoveRow "item_spec option"
  | RemoveColumn "item_spec option" | RemoveRows | RemoveColumns | SetRows string | SetColumns string
  | MeasureGrid "32 word" "32 word"

fun spec_event :: "'c view_scheme on_measure \<Rightarrow> rat \<Rightarrow> nat \<Rightarrow> grid_event \<Rightarrow> 'c view_scheme spec_world \<Rightarrow>
    'c view_scheme spec_world option" where
  "spec_event om density me (AddRow sp) w = Some (snd (addRow me sp w))"
| "spec_event om density me (AddColumn sp) w = Some (snd (addColumn me sp w))"
| "spec_event om density me (RemoveRow sp) w = Some (snd (removeRow me sp w))"
| "spec_event om density me (RemoveColumn sp) w = Some (snd (removeColumn me sp w))"
| "spec_event om density me RemoveRows w = Some (snd (removeRows w))"
| "spec_event om density me RemoveColumns w = Some (snd (removeColumns w))"
| "spec_event om density me (SetRows v) w = map_option snd (set_rows me v w)"
| "spec_event om density me (SetColumns v) w = map_option snd (set_columns me v w)"
| "spec_event om density me (MeasureGrid ws hs) w =
     (case grid_onMeasure om density ws hs (the_grid w) of Inl e \<Rightarrow> None | Inr g \<Rightarrow> Some (w\<lparr>the_grid := g\<rparr>))"

text \<open>Nothing is removed while the single row (column) stands in.\<close>

fun allowed :: "grid_event \<Rightarrow> 'c spec_world \<Rightarrow> bool" where
  "allowed (RemoveRow sp) w = (\<not> fakeRowAdded (g_helper (the_grid w)))"
| "allowed RemoveRows w = (\<not> fakeRowAdded (g_helper (the_grid w)))"
| "allowed (SetRows v) w = (\<not> fakeRowAdded (g_helper (the_grid w)))"
| "allowed (RemoveColumn sp) w = (\<not> fakeColumnAdded (g_helper (the_grid w)))"
| "allowed RemoveColumns w = (\<not> fakeColumnAdded (g_helper (the_grid w)))"
| "allowed (SetColumns v) w = (\<not> fakeColumnAdded (g_helper (the_grid w)))"
| "allowed _ w = True"

inductive spec_run :: "'c view_scheme on_measure \<Rightarrow> rat \<Rightarrow> nat \<Rightarrow> 'c view_scheme spec_world \<Rightarrow> grid_event list \<Rightarrow>
    'c view_scheme spec_world \<Rightarrow> bool" for om density me w0 where
  start: "spec_run om density me w0 [] w0"
| step: "spec_run om density me w0 es w \<Longrightarrow> allowed e w \<Longrightarrow> spec_event om density me e w = Some w' \<Longrightarrow>
    spec_run om density me w0 (es @ [e]) w'"

lemma spec_event_ok:
  assumes "measurable_view om" "specs_ok (the_grid w)" "allowed e w" "spec_event om density me e w = Some w'"
  shows "specs_ok (the_grid w')"
proof (cases e)
  case (SetRows v)
  then have r: "fst (removeRows w) = None" "specs_ok (the_grid (snd (removeRows w)))" using assms(2,3) removeRows_ok by auto
  with SetRows assms(4) add_pieces_ok [OF add_keeps_specs(1)] show ?thesis
    by (cases "removeRows w") (auto simp: set_rows_def)
next
  case (SetColumns v)
  then have r: "fst (removeColumns w) = None" "specs_ok (the_grid (snd (removeColumns w)))" using assms(2,3) removeColumns_ok by auto
  with SetColumns assms(4) add_pieces_ok [OF add_keeps_specs(2)] show ?thesis
    by (cases "removeColumns w") (auto simp: set_columns_def)
next
  case (MeasureGrid ws hs)
  with assms child_views.measure_keeps_specs [OF child_views.intro [OF assms(1)] assms(2)] show ?thesis
    by (auto split: sum.splits)
qed (use assms add_keeps_specs removeRow_ok removeColumn_ok removeRows_ok(2) removeColumns_ok(2) in auto)

text \<open>C21: The rows and columns of a grid and the groups its helper measures stay in step - a group per spec, in their
  order, after the single group when that stands in - in every run of additions, removals, settings from strings and measure
  passes, failed ones included, with children that can be measured. The run may not remove or set rows while
  the single row group stands in for them, nor columns while the single column group does.\<close>

theorem groups_stay_in_step:
  assumes "measurable_view om" "specs_ok (the_grid w)" "spec_run om density me w es w'"
  shows "specs_ok (the_grid w')"
  using assms(3,2) by (induction rule: spec_run.induct) (auto intro: spec_event_ok [OF assms(1)])

definition no_specs :: "view list \<Rightarrow> view spec_world" where
  "no_specs vs = \<lparr>the_grid = grid_of [] [] vs, owner = (\<lambda>_. None), next_spec = 10\<rparr>"

definition measure_pass :: grid_event where
  "measure_pass = MeasureGrid (makeMeasureSpec 100 EXACTLY) (makeMeasureSpec 100 AT_MOST)"

definition after_events :: "grid_event list \<Rightarrow> view spec_world \<Rightarrow> view spec_world option" where
  "after_events es w = foldl (\<lambda>o1 e. Option.bind o1 (spec_event (view_onMeasure None) 1 1 e)) (Some w) es"

definition row_ids :: "'c spec_world \<Rightarrow> nat list" where
  "row_ids w = map spec_id (rowSpecs (the_grid w))"

definition group_ids :: "'c spec_world \<Rightarrow> nat list" where
  "group_ids w = map (spec_id \<circ> rowOrColumn) (h_rows (g_helper (the_grid w)))"

theorem groups_stay_in_step_witness:
  "\<exists>w. spec_run (view_onMeasure None) 1 1 (no_specs [plain_view]) [SetRows ''auto, 2*,50'', SetColumns ''x''] w \<and>
     specs_ok (the_grid w) \<and> row_ids w = [10, 11, 12] \<and> group_ids w = [10, 11, 12]"
proof -
  let ?om = "view_onMeasure None" and ?w0 = "no_specs [plain_view]"
  define w1 where "w1 = the (spec_event ?om 1 1 (SetRows ''auto, 2*,50'') ?w0)"
  define w2 where "w2 = the (spec_event ?om 1 1 (SetColumns ''x'') w1)"
  have "spec_event ?om 1 1 (SetRows ''auto, 2*,50'') ?w0 \<noteq> None" by code_simp
  then have e1: "spec_event ?om 1 1 (SetRows ''auto, 2*,50'') ?w0 = Some w1" by (auto simp: w1_def)
  have "spec_event ?om 1 1 (SetColumns ''x'') w1 \<noteq> None" unfolding w1_def by code_simp
  then have e2: "spec_event ?om 1 1 (SetColumns ''x'') w1 = Some w2" by (auto simp: w2_def)
  have a: "allowed (SetRows ''auto, 2*,50'') ?w0" by code_simp
  have "allowed (SetColumns ''x'') w1" unfolding w1_def by code_simp
  with spec_run.step [OF spec_run.step [OF spec_run.start a e1] _ e2]
  have run: "spec_run ?om 1 1 ?w0 [SetRows ''auto, 2*,50'', SetColumns ''x''] w2" by simp
  have "specs_ok (the_grid ?w0)"
    by (simp add: specs_ok_def helper_in_step_def in_step_def no_specs_def grid_of_def helper_of_def view.extend_def Let_def)
  from groups_stay_in_step [OF leaf.measurable_view_axioms this run] have "specs_ok (the_grid w2)" .
  moreover have "row_ids w2 = [10, 11, 12]" "group_ids w2 = [10, 11, 12]" unfolding w2_def w1_def by code_simp+
  ultimately show ?thesis using run by blast
qed

section \<open>What goes wrong\<close>

text \<open>\<open>removeRow\<close> keeps the owner of the row: it can be added to no grid again.\<close>

theorem removed_row_keeps_its_owner:
  "let sp = defaultItemSpec 3; w = snd (removeRow 1 (Some sp) (snd (addRow 1 (Some sp) (no_specs [])))) in
   row_ids w = [] \<and> fst (addRow 1 (Some sp) w) = Some ''itemSpec is already added to GridLayout.'' \<and>
   fst (addRow 2 (Some sp) w) = Some ''itemSpec is already added to GridLayout.''"
  by code_simp

text \<open>A grid measured without rows holds the single group, which the next measuring takes out again when
  there are others. A row removed in between takes out the group before its own, and the grid measures the
  removed row in the place of the one that is left.\<close>

theorem removal_before_measuring_removes_another:
  "let w = the (after_events [measure_pass, AddRow (Some (defaultItemSpec 3)), AddRow (Some (defaultItemSpec 4)),
     RemoveRow (Some (defaultItemSpec 4)), measure_pass] (no_specs [])) in
   row_ids w = [3] \<and> group_ids w = [4]"
  by code_simp

text \<open>\<open>ItemSpec\<close> refuses a negative value, but a length that is parsed is not checked.\<close>

theorem negative_lengths_are_parsed:
  "newItemSpec 0 (Some (- 5)) ''pixel'' = Inl ''Value should not be negative, NaN or Infinity: '' \<and>
   convertGridLength ''-5'' = Inr (PixelUnit, Some (- 5))"
  by code_simp

text \<open>\<open>measureToFix\<close> is counted up in every measuring and never reset, \<open>currentMeasureToFixCount\<close> starts
  again: from the second measuring on, an automatic column counts as not to be fixed though all its children are
  measured, and the phases run in another order.\<close>

theorem measured_again_is_not_fixed:
  "let auto = \<lparr>spec_id = 3, spec_value = 1, unitType = AutoUnit\<rparr>;
     w = snd (addColumn 1 (Some auto) (no_specs [plain_view]));
     fixed = (\<lambda>w. map getCanBeFixed (h_cols (g_helper (the_grid w)))) in
   map_option fixed (after_events [measure_pass] w) = Some [True] \<and>
   map_option fixed (after_events [measure_pass, measure_pass] w) = Some [False]"
  by code_simp

end
