(* ===== verification/Observable.thy ===== *)
theory Observable
  imports NS_Prelude
begin

text \<open>
  \<open>Observable\<close> and \<open>WrappedValue\<close> (\<^verbatim>\<open>data/observable\<close> of \<^verbatim>\<open>vendor.js\<close>).

  A running \<open>notify\<close> holds the list of listeners it iterates over, while callbacks may change it, delete its
  entry in \<open>_observers\<close> or create another: the lists live in a store, and \<open>_observers\<close> maps event names to
  addresses. A callback is a function of the state, given as a parameter (\<open>call\<close>): it gets the callback's
  name, its \<open>thisArg\<close> and the data, and may use every operation of the observable. Whatever may throw
  returns the error, if any, and the state it leaves. \<open>calls\<close> records the calls made.

  Event names are not members of \<open>Object.prototype\<close>; values are compared as \<open>===\<close> compares identities.
\<close>

section \<open>The state\<close>

datatype 'v js = Undef | Val 'v | Wrapper nat

record listener =
  l_callback :: nat
  l_this :: "nat option"
  l_once :: bool

datatype change_action = Add | Delete | Update | Splice

record 'v change =
  ch_action :: change_action
  ch_index :: int
  ch_removed :: "'v js list"
  ch_added :: nat

datatype 'v event_data = PropertyChange string "'v js" "'v js" | Plain string | Change "'v change"

record 'v observable =
  observers :: "(string \<times> nat) list"
  lists :: "listener list list"
  props :: "(string \<times> 'v js) list"
  wrapped_values :: "'v js list"
  wrapped_index :: nat
  calls :: "(nat \<times> nat option \<times> 'v event_data) list"

type_synonym ('v, 's) callbacks = "nat \<Rightarrow> nat option \<Rightarrow> 'v event_data \<Rightarrow> 's \<Rightarrow> 's run"

definition new_observable :: "'v observable" where
  "new_observable = \<lparr>observers = [], lists = [], props = [], wrapped_values = replicate 5 Undef, wrapped_index = 0,
     calls = []\<rparr>"

section \<open>Listeners\<close>

definition getEventList :: "string \<Rightarrow> bool \<Rightarrow> ('v, 'z) observable_scheme \<Rightarrow>
    (string + nat option) \<times> ('v, 'z) observable_scheme" where
  "getEventList ev createIfNeeded s =
     (if ev = [] then (Inl ''EventName must be valid string.'', s)
      else (case map_of (observers s) ev of
          Some a \<Rightarrow> (Inr (Some a), s)
        | None \<Rightarrow> if createIfNeeded
            then (Inr (Some (length (lists s))),
                  s\<lparr>observers := obj_set ev (length (lists s)) (observers s), lists := lists s @ [[]]\<rparr>)
            else (Inr None, s)))"

definition push_listener :: "listener \<Rightarrow> string \<Rightarrow> ('v, 'z) observable_scheme \<Rightarrow> ('v, 'z) observable_scheme run" where
  "push_listener l ev s =
     (case getEventList ev True s of
        (Inl e, s') \<Rightarrow> (Some e, s')
      | (Inr None, s') \<Rightarrow> (Some ''Cannot read property 'push' of undefined'', s')
      | (Inr (Some a), s') \<Rightarrow> (None, s'\<lparr>lists := (lists s')[a := lists s' ! a @ [l]]\<rparr>))"

fun each_event :: "(string \<Rightarrow> 's \<Rightarrow> 's run) \<Rightarrow> string list \<Rightarrow> 's \<Rightarrow> 's run" where
  "each_event f [] s = (None, s)"
| "each_event f (e # es) s = seq (f (trim e) s) (each_event f es)"

text \<open>\<open>None\<close> for an argument of the wrong type.\<close>

definition addEventListener :: "string option \<Rightarrow> nat option \<Rightarrow> nat option \<Rightarrow> ('v, 'z) observable_scheme \<Rightarrow>
    ('v, 'z) observable_scheme run" where
  "addEventListener eventNames callback thisArg s =
     (case eventNames of
        None \<Rightarrow> (Some ''Events name(s) must be string.'', s)
      | Some names \<Rightarrow>
          (case callback of
             None \<Rightarrow> (Some ''callback must be function.'', s)
           | Some c \<Rightarrow> each_event (push_listener \<lparr>l_callback = c, l_this = thisArg, l_once = False\<rparr>)
                        (split_char CHR '','' names) s))"

definition once :: "string \<Rightarrow> nat \<Rightarrow> nat option \<Rightarrow> ('v, 'z) observable_scheme \<Rightarrow> ('v, 'z) observable_scheme run" where
  "once ev callback thisArg s = push_listener \<lparr>l_callback = callback, l_this = thisArg, l_once = True\<rparr> ev s"

fun indexOfListener :: "listener list \<Rightarrow> nat \<Rightarrow> nat option \<Rightarrow> nat option" where
  "indexOfListener [] callback thisArg = None"
| "indexOfListener (l # ls) callback thisArg =
     (if l_callback l = callback \<and> (thisArg \<noteq> None \<longrightarrow> l_this l = thisArg) then Some 0
      else map_option Suc (indexOfListener ls callback thisArg))"

datatype callback_arg = NoCallback | NotFunction | Callback nat

definition remove_listener :: "callback_arg \<Rightarrow> nat option \<Rightarrow> string \<Rightarrow> ('v, 'z) observable_scheme \<Rightarrow>
    ('v, 'z) observable_scheme run" where
  "remove_listener callback thisArg ev s =
     (case callback of
        Callback c \<Rightarrow>
          (case getEventList ev False s of
             (Inl e, s') \<Rightarrow> (Some e, s')
           | (Inr None, s') \<Rightarrow> (None, s')
           | (Inr (Some a), s') \<Rightarrow>
               (let l = (case indexOfListener (lists s' ! a) c thisArg of
                           Some i \<Rightarrow> splice1 i (lists s' ! a) | None \<Rightarrow> lists s' ! a);
                    s1 = s'\<lparr>lists := (lists s')[a := l]\<rparr>
                in (None, if l = [] then s1\<lparr>observers := obj_del ev (observers s1)\<rparr> else s1)))
      | _ \<Rightarrow> (None, s\<lparr>observers := obj_del ev (observers s)\<rparr>))"

definition removeEventListener :: "string option \<Rightarrow> callback_arg \<Rightarrow> nat option \<Rightarrow> ('v, 'z) observable_scheme \<Rightarrow>
    ('v, 'z) observable_scheme run" where
  "removeEventListener eventNames callback thisArg s =
     (case eventNames of
        None \<Rightarrow> (Some ''Events name(s) must be string.'', s)
      | Some names \<Rightarrow>
          if callback = NotFunction then (Some ''callback must be function.'', s)
          else each_event (remove_listener callback thisArg) (split_char CHR '','' names) s)"

definition hasListeners :: "string \<Rightarrow> ('v, 'z) observable_scheme \<Rightarrow> bool" where
  "hasListeners ev s \<longleftrightarrow> map_of (observers s) ev \<noteq> None"

section \<open>Notification\<close>

text \<open>\<open>for (i = observers.length - 1; i >= 0; i--)\<close> on the list at \<open>a\<close>; \<open>data\<close> is an object, read when a
  callback gets it.\<close>

definition call_listener :: "('v, ('v, 'z) observable_scheme) callbacks \<Rightarrow> (('v, 'z) observable_scheme \<Rightarrow> 'v event_data) \<Rightarrow>
    listener \<Rightarrow> ('v, 'z) observable_scheme \<Rightarrow> ('v, 'z) observable_scheme run" where
  "call_listener call data l s =
     call (l_callback l) (l_this l) (data s) (s\<lparr>calls := calls s @ [(l_callback l, l_this l, data s)]\<rparr>)"

fun notify_loop :: "('v, ('v, 'z) observable_scheme) callbacks \<Rightarrow> (('v, 'z) observable_scheme \<Rightarrow> 'v event_data) \<Rightarrow>
    nat \<Rightarrow> nat \<Rightarrow> ('v, 'z) observable_scheme \<Rightarrow> ('v, 'z) observable_scheme run" where
  "notify_loop call data a 0 s = (None, s)"
| "notify_loop call data a (Suc i) s =
     (if i < length (lists s ! a) then
        (let entry = lists s ! a ! i;
             s1 = (if l_once entry then s\<lparr>lists := (lists s)[a := splice1 i (lists s ! a)]\<rparr> else s)
         in seq (call_listener call data entry s1) (notify_loop call data a i))
      else (Some ''Cannot read property 'once' of undefined'', s))"

definition notify :: "('v, ('v, 'z) observable_scheme) callbacks \<Rightarrow> string \<Rightarrow> (('v, 'z) observable_scheme \<Rightarrow> 'v event_data) \<Rightarrow>
    ('v, 'z) observable_scheme \<Rightarrow> ('v, 'z) observable_scheme run" where
  "notify call ev data s =
     (case map_of (observers s) ev of
        None \<Rightarrow> (None, s)
      | Some a \<Rightarrow> notify_loop call data a (length (lists s ! a)) s)"

definition notifyPropertyChange :: "('v, ('v, 'z) observable_scheme) callbacks \<Rightarrow> string \<Rightarrow> 'v js \<Rightarrow> 'v js \<Rightarrow>
    ('v, 'z) observable_scheme \<Rightarrow> ('v, 'z) observable_scheme run" where
  "notifyPropertyChange call name v old s = notify call ''propertyChange'' (\<lambda>_. PropertyChange name v old) s"

definition emit :: "('v, ('v, 'z) observable_scheme) callbacks \<Rightarrow> string \<Rightarrow> ('v, 'z) observable_scheme \<Rightarrow>
    ('v, 'z) observable_scheme run" where
  "emit call eventNames s = each_event (\<lambda>ev. notify call ev (\<lambda>_. Plain ev)) (split_char CHR '','' eventNames) s"

section \<open>Properties and wrapped values\<close>

definition get :: "string \<Rightarrow> ('v, 'z) observable_scheme \<Rightarrow> 'v js" where
  "get name s = (case map_of (props s) name of None \<Rightarrow> Undef | Some v \<Rightarrow> v)"

definition unwrap :: "'v js \<Rightarrow> ('v, 'z) observable_scheme \<Rightarrow> 'v js" where
  "unwrap v s = (case v of Wrapper i \<Rightarrow> wrapped_values s ! i | _ \<Rightarrow> v)"

text \<open>There are five wrappers, used in turn.\<close>

definition wrap :: "'v js \<Rightarrow> ('v, 'z) observable_scheme \<Rightarrow> 'v js \<times> ('v, 'z) observable_scheme" where
  "wrap v s = (let i = wrapped_index s mod 5
     in (Wrapper i, s\<lparr>wrapped_values := (wrapped_values s)[i := v], wrapped_index := wrapped_index s + 1\<rparr>))"

definition set_prop :: "('v, ('v, 'z) observable_scheme) callbacks \<Rightarrow> string \<Rightarrow> 'v js \<Rightarrow> ('v, 'z) observable_scheme \<Rightarrow>
    ('v, 'z) observable_scheme run" where
  "set_prop call name v s =
     (let oldValue = get name s in
      if oldValue = v then (None, s)
      else (let newValue = unwrap v s
            in notifyPropertyChange call name newValue oldValue (s\<lparr>props := obj_set name newValue (props s)\<rparr>)))"

section \<open>Callbacks that use the observable\<close>

datatype 'v act = On string nat | Once string nat | Off string callback_arg | Emit string | SetProp string "'v js" | Throw string

fun exec :: "('v, ('v, 'z) observable_scheme) callbacks \<Rightarrow> 'v act list \<Rightarrow> ('v, 'z) observable_scheme \<Rightarrow>
    ('v, 'z) observable_scheme run" where
  "exec call [] s = (None, s)"
| "exec call (a # as) s =
     seq (case a of
            On ev c \<Rightarrow> addEventListener (Some ev) (Some c) None s
          | Once ev c \<Rightarrow> once ev c None s
          | Off ev c \<Rightarrow> removeEventListener (Some ev) c None s
          | Emit evs \<Rightarrow> emit call evs s
          | SetProp n v \<Rightarrow> set_prop call n v s
          | Throw e \<Rightarrow> (Some e, s))
       (exec call as)"

text \<open>The nesting of calls, bounded by the size of the stack.\<close>

primrec call_code :: "(nat \<Rightarrow> 'v act list) \<Rightarrow> nat \<Rightarrow> ('v, ('v, 'z) observable_scheme) callbacks" where
  "call_code code 0 c this d s = (Some ''Maximum call stack size exceeded'', s)"
| "call_code code (Suc n) c this d s = exec (call_code code n) (code c) s"

end
