(* ===== verification/Observable_Notify.thy ===== *)
theory Observable_Notify
  imports Observable
begin

text \<open>
  Properties of \<open>Observable\<close>: every operation keeps the store of listeners well formed, \<open>off\<close> undoes \<open>on\<close>,
  a notification reaches every listener although callbacks add listeners and notify, and what happens
  when they remove some.
\<close>

section \<open>The store of listeners\<close>

definition wf_observers :: "('v, 'z) observable_scheme \<Rightarrow> bool" where
  "wf_observers s \<longleftrightarrow> distinct (map fst (observers s)) \<and> distinct (map snd (observers s)) \<and>
     (\<forall>a \<in> snd ` set (observers s). a < length (lists s))"

definition listeners_of :: "string \<Rightarrow> ('v, 'z) observable_scheme \<Rightarrow> listener list" where
  "listeners_of ev s = (case map_of (observers s) ev of None \<Rightarrow> [] | Some a \<Rightarrow> lists s ! a)"

lemma new_observable_wf: "wf_observers new_observable"
  by (simp add: wf_observers_def new_observable_def)

lemma obj_set_fresh: "k \<notin> fst ` set ms \<Longrightarrow> obj_set k v ms = ms @ [(k, v)]"
  by (induction k v ms rule: obj_set.induct) auto

lemma map_of_snd: "map_of ms k = Some v \<Longrightarrow> v \<in> snd ` set ms"
  by (force dest: map_of_SomeD)

lemma wf_addresses:
  assumes "wf_observers s" "map_of (observers s) ev = Some a" "map_of (observers s) ev' = Some b"
  shows "a < length (lists s)" "a = b \<longleftrightarrow> ev = ev'"
proof -
  show "a < length (lists s)" using assms(1) map_of_snd [OF assms(2)] unfolding wf_observers_def by blast
  have "distinct (map snd (observers s))" using assms(1) by (simp add: wf_observers_def)
  then have "inj_on snd (set (observers s))" by (simp add: distinct_map)
  from inj_onD [OF this, of "(ev, a)" "(ev', b)"] map_of_SomeD [OF assms(2)] map_of_SomeD [OF assms(3)]
  show "a = b \<longleftrightarrow> ev = ev'" using assms(2,3) by auto
qed

lemma getEventList_create:
  assumes "wf_observers s" "ev \<noteq> []"
  obtains a s' where "getEventList ev True s = (Inr (Some a), s')" "wf_observers s'"
    "map_of (observers s') ev = Some a" "\<And>ev'. listeners_of ev' s' = listeners_of ev' s"
proof (cases "map_of (observers s) ev")
  case (Some a)
  with assms show thesis by (intro that [of a s]) (simp_all add: getEventList_def)
next
  case None
  let ?s = "s\<lparr>observers := obj_set ev (length (lists s)) (observers s), lists := lists s @ [[]]\<rparr>"
  from None have n: "ev \<notin> fst ` set (observers s)" by (simp add: map_of_eq_None_iff)
  show thesis
  proof (rule that [of "length (lists s)" ?s])
    show "getEventList ev True s = (Inr (Some (length (lists s))), ?s)" using assms(2) None by (simp add: getEventList_def)
    show "wf_observers ?s" using assms(1) n by (auto simp: wf_observers_def obj_set_fresh less_Suc_eq)
    show "map_of (observers ?s) ev = Some (length (lists s))" by simp
    show "listeners_of ev' ?s = listeners_of ev' s" for ev'
      using None wf_addresses(1) [OF assms(1)] by (auto simp: listeners_of_def nth_append split: option.split)
  qed
qed

lemma update_list:
  assumes "wf_observers s" "map_of (observers s) ev = Some a" "s' = s\<lparr>lists := (lists s)[a := l]\<rparr>"
  shows "wf_observers s'" "listeners_of ev' s' = (if ev' = ev then l else listeners_of ev' s)"
proof -
  show "wf_observers s'" using assms(1) by (simp add: assms(3) wf_observers_def)
  show "listeners_of ev' s' = (if ev' = ev then l else listeners_of ev' s)"
    using wf_addresses [OF assms(1,2)] assms(2)
    by (auto simp: assms(3) listeners_of_def nth_list_update split: option.split)
qed

lemma push_listener_ok:
  assumes "wf_observers s" "ev \<noteq> []"
  obtains s' where "push_listener l ev s = (None, s')" "wf_observers s'"
    "\<And>ev'. listeners_of ev' s' = (if ev' = ev then listeners_of ev s @ [l] else listeners_of ev' s)"
proof -
  obtain a s1 where g: "getEventList ev True s = (Inr (Some a), s1)" "wf_observers s1"
    "map_of (observers s1) ev = Some a" "\<And>ev'. listeners_of ev' s1 = listeners_of ev' s"
    using getEventList_create [OF assms] by metis
  have "lists s1 ! a = listeners_of ev s" using g(4) [of ev] g(3) by (simp add: listeners_of_def [of _ s1])
  with update_list [OF g(2,3) refl, where l = "lists s1 ! a @ [l]"] g(1,4) show thesis
    by (intro that [of "s1\<lparr>lists := (lists s1)[a := lists s1 ! a @ [l]]\<rparr>"]) (simp_all add: push_listener_def)
qed

definition without :: "nat \<Rightarrow> nat option \<Rightarrow> listener list \<Rightarrow> listener list" where
  "without c this ls = (case indexOfListener ls c this of Some i \<Rightarrow> splice1 i ls | None \<Rightarrow> ls)"

lemma delete_event:
  assumes "wf_observers s" "s' = s\<lparr>observers := obj_del ev (observers s)\<rparr>"
  shows "wf_observers s'" "listeners_of ev' s' = (if ev' = ev then [] else listeners_of ev' s)"
proof -
  show "wf_observers s'" using assms by (auto simp: wf_observers_def obj_del_def distinct_map_filter)
  show "listeners_of ev' s' = (if ev' = ev then [] else listeners_of ev' s)" by (cases "map_of (observers s) ev'") (simp_all add: assms(2) listeners_of_def)
qed

lemma remove_listener_ok:
  assumes "wf_observers s" "ev \<noteq> []"
  obtains s' where "remove_listener (Callback c) this ev s = (None, s')" "wf_observers s'"
    "\<And>ev'. listeners_of ev' s' = (if ev' = ev then without c this (listeners_of ev s) else listeners_of ev' s)"
proof (cases "map_of (observers s) ev")
  case None
  with assms show thesis
    by (intro that [of s]) (simp_all add: remove_listener_def getEventList_def listeners_of_def without_def)
next
  case (Some a)
  define l where "l = without c this (lists s ! a)"
  define s1 where "s1 = s\<lparr>lists := (lists s)[a := l]\<rparr>"
  note u = update_list [OF assms(1) Some s1_def]
  have l: "l = without c this (listeners_of ev s)" using Some by (simp add: l_def listeners_of_def)
  define s2 where "s2 = (if l = [] then s1\<lparr>observers := obj_del ev (observers s1)\<rparr> else s1)"
  have "remove_listener (Callback c) this ev s = (None, s2)"
    using Some assms(2) by (simp add: remove_listener_def getEventList_def s2_def s1_def l_def without_def Let_def)
  moreover have "wf_observers s2" using u(1) delete_event(1) [OF u(1) refl] by (simp add: s2_def)
  moreover have "listeners_of ev' s2 = (if ev' = ev then without c this (listeners_of ev s) else listeners_of ev' s)" for ev'
    using u(2) delete_event(2) [OF u(1) refl] by (simp add: s2_def l [symmetric])
  ultimately show thesis by (rule that)
qed

section \<open>Lists of event names\<close>

definition names :: "string \<Rightarrow> string list" where
  "names eventNames = map trim (split_char CHR '','' eventNames)"

lemma each_push:
  assumes "wf_observers s" "[] \<notin> trim ` set es"
  shows "\<exists>s'. each_event (push_listener l) es s = (None, s') \<and> wf_observers s' \<and>
    (\<forall>ev. listeners_of ev s' = listeners_of ev s @ replicate (count_list (map trim es) ev) l)"
  using assms
proof (induction es arbitrary: s)
  case (Cons e es)
  obtain s1 where s1: "push_listener l (trim e) s = (None, s1)" "wf_observers s1"
    "\<And>ev'. listeners_of ev' s1 = (if ev' = trim e then listeners_of (trim e) s @ [l] else listeners_of ev' s)"
    using push_listener_ok [OF Cons.prems(1), of "trim e"] Cons.prems(2) by (metis image_eqI list.set_intros(1))
  have "[] \<notin> trim ` set es" using Cons.prems(2) by simp
  from Cons.IH [OF s1(2) this] s1 show ?case by auto
qed simp

lemma each_remove:
  assumes "wf_observers s" "[] \<notin> trim ` set es" "distinct (map trim es)"
  shows "\<exists>s'. each_event (remove_listener (Callback c) this) es s = (None, s') \<and> wf_observers s' \<and>
    (\<forall>ev. listeners_of ev s' = (if ev \<in> set (map trim es) then without c this (listeners_of ev s) else listeners_of ev s))"
  using assms
proof (induction es arbitrary: s)
  case (Cons e es)
  obtain s1 where s1: "remove_listener (Callback c) this (trim e) s = (None, s1)" "wf_observers s1"
    "\<And>ev'. listeners_of ev' s1 = (if ev' = trim e then without c this (listeners_of (trim e) s) else listeners_of ev' s)"
    using remove_listener_ok [OF Cons.prems(1), of "trim e"] Cons.prems(2) by (metis image_eqI list.set_intros(1))
  have "[] \<notin> trim ` set es" "distinct (map trim es)" using Cons.prems(2,3) by simp_all
  from Cons.IH [OF s1(2) this] s1 Cons.prems(3) show ?case by auto
qed simp

lemma distinct_count: "distinct xs \<Longrightarrow> x \<in> set xs \<Longrightarrow> count_list xs x = 1"
  by (induction xs) (auto simp: count_list_0_iff)

lemma without_append:
  assumes "indexOfListener ls c this = None" "l_callback l = c" "this \<noteq> None \<longrightarrow> l_this l = this"
  shows "without c this (ls @ [l]) = ls"
proof -
  have "indexOfListener (ls @ [l]) c this = Some (length ls)"
    using assms(1) by (induction ls) (use assms(2,3) in \<open>auto split: if_splits\<close>)
  then show ?thesis by (simp add: without_def splice1_def)
qed

text \<open>\<open>off\<close> undoes \<open>on\<close>: registering a callback that is not registered yet for some events, given as a
  comma-separated list, and removing it again leaves every event with the listeners it had, and neither throws.\<close>

theorem off_undoes_on:
  assumes "wf_observers s" "[] \<notin> set (names evs)" "distinct (names evs)"
    and "\<forall>ev \<in> set (names evs). indexOfListener (listeners_of ev s) c this = None"
  shows "\<exists>s1 s2. addEventListener (Some evs) (Some c) this s = (None, s1) \<and>
    removeEventListener (Some evs) (Callback c) this s1 = (None, s2) \<and>
    wf_observers s2 \<and> (\<forall>ev. listeners_of ev s2 = listeners_of ev s)"
proof -
  let ?l = "\<lparr>l_callback = c, l_this = this, l_once = False\<rparr>" and ?es = "split_char CHR '','' evs"
  have ne: "[] \<notin> trim ` set ?es" and d: "distinct (map trim ?es)" using assms(2,3) by (simp_all add: names_def)
  obtain s1 where s1: "each_event (push_listener ?l) ?es s = (None, s1)" "wf_observers s1"
    "\<And>ev. listeners_of ev s1 = listeners_of ev s @ replicate (count_list (map trim ?es) ev) ?l"
    using each_push [OF assms(1) ne] by blast
  obtain s2 where s2: "each_event (remove_listener (Callback c) this) ?es s1 = (None, s2)" "wf_observers s2"
    "\<And>ev. listeners_of ev s2 = (if ev \<in> set (map trim ?es) then without c this (listeners_of ev s1) else listeners_of ev s1)"
    using each_remove [OF s1(2) ne d] by blast
  have "listeners_of ev s2 = listeners_of ev s" for ev
  proof (cases "ev \<in> set (map trim ?es)")
    case True
    with d have "count_list (map trim ?es) ev = 1" by (rule distinct_count)
    with True s1(3) s2(3) without_append [of "listeners_of ev s" c this ?l] assms(4) show ?thesis
      by (simp add: names_def)
  next
    case False
    then have "count_list (map trim ?es) ev = 0" by (rule count_notin)
    with False s1(3) s2(3) show ?thesis by simp
  qed
  with s1(1) s2(1,2) show ?thesis
    by (intro exI [of _ s1] exI [of _ s2]) (simp add: addEventListener_def removeEventListener_def)
qed

theorem off_undoes_on_witness:
  "\<exists>s1 s2. addEventListener (Some ''tap, loaded'') (Some 7) None (new_observable :: nat observable) = (None, s1) \<and>
     removeEventListener (Some ''tap, loaded'') (Callback 7) None s1 = (None, s2) \<and> \<not> hasListeners ''tap'' s2"
proof -
  have n: "names ''tap, loaded'' = [''tap'', ''loaded'']" by code_simp
  have "\<forall>ev \<in> set (names ''tap, loaded''). indexOfListener (listeners_of ev (new_observable :: nat observable)) 7 None = None"
    by (simp add: n listeners_of_def new_observable_def)
  from off_undoes_on [OF new_observable_wf _ _ this] n obtain s1 s2 where
    "addEventListener (Some ''tap, loaded'') (Some 7) None (new_observable :: nat observable) = (None, s1)"
    "removeEventListener (Some ''tap, loaded'') (Callback 7) None s1 = (None, s2)" by auto
  moreover have "(case addEventListener (Some ''tap, loaded'') (Some 7) None (new_observable :: nat observable) of
      (_, s1) \<Rightarrow> case removeEventListener (Some ''tap, loaded'') (Callback 7) None s1 of (_, s2) \<Rightarrow> \<not> hasListeners ''tap'' s2)"
    by code_simp
  ultimately show ?thesis by auto
qed

section \<open>Notification\<close>

text \<open>Callbacks that add listeners and notify, but remove nothing from the list at \<open>a\<close> and do not throw.\<close>

definition additive :: "nat \<Rightarrow> ('v, ('v, 'z) observable_scheme) callbacks \<Rightarrow> bool" where
  "additive a call \<longleftrightarrow> (\<forall>c t d s. a < length (lists s) \<longrightarrow> (\<exists>s'. call c t d s = (None, s') \<and> a < length (lists s') \<and>
     prefix (lists s ! a) (lists s' ! a) \<and> prefix (calls s) (calls s')))"

lemma additiveE:
  assumes "additive a call" "a < length (lists s)"
  obtains s' ex ls where "call c t d s = (None, s')" "a < length (lists s')" "lists s' ! a = lists s ! a @ ex"
    "calls s' = calls s @ ls"
  using assms unfolding additive_def prefix_def by metis

definition call_of :: "'v event_data \<Rightarrow> listener \<Rightarrow> nat \<times> nat option \<times> 'v event_data" where
  "call_of d l = (l_callback l, l_this l, d)"

text \<open>The listeners that are registered when the notification starts, each called once, in turn: no matter what
  they register.\<close>

fun call_in_turn :: "('v, ('v, 'z) observable_scheme) callbacks \<Rightarrow> 'v event_data \<Rightarrow> nat \<Rightarrow> listener list \<Rightarrow>
    ('v, 'z) observable_scheme \<Rightarrow> ('v, 'z) observable_scheme run" where
  "call_in_turn call d a [] s = (None, s)"
| "call_in_turn call d a (l # ls) s =
     seq (call_listener call (\<lambda>_. d) l
            (if l_once l then s\<lparr>lists := (lists s)[a := splice1 (length ls) (lists s ! a)]\<rparr> else s))
       (call_in_turn call d a ls)"

text \<open>Callbacks that do not notify themselves.\<close>

definition silent :: "nat \<Rightarrow> ('v, ('v, 'z) observable_scheme) callbacks \<Rightarrow> bool" where
  "silent a call \<longleftrightarrow> (\<forall>c t d s. a < length (lists s) \<longrightarrow> calls (snd (call c t d s)) = calls s)"

lemma notify_loop_calls:
  assumes "additive a call"
  shows "lists s ! a = take i l @ rest \<Longrightarrow> i \<le> length l \<Longrightarrow> a < length (lists s) \<Longrightarrow>
    \<exists>s' ls. notify_loop call (\<lambda>_. d) a i s = (None, s') \<and> a < length (lists s') \<and>
      prefix (filter (\<lambda>l. \<not> l_once l) (take i l) @ rest) (lists s' ! a) \<and>
      calls s' = calls s @ ls \<and> subseq (map (call_of d) (rev (take i l))) ls \<and>
      (silent a call \<longrightarrow> ls = map (call_of d) (rev (take i l))) \<and>
      call_in_turn call d a (rev (take i l)) s = (None, s')"
proof (induction i arbitrary: s rest)
  case (Suc i)
  let ?l = "l ! i"
  have i: "i < length l" "length (take i l) = i" using Suc.prems(2) by simp_all
  have at: "lists s ! a = take i l @ ?l # rest" using Suc.prems(1) i(1) by (simp add: take_Suc_conv_app_nth)
  then have n: "lists s ! a ! i = ?l" "splice1 i (lists s ! a) = take i l @ rest" "i < length (lists s ! a)"
    using i by (simp_all add: nth_append splice1_def)
  define keep where "keep = (if l_once ?l then rest else ?l # rest)"
  define s1 where "s1 = (if l_once ?l then s\<lparr>lists := (lists s)[a := splice1 i (lists s ! a)]\<rparr> else s)"
  define s2 where "s2 = s1\<lparr>calls := calls s1 @ [call_of d ?l]\<rparr>"
  have s2: "a < length (lists s2)" "lists s2 ! a = take i l @ keep" "calls s2 = calls s @ [call_of d ?l]"
    using Suc.prems(3) at n by (simp_all add: s2_def s1_def keep_def)
  obtain s3 ex ls where s3: "call (l_callback ?l) (l_this ?l) d s2 = (None, s3)" "a < length (lists s3)"
    "lists s3 ! a = lists s2 ! a @ ex" "calls s3 = calls s2 @ ls"
    using additiveE [OF assms s2(1)] by metis
  have quiet: "ls = []" if "silent a call"
    using that s2(1) s3(1,4) unfolding silent_def by (metis append_self_conv snd_conv)
  obtain s' ls' where s': "notify_loop call (\<lambda>_. d) a i s3 = (None, s')" "a < length (lists s')"
    "prefix (filter (\<lambda>l. \<not> l_once l) (take i l) @ keep @ ex) (lists s' ! a)"
    "calls s' = calls s3 @ ls'" "subseq (map (call_of d) (rev (take i l))) ls'"
    "silent a call \<longrightarrow> ls' = map (call_of d) (rev (take i l))" "call_in_turn call d a (rev (take i l)) s3 = (None, s')"
    using Suc.IH [of s3 "keep @ ex"] s3 s2(2) i(1) by auto
  have "notify_loop call (\<lambda>_. d) a (Suc i) s = (None, s')"
    using n s3(1) s'(1) by (simp add: call_listener_def s1_def [symmetric] s2_def call_of_def Let_def)
  moreover have "filter (\<lambda>l. \<not> l_once l) (take (Suc i) l) @ rest = filter (\<lambda>l. \<not> l_once l) (take i l) @ keep"
    using i(1) by (simp add: take_Suc_conv_app_nth keep_def)
  then have "prefix (filter (\<lambda>l. \<not> l_once l) (take (Suc i) l) @ rest) (lists s' ! a)"
    using s'(3) by (metis append.assoc append_prefixD)
  moreover have "calls s' = calls s @ call_of d ?l # ls @ ls'" using s'(4) s3(4) s2(3) by simp
  moreover have "subseq (map (call_of d) (rev (take (Suc i) l))) (call_of d ?l # ls @ ls')"
    using s'(5) i(1) by (simp add: take_Suc_conv_app_nth list_emb_append2)
  moreover have "silent a call \<longrightarrow> call_of d ?l # ls @ ls' = map (call_of d) (rev (take (Suc i) l))"
    using s'(6) quiet i(1) by (simp add: take_Suc_conv_app_nth)
  moreover have "call_in_turn call d a (rev (take (Suc i) l)) s =
      seq (call_listener call (\<lambda>_. d) ?l s1) (call_in_turn call d a (rev (take i l)))"
    using i by (simp add: take_Suc_conv_app_nth s1_def)
  then have "call_in_turn call d a (rev (take (Suc i) l)) s = (None, s')"
    using s3(1) s'(7) by (simp add: call_listener_def s2_def call_of_def)
  ultimately show ?case using s'(2) by (intro exI [of _ s'] exI [of _ "call_of d ?l # ls @ ls'"]) simp
qed simp

text \<open>C22: A notification calls each listener that is registered when it starts exactly once, the last one first, with the
  data of the notification: it does what calling them in turn does, and the calls that are made are just these, unless
  callbacks notify themselves, which puts the calls they cause in between. Required are callbacks that throw nothing and
  remove nothing from the list of the event; they may register listeners, for this event too, and notify
  again. Afterwards the listeners that were to be called once are gone, the others are still registered.\<close>

theorem notify_calls_all:
  assumes "map_of (observers s) ev = Some a" "a < length (lists s)" "additive a call"
  shows "\<exists>s' ls. notify call ev (\<lambda>_. d) s = (None, s') \<and>
    prefix (filter (\<lambda>l. \<not> l_once l) (lists s ! a)) (lists s' ! a) \<and>
    call_in_turn call d a (rev (lists s ! a)) s = (None, s') \<and>
    calls s' = calls s @ ls \<and> subseq (map (call_of d) (rev (lists s ! a))) ls \<and>
    (silent a call \<longrightarrow> ls = map (call_of d) (rev (lists s ! a)))"
  using notify_loop_calls [OF assms(3), of s "length (lists s ! a)" "lists s ! a" "[]" d] assms(1,2)
  by (auto simp: notify_def)

text \<open>Callbacks that only register listeners are such callbacks.\<close>

fun adding :: "'v act \<Rightarrow> bool" where
  "adding (On evs c) = ([] \<notin> set (names evs))"
| "adding (Once ev c) = (ev \<noteq> [])"
| "adding _ = False"

definition grown :: "nat \<Rightarrow> ('v, 'z) observable_scheme \<Rightarrow> ('v, 'z) observable_scheme \<Rightarrow> bool" where
  "grown a s s' \<longleftrightarrow> a < length (lists s') \<and> prefix (lists s ! a) (lists s' ! a) \<and> calls s' = calls s"

lemma grown_trans: "grown a s s' \<Longrightarrow> grown a s' s'' \<Longrightarrow> grown a s s''"
  unfolding grown_def by (auto intro: prefix_order.trans)

lemma push_listener_grown:
  assumes "ev \<noteq> []" "a < length (lists s)"
  shows "\<exists>s'. push_listener l ev s = (None, s') \<and> grown a s s'"
proof (cases "map_of (observers s) ev")
  case None
  with assms show ?thesis by (simp add: push_listener_def getEventList_def grown_def nth_append list_update_append)
next
  case (Some b)
  with assms show ?thesis by (cases "b = a") (simp_all add: push_listener_def getEventList_def grown_def)
qed

lemma each_push_grown:
  "[] \<notin> trim ` set es \<Longrightarrow> a < length (lists s) \<Longrightarrow> \<exists>s'. each_event (push_listener l) es s = (None, s') \<and> grown a s s'"
proof (induction es arbitrary: s)
  case (Cons e es)
  obtain s1 where s1: "push_listener l (trim e) s = (None, s1)" "grown a s s1"
    using push_listener_grown [of "trim e" a s l] Cons.prems by auto
  moreover from Cons.IH [of s1] Cons.prems s1(2) obtain s2 where
    "each_event (push_listener l) es s1 = (None, s2)" "grown a s1 s2" by (auto simp: grown_def)
  ultimately show ?case using grown_trans by (auto simp: fun_eq_iff)
qed (simp add: grown_def)

lemma exec_grown:
  "list_all adding as \<Longrightarrow> a < length (lists s) \<Longrightarrow> \<exists>s'. exec call as s = (None, s') \<and> grown a s s'"
proof (induction as arbitrary: s)
  case (Cons x as)
  have "\<exists>s1. exec call [x] s = (None, s1) \<and> grown a s s1"
  proof (cases x)
    case (On evs c)
    then have "[] \<notin> trim ` set (split_char CHR '','' evs)" using Cons.prems(1) by (simp add: names_def)
    with each_push_grown [OF this Cons.prems(2), of "\<lparr>l_callback = c, l_this = None, l_once = False\<rparr>"] On
    show ?thesis by (auto simp: addEventListener_def)
  next
    case (Once ev c)
    with push_listener_grown [OF _ Cons.prems(2), of ev "\<lparr>l_callback = c, l_this = None, l_once = True\<rparr>"] Cons.prems(1)
    show ?thesis by (auto simp: once_def)
  qed (use Cons.prems(1) in simp_all)
  then obtain s1 where s1: "exec call [x] s = (None, s1)" "grown a s s1" by blast
  from Cons.IH [of s1] Cons.prems(1) s1(2) obtain s2 where "exec call as s1 = (None, s2)" "grown a s1 s2"
    by (auto simp: grown_def)
  with s1 show ?case using grown_trans by (auto simp: seq_def split: prod.splits option.splits)
qed (simp add: grown_def)

lemma additive_call_code: "(\<And>c. list_all adding (code c)) \<Longrightarrow> additive a (call_code code (Suc n))"
  using exec_grown by (fastforce simp: additive_def grown_def)

lemma silent_call_code:
  fixes code :: "nat \<Rightarrow> 'v act list"
  shows "(\<And>c. list_all adding (code c)) \<Longrightarrow> silent a (call_code code (Suc n) :: ('v, ('v, 'z) observable_scheme) callbacks)"
  unfolding silent_def
proof (intro allI impI)
  fix c t d and s :: "('v, 'z) observable_scheme"
  assume code: "\<And>c. list_all adding (code c)" and a: "a < length (lists s)"
  obtain s' where "exec (call_code code n) (code c) s = (None, s')" "grown a s s'"
    using exec_grown [OF code a] by blast
  then show "calls (snd (call_code code (Suc n) c t d s)) = calls s" by (simp add: grown_def)
qed

text \<open>Two listeners, of which the second, to be called once, registers a third.\<close>

definition tapped :: "nat observable" where
  "tapped = (new_observable :: nat observable)\<lparr>observers := [(''tap'', 0)],
     lists := [[\<lparr>l_callback = 1, l_this = None, l_once = False\<rparr>, \<lparr>l_callback = 2, l_this = Some 5, l_once = True\<rparr>]]\<rparr>"

definition registering :: "nat \<Rightarrow> nat act list" where
  "registering c = (if c = 2 then [On ''tap'' 3] else [])"

theorem notify_calls_all_witness:
  "\<exists>s'. notify (call_code registering (Suc 3)) ''tap'' (\<lambda>_. Plain ''tap'') tapped = (None, s') \<and>
     calls s' = [(2, Some 5, Plain ''tap''), (1, None, Plain ''tap'')]"
proof -
  have "names ''tap'' = [''tap'']" by code_simp
  then have r: "list_all adding (registering c)" for c by (simp add: registering_def)
  have "additive 0 (call_code registering (Suc 3) :: (nat, nat observable) callbacks)"
    "silent 0 (call_code registering (Suc 3) :: (nat, nat observable) callbacks)"
    by (rule additive_call_code, rule r) (rule silent_call_code, rule r)
  with notify_calls_all [of tapped "''tap''" 0 "call_code registering (Suc 3)" "Plain ''tap''"]
  show ?thesis by (auto simp: tapped_def new_observable_def call_of_def)
qed

section \<open>Removing listeners during a notification\<close>

definition emit_tap :: "(nat \<Rightarrow> nat act list) \<Rightarrow> nat list \<Rightarrow> nat observable run" where
  "emit_tap code cs = exec (call_code code 4) (map (On ''tap'') cs @ [Emit ''tap'']) new_observable"

text \<open>A callback that removes an earlier listener is called again, in its new place.\<close>

theorem removal_calls_twice:
  "map_prod id (map fst \<circ> calls) (emit_tap ((\<lambda>_. [])(2 := [Off ''tap'' (Callback 0)])) [0, 1, 2]) = (None, [2, 2, 1])"
  by code_simp

text \<open>A callback that removes two listeners makes the notification throw.\<close>

theorem two_removals_throw:
  "map_prod id (map fst \<circ> calls)
     (emit_tap ((\<lambda>_. [])(2 := [Off ''tap'' (Callback 1), Off ''tap'' (Callback 2)])) [0, 1, 2]) =
   (Some ''Cannot read property 'once' of undefined'', [2])"
  by code_simp

text \<open>An event whose only listener was called once is still said to have listeners.\<close>

theorem once_leaves_the_event:
  "(case exec (call_code (\<lambda>_. []) 4) [Once ''tap'' 1, Emit ''tap''] (new_observable :: nat observable) of
     (e, s) \<Rightarrow> (e, hasListeners ''tap'' s, listeners_of ''tap'' s)) = (None, True, [])"
  by code_simp

section \<open>Wrapped values\<close>

text \<open>A wrapper gives its value back as long as it is not reused: for four more wrapped values, and not after five.\<close>

definition wrap_all :: "'v js list \<Rightarrow> ('v, 'z) observable_scheme \<Rightarrow> ('v, 'z) observable_scheme" where
  "wrap_all vs s = foldl (\<lambda>s v. snd (wrap v s)) s vs"

lemma wrap_all_slot:
  "k < 5 \<Longrightarrow> length (wrapped_values s) = 5 \<Longrightarrow> \<forall>j < length vs. (wrapped_index s + j) mod 5 \<noteq> k \<Longrightarrow>
   wrapped_values (wrap_all vs s) ! k = wrapped_values s ! k"
proof (induction vs arbitrary: s)
  case (Cons v vs)
  have "\<forall>j < length vs. (wrapped_index s + 1 + j) mod 5 \<noteq> k" using Cons.prems(3) by force
  moreover have "wrapped_index s mod 5 \<noteq> k" using Cons.prems(3) by force
  ultimately show ?case
    using Cons.IH [of "snd (wrap v s)"] Cons.prems(1,2) by (simp add: wrap_all_def wrap_def Let_def)
qed (simp add: wrap_all_def)

lemma unwrap_wrap:
  assumes "length (wrapped_values s) = 5" "length vs < 5" "wrap v s = (w, s')"
  shows "unwrap w (wrap_all vs s') = v"
proof -
  have s': "wrapped_values s' = (wrapped_values s)[wrapped_index s mod 5 := v]" "wrapped_index s' = wrapped_index s + 1"
    "w = Wrapper (wrapped_index s mod 5)" using assms(3) by (auto simp: wrap_def Let_def)
  have "(wrapped_index s' + j) mod 5 \<noteq> wrapped_index s mod 5" if "j < length vs" for j
    using that assms(2) unfolding s'(2) by presburger
  then have "wrapped_values (wrap_all vs s') ! (wrapped_index s mod 5) = wrapped_values s' ! (wrapped_index s mod 5)"
    by (intro wrap_all_slot) (simp_all add: s'(1) assms(1))
  then show ?thesis by (simp add: s' unwrap_def assms(1))
qed

lemma unwrap_wrap_bound_sharp:
  "unwrap (fst (wrap (Val 0) new_observable)) (wrap_all (map Val [1, 2, 3, 4, 5]) (snd (wrap (Val 0) new_observable))) = Val (5 :: nat)"
  by code_simp

end
