(* ===== verification/Observable_Array.thy ===== *)
theory Observable_Array
  imports Observable_Notify
begin

text \<open>
  \<open>ObservableArray\<close> (\<^verbatim>\<open>data/observable-array\<close> of \<^verbatim>\<open>vendor.js\<close>): every operation and the change events it raises.
  \<open>_addArgs\<close> and \<open>_deleteArgs\<close> are objects of the array, used for every event of their kind: a callback sees
  what they hold when it is called. The specification is a mirror, a list kept up to date from the
  change events alone: it always equals the array.
\<close>

section \<open>Arrays\<close>

record 'v observable_array = "'v observable" +
  arr :: "'v js list"
  addArgs :: "'v change"
  deleteArgs :: "'v change"

text \<open>The index of the argument objects is \<open>null\<close> before their first use; it is written before it is read.\<close>

definition observable_array_fields :: "'v js list \<Rightarrow> 'z \<Rightarrow> ('v, 'z) observable_array_ext" where
  "observable_array_fields xs z = observable_array_ext xs
     \<lparr>ch_action = Add, ch_index = 0, ch_removed = [], ch_added = 1\<rparr>
     \<lparr>ch_action = Delete, ch_index = 0, ch_removed = [], ch_added = 0\<rparr> z"

type_synonym ('v, 'z) arr_callbacks = "('v, ('v, 'z) observable_array_scheme) callbacks"
type_synonym ('v, 'z) arr_run = "('v, 'z) observable_array_scheme run"

definition nth_js :: "'v js list \<Rightarrow> nat \<Rightarrow> 'v js" where
  "nth_js xs i = (if i < length xs then xs ! i else Undef)"

definition getItem :: "nat \<Rightarrow> ('v, 'z) observable_array_scheme \<Rightarrow> 'v js" where
  "getItem i s = nth_js (arr s) i"

text \<open>Assigning behind the end leaves holes, which read as \<open>undefined\<close>.\<close>

definition assign :: "'v js list \<Rightarrow> nat \<Rightarrow> 'v js \<Rightarrow> 'v js list" where
  "assign xs i v = (if i < length xs then xs[i := v] else xs @ replicate (i - length xs) Undef @ [v])"

definition notify_change :: "('v, 'z) arr_callbacks \<Rightarrow> (('v, 'z) observable_array_scheme \<Rightarrow> 'v change) \<Rightarrow>
    ('v, 'z) observable_array_scheme \<Rightarrow> ('v, 'z) arr_run" where
  "notify_change call data s = notify call ''change'' (\<lambda>s. Change (data s)) s"

text \<open>\<open>_notifyLengthChange\<close>: the length, a number, is represented by \<open>num\<close>.\<close>

definition notifyLengthChange :: "(nat \<Rightarrow> 'v) \<Rightarrow> ('v, 'z) arr_callbacks \<Rightarrow> ('v, 'z) observable_array_scheme \<Rightarrow> ('v, 'z) arr_run" where
  "notifyLengthChange num call s =
     notify call ''propertyChange'' (\<lambda>_. PropertyChange ''length'' (Val (num (length (arr s)))) Undef) s"

definition setItem :: "('v, 'z) arr_callbacks \<Rightarrow> nat \<Rightarrow> 'v js \<Rightarrow> ('v, 'z) observable_array_scheme \<Rightarrow> ('v, 'z) arr_run" where
  "setItem call i v s =
     (let c = \<lparr>ch_action = Update, ch_index = int i, ch_removed = [nth_js (arr s) i], ch_added = 1\<rparr>
      in notify_change call (\<lambda>_. c) (s\<lparr>arr := assign (arr s) i v\<rparr>))"

text \<open>\<open>Array.prototype.splice\<close>: the kept and the removed items; a negative start counts from the end, and a
  negative count removes nothing.\<close>

definition js_splice :: "int \<Rightarrow> int \<Rightarrow> 'a list \<Rightarrow> 'a list \<Rightarrow> 'a list \<times> 'a list" where
  "js_splice start deleteCount items xs =
     (let n = int (length xs);
          k = nat (if start < 0 then max 0 (n + start) else min start n);
          d = nat (min deleteCount (n - int k))
      in (take k xs @ items @ drop (k + d) xs, take d (drop k xs)))"

definition splice :: "(nat \<Rightarrow> 'v) \<Rightarrow> ('v, 'z) arr_callbacks \<Rightarrow> int \<Rightarrow> int \<Rightarrow> 'v js list \<Rightarrow>
    ('v, 'z) observable_array_scheme \<Rightarrow> ('v, 'z) arr_run" where
  "splice num call start deleteCount items s =
     (let len = length (arr s); (new, result) = js_splice start deleteCount items (arr s);
          c = \<lparr>ch_action = Splice, ch_index = start, ch_removed = result, ch_added = length new + length result - len\<rparr>
      in seq (notify_change call (\<lambda>_. c) (s\<lparr>arr := new\<rparr>))
           (\<lambda>s1. if length (arr s1) \<noteq> len then notifyLengthChange num call s1 else (None, s1)))"

definition set_length :: "(nat \<Rightarrow> 'v) \<Rightarrow> ('v, 'z) arr_callbacks \<Rightarrow> nat \<Rightarrow> ('v, 'z) observable_array_scheme \<Rightarrow> ('v, 'z) arr_run" where
  "set_length num call n s =
     (if length (arr s) \<noteq> n then splice num call (int n) (int (length (arr s)) - int n) [] s else (None, s))"

definition pop :: "(nat \<Rightarrow> 'v) \<Rightarrow> ('v, 'z) arr_callbacks \<Rightarrow> ('v, 'z) observable_array_scheme \<Rightarrow> ('v, 'z) arr_run" where
  "pop num call s =
     (let s1 = s\<lparr>deleteArgs := (deleteArgs s)\<lparr>ch_index := int (length (arr s)) - 1,
                   ch_removed := [nth_js (arr s) (length (arr s) - 1)]\<rparr>,
                 arr := butlast (arr s)\<rparr>
      in seq (notify_change call deleteArgs s1) (notifyLengthChange num call))"

text \<open>\<open>push\<close> of items, or of one array of items.\<close>

definition push :: "(nat \<Rightarrow> 'v) \<Rightarrow> ('v, 'z) arr_callbacks \<Rightarrow> 'v js list \<Rightarrow> ('v, 'z) observable_array_scheme \<Rightarrow> ('v, 'z) arr_run" where
  "push num call items s =
     (let s1 = s\<lparr>addArgs := (addArgs s)\<lparr>ch_index := int (length (arr s)), ch_added := length items\<rparr>,
                 arr := arr s @ items\<rparr>
      in seq (notify_change call addArgs s1) (notifyLengthChange num call))"

definition shift :: "(nat \<Rightarrow> 'v) \<Rightarrow> ('v, 'z) arr_callbacks \<Rightarrow> ('v, 'z) observable_array_scheme \<Rightarrow> ('v, 'z) arr_run" where
  "shift num call s =
     (let s1 = s\<lparr>arr := tl (arr s),
                 deleteArgs := (deleteArgs s)\<lparr>ch_index := 0, ch_removed := [nth_js (arr s) 0]\<rparr>\<rparr>
      in seq (notify_change call deleteArgs s1) (notifyLengthChange num call))"

definition unshift :: "(nat \<Rightarrow> 'v) \<Rightarrow> ('v, 'z) arr_callbacks \<Rightarrow> 'v js list \<Rightarrow> ('v, 'z) observable_array_scheme \<Rightarrow> ('v, 'z) arr_run" where
  "unshift num call items s =
     (let s1 = s\<lparr>arr := items @ arr s,
                 addArgs := (addArgs s)\<lparr>ch_index := 0, ch_added := length items\<rparr>\<rparr>
      in seq (notify_change call addArgs s1) (notifyLengthChange num call))"

definition reverse :: "('v, 'z) observable_array_scheme \<Rightarrow> ('v, 'z) observable_array_scheme" where
  "reverse s = s\<lparr>arr := rev (arr s)\<rparr>"

text \<open>\<open>concat\<close> changes the index of \<open>_addArgs\<close>.\<close>

definition concat_arr :: "'v js list \<Rightarrow> ('v, 'z) observable_array_scheme \<Rightarrow> 'v js list \<times> ('v, 'z) observable_array_scheme" where
  "concat_arr xs s = (arr s @ xs, s\<lparr>addArgs := (addArgs s)\<lparr>ch_index := int (length (arr s))\<rparr>\<rparr>)"

text \<open>\<open>indexOf\<close> and \<open>lastIndexOf\<close>; a start of \<open>0\<close> counts as none.\<close>

definition indexOf :: "'v js \<Rightarrow> nat \<Rightarrow> ('v, 'z) observable_array_scheme \<Rightarrow> nat option" where
  "indexOf x fromIndex s = map_option (\<lambda>i. fromIndex + i) (index_of (drop fromIndex (arr s)) x)"

fun last_index :: "'v js \<Rightarrow> 'v js list \<Rightarrow> nat \<Rightarrow> nat option" where
  "last_index x xs 0 = (if nth_js xs 0 = x then Some 0 else None)"
| "last_index x xs (Suc i) = (if nth_js xs (Suc i) = x then Some (Suc i) else last_index x xs i)"

definition lastIndexOf :: "'v js \<Rightarrow> nat \<Rightarrow> ('v, 'z) observable_array_scheme \<Rightarrow> nat option" where
  "lastIndexOf x fromIndex s =
     (let start = (if fromIndex = 0 then int (length (arr s)) - 1 else int fromIndex)
      in if start < 0 then None else last_index x (arr s) (nat start))"

end
