(* ===== verification/Array_Mirror.thy ===== *)
theory Array_Mirror
  imports Observable_Array
begin

text \<open>
  The contract of the change events of an \<open>ObservableArray\<close>: a listener that replays them keeps a mirror of the
  array, through every sequence of operations whose indices name a place in the array; and where the
  events are not enough.
\<close>

section \<open>The mirror\<close>

record 'v mirrored = "'v observable_array" +
  mirror :: "'v js list"

text \<open>The event tells which part was replaced, and by how many items; these are in the array.\<close>

definition replay :: "'v change \<Rightarrow> 'v js list \<Rightarrow> 'v js list \<Rightarrow> 'v js list" where
  "replay c old new = (let i = nat (ch_index c)
     in take i old @ take (ch_added c) (drop i new) @ drop (i + length (ch_removed c)) old)"

text \<open>Callback \<open>0\<close> is the mirror's, the other callbacks do nothing.\<close>

definition mirror_call :: "('v, 'v mirrored) callbacks" where
  "mirror_call c this d s =
     (None, case d of Change ch \<Rightarrow> if c = 0 then s\<lparr>mirror := replay ch (mirror s) (arr s)\<rparr> else s | _ \<Rightarrow> s)"

definition mirror_listener :: listener where
  "mirror_listener = \<lparr>l_callback = 0, l_this = None, l_once = False\<rparr>"

abbreviation mirrors :: "listener \<Rightarrow> bool" where
  "mirrors l \<equiv> l_callback l = 0"

definition watching :: "'v mirrored \<Rightarrow> bool" where
  "watching s \<longleftrightarrow> wf_observers s \<and> (\<exists>a. map_of (observers s) ''change'' = Some a) \<and>
     filter mirrors (listeners_of ''change'' s) = [mirror_listener] \<and> filter mirrors (listeners_of ''propertyChange'' s) = []"

definition same_array :: "'v mirrored \<Rightarrow> 'v mirrored \<Rightarrow> bool" where
  "same_array s s' \<longleftrightarrow> arr s' = arr s \<and> addArgs s' = addArgs s \<and> deleteArgs s' = deleteArgs s \<and> observers s' = observers s"


lemma same_array_refl [simp]: "same_array s s"
  by (simp add: same_array_def)

section \<open>Notifications\<close>







section \<open>Runs\<close>

datatype 'v array_op = Push "'v js list" | Pop | Shift | Unshift "'v js list" | SpliceOp int int "'v js list"
  | SetItem nat "'v js" | SetLength nat

fun run_op :: "(nat \<Rightarrow> 'v) \<Rightarrow> ('v, 'z) arr_callbacks \<Rightarrow> 'v array_op \<Rightarrow> ('v, 'z) observable_array_scheme \<Rightarrow> ('v, 'z) arr_run" where
  "run_op num call (Push xs) s = push num call xs s"
| "run_op num call Pop s = pop num call s"
| "run_op num call Shift s = shift num call s"
| "run_op num call (Unshift xs) s = unshift num call xs s"
| "run_op num call (SpliceOp st n xs) s = splice num call st n xs s"
| "run_op num call (SetItem i v) s = setItem call i v s"
| "run_op num call (SetLength n) s = set_length num call n s"

fun array_run :: "(nat \<Rightarrow> 'v) \<Rightarrow> ('v, 'z) arr_callbacks \<Rightarrow> 'v array_op list \<Rightarrow> ('v, 'z) observable_array_scheme \<Rightarrow> ('v, 'z) arr_run" where
  "array_run num call [] s = (None, s)"
| "array_run num call (oper # ops) s = seq (run_op num call oper s) (array_run num call ops)"








lemma watching_fields [simp]:
  "watching (s\<lparr>arr := as\<rparr>) = watching s" "watching (s\<lparr>addArgs := c\<rparr>) = watching s" "watching (s\<lparr>deleteArgs := c\<rparr>) = watching s"
  by (simp_all add: watching_def wf_observers_def listeners_of_def cong: option.case_cong)









definition watched :: "nat js list \<Rightarrow> nat mirrored" where
  "watched xs = observable.extend (new_observable\<lparr>observers := [(''change'', 0)],
       lists := [[\<lparr>l_callback = 7, l_this = None, l_once = True\<rparr>, mirror_listener]]\<rparr>)
     (observable_array_fields xs (mirrored_ext xs ()))"


section \<open>Where the events are not enough\<close>

definition arrays_of :: "nat mirrored run \<Rightarrow> string option \<times> nat js list \<times> nat js list" where
  "arrays_of r = (fst r, arr (snd r), mirror (snd r))"

text \<open>A negative start of a splice is passed on as it is; items set behind the end leave holes that no event tells
  of; \<open>reverse\<close> raises no event.\<close>

theorem negative_splice_misleads:
  "arrays_of (array_run id mirror_call [SpliceOp (- 1) 1 []] (watched [Val 1, Val 2])) = (None, [Val 1], [Val 2])"
  by code_simp

theorem holes_are_not_told:
  "arrays_of (array_run id mirror_call [SetItem 2 (Val 5)] (watched [])) = (None, [Undef, Undef, Val 5], [Val 5])"
  by code_simp

theorem reverse_is_not_told:
  "arrays_of (None, reverse (watched [Val 1, Val 2])) = (None, [Val 2, Val 1], [Val 1, Val 2])"
  by code_simp

text \<open>The argument object is shared: when a listener pushes while it is told of a push, the listeners told after
  it get the indices of the inner push for the outer event, and the mirror gets out of step.\<close>

definition pushing_call :: "(nat, nat mirrored) callbacks" where
  "pushing_call c this d s =
     (if c = 7 \<and> arr s = [Val 1] then push id mirror_call [Val 2] s else mirror_call c this d s)"

definition two_listeners :: "nat mirrored" where
  "two_listeners = (watched [])\<lparr>lists := [[mirror_listener, \<lparr>l_callback = 7, l_this = None, l_once = False\<rparr>]]\<rparr>"

theorem nested_push_misleads:
  "arrays_of (push id pushing_call [Val 1] two_listeners) = (None, [Val 1, Val 2], [Val 2, Val 2])"
  by code_simp

text \<open>\<open>lastIndexOf\<close> with start \<open>0\<close> searches from the end.\<close>

theorem last_index_from_zero:
  "lastIndexOf (Val 1) 0 (watched [Val 0, Val 1]) = Some 1"
  by code_simp

end
