(* ===== verification/Css_Parser.thy ===== *)
theory Css_Parser
  imports NS_Prelude
begin

text \<open>
  The selector part of \<^verbatim>\<open>css/parser.js\<close>. A parser takes the character before the position and the text from it
  on, and returns its value with the new position; the sticky regular expressions are deterministic, so each is
  a function that reads from the position. \<open>None\<close> is \<open>null\<close>, that is, no match.
\<close>

section \<open>Trees\<close>

text \<open>Absent strings (\<open>undefined\<close>) are empty where the code only asks for their truth.\<close>

datatype ast_simple = AstUniversal | AstId string | AstType string | AstClass string | AstPseudo string
  | AstAttribute string string "string option"

type_synonym ast_sequence = "ast_simple list"
type_synonym ast_selector = "(ast_sequence \<times> string) list"

type_synonym position = "char option \<times> string"

section \<open>Characters\<close>

definition is_word :: "char \<Rightarrow> bool" where
  "is_word c \<longleftrightarrow> (let n = of_char c :: nat in
     48 \<le> n \<and> n \<le> 57 \<or> 65 \<le> n \<and> n \<le> 90 \<or> 97 \<le> n \<and> n \<le> 122 \<or> n = 95)"

definition ident_start :: "char \<Rightarrow> bool" where
  "ident_start c \<longleftrightarrow> is_word c \<or> c = CHR ''-''"

definition ident_part :: "char \<Rightarrow> bool" where
  "ident_part c \<longleftrightarrow> is_word c \<or> c \<in> {CHR ''-'', CHR 0x5C, CHR ''/''}"

definition advance :: "string \<Rightarrow> position \<Rightarrow> position" where
  "advance w p = (if w = [] then p else (Some (last w), drop (length w) (snd p)))"

definition skip_ws :: "position \<Rightarrow> position" where
  "skip_ws p = advance (takeWhile is_ws (snd p)) p"

section \<open>Simple selectors\<close>

definition parseUniversalSelector :: "position \<Rightarrow> (ast_simple \<times> position) option" where
  "parseUniversalSelector p =
     (case snd p of [] \<Rightarrow> None | c # s \<Rightarrow> if c = CHR ''*'' then Some (AstUniversal, (Some c, s)) else None)"

text \<open>\<^verbatim>\<open>\b\<close>: exactly one of the characters around the position is a word character.\<close>

definition word_boundary :: "position \<Rightarrow> bool" where
  "word_boundary p \<longleftrightarrow> (case fst p of None \<Rightarrow> False | Some c \<Rightarrow> is_word c) \<noteq> (case snd p of [] \<Rightarrow> False | c # _ \<Rightarrow> is_word c)"

definition simple_type :: "position \<Rightarrow> ((string \<Rightarrow> ast_simple) \<times> position) option" where
  "simple_type p =
     (case snd p of
        [] \<Rightarrow> None
      | c # s \<Rightarrow>
          if c = CHR ''#'' then Some (AstId, (Some c, s))
          else if c = CHR ''.'' then Some (AstClass, (Some c, s))
          else if c = CHR '':'' then Some (AstPseudo, (Some c, s))
          else if word_boundary p then Some (AstType, p) else None)"

definition parseSimpleIdentifierSelector :: "position \<Rightarrow> (ast_simple \<times> position) option" where
  "parseSimpleIdentifierSelector p =
     (case simple_type p of
        None \<Rightarrow> None
      | Some (f, q) \<Rightarrow>
          (let w = takeWhile ident_part (snd q) in
           if w \<noteq> [] \<and> ident_start (hd w) then Some (f (filter (\<lambda>c. c \<noteq> CHR 0x5C) w), advance w q) else None))"

definition attribute_test :: "string \<Rightarrow> string option" where
  "attribute_test s =
     (if take 1 s = ''='' then Some ''=''
      else if take 2 s \<in> {''^='', ''$='', ''*='', ''~='', ''|=''} then Some (take 2 s) else None)"

text \<open>What stands between quotes: any character but the quote and the backslash, or an escape, of which
  \<^verbatim>\<open>0-9a-f\<close> is taken literally.\<close>

fun quoted :: "char \<Rightarrow> string \<Rightarrow> (string \<times> string) option" where
  "quoted q [] = None"
| "quoted q (c # cs) =
     (if c = q then Some ([], cs)
      else if c \<noteq> CHR 0x5C then map_option (apfst ((#) c)) (quoted q cs)
      else (case cs of
          [] \<Rightarrow> None
        | d # ds \<Rightarrow>
            if d \<in> {q, CHR ''n'', CHR ''r'', CHR ''f'', CHR 0x5C} then map_option (apfst (\<lambda>w. c # d # w)) (quoted q ds)
            else if take 6 cs = ''0-9a-f'' then map_option (apfst (\<lambda>w. c # ''0-9a-f'' @ w)) (quoted q (drop 6 cs))
            else None))"

text \<open>\<open>result[3] || result[4] || result[5]\<close>: an empty value is lost between double quotes and kept between
  single ones.\<close>

definition attribute_value :: "string \<Rightarrow> (string option \<times> string) option" where
  "attribute_value s =
     (if take 1 s = [CHR 0x22] then map_option (apfst (\<lambda>w. if w = [] then None else Some w)) (quoted CHR 0x22 (tl s))
      else if take 1 s = [CHR 0x27] then map_option (apfst Some) (quoted CHR 0x27 (tl s))
      else (let w = takeWhile ident_start s in if w = [] then None else Some (Some w, drop (length w) s)))"

definition attribute_rest :: "string \<Rightarrow> (string \<times> string option \<times> string) option" where
  "attribute_rest s =
     (case attribute_test s of
        None \<Rightarrow> Some ([], None, s)
      | Some t \<Rightarrow> map_option (\<lambda>(v, r). (t, v, dropWhile is_ws r)) (attribute_value (dropWhile is_ws (drop (length t) s))))"

definition parseAttributeSelector :: "position \<Rightarrow> (ast_simple \<times> position) option" where
  "parseAttributeSelector p =
     (if take 1 (snd p) \<noteq> ''['' then None
      else (let s = dropWhile is_ws (tl (snd p)); w = takeWhile ident_start s in
        if w = [] then None
        else (case attribute_rest (dropWhile is_ws (drop (length w) s)) of
            None \<Rightarrow> None
          | Some (t, v, r) \<Rightarrow> if take 1 r = '']'' then Some (AstAttribute w t v, (Some CHR '']'', tl r)) else None)))"

definition parseSimpleSelector :: "position \<Rightarrow> (ast_simple \<times> position) option" where
  "parseSimpleSelector p =
     (case parseUniversalSelector p of
        Some r \<Rightarrow> Some r
      | None \<Rightarrow> (case parseSimpleIdentifierSelector p of Some r \<Rightarrow> Some r | None \<Rightarrow> parseAttributeSelector p))"

section \<open>Progress\<close>

lemma length_advance: "takeWhile f (snd p) \<noteq> [] \<Longrightarrow> length (snd (advance (takeWhile f (snd p)) p)) < length (snd p)"
  by (cases "snd p") (simp_all add: advance_def split: if_splits)

lemma universal_shorter: "parseUniversalSelector p = Some (v, q) \<Longrightarrow> length (snd q) < length (snd p)"
  by (auto simp: parseUniversalSelector_def split: list.splits if_splits)

lemma simple_type_shorter: "simple_type p = Some (f, q) \<Longrightarrow> length (snd q) \<le> length (snd p)"
  by (auto simp: simple_type_def split: list.splits if_splits)

lemma identifier_shorter: "parseSimpleIdentifierSelector p = Some (v, q) \<Longrightarrow> length (snd q) < length (snd p)"
proof -
  assume a: "parseSimpleIdentifierSelector p = Some (v, q)"
  then obtain f r where r: "simple_type p = Some (f, r)" "takeWhile ident_part (snd r) \<noteq> []"
    "q = advance (takeWhile ident_part (snd r)) r"
    by (auto simp: parseSimpleIdentifierSelector_def Let_def split: option.splits prod.splits if_splits)
  from length_advance [OF r(2)] simple_type_shorter [OF r(1)] r(3) show ?thesis by simp
qed

lemma quoted_shorter: "quoted q s = Some (w, r) \<Longrightarrow> length r \<le> length s"
proof (induction "length s" arbitrary: s w r rule: less_induct)
  case less
  then obtain c cs where s: "s = c # cs" by (cases s) auto
  have shorter: "length r \<le> length cs" if "quoted q t = Some (w', r)" "length t \<le> length cs" for t w'
    using less(1) [of t w' r] that s by simp
  from less(2) have "r = cs \<or> (\<exists>t w'. quoted q t = Some (w', r) \<and> length t \<le> length cs)"
    unfolding s quoted.simps
    by (auto simp del: quoted.simps split: if_splits list.splits)
  with shorter s show ?case by (fastforce intro: le_SucI)
qed

lemma length_ws: "length (dropWhile is_ws s) \<le> length s"
  by (rule length_dropWhile_le)

lemma attribute_value_shorter: "attribute_value s = Some (v, r) \<Longrightarrow> length r \<le> length s"
  by (cases s) (auto simp: attribute_value_def Let_def split: if_splits dest!: quoted_shorter)

lemma attribute_rest_shorter: "attribute_rest s = Some (t, v, r) \<Longrightarrow> length r \<le> length s"
proof (cases "attribute_test s")
  case (Some u)
  assume "attribute_rest s = Some (t, v, r)"
  with Some obtain b where b: "attribute_value (dropWhile is_ws (drop (length u) s)) = Some (v, b)" "r = dropWhile is_ws b"
    by (auto simp: attribute_rest_def)
  from attribute_value_shorter [OF b(1)] length_ws [of "drop (length u) s"] length_ws [of b] b(2) show ?thesis
    unfolding length_drop by arith
qed (simp add: attribute_rest_def)

lemma attribute_shorter: "parseAttributeSelector p = Some (v, q) \<Longrightarrow> length (snd q) < length (snd p)"
proof (cases "snd p")
  case (Cons c s)
  assume a: "parseAttributeSelector p = Some (v, q)"
  define s1 where "s1 = drop (length (takeWhile ident_start (dropWhile is_ws s))) (dropWhile is_ws s)"
  from a Cons obtain t v' r where r: "attribute_rest (dropWhile is_ws s1) = Some (t, v', r)" "snd q = tl r"
    by (auto simp: parseAttributeSelector_def Let_def s1_def split: if_splits option.splits)
  have "length s1 \<le> length (dropWhile is_ws s)" by (simp add: s1_def)
  with length_ws [of s] length_ws [of s1] attribute_rest_shorter [OF r(1)] have "length r \<le> length s" by linarith
  with r(2) Cons show ?thesis by (simp add: less_Suc_eq_le)
qed (simp add: parseAttributeSelector_def)

lemma simple_shorter: "parseSimpleSelector p = Some (v, q) \<Longrightarrow> length (snd q) < length (snd p)"
  by (auto simp: parseSimpleSelector_def split: option.splits
      dest: universal_shorter identifier_shorter attribute_shorter)

section \<open>Sequences and selectors\<close>

function parse_sequence :: "position \<Rightarrow> ast_sequence \<times> position" where
  "parse_sequence p =
     (case parseSimpleSelector p of
        None \<Rightarrow> ([], p)
      | Some (v, q) \<Rightarrow> apfst ((#) v) (parse_sequence q))"
  by pat_completeness auto
termination by (relation "measure (length \<circ> snd)") (auto dest: simple_shorter)

declare parse_sequence.simps [simp del]

definition parseSimpleSelectorSequence :: "position \<Rightarrow> (ast_sequence \<times> position) option" where
  "parseSimpleSelectorSequence p =
     (case parseSimpleSelector p of None \<Rightarrow> None | Some (v, q) \<Rightarrow> Some (apfst ((#) v) (parse_sequence q)))"

text \<open>It always matches: no combinator is a blank, whether there is white space or not.\<close>

definition parseCombinator :: "position \<Rightarrow> string \<times> position" where
  "parseCombinator p =
     (let q = skip_ws p in
      case snd q of
        [] \<Rightarrow> ('' '', q)
      | c # s \<Rightarrow> if c \<in> {CHR ''+'', CHR ''~'', CHR ''>''} then ([c], skip_ws (Some c, s)) else ('' '', q))"

lemma skip_ws_shorter: "length (snd (skip_ws p)) \<le> length (snd p)"
  by (simp add: skip_ws_def advance_def)

lemma combinator_shorter: "length (snd (snd (parseCombinator p))) \<le> length (snd p)"
proof (cases "snd (skip_ws p)")
  case (Cons c s)
  with skip_ws_shorter [of p] skip_ws_shorter [of "(Some c, s)"] show ?thesis by (auto simp: parseCombinator_def Let_def)
qed (simp add: parseCombinator_def Let_def)

lemma sequence_shorter: "length (snd (snd (parse_sequence p))) \<le> length (snd p)"
proof (induction p rule: parse_sequence.induct)
  case (1 p)
  show ?case
  proof (cases "parseSimpleSelector p")
    case (Some vq)
    with 1 [of vq "fst vq" "snd vq"] simple_shorter [of p "fst vq" "snd vq"] show ?thesis
      by (simp add: parse_sequence.simps [of p] split_beta)
  qed (simp add: parse_sequence.simps [of p])
qed

lemma simple_sequence_shorter: "parseSimpleSelectorSequence p = Some (v, q) \<Longrightarrow> length (snd q) < length (snd p)"
proof (cases "parseSimpleSelector p")
  case (Some ur)
  assume a: "parseSimpleSelectorSequence p = Some (v, q)"
  obtain u r where ur: "ur = (u, r)" by (cases ur)
  with a Some have "q = snd (parse_sequence r)" by (auto simp: parseSimpleSelectorSequence_def apfst_def map_prod_def split: prod.splits)
  with simple_shorter [of p u r] sequence_shorter [of r] Some ur show ?thesis by simp
qed (simp add: parseSimpleSelectorSequence_def)

text \<open>The pairs of the selector, each with the combinator after it, empty for the last; what cannot be
  parsed after a blank is ignored.\<close>

function parse_pairs :: "bool \<Rightarrow> position \<Rightarrow> ast_selector option" where
  "parse_pairs expectSimpleSelector p =
     (case parseSimpleSelectorSequence p of
        None \<Rightarrow> if expectSimpleSelector then None else Some []
      | Some (v, q) \<Rightarrow>
          (case parseCombinator q of (c, r) \<Rightarrow>
             map_option (\<lambda>ps. (v, if ps = [] then [] else c) # ps) (parse_pairs (c \<noteq> '' '') r)))"
  by pat_completeness auto
termination
  by (relation "measure (length \<circ> snd \<circ> snd)")
    (auto dest!: simple_sequence_shorter, metis combinator_shorter le_less_trans snd_conv)

declare parse_pairs.simps [simp del]

definition parseSelector :: "string \<Rightarrow> ast_selector option" where
  "parseSelector text = parse_pairs True (skip_ws (None, text))"

lemma parse_examples:
  "parseSelector '' Button.a > #b[x ^= \"v\"]:c  $'' =
     Some [([AstType ''Button'', AstClass ''a''], ''>''), ([AstId ''b'', AstAttribute ''x'' ''^='' (Some ''v''), AstPseudo ''c''], [])]"
  "parseSelector ''a >'' = None" "parseSelector ''*'' = Some [([AstUniversal], [])]"
  by code_simp+

end
