(* ===== verification/Css_Selector.thy ===== *)
theory Css_Selector
  imports Css_Parser
begin

text \<open>
  CSS selectors (\<^verbatim>\<open>ui/styling/css-selector/css-selector.js\<close>): the selectors, what they match and what they track.

  A node is given by what selectors can reach from it: its own data, its siblings before it, the nearest first, and
  its parent (no siblings where the parent has no \<open>getChildIndex\<close> and \<open>getChildAt\<close>). Its id, type and classes
  are fixed; its pseudo-classes and attributes are in the state that changes, under the node's identity.
\<close>

section \<open>Nodes\<close>

record info =
  node_key :: nat
  node_id :: "string option"
  cssType :: "string option"
  cssClasses :: "string list"

datatype node = Node (n_info: info) (n_before: "info list") (n_parent: "node option")

datatype attr_value = AttrUndefined | AttrNull | AttrText string

record css_state =
  pseudo_classes :: "nat \<Rightarrow> string list"
  attribute_of :: "nat \<Rightarrow> string \<Rightarrow> attr_value"

abbreviation key :: "node \<Rightarrow> nat" where
  "key n \<equiv> node_key (n_info n)"

fun getNodeDirectSibling :: "node \<Rightarrow> node option" where
  "getNodeDirectSibling (Node i (b # bs) (Some p)) = Some (Node b bs (Some p))"
| "getNodeDirectSibling n = None"

fun ancestors :: "node \<Rightarrow> node list" where
  "ancestors (Node i bs None) = []"
| "ancestors (Node i bs (Some p)) = p # ancestors p"

section \<open>Simple selectors\<close>

datatype simple = InvalidSelector string | UniversalSelector | IdSelector string | TypeSelector string | ClassSelector string
  | AttributeSelector string string string | PseudoClassSelector string

fun specificity :: "simple \<Rightarrow> int" where
  "specificity (InvalidSelector e) = 0"
| "specificity UniversalSelector = 0"
| "specificity (IdSelector i) = 65536"
| "specificity (TypeSelector t) = 1"
| "specificity (ClassSelector c) = 256"
| "specificity (AttributeSelector a t v) = 256"
| "specificity (PseudoClassSelector p) = 256"

fun rarity :: "simple \<Rightarrow> nat" where
  "rarity (InvalidSelector e) = 4"
| "rarity UniversalSelector = 0"
| "rarity (IdSelector i) = 3"
| "rarity (TypeSelector t) = 1"
| "rarity (ClassSelector c) = 2"
| "rarity (AttributeSelector a t v) = 0"
| "rarity (PseudoClassSelector p) = 0"

fun dynamic :: "simple \<Rightarrow> bool" where
  "dynamic (AttributeSelector a t v) = True"
| "dynamic (PseudoClassSelector p) = True"
| "dynamic s = False"

text \<open>The regular expressions of \<open>AttributeSelector\<close>, whose symbols \<open>escapeRegexSymbols\<close> has escaped. An empty
  value makes a selector that matches nothing, which is then overwritten, since there is no return.\<close>

definition attr_text :: "attr_value \<Rightarrow> string" where
  "attr_text a = (case a of AttrUndefined \<Rightarrow> ''undefined'' | AttrNull \<Rightarrow> ''null'' | AttrText t \<Rightarrow> t)"

definition delimited :: "(char \<Rightarrow> bool) \<Rightarrow> (char \<Rightarrow> bool) \<Rightarrow> string \<Rightarrow> string \<Rightarrow> bool" where
  "delimited before after v t \<longleftrightarrow>
     (\<exists>i \<in> set [0..<Suc (length t)]. (i = 0 \<or> before (t ! (i - 1))) \<and> take (length v) (drop i t) = v \<and>
        (i + length v = length t \<or> i + length v < length t \<and> after (t ! (i + length v))))"

definition attribute_matches :: "string \<Rightarrow> string \<Rightarrow> attr_value \<Rightarrow> bool" where
  "attribute_matches test v a \<longleftrightarrow>
     (let t = attr_text a in
      if test = [] then a \<noteq> AttrUndefined \<and> a \<noteq> AttrNull
      else if test = ''^='' then prefix v t
      else if test = ''$='' then suffix v t
      else if test = ''*='' then sublist v t
      else if test = ''='' then t = v
      else if test = ''~='' then \<not> list_ex is_ws v \<and> delimited is_ws is_ws v t
      else if test = ''|='' then prefix v t \<and> (v = t \<or> t ! length v = CHR ''-'')
      else False)"

fun simple_match :: "css_state \<Rightarrow> simple \<Rightarrow> node \<Rightarrow> bool" where
  "simple_match st (InvalidSelector e) n = False"
| "simple_match st UniversalSelector n = True"
| "simple_match st (IdSelector i) n = (node_id (n_info n) = Some i)"
| "simple_match st (TypeSelector t) n = (cssType (n_info n) = Some t)"
| "simple_match st (ClassSelector c) n = (c \<in> set (cssClasses (n_info n)))"
| "simple_match st (AttributeSelector a t v) n = attribute_matches t v (attribute_of st (key n) a)"
| "simple_match st (PseudoClassSelector p) n = (p \<in> set (pseudo_classes st (key n)))"

definition simple_mayMatch :: "css_state \<Rightarrow> simple \<Rightarrow> node \<Rightarrow> bool" where
  "simple_mayMatch st s n \<longleftrightarrow> (if dynamic s then True else simple_match st s n)"

section \<open>The change map\<close>

record deps =
  d_attributes :: "string list"
  d_pseudoClasses :: "string list"

type_synonym changes = "(nat \<times> deps) list"

definition properties :: "nat \<Rightarrow> changes \<Rightarrow> deps" where
  "properties k m = (case map_of m k of Some d \<Rightarrow> d | None \<Rightarrow> \<lparr>d_attributes = [], d_pseudoClasses = []\<rparr>)"

definition addAttribute :: "nat \<Rightarrow> string \<Rightarrow> changes \<Rightarrow> changes" where
  "addAttribute k a m = (let d = properties k m in obj_set k (d\<lparr>d_attributes := push_new (d_attributes d) a\<rparr>) m)"

definition addPseudoClass :: "nat \<Rightarrow> string \<Rightarrow> changes \<Rightarrow> changes" where
  "addPseudoClass k p m = (let d = properties k m in obj_set k (d\<lparr>d_pseudoClasses := push_new (d_pseudoClasses d) p\<rparr>) m)"

fun simple_track :: "simple \<Rightarrow> node \<Rightarrow> changes \<Rightarrow> changes" where
  "simple_track (AttributeSelector a t v) n m = addAttribute (key n) a m"
| "simple_track (PseudoClassSelector p) n m = addPseudoClass (key n) p m"
| "simple_track s n m = m"

section \<open>Sequences\<close>

text \<open>\<open>One\<close> is a simple selector that stands alone, \<open>Sequence\<close> a \<open>SimpleSelectorSequence\<close>.\<close>

datatype sequence = One simple | Sequence "simple list"

fun parts :: "sequence \<Rightarrow> simple list" where
  "parts (One s) = [s]"
| "parts (Sequence ss) = ss"

definition seq_specificity :: "sequence \<Rightarrow> int" where
  "seq_specificity q = foldl (\<lambda>n s. specificity s + n) 0 (parts q)"

definition seq_dynamic :: "sequence \<Rightarrow> bool" where
  "seq_dynamic q = list_ex dynamic (parts q)"

text \<open>The first part of the greatest rarity.\<close>

definition rarer :: "simple option \<Rightarrow> simple \<Rightarrow> simple option" where
  "rarer prev cur = (case prev of None \<Rightarrow> Some cur | Some p \<Rightarrow> if rarity cur > rarity p then Some cur else Some p)"

definition head :: "simple list \<Rightarrow> simple option" where
  "head ss = foldl rarer None ss"

definition seq_match :: "css_state \<Rightarrow> sequence \<Rightarrow> node \<Rightarrow> bool" where
  "seq_match st q n = list_all (\<lambda>s. simple_match st s n) (parts q)"

definition seq_mayMatch :: "css_state \<Rightarrow> sequence \<Rightarrow> node \<Rightarrow> bool" where
  "seq_mayMatch st q n = list_all (\<lambda>s. simple_mayMatch st s n) (parts q)"

definition seq_track :: "sequence \<Rightarrow> node \<Rightarrow> changes \<Rightarrow> changes" where
  "seq_track q n m = foldl (\<lambda>m s. simple_track s n m) m (parts q)"

definition seq_accumulate :: "css_state \<Rightarrow> sequence \<Rightarrow> node \<Rightarrow> changes \<Rightarrow> bool \<times> changes" where
  "seq_accumulate st q n m =
     (if \<not> seq_dynamic q then (seq_match st q n, m)
      else if seq_mayMatch st q n then (True, seq_track q n m) else (False, m))"

section \<open>Groups\<close>

text \<open>\<open>selectors.every((sel, i) => (i === 0 ? node : node = up(node)) && sel.match(node)) ? node : null\<close>.\<close>

fun walk :: "('n \<Rightarrow> 'n option) \<Rightarrow> ('a \<Rightarrow> 'n \<Rightarrow> bool) \<Rightarrow> 'a list \<Rightarrow> 'n \<Rightarrow> 'n option" where
  "walk up f [] n = Some n"
| "walk up f [s] n = (if f s n then Some n else None)"
| "walk up f (s # t # ss) n = (if f s n then (case up n of None \<Rightarrow> None | Some m \<Rightarrow> walk up f (t # ss) m) else None)"

text \<open>\<open>trackChanges\<close> is called where \<open>mayMatch\<close> holds, so that there is a node for each selector.\<close>

fun track_walk :: "('n \<Rightarrow> 'n option) \<Rightarrow> ('a \<Rightarrow> 'n \<Rightarrow> 'm \<Rightarrow> 'm) \<Rightarrow> 'a list \<Rightarrow> 'n \<Rightarrow> 'm \<Rightarrow> 'm" where
  "track_walk up f [] n m = m"
| "track_walk up f [s] n m = f s n m"
| "track_walk up f (s # t # ss) n m = (case up n of None \<Rightarrow> f s n m | Some n' \<Rightarrow> track_walk up f (t # ss) n' (f s n m))"

type_synonym sibling_group = "sequence list"
type_synonym child_group = "sibling_group list"

definition sib_match :: "css_state \<Rightarrow> sibling_group \<Rightarrow> node \<Rightarrow> bool" where
  "sib_match st g n \<longleftrightarrow> walk getNodeDirectSibling (seq_match st) g n \<noteq> None"

definition sib_mayMatch :: "css_state \<Rightarrow> sibling_group \<Rightarrow> node \<Rightarrow> bool" where
  "sib_mayMatch st g n \<longleftrightarrow> walk getNodeDirectSibling (seq_mayMatch st) g n \<noteq> None"

definition sib_track :: "sibling_group \<Rightarrow> node \<Rightarrow> changes \<Rightarrow> changes" where
  "sib_track g n m = track_walk getNodeDirectSibling seq_track g n m"

definition child_match :: "css_state \<Rightarrow> child_group \<Rightarrow> node \<Rightarrow> node option" where
  "child_match st g n = walk n_parent (sib_match st) g n"

definition child_mayMatch :: "css_state \<Rightarrow> child_group \<Rightarrow> node \<Rightarrow> node option" where
  "child_mayMatch st g n = walk n_parent (sib_mayMatch st) g n"

definition child_track :: "child_group \<Rightarrow> node \<Rightarrow> changes \<Rightarrow> changes" where
  "child_track g n m = track_walk n_parent sib_track g n m"

definition group_dynamic :: "child_group \<Rightarrow> bool" where
  "group_dynamic g = list_ex (list_ex seq_dynamic) g"

section \<open>Selectors with combinators\<close>

record complex =
  c_selectors :: "(sequence \<times> string) list"
  c_groups :: "child_group list"
  c_last :: "sequence option"
  c_specificity :: int
  c_dynamic :: bool

definition on_last :: "('a \<Rightarrow> 'a) \<Rightarrow> 'a list \<Rightarrow> 'a list" where
  "on_last f xs = butlast xs @ [f (last xs)]"

text \<open>The loop over the selectors from the last to the first; no combinator is the empty string. \<open>siblingGroup\<close> is
  the last list of \<open>lastGroup\<close>, and that the last of the groups.\<close>

fun make_groups :: "(sequence \<times> string) list \<Rightarrow> child_group list \<Rightarrow> string + child_group list" where
  "make_groups [] gs = Inr gs"
| "make_groups ((q, c) # qs) gs =
     (if c \<notin> {[], '' '', ''>'', ''+''} then Inl (''Error: Unsupported combinator '' @ [CHR 0x22] @ c @ [CHR 0x22] @ ''.'')
      else if c = [] \<or> c = '' '' then make_groups qs (gs @ [[[q]]])
      else if gs = [] then Inl ''TypeError: Cannot read property 'push' of undefined''
      else if c = ''>'' then make_groups qs (on_last (\<lambda>g. g @ [[q]]) gs)
      else make_groups qs (on_last (on_last (\<lambda>sg. sg @ [q])) gs))"

definition newSelector :: "(sequence \<times> string) list \<Rightarrow> string + complex" where
  "newSelector selectors =
     (case make_groups (rev selectors) [] of
        Inl e \<Rightarrow> Inl e
      | Inr gs \<Rightarrow> Inr \<lparr>c_selectors = rev selectors, c_groups = gs,
          c_last = (case rev selectors of [] \<Rightarrow> None | s # _ \<Rightarrow> Some (fst s)),
          c_specificity = foldl (\<lambda>n s. seq_specificity (fst s) + n) 0 (rev selectors),
          c_dynamic = list_ex (seq_dynamic \<circ> fst) (rev selectors)\<rparr>)"

text \<open>\<open>while (ancestor = ancestor.parent)\<close> with a return at the first success.\<close>

fun first_some :: "('a \<Rightarrow> 'b option) \<Rightarrow> 'a list \<Rightarrow> 'b option" where
  "first_some f [] = None"
| "first_some f (x # xs) = (case f x of None \<Rightarrow> first_some f xs | Some y \<Rightarrow> Some y)"

fun rest_match :: "css_state \<Rightarrow> child_group list \<Rightarrow> node \<Rightarrow> bool" where
  "rest_match st [] n = True"
| "rest_match st (g # gs) n =
     (case first_some (child_match st g) (ancestors n) of None \<Rightarrow> False | Some m \<Rightarrow> rest_match st gs m)"

definition groups_match :: "css_state \<Rightarrow> child_group list \<Rightarrow> node \<Rightarrow> bool" where
  "groups_match st gs n =
     (case gs of
        [] \<Rightarrow> True
      | g # gs' \<Rightarrow> (case child_match st g n of None \<Rightarrow> False | Some m \<Rightarrow> rest_match st gs' m))"

definition complex_match :: "css_state \<Rightarrow> complex \<Rightarrow> node \<Rightarrow> bool" where
  "complex_match st c n = groups_match st (c_groups c) n"

text \<open>The bounds: for each group the node it may match first, and whether that is the only one (\<open>right\<close> is \<open>left\<close>).\<close>

type_synonym bound = "node \<times> bool"

fun rest_bounds :: "css_state \<Rightarrow> child_group list \<Rightarrow> node \<Rightarrow> bound list option" where
  "rest_bounds st [] n = Some []"
| "rest_bounds st (g # gs) n =
     (case first_some (\<lambda>a. map_option (Pair a) (child_mayMatch st g a)) (ancestors n) of
        None \<Rightarrow> None
      | Some (a, m) \<Rightarrow> map_option ((#) (a, False)) (rest_bounds st gs m))"

definition bounds :: "css_state \<Rightarrow> child_group list \<Rightarrow> node \<Rightarrow> bound list option" where
  "bounds st gs n =
     (case gs of
        [] \<Rightarrow> Some []
      | g # gs' \<Rightarrow> (case child_mayMatch st g n of None \<Rightarrow> None | Some m \<Rightarrow> map_option ((#) (n, True)) (rest_bounds st gs' m)))"

definition track_node :: "css_state \<Rightarrow> child_group \<Rightarrow> node \<Rightarrow> changes \<Rightarrow> changes" where
  "track_node st g n m = (if child_mayMatch st g n \<noteq> None then child_track g n m else m)"

fun track_bounds :: "css_state \<Rightarrow> (child_group \<times> bound) list \<Rightarrow> changes \<Rightarrow> changes" where
  "track_bounds st [] m = m"
| "track_bounds st ((g, left, only) # gbs) m =
     track_bounds st gbs
       (if group_dynamic g then fold (track_node st g) (left # (if only then [] else ancestors left)) m else m)"

text \<open>The map is given by every caller in the application.\<close>

definition complex_accumulate :: "css_state \<Rightarrow> complex \<Rightarrow> node \<Rightarrow> changes \<Rightarrow> bool \<times> changes" where
  "complex_accumulate st c n m =
     (if \<not> c_dynamic c then (complex_match st c n, m)
      else (case bounds st (c_groups c) n of
          None \<Rightarrow> (False, m)
        | Some bs \<Rightarrow> (True, track_bounds st (zip (c_groups c) bs) m)))"

section \<open>Selectors of a rule set\<close>

datatype selector = Plain sequence | Complex complex

fun sel_specificity :: "selector \<Rightarrow> int" where
  "sel_specificity (Plain q) = seq_specificity q"
| "sel_specificity (Complex c) = c_specificity c"

fun sel_match :: "css_state \<Rightarrow> selector \<Rightarrow> node \<Rightarrow> bool" where
  "sel_match st (Plain q) n = seq_match st q n"
| "sel_match st (Complex c) n = complex_match st c n"

fun accumulateChanges :: "css_state \<Rightarrow> selector \<Rightarrow> node \<Rightarrow> changes \<Rightarrow> bool \<times> changes" where
  "accumulateChanges st (Plain q) n m = seq_accumulate st q n m"
| "accumulateChanges st (Complex c) n m = complex_accumulate st c n m"

section \<open>From the parser\<close>

fun createSimpleSelectorFromAst :: "ast_simple \<Rightarrow> string + simple" where
  "createSimpleSelectorFromAst AstUniversal = Inr UniversalSelector"
| "createSimpleSelectorFromAst (AstId i) = Inr (IdSelector i)"
| "createSimpleSelectorFromAst (AstType t) = Inr (TypeSelector (map to_lower (remove1 CHR ''-'' t)))"
| "createSimpleSelectorFromAst (AstClass c) = Inr (ClassSelector c)"
| "createSimpleSelectorFromAst (AstPseudo p) = Inr (PseudoClassSelector p)"
| "createSimpleSelectorFromAst (AstAttribute a t v) =
     (if t = [] then Inr (AttributeSelector a [] [])
      else (case v of
          None \<Rightarrow> Inl ''TypeError: Cannot read property 'replace' of undefined''
        | Some w \<Rightarrow> Inr (AttributeSelector a t w)))"

fun map_sum_list :: "('a \<Rightarrow> string + 'b) \<Rightarrow> 'a list \<Rightarrow> string + 'b list" where
  "map_sum_list f [] = Inr []"
| "map_sum_list f (x # xs) =
     (case f x of Inl e \<Rightarrow> Inl e | Inr y \<Rightarrow> (case map_sum_list f xs of Inl e \<Rightarrow> Inl e | Inr ys \<Rightarrow> Inr (y # ys)))"

definition createSimpleSelectorSequenceFromAst :: "ast_sequence \<Rightarrow> string + sequence" where
  "createSimpleSelectorSequenceFromAst ast =
     (case ast of
        [] \<Rightarrow> Inr (One (InvalidSelector ''Error: Empty simple selector sequence.''))
      | [a] \<Rightarrow> map_sum id One (createSimpleSelectorFromAst a)
      | _ \<Rightarrow> map_sum id Sequence (map_sum_list createSimpleSelectorFromAst ast))"

definition createSelectorFromAst :: "ast_selector \<Rightarrow> string + selector" where
  "createSelectorFromAst ast =
     (case ast of
        [] \<Rightarrow> Inr (Plain (One (InvalidSelector ''Error: Empty selector.'')))
      | [a] \<Rightarrow> map_sum id Plain (createSimpleSelectorSequenceFromAst (fst a))
      | _ \<Rightarrow> (case map_sum_list (\<lambda>(q, c). map_sum id (\<lambda>s. (s, c)) (createSimpleSelectorSequenceFromAst q)) ast of
            Inl e \<Rightarrow> Inl e
          | Inr qs \<Rightarrow> map_sum id Complex (newSelector qs)))"

definition createSelector :: "string \<Rightarrow> selector" where
  "createSelector sel =
     (case parseSelector sel of
        None \<Rightarrow> Plain (One (InvalidSelector ''Error: Empty selector''))
      | Some ast \<Rightarrow> (case createSelectorFromAst ast of Inl e \<Rightarrow> Plain (One (InvalidSelector e)) | Inr s \<Rightarrow> s))"

section \<open>Printing\<close>

definition wrap_text :: "string \<Rightarrow> string" where
  "wrap_text t = (if t = [] then [] else '' '' @ t @ '' '')"

fun simple_text :: "simple \<Rightarrow> string \<Rightarrow> string" where
  "simple_text (InvalidSelector e) c = ''<error: '' @ e @ ''>''"
| "simple_text UniversalSelector c = ''*'' @ wrap_text c"
| "simple_text (IdSelector i) c = ''#'' @ i @ wrap_text c"
| "simple_text (TypeSelector t) c = t @ wrap_text c"
| "simple_text (ClassSelector k) c = ''.'' @ k @ wrap_text c"
| "simple_text (AttributeSelector a t v) c = ''['' @ a @ wrap_text t @ (if t = [] then [] else v) @ '']'' @ wrap_text c"
| "simple_text (PseudoClassSelector p) c = '':'' @ p @ wrap_text c"

fun seq_text :: "sequence \<times> string \<Rightarrow> string" where
  "seq_text (One s, c) = simple_text s c"
| "seq_text (Sequence ss, c) = concat (map (\<lambda>s. simple_text s []) ss) @ wrap_text c"

fun sel_text :: "selector \<Rightarrow> string" where
  "sel_text (Plain q) = seq_text (q, [])"
| "sel_text (Complex c) = concat (map seq_text (c_selectors c))"

lemma parses:
  "sel_match \<lparr>pseudo_classes = \<lambda>_. [], attribute_of = \<lambda>_ _. AttrText ''b''\<rparr> (createSelector ''Stack-Layout > .a + *[x]'')
     (Node \<lparr>node_key = 1, node_id = None, cssType = None, cssClasses = []\<rparr>
        [\<lparr>node_key = 2, node_id = None, cssType = None, cssClasses = [''a'']\<rparr>]
        (Some (Node \<lparr>node_key = 3, node_id = None, cssType = Some ''stacklayout'', cssClasses = []\<rparr> [] None)))"
  by code_simp

end
