(* ===== verification/Css_Match.thy ===== *)
theory Css_Match
  imports Css_Selector
begin

text \<open>
  What a selector with combinators matches: the nearest ancestors that the code tries, group by group, are enough
  to decide the combinators of CSS.
\<close>

section \<open>The combinators of CSS\<close>

text \<open>A selector is read from its last part to its first; each part but the last has the combinator after it.\<close>

definition related :: "string \<Rightarrow> node \<Rightarrow> node \<Rightarrow> bool" where
  "related c n m \<longleftrightarrow> (if c = ''>'' then n_parent n = Some m else if c = ''+'' then getNodeDirectSibling n = Some m
     else m \<in> set (ancestors n))"

fun css_match :: "css_state \<Rightarrow> (sequence \<times> string) list \<Rightarrow> node \<Rightarrow> bool" where
  "css_match st [] n = True"
| "css_match st [(q, c)] n = seq_match st q n"
| "css_match st ((q, c) # (r, d) # qs) n = (seq_match st q n \<and> (\<exists>m. related d n m \<and> css_match st ((r, d) # qs) m))"

section \<open>Nodes\<close>

lemma ancestors_parent: "ancestors n = (case n_parent n of None \<Rightarrow> [] | Some p \<Rightarrow> p # ancestors p)"
  by (cases n rule: ancestors.cases) auto

lemma sibling_parent: "getNodeDirectSibling n = Some m \<Longrightarrow> n_parent m = n_parent n"
  by (cases n rule: getNodeDirectSibling.cases) auto

lemma ancestors_split: "ancestors n = ys @ a # zs \<Longrightarrow> zs = ancestors a"
  by (induction n arbitrary: ys rule: ancestors.induct) (auto simp: Cons_eq_append_conv)

lemma ancestors_trans: "a \<in> set (ancestors n) \<Longrightarrow> b \<in> set (ancestors a) \<Longrightarrow> b \<in> set (ancestors n)"
  by (induction n rule: ancestors.induct) auto

lemma first_some_None [simp]: "first_some f xs = None \<longleftrightarrow> (\<forall>x \<in> set xs. f x = None)"
  by (induction xs) (auto split: option.splits)

lemma first_some_Some: "first_some f xs = Some y \<Longrightarrow> \<exists>ys x zs. xs = ys @ x # zs \<and> f x = Some y \<and> (\<forall>z \<in> set ys. f z = None)"
proof (induction xs)
  case (Cons x xs)
  show ?case
  proof (cases "f x")
    case None
    with Cons obtain ys z zs where "xs = ys @ z # zs" "f z = Some y" "\<forall>z \<in> set ys. f z = None" by auto
    with None show ?thesis by (metis append_Cons set_ConsD)
  next
    case (Some y')
    with Cons.prems show ?thesis by (metis append_Nil empty_iff empty_set first_some.simps(2) option.simps(5))
  qed
qed simp

text \<open>The first success among the ancestors of a node: every other one is above it.\<close>

lemma first_ancestor:
  assumes "first_some f (ancestors n) = Some y"
  obtains a where "a \<in> set (ancestors n)" "f a = Some y"
    "\<And>b. b \<in> set (ancestors n) \<Longrightarrow> f b \<noteq> None \<Longrightarrow> b = a \<or> b \<in> set (ancestors a)"
proof -
  obtain ys a zs where a: "ancestors n = ys @ a # zs" "f a = Some y" "\<forall>z \<in> set ys. f z = None"
    using first_some_Some [OF assms] by blast
  have "b = a \<or> b \<in> set (ancestors a)" if "b \<in> set (ancestors n)" "f b \<noteq> None" for b
    using that a(3) ancestors_split [OF a(1)] unfolding a(1) by auto
  with a show ?thesis by (intro that [of a]) auto
qed

lemma walk_above:
  "walk n_parent f g n = Some t \<Longrightarrow> walk n_parent f' g n' = Some t' \<Longrightarrow> n' \<in> set (ancestors n) \<Longrightarrow> t' \<in> set (ancestors t)"
proof (induction n_parent f g n arbitrary: n' rule: walk.induct)
  case (3 f s r ss n)
  then obtain p p' where p: "n_parent n = Some p" "n_parent n' = Some p'" "f s n"
    "walk n_parent f (r # ss) p = Some t" "walk n_parent f' (r # ss) p' = Some t'"
    by (auto split: if_splits option.splits)
  have "p' \<in> set (ancestors p)"
    using "3.prems"(3) p(1,2) ancestors_parent [of n] ancestors_parent [of n'] ancestors_trans [of n' p p'] by auto
  with "3.hyps" [OF p(3,1,4,5)] show ?case by blast
qed (auto split: if_splits)

lemma walk_same: "walk up f g n = Some t \<Longrightarrow> walk up f' g n = Some t' \<Longrightarrow> t' = t"
  by (induction up f g n rule: walk.induct) (auto split: if_splits option.splits)

section \<open>Groups as combinators\<close>

text \<open>The meaning of nested groups, with what has to hold at the last node.\<close>

fun chain :: "('n \<Rightarrow> 'n \<Rightarrow> bool) \<Rightarrow> ('a \<Rightarrow> ('n \<Rightarrow> bool) \<Rightarrow> 'n \<Rightarrow> bool) \<Rightarrow> 'a list \<Rightarrow> ('n \<Rightarrow> bool) \<Rightarrow> 'n \<Rightarrow> bool" where
  "chain R T [] K n = K n"
| "chain R T [x] K n = T x K n"
| "chain R T (x # y # ys) K n = T x (\<lambda>m. \<exists>m'. R m m' \<and> chain R T (y # ys) K m') n"

lemma chain_append: "xs \<noteq> [] \<Longrightarrow> chain R T (xs @ [x]) K = chain R T xs (\<lambda>m. \<exists>m'. R m m' \<and> T x K m')"
  by (induction R T xs K _ rule: chain.induct) (auto simp: fun_eq_iff)

lemma chain_on_last:
  assumes "xs \<noteq> []" "T (f (last xs)) K = T (last xs) K'"
  shows "chain R T (on_last f xs) K = chain R T xs K'"
  using assms
proof (induction xs rule: induct_list012)
  case (3 x y ys)
  obtain z zs where z: "on_last f (y # ys) = z # zs" by (cases "on_last f (y # ys)") (auto simp: on_last_def)
  have x: "on_last f (x # y # ys) = x # z # zs" using z by (simp add: on_last_def)
  from 3 z have "chain R T (z # zs) K = chain R T (y # ys) K'" by simp
  then show ?case unfolding x chain.simps(3) by (simp add: fun_eq_iff)
qed (auto simp: on_last_def fun_eq_iff)

definition part_sem :: "css_state \<Rightarrow> sequence \<Rightarrow> (node \<Rightarrow> bool) \<Rightarrow> node \<Rightarrow> bool" where
  "part_sem st q K n \<longleftrightarrow> seq_match st q n \<and> K n"

definition sib_sem :: "css_state \<Rightarrow> sibling_group \<Rightarrow> (node \<Rightarrow> bool) \<Rightarrow> node \<Rightarrow> bool" where
  "sib_sem st = chain (related ''+'') (part_sem st)"

definition child_sem :: "css_state \<Rightarrow> child_group \<Rightarrow> (node \<Rightarrow> bool) \<Rightarrow> node \<Rightarrow> bool" where
  "child_sem st = chain (related ''>'') (sib_sem st)"

definition groups_sem :: "css_state \<Rightarrow> child_group list \<Rightarrow> (node \<Rightarrow> bool) \<Rightarrow> node \<Rightarrow> bool" where
  "groups_sem st = chain (related '' '') (child_sem st)"

fun next_sem :: "css_state \<Rightarrow> (sequence \<times> string) list \<Rightarrow> (node \<Rightarrow> bool) \<Rightarrow> node \<Rightarrow> bool" where
  "next_sem st [] K n = K n"
| "next_sem st ((q, c) # qs) K n = (\<exists>m. related c n m \<and> seq_match st q m \<and> next_sem st qs K m)"

lemma css_match_next: "css_match st ((q, c) # qs) n = (seq_match st q n \<and> next_sem st qs (\<lambda>_. True) n)"
proof (induction qs arbitrary: q c n)
  case (Cons r qs)
  then show ?case by (cases r) auto
qed simp

definition filled :: "child_group list \<Rightarrow> bool" where
  "filled gs \<longleftrightarrow> (\<forall>g \<in> set gs. g \<noteq> [] \<and> (\<forall>sg \<in> set g. sg \<noteq> []))"

lemma filled_on_last: "filled gs \<Longrightarrow> gs \<noteq> [] \<Longrightarrow> f (last gs) \<noteq> [] \<Longrightarrow> (\<forall>sg \<in> set (f (last gs)). sg \<noteq> []) \<Longrightarrow>
    filled (on_last f gs)"
  by (auto simp: filled_def on_last_def dest: in_set_butlastD)

lemma filled_last: "filled gs \<Longrightarrow> gs \<noteq> [] \<Longrightarrow> last gs \<noteq> [] \<and> (\<forall>sg \<in> set (last gs). sg \<noteq> []) \<and> last (last gs) \<noteq> []"
  unfolding filled_def by (metis last_in_set)

lemma next_one: "next_sem st [(q, c)] K = (\<lambda>m. \<exists>m'. related c m m' \<and> seq_match st q m' \<and> K m')"
  by (simp add: fun_eq_iff)

lemma add_descendant: "gs \<noteq> [] \<Longrightarrow> groups_sem st (gs @ [[[q]]]) K = groups_sem st gs (next_sem st [(q, '' '')] K)"
  by (simp add: groups_sem_def child_sem_def sib_sem_def part_sem_def chain_append next_one)

lemma add_child:
  assumes "gs \<noteq> []" "filled gs"
  shows "groups_sem st (on_last (\<lambda>g. g @ [[q]]) gs) K = groups_sem st gs (next_sem st [(q, ''>'')] K)"
  unfolding groups_sem_def
  by (rule chain_on_last [OF assms(1)])
    (use filled_last [OF assms(2,1)] in \<open>simp add: child_sem_def sib_sem_def part_sem_def chain_append next_one\<close>)

lemma add_sibling:
  assumes "gs \<noteq> []" "filled gs"
  shows "groups_sem st (on_last (on_last (\<lambda>sg. sg @ [q])) gs) K = groups_sem st gs (next_sem st [(q, ''+'')] K)"
  unfolding groups_sem_def
proof (rule chain_on_last [OF assms(1)])
  show "child_sem st (on_last (\<lambda>sg. sg @ [q]) (last gs)) K = child_sem st (last gs) (next_sem st [(q, ''+'')] K)"
    unfolding child_sem_def
    by (rule chain_on_last)
      (use filled_last [OF assms(2,1)] in \<open>simp_all add: sib_sem_def part_sem_def chain_append next_one\<close>)
qed

lemma make_groups_sem:
  "make_groups qs gs = Inr gs' \<Longrightarrow> gs \<noteq> [] \<Longrightarrow> filled gs \<Longrightarrow>
   filled gs' \<and> gs' \<noteq> [] \<and> groups_sem st gs' K = groups_sem st gs (next_sem st qs K)"
proof (induction qs arbitrary: gs)
  case Nil
  then show ?case by simp
next
  case (Cons qc qs)
  obtain q c where qc: "qc = (q, c)" by fastforce
  have cut: "next_sem st ((q, c') # qs) K = next_sem st [(q, c')] (next_sem st qs K)" for c' by (simp add: fun_eq_iff)
  have empty: "next_sem st ((q, []) # qs) K = next_sem st ((q, '' '') # qs) K" by (simp add: related_def fun_eq_iff)
  have "c = [] \<or> c = '' '' \<or> c = ''>'' \<or> c = ''+''" using Cons.prems(1) qc by (auto split: if_splits)
  then consider (blank) "c = [] \<or> c = '' ''" | (child) "c = ''>''" | (sibling) "c = ''+''" by blast
  then show ?case
  proof cases
    case blank
    have f: "filled (gs @ [[[q]]])" using Cons.prems(3) by (auto simp: filled_def)
    from Cons.IH [of "gs @ [[[q]]]"] Cons.prems(1) qc blank f
    have ih: "filled gs' \<and> gs' \<noteq> [] \<and> groups_sem st gs' K = groups_sem st (gs @ [[[q]]]) (next_sem st qs K)" by auto
    show ?thesis using ih blank qc cut [of "'' ''"] empty add_descendant [OF Cons.prems(2)]
      by (auto simp del: next_sem.simps)
  next
    case child
    let ?f = "\<lambda>g. g @ [[q]]"
    have f: "filled (on_last ?f gs)" "on_last ?f gs \<noteq> []"
      using filled_last [OF Cons.prems(3,2)] filled_on_last [OF Cons.prems(3,2), of ?f] by (auto simp: on_last_def)
    from Cons.IH [OF _ f(2,1)] Cons.prems(1,2) qc child add_child [OF Cons.prems(2,3)] cut show ?thesis
      by (simp del: next_sem.simps)
  next
    case sibling
    let ?f = "on_last (\<lambda>sg. sg @ [q])"
    have f: "filled (on_last ?f gs)" "on_last ?f gs \<noteq> []"
      using filled_last [OF Cons.prems(3,2)] filled_on_last [OF Cons.prems(3,2), of ?f]
      by (auto simp: on_last_def dest: in_set_butlastD)
    from Cons.IH [OF _ f(2,1)] Cons.prems(1,2) qc sibling add_sibling [OF Cons.prems(2,3)] cut show ?thesis
      by (simp del: next_sem.simps)
  qed
qed

section \<open>What the code does with the groups\<close>

lemma chain_cong: "(\<And>K n. T x K n = T' x K n) \<Longrightarrow> T x K n = T' x K n"
  by simp

text \<open>Inside a group of siblings the parent does not change.\<close>

lemma sib_sem_match: "sg \<noteq> [] \<Longrightarrow> sib_sem st sg (\<lambda>m. L (n_parent m)) n = (sib_match st sg n \<and> L (n_parent n))"
  unfolding sib_sem_def sib_match_def
proof (induction sg arbitrary: n rule: induct_list012)
  case (3 q r qs)
  then show ?case
    by (cases "getNodeDirectSibling n") (auto simp: part_sem_def related_def dest: sibling_parent)
qed (auto simp: part_sem_def)

lemma child_sem_match:
  "g \<noteq> [] \<Longrightarrow> \<forall>sg \<in> set g. sg \<noteq> [] \<Longrightarrow>
   child_sem st g (\<lambda>m. L (n_parent m)) n = (case child_match st g n of None \<Rightarrow> False | Some t \<Rightarrow> L (n_parent t))"
  unfolding child_sem_def child_match_def
proof (induction g arbitrary: n rule: induct_list012)
  case (3 sg sg' g)
  let ?K = "\<lambda>m. L (n_parent m)"
  have "chain (related ''>'') (sib_sem st) (sg # sg' # g) ?K n =
      sib_sem st sg (\<lambda>m. (\<lambda>p. \<exists>m'. p = Some m' \<and> chain (related ''>'') (sib_sem st) (sg' # g) ?K m') (n_parent m)) n"
    by (simp add: related_def)
  also have "\<dots> = (sib_match st sg n \<and> (\<exists>m'. n_parent n = Some m' \<and> chain (related ''>'') (sib_sem st) (sg' # g) ?K m'))"
    using "3.prems" by (intro sib_sem_match) auto
  finally show ?case using "3.IH"(2) "3.prems" by (auto split: option.splits)
qed (auto simp: sib_sem_match)

fun rest_sem :: "css_state \<Rightarrow> child_group list \<Rightarrow> node \<Rightarrow> bool" where
  "rest_sem st [] n = True"
| "rest_sem st (g # gs) n = (\<exists>a \<in> set (ancestors n). \<exists>t. child_match st g a = Some t \<and> rest_sem st gs t)"

lemma rest_sem_above: "a \<in> set (ancestors n) \<Longrightarrow> rest_sem st gs a \<Longrightarrow> rest_sem st gs n"
  by (cases gs) (auto dest: ancestors_trans)

text \<open>The nearest ancestor is as good as any other.\<close>

lemma rest_match_sem: "rest_match st gs n = rest_sem st gs n"
proof (induction gs arbitrary: n)
  case (Cons g gs)
  show ?case
  proof (cases "first_some (child_match st g) (ancestors n)")
    case None
    then show ?thesis unfolding rest_match.simps None using None by auto
  next
    case (Some t)
    obtain a where a: "a \<in> set (ancestors n)" "child_match st g a = Some t"
      "\<And>b. b \<in> set (ancestors n) \<Longrightarrow> child_match st g b \<noteq> None \<Longrightarrow> b = a \<or> b \<in> set (ancestors a)"
      by (rule first_ancestor [OF Some]) blast
    have "rest_sem st gs t" if "b \<in> set (ancestors n)" "child_match st g b = Some u" "rest_sem st gs u" for b u
    proof -
      from a(3) [OF that(1)] that(2) have "b = a \<or> b \<in> set (ancestors a)" by simp
      then have "u = t \<or> u \<in> set (ancestors t)"
        using a(2) that(2) walk_above unfolding child_match_def by fastforce
      with that(3) rest_sem_above show ?thesis by blast
    qed
    with a(1,2) Some Cons show ?thesis by auto
  qed
qed simp

lemma groups_sem_rest:
  "filled (g # gs) \<Longrightarrow> groups_sem st (g # gs) (\<lambda>_. True) n = (case child_match st g n of None \<Rightarrow> False | Some t \<Rightarrow> rest_sem st gs t)"
proof (induction gs arbitrary: g n)
  case Nil
  with child_sem_match [of g st "\<lambda>_. True" n] show ?case by (simp add: groups_sem_def filled_def split: option.splits)
next
  case (Cons h gs)
  define L where "L p = (\<exists>m' \<in> set (case p of None \<Rightarrow> [] | Some p \<Rightarrow> p # ancestors p). groups_sem st (h # gs) (\<lambda>_. True) m')" for p
  have L: "L (n_parent m) = (\<exists>m' \<in> set (ancestors m). groups_sem st (h # gs) (\<lambda>_. True) m')" for m
    by (simp only: L_def ancestors_parent [of m])
  have h: "filled (h # gs)" using Cons.prems by (simp add: filled_def)
  have "groups_sem st (g # h # gs) (\<lambda>_. True) n = child_sem st g (\<lambda>m. L (n_parent m)) n"
    unfolding L by (simp add: groups_sem_def related_def Bex_def)
  also have "\<dots> = (case child_match st g n of None \<Rightarrow> False | Some t \<Rightarrow> L (n_parent t))"
    using Cons.prems by (intro child_sem_match) (auto simp: filled_def)
  finally show ?case by (auto simp: L Cons.IH [OF h] split: option.splits)
qed

section \<open>The property\<close>

text \<open>C23: A selector with combinators matches a node iff its parts match nodes related as the combinators of CSS say:
  the code, which takes for each group the nearest ancestor that matches and never goes back, misses
  no match.\<close>

theorem selector_follows_css:
  assumes "newSelector qs = Inr c"
  shows "complex_match st c n = css_match st (rev qs) n"
proof (cases "rev qs")
  case Nil
  with assms have "c_groups c = []" by (auto simp: newSelector_def split: sum.splits)
  with Nil show ?thesis by (simp add: complex_match_def groups_match_def)
next
  case (Cons qd rs)
  obtain q d where qd: "qd = (q, d)" by fastforce
  from assms obtain gs where gs: "make_groups (rev qs) [] = Inr gs" "c_groups c = gs"
    by (auto simp: newSelector_def split: sum.splits)
  then have gs': "make_groups rs [[[q]]] = Inr gs" using Cons qd by (auto split: if_splits)
  have "filled [[[q]]]" by (simp add: filled_def)
  from make_groups_sem [OF gs' _ this, of st "\<lambda>_. True"]
  have f: "filled gs" "gs \<noteq> []" and sem: "groups_sem st gs (\<lambda>_. True) n = groups_sem st [[[q]]] (next_sem st rs (\<lambda>_. True)) n"
    by auto
  have "groups_match st gs n = groups_sem st gs (\<lambda>_. True) n"
    using f by (cases gs) (auto simp: groups_match_def groups_sem_rest rest_match_sem split: option.splits)
  with sem gs(2) Cons qd show ?thesis
    by (simp add: complex_match_def css_match_next groups_sem_def child_sem_def sib_sem_def part_sem_def)
qed

definition leaf_info :: "nat \<Rightarrow> string \<Rightarrow> info" where
  "leaf_info k c = \<lparr>node_key = k, node_id = None, cssType = Some ''label'', cssClasses = [c]\<rparr>"

text \<open>A label in two containers, of which only the outer one is in a node of class \<^verbatim>\<open>a\<close>.\<close>

definition nested :: node where
  "nested = Node (leaf_info 1 ''c'') [] (Some (Node (leaf_info 2 ''b'') [] (Some (Node (leaf_info 3 ''b'') []
     (Some (Node (leaf_info 4 ''a'') [] None))))))"

definition no_state :: css_state where
  "no_state = \<lparr>pseudo_classes = \<lambda>_. [], attribute_of = \<lambda>_ _. AttrUndefined\<rparr>"

theorem selector_follows_css_witness:
  "\<exists>c. newSelector [(One (ClassSelector ''a''), ''>''), (One (ClassSelector ''b''), '' ''), (One (ClassSelector ''c''), [])] = Inr c \<and>
     complex_match no_state c nested \<and>
     css_match no_state [(One (ClassSelector ''c''), []), (One (ClassSelector ''b''), '' ''), (One (ClassSelector ''a''), ''>'')] nested"
proof -
  let ?qs = "[(One (ClassSelector ''a''), ''>''), (One (ClassSelector ''b''), '' ''), (One (ClassSelector ''c''), [])]"
  have "\<not> (case newSelector ?qs of Inl e \<Rightarrow> True | Inr c \<Rightarrow> \<not> complex_match no_state c nested)" by code_simp
  then obtain c where c: "newSelector ?qs = Inr c" "complex_match no_state c nested" by (auto split: sum.splits)
  with selector_follows_css [OF c(1), of no_state nested] show ?thesis by auto
qed

end
