(* ===== verification/Css_Track.thy ===== *)
theory Css_Track
  imports Css_Match
begin

text \<open>
  What \<open>accumulateChanges\<close> answers and tracks: a selector that it refuses can never match the node, and one that it
  takes matches alike in any two states that agree on what it has tracked.
\<close>

section \<open>The contract of the selectors\<close>

text \<open>Two states agree on the attributes and pseudo-classes in a change map.\<close>

definition same_at :: "css_state \<Rightarrow> css_state \<Rightarrow> nat \<Rightarrow> deps \<Rightarrow> bool" where
  "same_at st st' k d \<longleftrightarrow> (\<forall>a \<in> set (d_attributes d). attribute_of st k a = attribute_of st' k a) \<and>
     (\<forall>p \<in> set (d_pseudoClasses d). (p \<in> set (pseudo_classes st k)) = (p \<in> set (pseudo_classes st' k)))"

definition agree :: "css_state \<Rightarrow> css_state \<Rightarrow> changes \<Rightarrow> bool" where
  "agree st st' m \<longleftrightarrow> (\<forall>k. same_at st st' k (properties k m))"

locale tracked =
  fixes mat :: "css_state \<Rightarrow> 'a \<Rightarrow> node \<Rightarrow> bool"
    and may :: "css_state \<Rightarrow> 'a \<Rightarrow> node \<Rightarrow> bool"
    and track :: "'a \<Rightarrow> node \<Rightarrow> changes \<Rightarrow> changes"
    and dyn :: "'a \<Rightarrow> bool"
  assumes may_fixed: "may st x n = may st' x n"
    and mat_may: "mat st x n \<Longrightarrow> may st x n"
    and grows: "agree st st' (track x n m) \<Longrightarrow> agree st st' m"
    and tracks: "may st x n \<Longrightarrow> agree st st' (track x n m) \<Longrightarrow> mat st x n = mat st' x n"
    and still: "\<not> dyn x \<Longrightarrow> mat st x n = mat st' x n"
begin

lemma walk_may_fixed: "walk up (may st) g n = walk up (may st') g n"
  by (induction up "may st" g n rule: walk.induct) (auto simp: may_fixed [of st _ _ st'] split: option.splits)

lemma walk_mat_may: "walk up (mat st) g n = Some t \<Longrightarrow> walk up (may st) g n = Some t"
  by (induction up "mat st" g n rule: walk.induct) (auto dest: mat_may split: option.splits if_splits)

lemma walk_grows: "agree st st' (track_walk up track g n m) \<Longrightarrow> agree st st' m"
proof (induction g arbitrary: n m rule: induct_list012)
  case (2 s)
  from grows [OF 2 [unfolded track_walk.simps]] show ?case .
next
  case (3 s t g)
  show ?case
  proof (cases "up n")
    case None
    with "3.prems" have "agree st st' (track s n m)" by simp
    then show ?thesis by (rule grows)
  next
    case (Some n')
    with "3.prems" have "agree st st' (track_walk up track (t # g) n' (track s n m))" by simp
    from grows [OF "3.IH"(2) [OF this]] show ?thesis .
  qed
qed simp

lemma walk_tracks:
  "walk up (may st) g n \<noteq> None \<Longrightarrow> agree st st' (track_walk up track g n m) \<Longrightarrow> walk up (mat st) g n = walk up (mat st') g n"
proof (induction g arbitrary: n m rule: induct_list012)
  case (3 s t g)
  obtain n' where n': "may st s n" "up n = Some n'" "walk up (may st) (t # g) n' \<noteq> None"
    using "3.prems"(1) by (auto split: if_splits option.splits)
  from "3.prems"(2) n'(2) have a: "agree st st' (track_walk up track (t # g) n' (track s n m))" by simp
  from "3.IH"(2) [OF n'(3) a] tracks [OF n'(1) walk_grows [OF a]] n'(2) show ?case by simp
qed (auto split: if_splits dest: tracks)

lemma walk_still: "\<not> list_ex dyn g \<Longrightarrow> walk up (mat st) g n = walk up (mat st') g n"
  by (induction g arbitrary: n rule: induct_list012) (auto split: option.splits dest: still [of _ st _ st'])

lemma all_may_fixed: "list_all (\<lambda>s. may st s n) ss = list_all (\<lambda>s. may st' s n) ss"
  by (simp add: may_fixed [of st _ _ st'])

lemma fold_grows: "agree st st' (foldl (\<lambda>m s. track s n m) m ss) \<Longrightarrow> agree st st' m"
  by (induction ss arbitrary: m) (auto dest: grows)

lemma all_tracks:
  "list_all (\<lambda>s. may st s n) ss \<Longrightarrow> agree st st' (foldl (\<lambda>m s. track s n m) m ss) \<Longrightarrow>
   list_all (\<lambda>s. mat st s n) ss = list_all (\<lambda>s. mat st' s n) ss"
  by (induction ss arbitrary: m) (auto dest: fold_grows tracks)

end

section \<open>Simple selectors, sequences and groups\<close>

lemma properties_addAttribute: "properties k' (addAttribute k a m) =
    (if k' = k then (properties k m)\<lparr>d_attributes := push_new (d_attributes (properties k m)) a\<rparr> else properties k' m)"
  by (simp add: addAttribute_def properties_def Let_def)

lemma properties_addPseudoClass: "properties k' (addPseudoClass k p m) =
    (if k' = k then (properties k m)\<lparr>d_pseudoClasses := push_new (d_pseudoClasses (properties k m)) p\<rparr> else properties k' m)"
  by (simp add: addPseudoClass_def properties_def Let_def)

lemma agree_at: "agree st st' m' \<longleftrightarrow> agree st st' m \<and> P"
  if "\<And>k'. same_at st st' k' (properties k' m') \<longleftrightarrow> same_at st st' k' (properties k' m) \<and> (k' = k \<longrightarrow> P)"
  using that by (auto simp: agree_def)

lemma agree_addAttribute:
  "agree st st' (addAttribute k a m) \<longleftrightarrow> agree st st' m \<and> attribute_of st k a = attribute_of st' k a"
  by (rule agree_at [where k = k]) (auto simp: properties_addAttribute same_at_def)

lemma agree_addPseudoClass:
  "agree st st' (addPseudoClass k p m) \<longleftrightarrow> agree st st' m \<and> (p \<in> set (pseudo_classes st k)) = (p \<in> set (pseudo_classes st' k))"
  by (rule agree_at [where k = k]) (auto simp: properties_addPseudoClass same_at_def)

lemma simple_still: "\<not> dynamic s \<Longrightarrow> simple_match st s n = simple_match st' s n"
  by (cases s) auto

interpretation simples: tracked simple_match simple_mayMatch simple_track dynamic
proof
  show "simple_mayMatch st s n = simple_mayMatch st' s n" for st s n st'
    using simple_still [of s st n st'] by (simp add: simple_mayMatch_def)
  show "agree st st' m" if "agree st st' (simple_track s n m)" for st st' s n m
    using that by (cases s) (auto simp: agree_addAttribute agree_addPseudoClass)
  show "simple_match st s n = simple_match st' s n" if "agree st st' (simple_track s n m)" for st s n st' m
    using that simple_still [of s st n st'] by (cases s) (auto simp: agree_addAttribute agree_addPseudoClass)
  show "\<not> dynamic s \<Longrightarrow> simple_match st s n = simple_match st' s n" for s st n st'
    by (rule simple_still)
qed (simp add: simple_mayMatch_def)

interpretation seqs: tracked seq_match seq_mayMatch seq_track seq_dynamic
proof
  show "seq_mayMatch st q n = seq_mayMatch st' q n" for st q n st'
    unfolding seq_mayMatch_def by (rule simples.all_may_fixed)
  show "seq_match st q n \<Longrightarrow> seq_mayMatch st q n" for st q n
    by (auto simp: seq_match_def seq_mayMatch_def list_all_iff dest: simples.mat_may)
  show "agree st st' (seq_track q n m) \<Longrightarrow> agree st st' m" for st st' q n m
    unfolding seq_track_def by (rule simples.fold_grows)
  show "seq_mayMatch st q n \<Longrightarrow> agree st st' (seq_track q n m) \<Longrightarrow> seq_match st q n = seq_match st' q n" for st q n st' m
    unfolding seq_track_def seq_match_def seq_mayMatch_def by (rule simples.all_tracks)
  show "\<not> seq_dynamic q \<Longrightarrow> seq_match st q n = seq_match st' q n" for q st n st'
    by (auto simp: seq_dynamic_def seq_match_def list_all_iff list_ex_iff dest: simple_still)
qed

interpretation sibs: tracked sib_match sib_mayMatch sib_track "list_ex seq_dynamic"
proof
  show "sib_mayMatch st g n = sib_mayMatch st' g n" for st g n st'
    unfolding sib_mayMatch_def by (simp add: seqs.walk_may_fixed [of _ st _ _ st'])
  show "sib_match st g n \<Longrightarrow> sib_mayMatch st g n" for st g n
    by (auto simp: sib_match_def sib_mayMatch_def dest: seqs.walk_mat_may)
  show "agree st st' (sib_track g n m) \<Longrightarrow> agree st st' m" for st st' g n m
    unfolding sib_track_def by (rule seqs.walk_grows)
  show "sib_mayMatch st g n \<Longrightarrow> agree st st' (sib_track g n m) \<Longrightarrow> sib_match st g n = sib_match st' g n" for st g n st' m
    unfolding sib_track_def sib_match_def sib_mayMatch_def by (simp add: seqs.walk_tracks)
  show "\<not> list_ex seq_dynamic g \<Longrightarrow> sib_match st g n = sib_match st' g n" for g st n st'
    unfolding sib_match_def by (simp add: seqs.walk_still [of _ _ st _ st'])
qed

lemma child_may_fixed: "child_mayMatch st g n = child_mayMatch st' g n"
  unfolding child_mayMatch_def by (rule sibs.walk_may_fixed)

lemma child_mat_may: "child_match st g n = Some t \<Longrightarrow> child_mayMatch st g n = Some t"
  unfolding child_match_def child_mayMatch_def by (rule sibs.walk_mat_may)

lemma child_grows: "agree st st' (child_track g n m) \<Longrightarrow> agree st st' m"
  unfolding child_track_def by (rule sibs.walk_grows)

lemma child_tracks: "child_mayMatch st g n \<noteq> None \<Longrightarrow> agree st st' (child_track g n m) \<Longrightarrow> child_match st g n = child_match st' g n"
  unfolding child_track_def child_match_def child_mayMatch_def by (rule sibs.walk_tracks)

lemma child_still: "\<not> group_dynamic g \<Longrightarrow> child_match st g n = child_match st' g n"
  unfolding group_dynamic_def child_match_def by (rule sibs.walk_still)

section \<open>Selectors with combinators\<close>

lemma track_node_grows: "agree st st' (track_node st0 g n m) \<Longrightarrow> agree st st' m"
  by (auto simp: track_node_def dest: child_grows split: if_splits)

lemma fold_track_grows: "agree st st' (fold (track_node st0 g) ns m) \<Longrightarrow> agree st st' m"
  by (induction ns arbitrary: m) (auto dest: track_node_grows)

lemma no_may_no_match: "child_mayMatch st0 g n = None \<Longrightarrow> child_match st g n = None"
  using child_mat_may [of st g n] child_may_fixed [of st g n st0] by (cases "child_match st g n") auto

lemma fold_tracks: "agree st st' (fold (track_node st0 g) ns m) \<Longrightarrow> n \<in> set ns \<Longrightarrow> child_match st g n = child_match st' g n"
proof (induction ns arbitrary: m)
  case (Cons x xs)
  show ?case
  proof (cases "n = x")
    case True
    from Cons.prems(1) have a: "agree st st' (track_node st0 g n m)" using True fold_track_grows by simp
    show ?thesis
    proof (cases "child_mayMatch st0 g n")
      case None
      then show ?thesis by (simp add: no_may_no_match [of st0])
    next
      case (Some t)
      with a have "agree st st' (child_track g n m)" by (simp add: track_node_def)
      moreover have "child_mayMatch st g n \<noteq> None" using Some child_may_fixed [of st0 g n st] by simp
      ultimately show ?thesis by (rule child_tracks [rotated])
    qed
  next
    case False
    with Cons show ?thesis by simp
  qed
qed simp

definition covered :: "css_state \<Rightarrow> css_state \<Rightarrow> child_group \<times> bound \<Rightarrow> bool" where
  "covered st st' gb \<longleftrightarrow> (case gb of (g, left, only) \<Rightarrow>
     \<forall>a \<in> set (left # (if only then [] else ancestors left)). child_match st g a = child_match st' g a)"

lemma track_bounds_grows: "agree st st' (track_bounds st0 gbs m) \<Longrightarrow> agree st st' m"
proof (induction gbs arbitrary: m)
  case (Cons gb gbs)
  obtain g left only where gb: "gb = (g, left, only)" by (cases gb)
  from Cons.IH [OF Cons.prems [unfolded gb track_bounds.simps]] fold_track_grows show ?case by (metis (full_types))
qed simp

lemma track_bounds_covered: "agree st st' (track_bounds st0 gbs m) \<Longrightarrow> list_all (covered st st') gbs"
proof (induction gbs arbitrary: m)
  case (Cons gb gbs)
  obtain g left only where gb: "gb = (g, left, only)" by (cases gb)
  let ?ns = "left # (if only then [] else ancestors left)"
  let ?m = "if group_dynamic g then fold (track_node st0 g) ?ns m else m"
  from Cons.prems gb have a: "agree st st' (track_bounds st0 gbs ?m)" by simp
  have "child_match st g n = child_match st' g n" if "n \<in> set ?ns" for n
    using fold_tracks [OF _ that, of st st' st0 g m] track_bounds_grows [OF a] child_still [of g st n st']
    by (auto split: if_splits)
  with Cons.IH [OF a] gb show ?case by (simp add: covered_def)
qed simp

text \<open>Where the code looks for a group, any match is at its first possible node or above.\<close>

lemma above_left:
  assumes "first_some (\<lambda>a. map_option (Pair a) (child_mayMatch st0 g a)) (ancestors n) = Some (left, m)"
    and "a \<in> set (ancestors n)" "child_match st g a = Some t"
  shows "(a = left \<or> a \<in> set (ancestors left)) \<and> (t = m \<or> t \<in> set (ancestors m))"
proof -
  obtain b where b: "b \<in> set (ancestors n)" "map_option (Pair b) (child_mayMatch st0 g b) = Some (left, m)"
    "\<And>c. c \<in> set (ancestors n) \<Longrightarrow> map_option (Pair c) (child_mayMatch st0 g c) \<noteq> None \<Longrightarrow> c = b \<or> c \<in> set (ancestors b)"
    by (rule first_ancestor [OF assms(1)]) blast
  have l: "b = left" "child_mayMatch st0 g left = Some m" using b(2) by auto
  have may: "child_mayMatch st0 g a = Some t" using child_mat_may [OF assms(3)] child_may_fixed [of st0 g a st] by simp
  with b(3) [OF assms(2)] l(1) have "a = left \<or> a \<in> set (ancestors left)" by simp
  moreover from this have "t = m \<or> t \<in> set (ancestors m)"
    using l(2) may walk_above unfolding child_mayMatch_def by fastforce
  ultimately show ?thesis by blast
qed

lemma rest_needs_bounds:
  "rest_match st gs t \<Longrightarrow> t = n \<or> t \<in> set (ancestors n) \<Longrightarrow> rest_bounds st0 gs n \<noteq> None"
proof (induction gs arbitrary: t n)
  case (Cons g gs)
  obtain u where u: "first_some (child_match st g) (ancestors t) = Some u" "rest_match st gs u"
    using Cons.prems(1) by (auto split: option.splits)
  obtain a where a: "a \<in> set (ancestors t)" "child_match st g a = Some u" by (rule first_ancestor [OF u(1)]) blast
  have an: "a \<in> set (ancestors n)" using a(1) Cons.prems(2) ancestors_trans by blast
  show ?case
  proof (cases "first_some (\<lambda>a. map_option (Pair a) (child_mayMatch st0 g a)) (ancestors n)")
    case None
    from None [unfolded first_some_None] an have "child_mayMatch st0 g a = None" by auto
    with no_may_no_match a(2) show ?thesis by fastforce
  next
    case (Some lm)
    obtain left m where lm: "lm = (left, m)" by fastforce
    from above_left [OF Some [unfolded lm] an a(2)] Cons.IH [OF u(2)] Some lm show ?thesis by auto
  qed
qed simp

lemma first_some_cong: "(\<And>x. x \<in> set xs \<Longrightarrow> f x = g x) \<Longrightarrow> first_some f xs = first_some g xs"
  by (induction xs) (auto split: option.split)

lemma rest_same:
  "rest_bounds st0 gs n = Some bs \<Longrightarrow> list_all (covered st st') (zip gs bs) \<Longrightarrow> t = n \<or> t \<in> set (ancestors n) \<Longrightarrow>
   rest_match st gs t = rest_match st' gs t"
proof (induction gs arbitrary: n bs t)
  case (Cons g gs)
  obtain left m bs' where lm: "first_some (\<lambda>a. map_option (Pair a) (child_mayMatch st0 g a)) (ancestors n) = Some (left, m)"
    "rest_bounds st0 gs m = Some bs'" "bs = (left, False) # bs'"
    using Cons.prems(1) by (auto split: option.splits)
  have cov: "list_all (covered st st') (zip gs bs')" using Cons.prems(2) lm(3) by simp
  have left: "\<And>a. a = left \<or> a \<in> set (ancestors left) \<Longrightarrow> child_match st g a = child_match st' g a"
    using Cons.prems(2) lm(3) by (auto simp: covered_def)
  have same: "child_match st g a = child_match st' g a" if "a \<in> set (ancestors n)" for a
    using above_left [OF lm(1) that, of st] above_left [OF lm(1) that, of st'] left [of a]
    by (cases "child_match st g a"; cases "child_match st' g a") auto
  have sub: "set (ancestors t) \<subseteq> set (ancestors n)" using Cons.prems(3) ancestors_trans by blast
  have eq: "first_some (child_match st g) (ancestors t) = first_some (child_match st' g) (ancestors t)"
    using same sub by (intro first_some_cong) blast
  show ?case
  proof (cases "first_some (child_match st g) (ancestors t)")
    case None
    then show ?thesis unfolding rest_match.simps eq [symmetric] None by simp
  next
    case (Some u)
    obtain a where a: "a \<in> set (ancestors t)" "child_match st g a = Some u" by (rule first_ancestor [OF Some]) blast
    from above_left [OF lm(1) _ a(2)] a(1) sub have "u = m \<or> u \<in> set (ancestors m)" by blast
    from Cons.IH [OF lm(2) cov this] show ?thesis unfolding rest_match.simps eq [symmetric] Some by simp
  qed
qed simp

lemma groups_accumulate:
  assumes "bounds st0 gs n = r"
  shows "r = None \<Longrightarrow> \<not> groups_match st gs n"
    and "r = Some bs \<Longrightarrow> agree st st' (track_bounds st0 (zip gs bs) m) \<Longrightarrow> groups_match st gs n = groups_match st' gs n"
proof -
  show "\<not> groups_match st gs n" if "r = None"
  proof (cases gs)
    case (Cons g gs')
    show ?thesis
    proof (cases "child_match st g n")
      case (Some t)
      then have "child_mayMatch st0 g n = Some t" using child_mat_may child_may_fixed [of st0 g n st] by simp
      with Cons Some that assms rest_needs_bounds [of st gs' t t st0] show ?thesis
        by (auto simp: bounds_def groups_match_def)
    qed (simp add: Cons groups_match_def)
  qed (use that assms in \<open>simp add: bounds_def\<close>)
  show "groups_match st gs n = groups_match st' gs n"
    if r: "r = Some bs" and a: "agree st st' (track_bounds st0 (zip gs bs) m)"
  proof (cases gs)
    case (Cons g gs')
    with r assms obtain t bs' where t: "child_mayMatch st0 g n = Some t" "rest_bounds st0 gs' t = Some bs'" "bs = (n, True) # bs'"
      by (auto simp: bounds_def split: option.splits)
    have cov: "list_all (covered st st') (zip gs bs)" by (rule track_bounds_covered [OF a])
    then have eq: "child_match st g n = child_match st' g n" and rest: "list_all (covered st st') (zip gs' bs')"
      using Cons t(3) by (simp_all add: covered_def)
    show ?thesis
    proof (cases "child_match st g n")
      case None
      then show ?thesis using Cons eq by (simp add: groups_match_def)
    next
      case (Some u)
      then have "u = t" using t(1) child_mat_may child_may_fixed [of st0 g n st] by fastforce
      with rest_same [OF t(2) rest, of u] Some eq Cons show ?thesis by (simp add: groups_match_def)
    qed
  qed (simp add: groups_match_def)
qed

lemma list_ex_on_last: "xs \<noteq> [] \<Longrightarrow> list_ex P (on_last f xs) = (list_ex P (butlast xs) \<or> P (f (last xs)))"
  by (simp add: on_last_def)

lemma list_ex_last: "xs \<noteq> [] \<Longrightarrow> list_ex P xs = (list_ex P (butlast xs) \<or> P (last xs))"
  by (cases xs rule: rev_cases) auto

lemma make_groups_dynamic:
  "make_groups qs gs = Inr gs' \<Longrightarrow> filled gs \<Longrightarrow>
   list_ex group_dynamic gs' = (list_ex group_dynamic gs \<or> list_ex (seq_dynamic \<circ> fst) qs)"
proof (induction qs arbitrary: gs)
  case (Cons qc qs)
  obtain q c where qc: "qc = (q, c)" by fastforce
  have last: "gs \<noteq> [] \<Longrightarrow> last gs \<noteq> [] \<and> (\<forall>sg \<in> set (last gs). sg \<noteq> []) \<and> last (last gs) \<noteq> []"
    using filled_last [OF Cons.prems(2)] by blast
  have "c = [] \<or> c = '' '' \<or> gs \<noteq> [] \<and> (c = ''>'' \<or> c = ''+'')" using Cons.prems(1) qc by (auto split: if_splits)
  then consider (blank) "c = [] \<or> c = '' ''" | (child) "c = ''>''" "gs \<noteq> []" | (sibling) "c = ''+''" "gs \<noteq> []" by blast
  then show ?case
  proof cases
    case blank
    have f: "filled (gs @ [[[q]]])" using Cons.prems(2) by (auto simp: filled_def)
    from Cons.IH [OF _ f] Cons.prems(1) qc blank show ?thesis by (auto simp: group_dynamic_def)
  next
    case child
    let ?f = "\<lambda>g. g @ [[q]]"
    have f: "filled (on_last ?f gs)"
      using last child(2) by (intro filled_on_last [OF Cons.prems(2) child(2)]) auto
    from Cons.IH [OF _ f] Cons.prems(1) qc child show ?thesis
      by (auto simp: list_ex_on_last list_ex_last [of gs] group_dynamic_def)
  next
    case sibling
    let ?f = "on_last (\<lambda>sg. sg @ [q])"
    have f: "filled (on_last ?f gs)"
      using last sibling(2) by (intro filled_on_last [OF Cons.prems(2) sibling(2)]) (auto simp: on_last_def dest: in_set_butlastD)
    from Cons.IH [OF _ f] Cons.prems(1) qc sibling last show ?thesis
      by (auto simp: list_ex_on_last list_ex_last [of gs] list_ex_last [of "last gs"] group_dynamic_def)
  qed
qed simp

section \<open>The property\<close>

lemma newSelector_static:
  assumes "newSelector qs = Inr c" "\<not> c_dynamic c"
  shows "complex_match st c n = complex_match st' c n"
proof -
  from assms have m: "make_groups (rev qs) [] = Inr (c_groups c)" and d: "\<not> list_ex (seq_dynamic \<circ> fst) (rev qs)"
    by (auto simp: newSelector_def split: sum.splits)
  have "filled []" by (simp add: filled_def)
  from make_groups_dynamic [OF m this] d have s: "\<not> list_ex group_dynamic (c_groups c)" by simp
  then have c: "child_match st g n = child_match st' g n" if "g \<in> set (c_groups c)" for g n
    using that child_still [of g] by (auto simp: list_ex_iff)
  have r: "rest_match st gs n = rest_match st' gs n" if "set gs \<subseteq> set (c_groups c)" for gs n
    using that
  proof (induction gs arbitrary: n)
    case (Cons g gs)
    with c [of g] have "child_match st g = child_match st' g" by (auto simp: fun_eq_iff)
    with Cons show ?case by (simp del: first_some_None split: option.split)
  qed simp
  show ?thesis
  proof (cases "c_groups c")
    case (Cons g gs)
    then have "rest_match st gs m = rest_match st' gs m" for m by (intro r) auto
    with Cons c [of g n] show ?thesis by (simp add: complex_match_def groups_match_def split: option.split)
  qed (simp add: complex_match_def groups_match_def)
qed

definition made :: "selector \<Rightarrow> bool" where
  "made s \<longleftrightarrow> (case s of Plain q \<Rightarrow> True | Complex c \<Rightarrow> \<exists>qs. newSelector qs = Inr c)"

lemma created_made: "made (createSelector text)"
proof -
  have "createSelectorFromAst ast = Inr s \<Longrightarrow> made s" for ast s
    by (auto simp: createSelectorFromAst_def made_def map_sum_def split: list.splits sum.splits selector.splits)
  then show ?thesis by (auto simp: createSelector_def made_def split: option.splits sum.splits)
qed

lemma accumulate_decides:
  assumes "made s" "accumulateChanges st0 s n m = (b, m')"
  shows "\<not> b \<Longrightarrow> \<not> sel_match st s n" and "b \<Longrightarrow> agree st st' m' \<Longrightarrow> sel_match st s n = sel_match st' s n"
    and "agree st st' m' \<Longrightarrow> agree st st' m"
proof -
  have "(\<not> b \<longrightarrow> \<not> sel_match st s n) \<and> (b \<longrightarrow> agree st st' m' \<longrightarrow> sel_match st s n = sel_match st' s n) \<and>
      (agree st st' m' \<longrightarrow> agree st st' m)"
  proof (cases s)
    case (Plain q)
    then show ?thesis using assms(2) seqs.mat_may [of st q n] seqs.may_fixed [of st q n st0] seqs.still [of q st n st']
        seqs.still [of q st n st0] seqs.tracks [of st q n st' m] seqs.grows [of st st' q n m]
      by (auto simp: seq_accumulate_def split: if_splits)
  next
    case (Complex c)
    then obtain qs where c: "newSelector qs = Inr c" using assms(1) by (auto simp: made_def)
    show ?thesis
    proof (cases "c_dynamic c")
      case False
      with newSelector_static [OF c False, of st n st0] newSelector_static [OF c False, of st n st'] Complex assms(2)
      show ?thesis by (auto simp: complex_accumulate_def)
    next
      case True
      with Complex assms(2) groups_accumulate(1) [of st0 "c_groups c" n None st]
        groups_accumulate(2) [of st0 "c_groups c" n "Some _" _ st st' m] track_bounds_grows
      show ?thesis by (auto simp: complex_accumulate_def complex_match_def split: option.splits)
    qed
  qed
  then show "\<not> b \<Longrightarrow> \<not> sel_match st s n" "b \<Longrightarrow> agree st st' m' \<Longrightarrow> sel_match st s n = sel_match st' s n"
    "agree st st' m' \<Longrightarrow> agree st st' m" by blast+
qed

end
