(* ===== verification/Css_Query.thy ===== *)
theory Css_Query
  imports Css_Track "HOL-Library.Product_Lexorder" "HOL-Library.Multiset"
begin

text \<open>
  \<open>SelectorsMap\<close>: the selectors of the rule sets under the id, class or type that a node must have to match, and
  \<open>query\<close>, the selectors that may match a node in the order of the cascade.
\<close>

section \<open>The map\<close>

text \<open>The maps are objects: a name that \<open>Object.prototype\<close> has is found in each of them, though it is no list.\<close>

definition inherited :: "string list" where
  "inherited = [''constructor'', ''__defineGetter__'', ''__defineSetter__'', ''hasOwnProperty'', ''__lookupGetter__'',
     ''__lookupSetter__'', ''isPrototypeOf'', ''propertyIsEnumerable'', ''toString'', ''valueOf'', ''__proto__'',
     ''toLocaleString'']"

type_synonym doc_selector = "selector \<times> nat"
type_synonym doc_map = "(string \<times> doc_selector list) list"

record selectors_map =
  by_id :: doc_map
  by_class :: doc_map
  by_type :: doc_map
  universal :: "doc_selector list"
  sel_position :: nat

definition addToMap :: "doc_map \<Rightarrow> string \<Rightarrow> selector \<Rightarrow> nat \<Rightarrow> string + doc_map \<times> nat" where
  "addToMap mp h sel position =
     (let d = (sel, position + 1) in
      case map_of mp h of
        Some ds \<Rightarrow> Inr (obj_set h (ds @ [d]) mp, position + 2)
      | None \<Rightarrow> if h \<in> set inherited then Inl ''TypeError: list.push is not a function''
          else Inr (obj_set h [d] mp, position + 2))"

definition sortById :: "string \<Rightarrow> selector \<Rightarrow> selectors_map \<Rightarrow> string + selectors_map" where
  "sortById i sel M = map_sum id (\<lambda>(mp, p). M\<lparr>by_id := mp, sel_position := p\<rparr>) (addToMap (by_id M) i sel (sel_position M))"

definition sortByClass :: "string \<Rightarrow> selector \<Rightarrow> selectors_map \<Rightarrow> string + selectors_map" where
  "sortByClass c sel M = map_sum id (\<lambda>(mp, p). M\<lparr>by_class := mp, sel_position := p\<rparr>) (addToMap (by_class M) c sel (sel_position M))"

definition sortByType :: "string \<Rightarrow> selector \<Rightarrow> selectors_map \<Rightarrow> string + selectors_map" where
  "sortByType t sel M = map_sum id (\<lambda>(mp, p). M\<lparr>by_type := mp, sel_position := p\<rparr>) (addToMap (by_type M) t sel (sel_position M))"

definition sortAsUniversal :: "selector \<Rightarrow> selectors_map \<Rightarrow> selectors_map" where
  "sortAsUniversal sel M = M\<lparr>universal := universal M @ [(sel, sel_position M)], sel_position := sel_position M + 1\<rparr>"

fun simple_lookupSort :: "simple \<Rightarrow> selector \<Rightarrow> selectors_map \<Rightarrow> string + selectors_map" where
  "simple_lookupSort (InvalidSelector e) base M = Inr M"
| "simple_lookupSort (IdSelector i) base M = sortById i base M"
| "simple_lookupSort (TypeSelector t) base M = sortByType t base M"
| "simple_lookupSort (ClassSelector c) base M = sortByClass c base M"
| "simple_lookupSort s base M = Inr (sortAsUniversal base M)"

definition no_head :: string where
  "no_head = ''TypeError: Cannot read property 'lookupSort' of undefined''"

fun seq_lookupSort :: "sequence \<Rightarrow> selector \<Rightarrow> selectors_map \<Rightarrow> string + selectors_map" where
  "seq_lookupSort (One s) base M = simple_lookupSort s base M"
| "seq_lookupSort (Sequence ss) base M = (case head ss of None \<Rightarrow> Inl no_head | Some s \<Rightarrow> simple_lookupSort s base M)"

fun lookupSort :: "selector \<Rightarrow> selectors_map \<Rightarrow> string + selectors_map" where
  "lookupSort (Plain q) M = seq_lookupSort q (Plain q) M"
| "lookupSort (Complex c) M = (case c_last c of None \<Rightarrow> Inl no_head | Some q \<Rightarrow> seq_lookupSort q (Complex c) M)"

fun sort_all :: "selector list \<Rightarrow> selectors_map \<Rightarrow> string + selectors_map" where
  "sort_all [] M = Inr M"
| "sort_all (s # ss) M = (case lookupSort s M of Inl e \<Rightarrow> Inl e | Inr M1 \<Rightarrow> sort_all ss M1)"

definition newSelectorsMap :: "selector list list \<Rightarrow> string + selectors_map" where
  "newSelectorsMap rulesets =
     sort_all (concat rulesets) \<lparr>by_id = [], by_class = [], by_type = [], universal = [], sel_position = 0\<rparr>"

section \<open>The query\<close>

text \<open>What \<open>map[key]\<close> adds to the list; \<open>None\<close> for an inherited member, which is no selector.\<close>

definition found :: "doc_map \<Rightarrow> string \<Rightarrow> doc_selector list option" where
  "found mp k = (case map_of mp k of Some ds \<Rightarrow> Some ds | None \<Rightarrow> if k \<in> set inherited then None else Some [])"

definition property_key :: "string option \<Rightarrow> string" where
  "property_key k = (case k of None \<Rightarrow> ''undefined'' | Some s \<Rightarrow> s)"

definition candidates :: "selectors_map \<Rightarrow> info \<Rightarrow> doc_selector list option list" where
  "candidates M i = Some (universal M) # found (by_id M) (property_key (node_id i)) # found (by_type M) (property_key (cssType i)) #
     map (found (by_class M)) (cssClasses i)"

fun filter_accumulate :: "css_state \<Rightarrow> node \<Rightarrow> doc_selector list \<Rightarrow> changes \<Rightarrow> doc_selector list \<times> changes" where
  "filter_accumulate st n [] m = ([], m)"
| "filter_accumulate st n (d # ds) m =
     (let (b, m1) = accumulateChanges st (fst d) n m; (r, m2) = filter_accumulate st n ds m1
      in (if b then d # r else r, m2))"

definition query :: "css_state \<Rightarrow> selectors_map \<Rightarrow> node \<Rightarrow> string + selector list \<times> changes" where
  "query st M n =
     (if None \<in> set (candidates M (n_info n)) then Inl ''TypeError: Cannot read property 'accumulateChanges' of undefined''
      else (let (ds, m) = filter_accumulate st n (concat (map the (candidates M (n_info n)))) [] in
        Inr (map fst (sort_key (\<lambda>d. (sel_specificity (fst d), snd d)) ds), m)))"

section \<open>Where a selector is kept\<close>

datatype place = Everywhere | AtId string | AtClass string | AtType string

fun simple_place :: "simple \<Rightarrow> place option" where
  "simple_place (InvalidSelector e) = None"
| "simple_place (IdSelector i) = Some (AtId i)"
| "simple_place (TypeSelector t) = Some (AtType t)"
| "simple_place (ClassSelector c) = Some (AtClass c)"
| "simple_place s = Some Everywhere"

definition seq_place :: "sequence \<Rightarrow> place option" where
  "seq_place q = (case q of One s \<Rightarrow> simple_place s | Sequence ss \<Rightarrow> Option.bind (head ss) simple_place)"

definition sel_place :: "selector \<Rightarrow> place option" where
  "sel_place s = (case s of Plain q \<Rightarrow> seq_place q | Complex c \<Rightarrow> Option.bind (c_last c) seq_place)"

fun at_place :: "place \<Rightarrow> info \<Rightarrow> bool" where
  "at_place Everywhere i = True"
| "at_place (AtId k) i = (node_id i = Some k)"
| "at_place (AtClass c) i = (c \<in> set (cssClasses i))"
| "at_place (AtType t) i = (cssType i = Some t)"

definition docs_at :: "place \<Rightarrow> doc_selector list \<Rightarrow> doc_selector list" where
  "docs_at p ds = filter (\<lambda>d. sel_place (fst d) = Some p) ds"

definition stored :: "doc_map \<Rightarrow> string \<Rightarrow> doc_selector list" where
  "stored mp k = (case map_of mp k of None \<Rightarrow> [] | Some xs \<Rightarrow> xs)"

definition map_holds :: "doc_map \<Rightarrow> (string \<Rightarrow> place) \<Rightarrow> doc_selector list \<Rightarrow> bool" where
  "map_holds mp f ds \<longleftrightarrow> (\<forall>k. stored mp k = docs_at (f k) ds)"

text \<open>The map holds the documents' selectors \<open>ds\<close>, each in its place, numbered upwards.\<close>

definition holds :: "selectors_map \<Rightarrow> doc_selector list \<Rightarrow> bool" where
  "holds M ds \<longleftrightarrow> universal M = docs_at Everywhere ds \<and> map_holds (by_id M) AtId ds \<and> map_holds (by_class M) AtClass ds \<and>
     map_holds (by_type M) AtType ds \<and> sorted_wrt (<) (map snd ds) \<and> (\<forall>d \<in> set ds. snd d < sel_position M)"

lemma docs_at_snoc: "docs_at p (ds @ [d]) = docs_at p ds @ (if sel_place (fst d) = Some p then [d] else [])"
  by (simp add: docs_at_def)

lemma map_holds_other: "map_holds mp f ds \<Longrightarrow> (\<And>k. sel_place s \<noteq> Some (f k)) \<Longrightarrow> map_holds mp f (ds @ [(s, p)])"
  by (simp add: map_holds_def docs_at_snoc)

lemma map_holds_add:
  assumes "map_holds mp f ds" "addToMap mp k s p = Inr (mp', p')" "sel_place s = Some (f k)" "inj f"
  shows "map_holds mp' f (ds @ [(s, p + 1)]) \<and> p' = p + 2"
proof -
  have e: "stored mp' k' = (if k' = k then stored mp k @ [(s, p + 1)] else stored mp k')" "p' = p + 2" for k'
    using assms(2) by (auto simp: addToMap_def stored_def Let_def split: option.splits if_splits)
  have "sel_place s = Some (f k') \<longleftrightarrow> k' = k" for k' using assms(3,4) by (auto dest: injD)
  with e assms(1) show ?thesis by (simp add: map_holds_def docs_at_snoc)
qed

lemma sorted_snoc:
  "sorted_wrt (<) (map snd ds) \<Longrightarrow> \<forall>d \<in> set ds. snd d < p \<Longrightarrow> p \<le> q \<Longrightarrow>
   sorted_wrt (<) (map snd (ds @ [(s, q)])) \<and> (\<forall>d \<in> set (ds @ [(s, q)]). snd d < Suc q)" for p q :: nat
  by (auto simp: sorted_wrt_append intro: less_SucI order_less_le_trans)

lemma simple_lookupSort_holds:
  assumes "holds M ds" "simple_lookupSort x s M = Inr M'" "sel_place s = simple_place x"
  shows "\<exists>e. holds M' (ds @ e) \<and> map fst e = (if sel_place s = None then [] else [s])"
proof (cases "simple_place x")
  case None
  then have "M' = M" using assms(2) by (cases x) auto
  with assms(1,3) None show ?thesis by (intro exI [of _ "[]"]) simp
next
  case (Some p)
  let ?n = "sel_position M"
  show ?thesis
  proof (cases p)
    case Everywhere
    then have "M' = sortAsUniversal s M" using assms(2) Some by (cases x) auto
    with assms Some Everywhere show ?thesis
      by (intro exI [of _ "[(s, ?n)]"])
        (use sorted_snoc [of ds ?n ?n s] in \<open>simp add: holds_def sortAsUniversal_def docs_at_snoc map_holds_other\<close>)
  next
    case (AtId k)
    then have "sortById k s M = Inr M'" using assms(2) Some by (cases x) auto
    then obtain mp' p' where m: "addToMap (by_id M) k s ?n = Inr (mp', p')" "M' = M\<lparr>by_id := mp', sel_position := p'\<rparr>"
      by (auto simp: sortById_def map_sum_def split: sum.splits)
    from map_holds_add [OF _ m(1), of AtId ds] m(2) assms Some AtId show ?thesis
      by (intro exI [of _ "[(s, ?n + 1)]"])
        (use sorted_snoc [of ds ?n "?n + 1" s] in \<open>simp add: holds_def docs_at_snoc map_holds_other inj_def\<close>)
  next
    case (AtClass k)
    then have "sortByClass k s M = Inr M'" using assms(2) Some by (cases x) auto
    then obtain mp' p' where m: "addToMap (by_class M) k s ?n = Inr (mp', p')" "M' = M\<lparr>by_class := mp', sel_position := p'\<rparr>"
      by (auto simp: sortByClass_def map_sum_def split: sum.splits)
    from map_holds_add [OF _ m(1), of AtClass ds] m(2) assms Some AtClass show ?thesis
      by (intro exI [of _ "[(s, ?n + 1)]"])
        (use sorted_snoc [of ds ?n "?n + 1" s] in \<open>simp add: holds_def docs_at_snoc map_holds_other inj_def\<close>)
  next
    case (AtType k)
    then have "sortByType k s M = Inr M'" using assms(2) Some by (cases x) auto
    then obtain mp' p' where m: "addToMap (by_type M) k s ?n = Inr (mp', p')" "M' = M\<lparr>by_type := mp', sel_position := p'\<rparr>"
      by (auto simp: sortByType_def map_sum_def split: sum.splits)
    from map_holds_add [OF _ m(1), of AtType ds] m(2) assms Some AtType show ?thesis
      by (intro exI [of _ "[(s, ?n + 1)]"])
        (use sorted_snoc [of ds ?n "?n + 1" s] in \<open>simp add: holds_def docs_at_snoc map_holds_other inj_def\<close>)
  qed
qed

lemma lookupSort_holds:
  assumes "holds M ds" "lookupSort s M = Inr M'"
  shows "\<exists>e. holds M' (ds @ e) \<and> map fst e = (if sel_place s = None then [] else [s])"
proof -
  have seq: "\<exists>x. simple_lookupSort x s M = Inr M' \<and> seq_place q = simple_place x" if "seq_lookupSort q s M = Inr M'" for q
    using that by (cases q) (auto simp: seq_place_def split: option.splits)
  show ?thesis
  proof (cases s)
    case (Plain q)
    with assms(2) seq [of q] obtain x where "simple_lookupSort x s M = Inr M'" "sel_place s = simple_place x"
      by (auto simp: sel_place_def)
    then show ?thesis by (rule simple_lookupSort_holds [OF assms(1)])
  next
    case (Complex c)
    with assms(2) obtain q where q: "c_last c = Some q" "seq_lookupSort q s M = Inr M'" by (auto split: option.splits)
    with seq [of q] Complex obtain x where "simple_lookupSort x s M = Inr M'" "sel_place s = simple_place x"
      by (auto simp: sel_place_def)
    then show ?thesis by (rule simple_lookupSort_holds [OF assms(1)])
  qed
qed

lemma sort_all_holds:
  "sort_all ss M = Inr M' \<Longrightarrow> holds M ds \<Longrightarrow> \<exists>e. holds M' (ds @ e) \<and> map fst e = filter (\<lambda>s. sel_place s \<noteq> None) ss"
proof (induction ss arbitrary: M ds)
  case (Cons s ss)
  from Cons.prems(1) obtain M1 where M1: "lookupSort s M = Inr M1" "sort_all ss M1 = Inr M'" by (auto split: sum.splits)
  from lookupSort_holds [OF Cons.prems(2) M1(1)] obtain e where
    e: "holds M1 (ds @ e)" "map fst e = (if sel_place s = None then [] else [s])" by blast
  from Cons.IH [OF M1(2) e(1)] obtain e' where "holds M' (ds @ e @ e')" "map fst e' = filter (\<lambda>s. sel_place s \<noteq> None) ss" by auto
  with e(2) show ?case by (intro exI [of _ "e @ e'"]) simp
qed (use append_Nil2 in fastforce)

lemma newSelectorsMap_holds:
  assumes "newSelectorsMap rulesets = Inr M"
  shows "\<exists>ds. holds M ds \<and> map fst ds = filter (\<lambda>s. sel_place s \<noteq> None) (concat rulesets)"
proof -
  have "holds \<lparr>by_id = [], by_class = [], by_type = [], universal = [], sel_position = 0\<rparr> []"
    by (simp add: holds_def docs_at_def map_holds_def stored_def)
  from sort_all_holds [OF assms [unfolded newSelectorsMap_def] this] show ?thesis by simp
qed

end
