(* ===== verification/Css_Cascade.thy ===== *)
theory Css_Cascade
  imports Css_Query
begin

text \<open>
  \<open>query\<close> loses no selector: whatever the state a node gets into, the rules that match it are among those found, in
  the order of the cascade, and they change only with what has been tracked.
\<close>

section \<open>What is found\<close>

definition may_match :: "css_state \<Rightarrow> selector \<Rightarrow> node \<Rightarrow> bool" where
  "may_match st s n \<longleftrightarrow> fst (accumulateChanges st s n [])"

lemma accumulate_may: "fst (accumulateChanges st s n m) = may_match st s n"
  by (cases s) (auto simp: may_match_def seq_accumulate_def complex_accumulate_def split: option.split)

lemma filter_accumulate_may: "fst (filter_accumulate st n ds m) = filter (\<lambda>d. may_match st (fst d) n) ds"
proof (induction ds arbitrary: m)
  case (Cons d ds)
  obtain b m1 r m2 where "accumulateChanges st (fst d) n m = (b, m1)" "filter_accumulate st n ds m1 = (r, m2)" by fastforce
  with Cons [of m1] accumulate_may [of st "fst d" n m] show ?case by simp
qed simp

lemma rarer_cases: "rarer prev s = prev \<or> rarer prev s = Some s"
  by (simp add: rarer_def split: option.split)

lemma foldl_rarer: "foldl rarer prev ss = Some h \<Longrightarrow> prev = Some h \<or> h \<in> set ss"
proof (induction ss arbitrary: prev)
  case (Cons s ss)
  then have "rarer prev s = Some h \<or> h \<in> set ss" by simp
  with rarer_cases [of prev s] show ?case by auto
qed simp

lemma head_in: "head ss = Some h \<Longrightarrow> h \<in> set ss"
  using foldl_rarer [of None ss h] by (simp add: head_def)

lemma head_some: "ss \<noteq> [] \<Longrightarrow> head ss \<noteq> None"
proof -
  have "prev \<noteq> None \<Longrightarrow> foldl rarer prev ss \<noteq> None" for prev ss
  proof (induction ss arbitrary: prev)
    case (Cons s ss)
    have "rarer prev s \<noteq> None" by (simp add: rarer_def split: option.split)
    from Cons.IH [OF this] show ?case by simp
  qed simp
  then show "ss \<noteq> [] \<Longrightarrow> head ss \<noteq> None" by (cases ss) (auto simp: head_def rarer_def)
qed

lemma simple_may_place: "simple_mayMatch st s n \<Longrightarrow> \<exists>p. simple_place s = Some p \<and> at_place p (n_info n)"
  by (cases s) (auto simp: simple_mayMatch_def)

lemma seq_may_place: "q \<noteq> Sequence [] \<Longrightarrow> seq_mayMatch st q n \<Longrightarrow> \<exists>p. seq_place q = Some p \<and> at_place p (n_info n)"
proof (cases q)
  case (Sequence ss)
  assume a: "q \<noteq> Sequence []" "seq_mayMatch st q n"
  then obtain h where h: "head ss = Some h" using Sequence head_some [of ss] by auto
  from head_in [OF h] a(2) Sequence simple_may_place [of st h n] h show ?thesis
    by (auto simp: seq_mayMatch_def seq_place_def list_all_iff)
qed (auto simp: seq_mayMatch_def seq_place_def dest: simple_may_place)

text \<open>The first part of the first groups is the last part of the selector.\<close>

lemma make_groups_first:
  "make_groups qs gs = Inr gs' \<Longrightarrow> gs \<noteq> [] \<Longrightarrow> filled gs \<Longrightarrow> hd (hd (hd gs')) = hd (hd (hd gs)) \<and> gs' \<noteq> [] \<and> filled gs'"
proof (induction qs arbitrary: gs)
  case (Cons qc qs)
  obtain q c where qc: "qc = (q, c)" by fastforce
  have last: "last gs \<noteq> [] \<and> (\<forall>sg \<in> set (last gs). sg \<noteq> []) \<and> last (last gs) \<noteq> []"
    using filled_last [OF Cons.prems(3,2)] by blast
  obtain g gs1 where gs: "gs = g # gs1" using Cons.prems(2) by (cases gs) auto
  have hd_on_last: "hd (on_last f xs) = (if length xs = 1 then f (hd xs) else hd xs)" if "xs \<noteq> []" for f :: "'x \<Rightarrow> 'x" and xs
    using that by (cases xs) (auto simp: on_last_def)
  have hd_gs: "hd gs \<noteq> []" "hd (hd gs) \<noteq> []" using Cons.prems(3) gs by (auto simp: filled_def)
  have "c = [] \<or> c = '' '' \<or> c = ''>'' \<or> c = ''+''" using Cons.prems(1) qc by (auto split: if_splits)
  then consider (blank) "c = [] \<or> c = '' ''" | (child) "c = ''>''" | (sibling) "c = ''+''" by blast
  then show ?case
  proof cases
    case blank
    have f: "filled (gs @ [[[q]]])" using Cons.prems(3) by (auto simp: filled_def)
    from Cons.IH [OF _ _ f] Cons.prems(1,2) qc blank show ?thesis by (auto simp: hd_append)
  next
    case child
    let ?f = "\<lambda>g. g @ [[q]]"
    have f: "filled (on_last ?f gs)"
      using last by (intro filled_on_last [OF Cons.prems(3,2)]) auto
    have g: "on_last ?f gs \<noteq> []" by (simp add: on_last_def)
    have "hd (hd (hd (on_last ?f gs))) = hd (hd (hd gs))" using hd_gs Cons.prems(2) by (simp add: hd_on_last hd_append)
    with Cons.IH [OF _ g f] Cons.prems(1,2) qc child show ?thesis by simp
  next
    case sibling
    let ?f = "on_last (\<lambda>sg. sg @ [q])"
    have f: "filled (on_last ?f gs)"
      using last by (intro filled_on_last [OF Cons.prems(3,2)]) (auto simp: on_last_def dest: in_set_butlastD)
    have g: "on_last ?f gs \<noteq> []" by (simp add: on_last_def)
    have "hd (hd (hd (on_last ?f gs))) = hd (hd (hd gs))"
      using hd_gs Cons.prems(2) by (auto simp: hd_on_last hd_append)
    with Cons.IH [OF _ g f] Cons.prems(1,2) qc sibling show ?thesis by simp
  qed
qed simp

lemma walk_first: "walk up f (x # xs) n \<noteq> None \<Longrightarrow> f x n"
  by (cases xs) (auto split: if_splits)

text \<open>Every selector that is created can be placed.\<close>

definition full :: "selector \<Rightarrow> bool" where
  "full s \<longleftrightarrow> made s \<and> (case s of Plain q \<Rightarrow> q \<noteq> Sequence [] | Complex c \<Rightarrow> \<exists>q. c_last c = Some q \<and> q \<noteq> Sequence [])"

lemma created_full: "full (createSelector text)"
proof -
  have seq: "createSimpleSelectorSequenceFromAst a \<noteq> Inr (Sequence [])" for a
    by (auto simp: createSimpleSelectorSequenceFromAst_def map_sum_def split: list.splits sum.splits)
  have all: "map_sum_list (\<lambda>(q, c). map_sum id (\<lambda>s. (s, c)) (createSimpleSelectorSequenceFromAst q)) ast = Inr qs \<Longrightarrow>
      \<forall>x \<in> set qs. fst x \<noteq> Sequence []" for ast qs
    using seq by (induction ast arbitrary: qs) (fastforce simp: map_sum_def split: sum.splits)+
  have "full s" if "createSelectorFromAst ast = Inr s" for ast s
  proof (cases s)
    case (Plain q)
    with that show ?thesis using seq
      by (auto simp: full_def made_def createSelectorFromAst_def map_sum_def split: list.splits sum.splits)
  next
    case (Complex c)
    with that obtain qs where qs: "map_sum_list (\<lambda>(q, c). map_sum id (\<lambda>s. (s, c)) (createSimpleSelectorSequenceFromAst q)) ast = Inr qs"
      "newSelector qs = Inr c" "ast \<noteq> []"
      by (auto simp: createSelectorFromAst_def map_sum_def split: list.splits sum.splits)
    then have "rev qs \<noteq> []" by (cases ast) (auto split: sum.splits)
    then obtain q d rs where r: "rev qs = (q, d) # rs" by (cases "rev qs") auto
    then have "(q, d) \<in> set qs" using set_rev [of qs] by auto
    with all [OF qs(1)] have "q \<noteq> Sequence []" by force
    moreover have "c_last c = Some q" using qs(2) r by (auto simp: newSelector_def split: sum.splits)
    ultimately show ?thesis using qs(2) Complex unfolding full_def made_def by auto
  qed
  then show ?thesis by (auto simp: createSelector_def full_def made_def split: option.splits sum.splits)
qed

lemma may_match_place:
  assumes "full s" "may_match st s n"
  shows "\<exists>p. sel_place s = Some p \<and> at_place p (n_info n)"
proof (cases s)
  case (Plain q)
  with assms have "seq_mayMatch st q n"
    by (auto simp: may_match_def seq_accumulate_def split: if_splits intro: seqs.mat_may)
  with assms(1) Plain seq_may_place [of q st n] show ?thesis by (auto simp: full_def sel_place_def)
next
  case (Complex c)
  with assms(1) obtain q qs where q: "c_last c = Some q" "q \<noteq> Sequence []" "newSelector qs = Inr c" by (auto simp: full_def made_def)
  then obtain d rs where r: "rev qs = (q, d) # rs" "make_groups ((q, d) # rs) [] = Inr (c_groups c)"
    by (auto simp: newSelector_def split: sum.splits list.splits)
  then have g: "make_groups rs [[[q]]] = Inr (c_groups c)" by (auto split: if_splits)
  have "filled [[[q]]]" by (simp add: filled_def)
  from make_groups_first [OF g _ this] have f: "hd (hd (hd (c_groups c))) = q" "c_groups c \<noteq> []" "filled (c_groups c)" by auto
  then obtain sg g gs where gs: "c_groups c = ((q # sg) # g) # gs"
    by (cases "c_groups c"; cases "hd (c_groups c)"; cases "hd (hd (c_groups c))") (auto simp: filled_def)
  have "child_mayMatch st ((q # sg) # g) n \<noteq> None"
    using assms(2) Complex gs child_mat_may [of st "(q # sg) # g" n]
    by (auto simp: may_match_def complex_accumulate_def complex_match_def groups_match_def bounds_def split: if_splits option.splits)
  then have "sib_mayMatch st (q # sg) n" unfolding child_mayMatch_def by (rule walk_first)
  then have "seq_mayMatch st q n" unfolding sib_mayMatch_def by (rule walk_first)
  with seq_may_place [OF q(2)] q(1) Complex show ?thesis by (auto simp: sel_place_def)
qed

section \<open>The candidates of a node\<close>

definition places :: "info \<Rightarrow> place list" where
  "places i = Everywhere # AtId (property_key (node_id i)) # AtType (property_key (cssType i)) # map AtClass (cssClasses i)"

lemma distinct_places: "distinct (cssClasses i) \<Longrightarrow> distinct (places i)"
  by (auto simp: places_def distinct_map inj_on_def)

lemma at_places: "at_place p i \<Longrightarrow> p \<in> set (places i)"
  by (cases p) (auto simp: places_def property_key_def)

lemma candidates_stored:
  assumes "holds M ds" "None \<notin> set (candidates M i)"
  shows "map the (candidates M i) = map (\<lambda>p. docs_at p ds) (places i)"
proof -
  have found: "the (found mp k) = docs_at (f k) ds" if "found mp k \<in> set (candidates M i)" "map_holds mp f ds" for mp k and f :: "string \<Rightarrow> place"
  proof -
    from that(1) assms(2) have "found mp k \<noteq> None" by metis
    with that(2) show ?thesis
      by (cases "map_of mp k") (auto simp: map_holds_def stored_def found_def dest!: spec [of _ k] split: if_splits)
  qed
  have holds: "universal M = docs_at Everywhere ds" "map_holds (by_id M) AtId ds" "map_holds (by_class M) AtClass ds"
    "map_holds (by_type M) AtType ds" using assms(1) by (simp_all add: holds_def)
  have "the (found (by_id M) (property_key (node_id i))) = docs_at (AtId (property_key (node_id i))) ds"
    "the (found (by_type M) (property_key (cssType i))) = docs_at (AtType (property_key (cssType i))) ds"
    by (rule found [OF _ holds(2)], simp add: candidates_def) (rule found [OF _ holds(4)], simp add: candidates_def)
  moreover have "the (found (by_class M) c) = docs_at (AtClass c) ds" if "c \<in> set (cssClasses i)" for c
    by (rule found [OF _ holds(3)]) (simp add: candidates_def that)
  ultimately show ?thesis using holds(1) by (simp add: candidates_def places_def)
qed

lemma mset_docs_at:
  "distinct ps \<Longrightarrow> mset (concat (map (\<lambda>p. docs_at p ds) ps)) = mset (filter (\<lambda>d. \<exists>p \<in> set ps. sel_place (fst d) = Some p) ds)"
proof (induction ps)
  case (Cons p ps)
  have "mset (filter (\<lambda>d. sel_place (fst d) = Some p \<or> Q d) ds) = mset (docs_at p ds) + mset (filter Q ds)"
    if "\<And>d. Q d \<Longrightarrow> sel_place (fst d) \<noteq> Some p" for Q
    unfolding docs_at_def using that by (induction ds) auto
  from this [of "\<lambda>d. \<exists>p \<in> set ps. sel_place (fst d) = Some p"] Cons show ?case by fastforce
qed simp

section \<open>The order of the cascade\<close>

lemma insort_lex:
  "sorted (map (\<lambda>d. (f d, snd d)) ds) \<Longrightarrow> \<forall>x \<in> set ds. snd d < (snd x :: nat) \<Longrightarrow>
   sorted (map (\<lambda>d. (f d, snd d)) (insort_key f d ds))" for f :: "'a \<times> nat \<Rightarrow> 'k :: linorder"
  by (induction ds) (auto simp: set_insort_key less_imp_le)

lemma sorted_lex: "sorted_wrt (<) (map snd ds) \<Longrightarrow> sorted (map (\<lambda>d. (f d, snd d :: nat)) (sort_key f ds))" for f :: "'a \<times> nat \<Rightarrow> 'k :: linorder"
  by (induction ds) (auto intro!: insort_lex)

lemma map_insort_key: "map g (insort_key (f \<circ> g) x xs) = insort_key f (g x) (map g xs)"
  by (induction xs) auto

lemma map_sort_key: "map g (sort_key (f \<circ> g) xs) = sort_key f (map g xs)"
  by (induction xs) (simp_all add: map_insort_key [unfolded comp_def] comp_def)

text \<open>Sorting by specificity and position what was found in any order is a stable sort of the document's order.\<close>

lemma sort_by_position:
  fixes ds :: "doc_selector list"
  assumes "mset xs = mset ds" "sorted_wrt (<) (map snd ds)"
  shows "map fst (sort_key (\<lambda>d. (sel_specificity (fst d), snd d)) xs) = sort_key sel_specificity (map fst ds)"
proof -
  have "distinct (map snd ds)" using assms(2) by (simp add: strict_sorted_iff)
  then have "inj_on snd (set xs)" using mset_eq_setD [OF assms(1)] by (simp add: distinct_map)
  then have i: "inj_on (\<lambda>d. (sel_specificity (fst d), snd d)) (set xs)" by (auto simp: inj_on_def)
  have "sort_key (\<lambda>d. (sel_specificity (fst d), snd d)) xs = sort_key (sel_specificity \<circ> fst) ds"
    by (rule sort_key_inj_key_eq [OF _ i]) (use assms sorted_lex [OF assms(2), of "sel_specificity \<circ> fst"] in \<open>simp_all\<close>)
  then show ?thesis by (simp add: map_sort_key)
qed

lemma query_sorts:
  assumes "newSelectorsMap rulesets = Inr M" "\<forall>s \<in> set (concat rulesets). full s" "distinct (cssClasses (n_info n))"
    and "query st M n = Inr (sels, m)"
  shows "sels = sort_key sel_specificity (filter (\<lambda>s. may_match st s n) (concat rulesets))"
proof -
  let ?P = "\<lambda>s. may_match st s n"
  obtain ds where ds: "holds M ds" "map fst ds = filter (\<lambda>s. sel_place s \<noteq> None) (concat rulesets)"
    using newSelectorsMap_holds [OF assms(1)] by blast
  have full: "\<forall>d \<in> set ds. full (fst d)"
    using assms(2) ds(2) by (metis (no_types, lifting) filter_is_subset image_eqI list.set_map subsetD)
  have c: "None \<notin> set (candidates M (n_info n))" and
    q: "sels = map fst (sort_key (\<lambda>d. (sel_specificity (fst d), snd d)) (filter (?P \<circ> fst) (concat (map the (candidates M (n_info n))))))"
    using assms(4) filter_accumulate_may [of st n "concat (map the (candidates M (n_info n)))" "[]"]
    by (auto simp: query_def comp_def split: if_splits prod.splits)
  have "mset (filter (?P \<circ> fst) (concat (map the (candidates M (n_info n))))) =
      filter_mset (?P \<circ> fst) (mset (concat (map (\<lambda>p. docs_at p ds) (places (n_info n)))))"
    by (simp only: candidates_stored [OF ds(1) c] mset_filter)
  also have "\<dots> = mset (filter (?P \<circ> fst) (filter (\<lambda>d. \<exists>p \<in> set (places (n_info n)). sel_place (fst d) = Some p) ds))"
    by (simp only: mset_docs_at [OF distinct_places [OF assms(3)]] mset_filter)
  also have "filter (?P \<circ> fst) (filter (\<lambda>d. \<exists>p \<in> set (places (n_info n)). sel_place (fst d) = Some p) ds) = filter (?P \<circ> fst) ds"
    unfolding filter_filter using full may_match_place at_places by (intro filter_cong) fastforce+
  finally have e: "mset (filter (?P \<circ> fst) (concat (map the (candidates M (n_info n))))) = mset (filter (?P \<circ> fst) ds)" .
  have "sorted_wrt (<) (map snd (filter (?P \<circ> fst) ds))"
    using ds(1) by (simp add: holds_def sorted_wrt_map sorted_wrt_filter)
  from sort_by_position [OF e this] q
  have "sels = sort_key sel_specificity (filter ?P (map fst ds))" by (simp add: filter_map)
  also have "filter ?P (map fst ds) = filter ?P (concat rulesets)"
    unfolding ds(2) filter_filter using assms(2) may_match_place by (intro filter_cong) fastforce+
  finally show ?thesis .
qed

section \<open>The properties\<close>

lemma accumulate_decides_all:
  assumes "filter_accumulate st0 n ds m = (r, m')" "\<forall>d \<in> set ds. made (fst d)" "agree st st' m'"
  shows "agree st st' m \<and> (\<forall>d \<in> set r. sel_match st (fst d) n = sel_match st' (fst d) n)"
  using assms
proof (induction ds arbitrary: m r)
  case (Cons d ds)
  obtain b m1 r2 where d: "accumulateChanges st0 (fst d) n m = (b, m1)" "filter_accumulate st0 n ds m1 = (r2, m')"
    "r = (if b then d # r2 else r2)"
    using Cons.prems(1) by (auto simp: Let_def split: prod.splits)
  have ih: "agree st st' m1 \<and> (\<forall>d \<in> set r2. sel_match st (fst d) n = sel_match st' (fst d) n)"
    using Cons.IH [OF d(2) _ Cons.prems(3)] Cons.prems(2) by simp
  with accumulate_decides(2,3) [OF _ d(1), of st st'] Cons.prems(2) d(3) show ?case by auto
qed simp

lemma no_may_no_sel_match: "made s \<Longrightarrow> sel_match st' s n \<Longrightarrow> may_match st s n"
  using accumulate_decides(1) [of s st n "[]" "fst (accumulateChanges st s n [])" _ st']
  by (cases "accumulateChanges st s n []") (auto simp: may_match_def)

definition style_sheet :: "string list list \<Rightarrow> selector list list" where
  "style_sheet texts = map (map createSelector) texts"

lemma style_sheet_full: "\<forall>s \<in> set (concat (style_sheet texts)). full s"
  by (auto simp: style_sheet_def created_full)

text \<open>C24: The selectors that a query finds are all that can match the node: in any state of the pseudo-classes and
  attributes, those of them that match are the selectors of all rules that match, in the order of the cascade, by
  specificity and then by their place in the document.\<close>

theorem query_is_cascade:
  assumes "newSelectorsMap (style_sheet texts) = Inr M" "distinct (cssClasses (n_info n))" "query st M n = Inr (sels, m)"
  shows "filter (\<lambda>s. sel_match st' s n) sels =
    sort_key sel_specificity (filter (\<lambda>s. sel_match st' s n) (concat (style_sheet texts)))"
proof -
  let ?ss = "concat (style_sheet texts)"
  have "sels = sort_key sel_specificity (filter (\<lambda>s. may_match st s n) ?ss)"
    by (rule query_sorts [OF assms(1) style_sheet_full assms(2,3)])
  then have "filter (\<lambda>s. sel_match st' s n) sels =
      sort_key sel_specificity (filter (\<lambda>s. may_match st s n \<and> sel_match st' s n) ?ss)"
    by (simp add: filter_sort conj_commute)
  also have "filter (\<lambda>s. may_match st s n \<and> sel_match st' s n) ?ss = filter (\<lambda>s. sel_match st' s n) ?ss"
    using style_sheet_full [of texts] no_may_no_sel_match by (intro filter_cong) (auto simp: full_def)
  finally show ?thesis .
qed

text \<open>C25: Which rules match a node changes only with an attribute or a pseudo-class that the query has tracked, at
  the node it was tracked for.\<close>

theorem untracked_changes_match_nothing_new:
  assumes "newSelectorsMap (style_sheet texts) = Inr M" "distinct (cssClasses (n_info n))" "query st M n = Inr (sels, m)"
    and "agree st1 st2 m"
  shows "filter (\<lambda>s. sel_match st1 s n) (concat (style_sheet texts)) = filter (\<lambda>s. sel_match st2 s n) (concat (style_sheet texts))"
proof (rule filter_cong [OF refl])
  fix s assume s: "s \<in> set (concat (style_sheet texts))"
  then have full: "full s" using style_sheet_full by blast
  obtain ds where ds: "holds M ds" "map fst ds = filter (\<lambda>s. sel_place s \<noteq> None) (concat (style_sheet texts))"
    using newSelectorsMap_holds [OF assms(1)] by blast
  let ?cs = "concat (map the (candidates M (n_info n)))"
  obtain r where r: "filter_accumulate st n ?cs [] = (r, m)" and none: "None \<notin> set (candidates M (n_info n))"
    using assms(3) by (auto simp: query_def split: if_splits prod.splits)
  have "set ?cs \<subseteq> set ds" unfolding candidates_stored [OF ds(1) none] by (auto simp: docs_at_def)
  moreover have "\<forall>d \<in> set ds. full (fst d)"
    using style_sheet_full ds(2) by (metis (no_types, lifting) filter_is_subset image_eqI list.set_map subsetD)
  ultimately have "\<forall>d \<in> set ?cs. made (fst d)" by (auto simp: full_def)
  from accumulate_decides_all [OF r this assms(4)]
  have same: "\<forall>d \<in> set r. sel_match st1 (fst d) n = sel_match st2 (fst d) n" by blast
  show "sel_match st1 s n = sel_match st2 s n"
  proof (cases "may_match st s n")
    case False
    with full no_may_no_sel_match show ?thesis by (auto simp: full_def)
  next
    case True
    have "sels = map fst (sort_key (\<lambda>d. (sel_specificity (fst d), snd d)) r)"
      using assms(3) r none by (simp add: query_def)
    moreover have "s \<in> set sels"
      using query_sorts [OF assms(1) style_sheet_full assms(2,3)] s True by simp
    ultimately have "s \<in> fst ` set r" by simp
    with same show ?thesis by auto
  qed
qed

section \<open>Instances\<close>

definition sheet :: "string list list" where
  "sheet = [[''.c'', ''.z''], ['':p'', ''#i'']]"

definition sheet_map :: selectors_map where
  "sheet_map = projr (newSelectorsMap (style_sheet sheet))"

lemma sheet_map: "newSelectorsMap (style_sheet sheet) = Inr sheet_map"
proof -
  have "\<not> isl (newSelectorsMap (style_sheet sheet))" by code_simp
  then show ?thesis by (cases "newSelectorsMap (style_sheet sheet)") (auto simp: sheet_map_def)
qed

definition with_pseudo :: "string \<Rightarrow> css_state" where
  "with_pseudo p = no_state\<lparr>pseudo_classes := \<lambda>_. [p]\<rparr>"

lemma sheet_query: "\<exists>sels m. query no_state sheet_map nested = Inr (sels, m) \<and> map_of m 7 = None \<and> sels = [Plain (One (ClassSelector ''c'')), Plain (One (PseudoClassSelector ''p''))]"
proof -
  have "\<not> (case query no_state sheet_map nested of Inl e \<Rightarrow> True
      | Inr (sels, m) \<Rightarrow> \<not> (map_of m 7 = None \<and> sels = [Plain (One (ClassSelector ''c'')), Plain (One (PseudoClassSelector ''p''))]))"
    by code_simp
  then show ?thesis by (auto split: sum.splits)
qed

theorem query_is_cascade_witness:
  "\<exists>sels m. query no_state sheet_map nested = Inr (sels, m) \<and>
     filter (\<lambda>s. sel_match (with_pseudo ''p'') s nested) sels =
       sort_key sel_specificity (filter (\<lambda>s. sel_match (with_pseudo ''p'') s nested) (concat (style_sheet sheet))) \<and>
     filter (\<lambda>s. sel_match (with_pseudo ''p'') s nested) sels = [Plain (One (ClassSelector ''c'')), Plain (One (PseudoClassSelector ''p''))]"
proof -
  obtain sels m where q: "query no_state sheet_map nested = Inr (sels, m)"
    "sels = [Plain (One (ClassSelector ''c'')), Plain (One (PseudoClassSelector ''p''))]" using sheet_query by blast
  have d: "distinct (cssClasses (n_info nested))" by code_simp
  have "filter (\<lambda>s. sel_match (with_pseudo ''p'') s nested) sels = sels" unfolding q(2) by code_simp
  with q query_is_cascade [OF sheet_map d q(1), of "with_pseudo ''p''"] show ?thesis by auto
qed

text \<open>A pseudo-class of another node is not tracked.\<close>

theorem untracked_changes_match_nothing_new_witness:
  "\<exists>sels m. query no_state sheet_map nested = Inr (sels, m) \<and>
     filter (\<lambda>s. sel_match no_state s nested) (concat (style_sheet sheet)) =
     filter (\<lambda>s. sel_match (no_state\<lparr>pseudo_classes := (\<lambda>k. if k = 7 then [''p''] else [])\<rparr>) s nested) (concat (style_sheet sheet))"
proof -
  obtain sels m where q: "query no_state sheet_map nested = Inr (sels, m)" "map_of m 7 = None" using sheet_query by blast
  have d: "distinct (cssClasses (n_info nested))" by code_simp
  have "agree no_state (no_state\<lparr>pseudo_classes := (\<lambda>k. if k = 7 then [''p''] else [])\<rparr>) m"
    using q(2) by (auto simp: agree_def same_at_def no_state_def properties_def)
  from untracked_changes_match_nothing_new [OF sheet_map d q(1) this] q(1) show ?thesis by blast
qed

section \<open>What goes wrong\<close>

definition empty_test :: "char \<Rightarrow> string" where
  "empty_test q = ''[x^='' @ [q, q] @ '']''"

text \<open>The selector for an empty value is meant to match nothing: with single quotes it matches every node, with
  double quotes it is an error.\<close>

theorem empty_value_matches_all:
  "sel_match no_state (createSelector (empty_test CHR 0x27)) nested \<and>
   createSelector (empty_test CHR 0x22) = Plain (One (InvalidSelector ''TypeError: Cannot read property 'replace' of undefined''))"
  by code_simp

theorem missing_attribute_is_text:
  "sel_match no_state (createSelector ''[x=undefined]'') nested \<and> \<not> sel_match no_state (createSelector ''[x]'') nested"
  by code_simp

text \<open>The names of the members of objects are no names for classes, ids or types.\<close>

theorem inherited_names_throw:
  "newSelectorsMap (style_sheet [[''.constructor'']]) = Inl ''TypeError: list.push is not a function'' \<and>
   query no_state sheet_map (Node (leaf_info 1 ''constructor'') [] None) =
     Inl ''TypeError: Cannot read property 'accumulateChanges' of undefined''"
  by code_simp

text \<open>What the parser does not know it leaves out.\<close>

theorem rest_of_selector_is_ignored: "createSelector ''.a:not(.b)'' = createSelector ''.a:not''"
  by code_simp

theorem text_is_reversed: "sel_text (createSelector ''.a > .b'') = ''.b.a > ''"
  by code_simp

end
