(* ===== verification/Property_Cells.thy ===== *)
theory Property_Cells
  imports NS_Prelude
begin

unbundle bit_operations_syntax

text \<open>
  The properties of views and styles (\<^verbatim>\<open>ui/core/properties/properties.js\<close>): \<open>Property\<close>, \<open>CoercibleProperty\<close> and
  \<open>CssProperty\<close>, their values on one view and its style, and the native view, which is not updated while updates
  are suspended (\<^verbatim>\<open>ui/core/view-base/view-base.js\<close>).

  The own symbols of the view and of its style are association lists under the name of the property; a name is
  that of one property. A property of the native view is a value, read by \<open>getDefault\<close>, which is a parameter, and
  written by \<open>setNative\<close>. What is called beside that is recorded in \<open>effects\<close>.
\<close>

section \<open>Properties\<close>

datatype 'v val = Text string | Other 'v

datatype 'v boxed = Unset | Plain "'v val" | Wrapped "'v val"

record 'v options =
  o_name :: string
  o_default :: "'v val"
  o_equal :: "('v val \<Rightarrow> 'v val \<Rightarrow> bool) option"
  o_convert :: "(string \<Rightarrow> 'v val) option"
  o_affectsLayout :: bool
  o_valueChanged :: bool
  o_setNative :: bool
  o_getDefault :: "('v val option \<Rightarrow> 'v val) option"

datatype 'v prop_effect = LayoutRequested | ValueChanged string "'v val" "'v val" | Notified string "'v val" "'v val"
  | DomModified string "'v val" | DomRemoved string

record 'v cells =
  cell_values :: "(string \<times> 'v val) list"
  native_defaults :: "(string \<times> 'v val) list"
  cell_sources :: "(string \<times> nat) list"
  coerce_values :: "(string \<times> 'v val) list"
  native_view :: "string \<Rightarrow> 'v val option"
  suspend_count :: int
  suspended_updates :: "string list option"
  view_alive :: bool
  listens :: "string \<Rightarrow> bool"
  has_dom :: bool
  effects :: "'v prop_effect list"

definition changed :: "'v options \<Rightarrow> 'v val \<Rightarrow> 'v val \<Rightarrow> bool" where
  "changed p old v = (case o_equal p of Some eq \<Rightarrow> \<not> eq old v | None \<Rightarrow> old \<noteq> v)"

definition convert :: "'v options \<Rightarrow> 'v val \<Rightarrow> 'v val" where
  "convert p v = (case (o_convert p, v) of (Some f, Text t) \<Rightarrow> f t | _ \<Rightarrow> v)"

definition is_set :: "'v options \<Rightarrow> ('v, 'z) cells_scheme \<Rightarrow> bool" where
  "is_set p c \<longleftrightarrow> map_of (cell_values c) (o_name p) \<noteq> None"

definition get_value :: "'v options \<Rightarrow> ('v, 'z) cells_scheme \<Rightarrow> 'v val" where
  "get_value p c = (case map_of (cell_values c) (o_name p) of None \<Rightarrow> o_default p | Some v \<Rightarrow> v)"

definition source_of :: "'v options \<Rightarrow> ('v, 'z) cells_scheme \<Rightarrow> nat" where
  "source_of p c = (case map_of (cell_sources c) (o_name p) of None \<Rightarrow> 0 | Some n \<Rightarrow> n)"

definition log_effect :: "'v prop_effect \<Rightarrow> ('v, 'z) cells_scheme \<Rightarrow> ('v, 'z) cells_scheme" where
  "log_effect e c = c\<lparr>effects := effects c @ [e]\<rparr>"

definition request_layout :: "'v options \<Rightarrow> ('v, 'z) cells_scheme \<Rightarrow> ('v, 'z) cells_scheme" where
  "request_layout p c = (if o_affectsLayout p then log_effect LayoutRequested c else c)"

definition value_changed :: "'v options \<Rightarrow> 'v val \<Rightarrow> 'v val \<Rightarrow> ('v, 'z) cells_scheme \<Rightarrow> ('v, 'z) cells_scheme" where
  "value_changed p old v c = (if o_valueChanged p then log_effect (ValueChanged (o_name p) old v) c else c)"

definition notify_change :: "'v options \<Rightarrow> 'v val \<Rightarrow> 'v val \<Rightarrow> ('v, 'z) cells_scheme \<Rightarrow> ('v, 'z) cells_scheme" where
  "notify_change p old v c = (if listens c (o_name p @ ''Change'') then log_effect (Notified (o_name p) v old) c else c)"

definition tell_dom :: "'v options \<Rightarrow> bool \<Rightarrow> 'v val \<Rightarrow> ('v, 'z) cells_scheme \<Rightarrow> ('v, 'z) cells_scheme" where
  "tell_dom p reset v c =
     (if has_dom c then log_effect (if reset then DomRemoved (o_name p) else DomModified (o_name p) v) c else c)"

section \<open>The native view\<close>

definition set_native :: "'v options \<Rightarrow> 'v val option \<Rightarrow> ('v, 'z) cells_scheme \<Rightarrow> ('v, 'z) cells_scheme" where
  "set_native p v c = c\<lparr>native_view := (native_view c)(o_name p := v)\<rparr>"

definition note_suspended :: "'v options \<Rightarrow> ('v, 'z) cells_scheme \<Rightarrow> ('v, 'z) cells_scheme" where
  "note_suspended p c = c\<lparr>suspended_updates := map_option (\<lambda>ns. push_new ns (o_name p)) (suspended_updates c)\<rparr>"

definition keep_default :: "'v options \<Rightarrow> ('v, 'z) cells_scheme \<Rightarrow> ('v, 'z) cells_scheme" where
  "keep_default p c =
     (if map_of (native_defaults c) (o_name p) = None then
        c\<lparr>native_defaults := obj_set (o_name p)
            (case o_getDefault p of Some f \<Rightarrow> f (native_view c (o_name p)) | None \<Rightarrow> o_default p) (native_defaults c)\<rparr>
      else c)"

definition native_reset :: "'v options \<Rightarrow> ('v, 'z) cells_scheme \<Rightarrow> ('v, 'z) cells_scheme" where
  "native_reset p c =
     (if \<not> o_setNative p then c
      else if suspend_count c \<noteq> 0 then note_suspended p c
      else (case map_of (native_defaults c) (o_name p) of
          Some d \<Rightarrow> (set_native p (Some d) c)\<lparr>native_defaults := obj_del (o_name p) (native_defaults c)\<rparr>
        | None \<Rightarrow> set_native p (Some (o_default p)) c))"

definition native_set :: "'v options \<Rightarrow> 'v val \<Rightarrow> ('v, 'z) cells_scheme \<Rightarrow> ('v, 'z) cells_scheme" where
  "native_set p v c =
     (if \<not> o_setNative p then c
      else if suspend_count c \<noteq> 0 then note_suspended p c
      else set_native p (Some v) (keep_default p c))"

definition assign_value :: "'v options \<Rightarrow> bool \<Rightarrow> 'v val \<Rightarrow> 'v val \<Rightarrow> ('v, 'z) cells_scheme \<Rightarrow> ('v, 'z) cells_scheme" where
  "assign_value p reset old v c =
     (if reset then
        native_reset p (value_changed p old v (c\<lparr>cell_values := obj_del (o_name p) (cell_values c)\<rparr>))
      else
        native_set p v (value_changed p old v (c\<lparr>cell_values := obj_set (o_name p) v (cell_values c)\<rparr>)))"

section \<open>\<open>Property\<close> and \<open>CoercibleProperty\<close>\<close>

definition unbox :: "'v options \<Rightarrow> 'v boxed \<Rightarrow> bool \<times> bool \<times> 'v val" where
  "unbox p b = (case b of Unset \<Rightarrow> (True, False, o_default p) | Plain v \<Rightarrow> (False, False, convert p v)
     | Wrapped v \<Rightarrow> (False, True, convert p v))"

definition property_set :: "'v options \<Rightarrow> 'v boxed \<Rightarrow> ('v, 'z) cells_scheme \<Rightarrow> ('v, 'z) cells_scheme" where
  "property_set p b c =
     (let (reset, wrapped, v) = unbox p b; old = get_value p c in
      if wrapped \<or> changed p old v then
        tell_dom p reset v (notify_change p old v (assign_value p reset old v (request_layout p c)))
      else c)"

text \<open>A change made in the native view.\<close>

definition nativeValueChange :: "'v options \<Rightarrow> bool \<Rightarrow> 'v val \<Rightarrow> ('v, 'z) cells_scheme \<Rightarrow> ('v, 'z) cells_scheme" where
  "nativeValueChange p has_native v c =
     (let old = get_value p c in
      if changed p old v then
        (let c1 = value_changed p old v (c\<lparr>cell_values := obj_set (o_name p) v (cell_values c)\<rparr>);
             c2 = (if has_native then keep_default p c1 else c1)
         in tell_dom p False v (request_layout p (notify_change p old v c2)))
      else c)"

definition coercible_set :: "'v options \<Rightarrow> (('v, 'z) cells_scheme \<Rightarrow> 'v val \<Rightarrow> 'v val) \<Rightarrow> 'v boxed \<Rightarrow> ('v, 'z) cells_scheme \<Rightarrow>
    ('v, 'z) cells_scheme" where
  "coercible_set p coerceValue b c =
     (let (reset, wrapped, u) = unbox p b;
          c1 = (if reset then c\<lparr>coerce_values := obj_del (o_name p) (coerce_values c)\<rparr>
                else c\<lparr>coerce_values := obj_set (o_name p) u (coerce_values c)\<rparr>);
          v = (if reset then u else coerceValue c1 u);
          old = get_value p c1
      in if wrapped \<or> changed p old v then
           tell_dom p reset v (request_layout p (notify_change p old v (assign_value p reset old v c1)))
         else c1)"

definition coerce :: "'v options \<Rightarrow> (('v, 'z) cells_scheme \<Rightarrow> 'v val \<Rightarrow> 'v val) \<Rightarrow> ('v, 'z) cells_scheme \<Rightarrow> ('v, 'z) cells_scheme" where
  "coerce p coerceValue c =
     coercible_set p coerceValue (Plain (case map_of (coerce_values c) (o_name p) of None \<Rightarrow> o_default p | Some v \<Rightarrow> v)) c"

section \<open>\<open>CssProperty\<close>\<close>

text \<open>\<open>None\<close> is \<open>unsetValue\<close>.\<close>

definition css_reset :: "'v val option \<Rightarrow> bool" where
  "css_reset b \<longleftrightarrow> b = None \<or> b = Some (Text [])"

definition css_value :: "'v options \<Rightarrow> 'v val option \<Rightarrow> 'v val" where
  "css_value p b = (if css_reset b then o_default p else convert p (the b))"

definition set_source :: "'v options \<Rightarrow> bool \<Rightarrow> nat \<Rightarrow> ('v, 'z) cells_scheme \<Rightarrow> ('v, 'z) cells_scheme" where
  "set_source p reset n c =
     c\<lparr>cell_sources := (if reset then obj_del (o_name p) (cell_sources c) else obj_set (o_name p) n (cell_sources c))\<rparr>"

definition css_assign :: "'v options \<Rightarrow> bool \<Rightarrow> 'v val \<Rightarrow> ('v, 'z) cells_scheme \<Rightarrow> ('v, 'z) cells_scheme" where
  "css_assign p reset v c =
     (let old = get_value p c in
      if changed p old v then request_layout p (notify_change p old v (assign_value p reset old v c)) else c)"

definition setLocalValue :: "'v options \<Rightarrow> 'v val option \<Rightarrow> ('v, 'z) cells_scheme \<Rightarrow> ('v, 'z) cells_scheme" where
  "setLocalValue p b c =
     (if \<not> view_alive c then c
      else css_assign p (css_reset b) (css_value p b) (set_source p (css_reset b) 3 c))"

definition setCssValue :: "'v options \<Rightarrow> 'v val option \<Rightarrow> ('v, 'z) cells_scheme \<Rightarrow> ('v, 'z) cells_scheme" where
  "setCssValue p b c =
     (if \<not> view_alive c then c
      else if source_of p c = 3 then c
      else css_assign p (css_reset b) (css_value p b) (set_source p (css_reset b) 2 c))"

section \<open>Suspending\<close>

definition LOADED :: int where "LOADED = 0x100000"
definition NATIVE_VIEW :: int where "NATIVE_VIEW = 0x200000"
definition UI_SETUP :: int where "UI_SETUP = 0x400000"
definition INCREMENTAL_MASK :: int where "INCREMENTAL_MASK = NOT (LOADED OR NATIVE_VIEW OR UI_SETUP)"

definition suspendNativeUpdates :: "int \<Rightarrow> ('v, 'z) cells_scheme \<Rightarrow> ('v, 'z) cells_scheme" where
  "suspendNativeUpdates t c =
     c\<lparr>suspend_count := (if t \<noteq> 0 then suspend_count c OR t else suspend_count c + 1)\<rparr>"

text \<open>\<open>props\<close> finds the property of a symbol or of a name in \<open>_suspendedUpdates\<close>.\<close>

fun applyPendingNativeSetters :: "(string \<Rightarrow> 'v options option) \<Rightarrow> string list \<Rightarrow> ('v, 'z) cells_scheme \<Rightarrow> ('v, 'z) cells_scheme" where
  "applyPendingNativeSetters props [] c = c"
| "applyPendingNativeSetters props (n # ns) c =
     applyPendingNativeSetters props ns
       (case props n of
          None \<Rightarrow> c
        | Some p \<Rightarrow>
            if \<not> o_setNative p then c
            else if is_set p c then (let c1 = keep_default p c in set_native p (Some (get_value p c1)) c1)
            else set_native p (map_of (native_defaults c) n) c)"

fun applyAllNativeSetters :: "(string \<Rightarrow> 'v options option) \<Rightarrow> (string \<times> 'v val) list \<Rightarrow> ('v, 'z) cells_scheme \<Rightarrow> ('v, 'z) cells_scheme" where
  "applyAllNativeSetters props [] c = c"
| "applyAllNativeSetters props ((n, v) # nvs) c =
     applyAllNativeSetters props nvs
       (case props n of
          None \<Rightarrow> c
        | Some p \<Rightarrow> if \<not> o_setNative p then c else set_native p (Some v) (keep_default p c))"

definition initNativeView :: "(string \<Rightarrow> 'v options option) \<Rightarrow> ('v, 'z) cells_scheme \<Rightarrow> ('v, 'z) cells_scheme" where
  "initNativeView props c =
     (case suspended_updates c of
        Some ns \<Rightarrow> applyPendingNativeSetters props ns c
      | None \<Rightarrow> applyAllNativeSetters props (cell_values c) c)\<lparr>suspended_updates := Some []\<rparr>"

definition resumeNativeUpdates :: "(string \<Rightarrow> 'v options option) \<Rightarrow> int \<Rightarrow> ('v, 'z) cells_scheme \<Rightarrow> ('v, 'z) cells_scheme run" where
  "resumeNativeUpdates props t c =
     (if t = 0 \<and> suspend_count c AND INCREMENTAL_MASK = 0 then (Some ''Invalid call to _resumeNativeUpdates'', c)
      else (let c1 = c\<lparr>suspend_count := (if t \<noteq> 0 then suspend_count c AND NOT t else suspend_count c - 1)\<rparr>
            in (None, if suspend_count c1 = 0 then initNativeView props c1 else c1)))"

text \<open>The update is resumed in a \<open>finally\<close>: its error, if any, replaces that of the callback.\<close>

definition batchUpdate :: "(string \<Rightarrow> 'v options option) \<Rightarrow> (('v, 'z) cells_scheme \<Rightarrow> ('v, 'z) cells_scheme run) \<Rightarrow> ('v, 'z) cells_scheme \<Rightarrow>
    ('v, 'z) cells_scheme run" where
  "batchUpdate props f c =
     (case f (suspendNativeUpdates 0 c) of (e, c1) \<Rightarrow>
        (case resumeNativeUpdates props 0 c1 of (None, c2) \<Rightarrow> (e, c2) | (Some e2, c2) \<Rightarrow> (Some e2, c2)))"

fun reset_each :: "(string \<Rightarrow> 'v options option) \<Rightarrow> string list \<Rightarrow> ('v, 'z) cells_scheme \<Rightarrow> ('v, 'z) cells_scheme" where
  "reset_each props [] c = c"
| "reset_each props (n # ns) c =
     reset_each props ns
       (case props n of
          None \<Rightarrow> c
        | Some p \<Rightarrow>
            if \<not> o_setNative p then c
            else (case map_of (native_defaults c) n of
                Some d \<Rightarrow> (set_native p (Some d) c)\<lparr>native_defaults := obj_del n (native_defaults c)\<rparr>
              | None \<Rightarrow> set_native p (Some (o_default p)) c))"

definition resetNativeView :: "(string \<Rightarrow> 'v options option) \<Rightarrow> ('v, 'z) cells_scheme \<Rightarrow> ('v, 'z) cells_scheme" where
  "resetNativeView props c = reset_each props (map fst (cell_values c)) c"

text \<open>A shorthand sets the properties its converter names, in one update.\<close>

fun set_each :: "('p \<Rightarrow> 'b \<Rightarrow> 's \<Rightarrow> 's) \<Rightarrow> ('p \<times> 'b) list \<Rightarrow> 's \<Rightarrow> 's" where
  "set_each f [] c = c"
| "set_each f ((p, b) # pbs) c = set_each f pbs (f p b c)"

definition shorthand_setLocalValue :: "(string \<Rightarrow> 'v options option) \<Rightarrow> ('b \<Rightarrow> ('v options \<times> 'v val option) list) \<Rightarrow> 'b \<Rightarrow>
    ('v, 'z) cells_scheme \<Rightarrow> ('v, 'z) cells_scheme run" where
  "shorthand_setLocalValue props converter b c =
     (if \<not> view_alive c then (None, c)
      else batchUpdate props (\<lambda>c. (None, set_each setLocalValue (converter b) c)) c)"

definition shorthand_setCssValue :: "(string \<Rightarrow> 'v options option) \<Rightarrow> ('b \<Rightarrow> ('v options \<times> 'v val option) list) \<Rightarrow> 'b \<Rightarrow>
    ('v, 'z) cells_scheme \<Rightarrow> ('v, 'z) cells_scheme run" where
  "shorthand_setCssValue props converter b c =
     (if \<not> view_alive c then (None, c)
      else batchUpdate props (\<lambda>c. (None, set_each setCssValue (converter b) c)) c)"

end
