(* ===== verification/Property_Native.thy ===== *)
theory Property_Native
  imports Property_Cells
begin

text \<open>
  The native view follows the properties: whenever updates are not suspended, each property of the native view has
  the value that is set, or the one it had before anything was set. The exception, a property that is set and
  unset in one suspension, is excluded, and shown at the end.
\<close>

section \<open>The invariant of a property\<close>

text \<open>\<open>init\<close> is the native view at the start; \<open>getDefault\<close> reads what \<open>setNative\<close> has written.\<close>

definition base :: "(string \<Rightarrow> 'v val option) \<Rightarrow> 'v options \<Rightarrow> 'v val" where
  "base init p = (case o_getDefault p of Some f \<Rightarrow> f (init (o_name p)) | None \<Rightarrow> o_default p)"

definition reads_back :: "'v options \<Rightarrow> bool" where
  "reads_back p \<longleftrightarrow> (\<forall>f v. o_getDefault p = Some f \<longrightarrow> f (Some v) = v)"

definition at_rest :: "(string \<Rightarrow> 'v val option) \<Rightarrow> 'v options \<Rightarrow> ('v, 'z) cells_scheme \<Rightarrow> bool" where
  "at_rest init p c \<longleftrightarrow> native_view c (o_name p) = init (o_name p) \<or> native_view c (o_name p) = Some (base init p)"

definition captured :: "'v options \<Rightarrow> ('v, 'z) cells_scheme \<Rightarrow> bool" where
  "captured p c \<longleftrightarrow> map_of (native_defaults c) (o_name p) \<noteq> None"

definition settled :: "(string \<Rightarrow> 'v val option) \<Rightarrow> 'v options \<Rightarrow> ('v, 'z) cells_scheme \<Rightarrow> bool" where
  "settled init p c \<longleftrightarrow>
     (if is_set p c then native_view c (o_name p) = Some (get_value p c) \<and> captured p c else at_rest init p c)"

text \<open>Before the native view is initialised, settled, or pending.\<close>

definition native_ok :: "(string \<Rightarrow> 'v val option) \<Rightarrow> 'v options \<Rightarrow> ('v, 'z) cells_scheme \<Rightarrow> bool" where
  "native_ok init p c \<longleftrightarrow>
     (\<forall>d. map_of (native_defaults c) (o_name p) = Some d \<longrightarrow> d = base init p) \<and>
     (case suspended_updates c of
        None \<Rightarrow> suspend_count c \<noteq> 0 \<and> at_rest init p c
      | Some ns \<Rightarrow>
          if o_name p \<in> set ns then suspend_count c \<noteq> 0 \<and> (captured p c \<or> is_set p c \<and> at_rest init p c)
          else settled init p c)"

section \<open>What an operation on another property leaves\<close>

definition same_at_name :: "string \<Rightarrow> ('v, 'z) cells_scheme \<Rightarrow> ('v, 'z) cells_scheme \<Rightarrow> bool" where
  "same_at_name n c c' \<longleftrightarrow> map_of (cell_values c') n = map_of (cell_values c) n \<and>
     map_of (native_defaults c') n = map_of (native_defaults c) n \<and> native_view c' n = native_view c n \<and>
     suspend_count c' = suspend_count c \<and>
     map_option (\<lambda>ns. n \<in> set ns) (suspended_updates c') = map_option (\<lambda>ns. n \<in> set ns) (suspended_updates c)"

lemma same_native_ok: "same_at_name (o_name p) c c' \<Longrightarrow> native_ok init p c' = native_ok init p c"
  by (auto simp: same_at_name_def native_ok_def settled_def at_rest_def captured_def is_set_def get_value_def
      split: option.splits)

lemma same_name_refl [simp]: "same_at_name n c c"
  by (simp add: same_at_name_def)

lemma same_name_trans: "same_at_name n a b \<Longrightarrow> same_at_name n b c \<Longrightarrow> same_at_name n a c"
  by (simp add: same_at_name_def)

lemma same_effects [simp]:
  "same_at_name n c (request_layout p c)" "same_at_name n c (value_changed p u v c)" "same_at_name n c (notify_change p u v c)"
  "same_at_name n c (tell_dom p r v c)" "same_at_name n c (set_source p r s c)" "same_at_name n c (c\<lparr>coerce_values := ms\<rparr>)"
  by (simp_all add: same_at_name_def request_layout_def value_changed_def notify_change_def tell_dom_def log_effect_def set_source_def)

lemma native_ok_effects [simp]:
  "native_ok init q (request_layout p c) = native_ok init q c" "native_ok init q (value_changed p u v c) = native_ok init q c"
  "native_ok init q (notify_change p u v c) = native_ok init q c" "native_ok init q (tell_dom p r v c) = native_ok init q c"
  "native_ok init q (set_source p r s c) = native_ok init q c" "native_ok init q (c\<lparr>coerce_values := ms\<rparr>) = native_ok init q c"
  by (rule same_native_ok; simp)+

text \<open>What an operation that is not about suspending keeps of the whole.\<close>

definition same_frame :: "('v, 'z) cells_scheme \<Rightarrow> ('v, 'z) cells_scheme \<Rightarrow> bool" where
  "same_frame c c' \<longleftrightarrow> suspend_count c' = suspend_count c \<and> (distinct (map fst (cell_values c)) \<longrightarrow> distinct (map fst (cell_values c')))"

lemma frame_effects [simp]:
  "same_frame c c" "same_frame c (request_layout p c)" "same_frame c (value_changed p u v c)" "same_frame c (notify_change p u v c)"
  "same_frame c (tell_dom p r v c)" "same_frame c (set_source p r s c)" "same_frame c (c\<lparr>coerce_values := ms\<rparr>)"
  by (simp_all add: same_frame_def request_layout_def value_changed_def notify_change_def tell_dom_def log_effect_def set_source_def)

lemma frame_trans: "same_frame a b \<Longrightarrow> same_frame b c \<Longrightarrow> same_frame a c"
  by (simp add: same_frame_def)

lemma cells_effects [simp]:
  "map_of (cell_values (request_layout p c)) = map_of (cell_values c)" "map_of (cell_values (set_source p r s c)) = map_of (cell_values c)"
  "map_of (native_defaults (request_layout p c)) = map_of (native_defaults c)" "map_of (native_defaults (set_source p r s c)) = map_of (native_defaults c)"
  "suspend_count (request_layout p c) = suspend_count c" "suspend_count (set_source p r s c) = suspend_count c"
  "suspended_updates (request_layout p c) = suspended_updates c" "suspended_updates (set_source p r s c) = suspended_updates c"
  by (simp_all add: request_layout_def log_effect_def set_source_def)

section \<open>Assigning\<close>

definition well_behaved :: "'v options \<Rightarrow> bool" where
  "well_behaved p \<longleftrightarrow> o_setNative p \<and> reads_back p \<and> \<not> changed p (o_default p) (o_default p)"

text \<open>The one case left out: a value that was set since updates were suspended is unset.\<close>

definition may_reset :: "'v options \<Rightarrow> ('v, 'z) cells_scheme \<Rightarrow> bool" where
  "may_reset p c \<longleftrightarrow> (suspend_count c \<noteq> 0 \<and> suspended_updates c \<noteq> None \<and> is_set p c \<longrightarrow> captured p c)"

lemma read_at_rest: "well_behaved p \<Longrightarrow> at_rest init p c \<Longrightarrow>
    (case o_getDefault p of Some f \<Rightarrow> f (native_view c (o_name p)) | None \<Rightarrow> o_default p) = base init p"
  by (auto simp: at_rest_def base_def well_behaved_def reads_back_def split: option.splits)

lemma native_set_ok:
  assumes "well_behaved p" "native_ok init p c"
  shows "native_ok init p (native_set p v (value_changed p old v (c\<lparr>cell_values := obj_set (o_name p) v (cell_values c)\<rparr>)))"
  using assms read_at_rest [of p init c]
  by (auto simp: native_ok_def native_set_def value_changed_def log_effect_def note_suspended_def set_native_def keep_default_def
      well_behaved_def settled_def is_set_def get_value_def captured_def at_rest_def split: option.splits if_splits)

lemma native_reset_ok:
  assumes "well_behaved p" "native_ok init p c" "is_set p c" "may_reset p c"
  shows "native_ok init p (native_reset p (value_changed p old v (c\<lparr>cell_values := obj_del (o_name p) (cell_values c)\<rparr>)))"
  using assms
  by (auto simp: native_ok_def native_reset_def value_changed_def log_effect_def note_suspended_def set_native_def may_reset_def
      well_behaved_def settled_def is_set_def get_value_def captured_def at_rest_def split: option.splits if_splits)

lemma changed_is_set: "well_behaved p \<Longrightarrow> changed p (get_value p c) (o_default p) \<Longrightarrow> is_set p c"
  by (auto simp: well_behaved_def get_value_def is_set_def split: option.splits)

lemma assign_value_ok:
  assumes "well_behaved p" "native_ok init p c" "reset \<longrightarrow> is_set p c \<and> may_reset p c"
  shows "native_ok init p (assign_value p reset old v c)"
  using assms by (simp add: assign_value_def native_set_ok native_reset_ok)

lemma assign_value_other: "n \<noteq> o_name p \<Longrightarrow> same_at_name n c (assign_value p reset old v c)"
  by (auto simp: same_at_name_def assign_value_def native_set_def native_reset_def value_changed_def log_effect_def note_suspended_def
      set_native_def keep_default_def option.map_comp o_def split: option.splits)

lemma assign_value_frame: "same_frame c (assign_value p reset old v c)"
  by (auto simp: same_frame_def assign_value_def native_set_def native_reset_def value_changed_def log_effect_def note_suspended_def
      set_native_def keep_default_def split: option.splits)


section \<open>Setting and unsetting\<close>

text \<open>\<open>op\<close> sets \<open>p\<close>: it keeps the invariant of \<open>p\<close> and leaves the others.\<close>

definition sets_only :: "'v options \<Rightarrow> ('v, 'z) cells_scheme \<Rightarrow> ('v, 'z) cells_scheme \<Rightarrow> bool" where
  "sets_only p c c' \<longleftrightarrow> (\<forall>n. n \<noteq> o_name p \<longrightarrow> same_at_name n c c') \<and> same_frame c c'"

lemma sets_only_intro: "(\<And>n. n \<noteq> o_name p \<Longrightarrow> same_at_name n c c') \<Longrightarrow> same_frame c c' \<Longrightarrow> sets_only p c c'"
  by (simp add: sets_only_def)

lemma sets_only_trans [trans]: "sets_only p a b \<Longrightarrow> sets_only p b c \<Longrightarrow> sets_only p a c"
  by (auto simp: sets_only_def intro: same_name_trans frame_trans)

lemma sets_only_effects [simp]:
  "sets_only p c c" "sets_only p c (request_layout q c)" "sets_only p c (notify_change q u v c)"
  "sets_only p c (tell_dom q r v c)" "sets_only p c (set_source q r s c)" "sets_only p c (c\<lparr>coerce_values := ms\<rparr>)"
  "sets_only p c (assign_value p r u v c)"
  by (auto intro: sets_only_intro assign_value_other assign_value_frame)

lemma sets_only_then:
  "sets_only p c d \<Longrightarrow> sets_only p c (request_layout q d)" "sets_only p c d \<Longrightarrow> sets_only p c (notify_change q u v d)"
  "sets_only p c d \<Longrightarrow> sets_only p c (tell_dom q r v d)" "sets_only p c d \<Longrightarrow> sets_only p c (set_source q r s d)"
  "sets_only p c d \<Longrightarrow> sets_only p c (d\<lparr>coerce_values := ms\<rparr>)" "sets_only p c d \<Longrightarrow> sets_only p c (assign_value p r u v d)"
  by (auto intro: sets_only_trans)

lemma property_set_only: "sets_only p c (property_set p b c)"
  by (auto simp: property_set_def Let_def split: prod.splits intro!: sets_only_then)

lemma coercible_set_only: "sets_only p c (coercible_set p f b c)"
  by (auto simp: coercible_set_def Let_def split: prod.splits intro!: sets_only_then)

lemma css_assign_only: "sets_only p d c \<Longrightarrow> sets_only p d (css_assign p r v c)"
  by (auto simp: css_assign_def Let_def intro!: sets_only_then)

lemma css_set_only: "sets_only p c (setLocalValue p w c)" "sets_only p c (setCssValue p w c)"
  by (auto simp: setLocalValue_def setCssValue_def intro!: css_assign_only)

lemma may_reset_effects [simp]:
  "may_reset p (request_layout q c) = may_reset p c" "may_reset p (set_source q r s c) = may_reset p c"
  "may_reset p (c\<lparr>coerce_values := ms\<rparr>) = may_reset p c" "is_set p (request_layout q c) = is_set p c"
  "is_set p (set_source q r s c) = is_set p c" "is_set p (c\<lparr>coerce_values := ms\<rparr>) = is_set p c"
  "get_value p (set_source q r s c) = get_value p c" "get_value p (c\<lparr>coerce_values := ms\<rparr>) = get_value p c"
  by (simp_all add: may_reset_def is_set_def captured_def get_value_def)

lemma unbox_reset: "unbox p b = (r, w, v) \<Longrightarrow> (r \<longleftrightarrow> b = Unset) \<and> (r \<longrightarrow> \<not> w \<and> v = o_default p)"
  by (auto simp: unbox_def split: boxed.splits)

lemma property_set_ok:
  assumes "well_behaved p" "native_ok init p c" "b = Unset \<longrightarrow> may_reset p c"
  shows "native_ok init p (property_set p b c)"
  using assms by (auto simp: property_set_def Let_def intro!: assign_value_ok dest!: unbox_reset intro: changed_is_set split: prod.splits)

lemma coercible_set_ok:
  assumes "well_behaved p" "native_ok init p c" "b = Unset \<longrightarrow> may_reset p c"
  shows "native_ok init p (coercible_set p f b c)"
  using assms by (auto simp: coercible_set_def Let_def intro!: assign_value_ok dest!: unbox_reset intro: changed_is_set split: prod.splits)

lemma css_set_ok:
  assumes "well_behaved p" "native_ok init p c" "css_reset b \<longrightarrow> may_reset p c"
  shows "native_ok init p (setLocalValue p b c)" "native_ok init p (setCssValue p b c)"
  using assms by (auto simp: setLocalValue_def setCssValue_def css_assign_def css_value_def Let_def intro!: assign_value_ok intro: changed_is_set)

end
