(* ===== verification/Property_Run.thy ===== *)
theory Property_Run
  imports Property_Native
begin

unbundle bit_operations_syntax

text \<open>
  A view whose properties are set and unset while its native updates are suspended and resumed: the native view
  is in sync whenever updates are not suspended.
\<close>

section \<open>Applying what is pending\<close>

definition well_named :: "(string \<Rightarrow> 'v options option) \<Rightarrow> bool" where
  "well_named props \<longleftrightarrow> (\<forall>n p. props n = Some p \<longrightarrow> o_name p = n)"

text \<open>\<open>rest\<close> is still to be applied.\<close>

definition due :: "(string \<Rightarrow> 'v val option) \<Rightarrow> 'v options \<Rightarrow> string list \<Rightarrow> ('v, 'z) cells_scheme \<Rightarrow> bool" where
  "due init p rest c \<longleftrightarrow>
     (\<forall>d. map_of (native_defaults c) (o_name p) = Some d \<longrightarrow> d = base init p) \<and>
     (if o_name p \<in> set rest then captured p c \<or> is_set p c \<and> at_rest init p c else settled init p c)"

definition apply_pending :: "'v options \<Rightarrow> ('v, 'z) cells_scheme \<Rightarrow> ('v, 'z) cells_scheme" where
  "apply_pending p c =
     (if \<not> o_setNative p then c
      else if is_set p c then (let c1 = keep_default p c in set_native p (Some (get_value p c1)) c1)
      else set_native p (map_of (native_defaults c) (o_name p)) c)"

lemma apply_pending_other: "n \<noteq> o_name p \<Longrightarrow> same_at_name n c (apply_pending p c)"
  by (auto simp: apply_pending_def same_at_name_def set_native_def keep_default_def Let_def)

lemma apply_pending_due:
  "well_behaved p \<Longrightarrow> due init p (o_name p # rest) c \<Longrightarrow> due init p rest (apply_pending p c)"
  using read_at_rest [of p init c]
  by (auto simp: apply_pending_def due_def set_native_def keep_default_def settled_def captured_def is_set_def get_value_def at_rest_def
      well_behaved_def Let_def split: option.splits if_splits)

lemma same_due: "same_at_name (o_name p) c c' \<Longrightarrow> due init p rest c' = due init p rest c"
  by (auto simp: same_at_name_def due_def settled_def at_rest_def captured_def is_set_def get_value_def split: option.splits)

lemma due_other: "m \<noteq> o_name p \<Longrightarrow> due init p (m # rest) c = due init p rest c"
  by (simp add: due_def)

lemma applyPending_Cons:
  "well_named props \<Longrightarrow> applyPendingNativeSetters props (n # ns) c =
     applyPendingNativeSetters props ns (case props n of None \<Rightarrow> c | Some p \<Rightarrow> apply_pending p c)"
  by (auto simp: apply_pending_def well_named_def split: option.split)

lemma applyPending_due:
  assumes "well_named props" "props (o_name p) = Some p" "well_behaved p"
  shows "due init p ns c \<Longrightarrow> due init p [] (applyPendingNativeSetters props ns c)"
proof (induction ns arbitrary: c)
  case (Cons n ns)
  have "due init p ns (case props n of None \<Rightarrow> c | Some q \<Rightarrow> apply_pending q c)"
  proof (cases "n = o_name p")
    case True
    then show ?thesis using Cons.prems assms by (simp add: apply_pending_due)
  next
    case False
    then show ?thesis using Cons.prems assms(1) same_due [OF apply_pending_other, of p _ init ns c]
      by (auto simp: due_other well_named_def split: option.split)
  qed
  then show ?case using Cons.IH assms(1) by (simp add: applyPending_Cons del: applyPendingNativeSetters.simps)
qed simp

definition apply_set :: "'v options \<Rightarrow> 'v val \<Rightarrow> ('v, 'z) cells_scheme \<Rightarrow> ('v, 'z) cells_scheme" where
  "apply_set p v c = (if \<not> o_setNative p then c else set_native p (Some v) (keep_default p c))"

lemma apply_set_other: "n \<noteq> o_name p \<Longrightarrow> same_at_name n c (apply_set p v c)"
  by (auto simp: apply_set_def same_at_name_def set_native_def keep_default_def)

definition untouched :: "(string \<Rightarrow> 'v val option) \<Rightarrow> 'v options \<Rightarrow> ('v, 'z) cells_scheme \<Rightarrow> bool" where
  "untouched init p c \<longleftrightarrow> at_rest init p c \<and> (\<forall>d. map_of (native_defaults c) (o_name p) = Some d \<longrightarrow> d = base init p)"

lemma apply_set_due:
  "well_behaved p \<Longrightarrow> untouched init p c \<Longrightarrow> map_of (cell_values c) (o_name p) = Some v \<Longrightarrow> due init p [] (apply_set p v c)"
  using read_at_rest [of p init c]
  by (auto simp: apply_set_def due_def untouched_def set_native_def keep_default_def settled_def captured_def is_set_def get_value_def
      well_behaved_def Let_def split: option.splits if_splits)

lemma applyAll_other:
  assumes "well_named props"
  shows "n \<notin> fst ` set nvs \<Longrightarrow> same_at_name n c (applyAllNativeSetters props nvs c)"
proof (induction nvs arbitrary: c)
  case (Cons nv nvs)
  obtain m v where nv: "nv = (m, v)" by (cases nv)
  have "same_at_name n c (case props m of None \<Rightarrow> c | Some q \<Rightarrow> apply_set q v c)"
    using Cons.prems assms nv by (auto simp: well_named_def split: option.split intro!: apply_set_other)
  then show ?case using Cons by (auto simp: nv apply_set_def intro: same_name_trans split: option.split)
qed simp

lemma applyAll_Cons: "applyAllNativeSetters props ((n, v) # nvs) c =
    applyAllNativeSetters props nvs (case props n of None \<Rightarrow> c | Some p \<Rightarrow> apply_set p v c)"
  by (auto simp: apply_set_def split: option.split)

lemma applyAll_due:
  assumes "well_named props" "props (o_name p) = Some p" "well_behaved p"
  shows "distinct (map fst nvs) \<Longrightarrow> untouched init p c \<Longrightarrow> map_of nvs (o_name p) = Some v \<Longrightarrow>
    map_of (cell_values c) (o_name p) = Some v \<Longrightarrow> due init p [] (applyAllNativeSetters props nvs c)"
proof (induction nvs arbitrary: c)
  case (Cons nv nvs)
  obtain m w where nv: "nv = (m, w)" by (cases nv)
  show ?case
  proof (cases "m = o_name p")
    case True
    have "due init p [] (apply_set p v c)" using Cons.prems assms by (simp add: apply_set_due)
    moreover have "same_at_name (o_name p) (apply_set p v c) (applyAllNativeSetters props nvs (apply_set p v c))"
      using Cons.prems True nv by (intro applyAll_other [OF assms(1)]) simp
    ultimately show ?thesis using Cons.prems True nv assms(2)
      by (simp add: applyAll_Cons same_due del: applyAllNativeSetters.simps)
  next
    case False
    let ?d = "case props m of None \<Rightarrow> c | Some q \<Rightarrow> apply_set q w c"
    have "same_at_name (o_name p) c ?d"
      using False assms(1) by (auto simp: well_named_def split: option.split intro!: apply_set_other)
    then have "untouched init p ?d" "map_of (cell_values ?d) (o_name p) = Some v"
      using Cons.prems by (auto simp: same_at_name_def untouched_def at_rest_def)
    then have "due init p [] (applyAllNativeSetters props nvs ?d)" using Cons False nv by simp
    then show ?thesis by (simp add: nv applyAll_Cons del: applyAllNativeSetters.simps)
  qed
qed simp

lemma due_updates [simp]: "due init p ns (c\<lparr>suspended_updates := x\<rparr>) = due init p ns c"
  by (simp add: due_def settled_def is_set_def get_value_def captured_def at_rest_def)

lemma native_ok_initialised: "suspended_updates c = Some [] \<Longrightarrow> native_ok init p c = due init p [] c"
  by (simp add: native_ok_def due_def)

lemma init_native_ok:
  assumes "well_named props" "props (o_name p) = Some p" "well_behaved p" "distinct (map fst (cell_values c))"
    and c: "case suspended_updates c of None \<Rightarrow> untouched init p c | Some ns \<Rightarrow> due init p ns c"
  shows "native_ok init p (initNativeView props c)"
proof -
  have "due init p [] (initNativeView props c)"
  proof (cases "suspended_updates c")
    case None
    show ?thesis
    proof (cases "map_of (cell_values c) (o_name p)")
      case None
      then have "same_at_name (o_name p) c (applyAllNativeSetters props (cell_values c) c)"
        by (intro applyAll_other assms) (simp add: map_of_eq_None_iff)
      moreover have "due init p [] c" using None c \<open>suspended_updates c = None\<close>
        by (simp add: due_def untouched_def settled_def is_set_def)
      ultimately have "due init p [] (applyAllNativeSetters props (cell_values c) c)" by (simp add: same_due)
      then show ?thesis using \<open>suspended_updates c = None\<close>
        by (simp add: initNativeView_def)
    next
      case (Some v)
      then have "due init p [] (applyAllNativeSetters props (cell_values c) c)"
        using c \<open>suspended_updates c = None\<close> assms by (auto intro: applyAll_due)
      then show ?thesis using \<open>suspended_updates c = None\<close>
        by (simp add: initNativeView_def)
    qed
  next
    case (Some ns)
    then have "due init p [] (applyPendingNativeSetters props ns c)" using c assms by (auto intro: applyPending_due)
    then show ?thesis using Some
      by (simp add: initNativeView_def)
  qed
  then show ?thesis by (simp add: native_ok_initialised initNativeView_def)
qed


section \<open>Events\<close>

datatype 'v prop_event = SetValue string "'v boxed" | SetCoercible string "'v boxed" | SetLocal string "'v val option"
  | SetCss string "'v val option" | Suspend int | Resume int

definition suspend_types :: "int list" where
  "suspend_types = [0, LOADED, NATIVE_VIEW, UI_SETUP]"

fun prop_step :: "(string \<Rightarrow> 'v options option) \<Rightarrow> (string \<Rightarrow> 'v cells \<Rightarrow> 'v val \<Rightarrow> 'v val) \<Rightarrow> 'v cells \<Rightarrow> 'v prop_event \<Rightarrow> 'v cells" where
  "prop_step props co c (SetValue n b) = (case props n of None \<Rightarrow> c | Some p \<Rightarrow> property_set p b c)"
| "prop_step props co c (SetCoercible n b) = (case props n of None \<Rightarrow> c | Some p \<Rightarrow> coercible_set p (co n) b c)"
| "prop_step props co c (SetLocal n b) = (case props n of None \<Rightarrow> c | Some p \<Rightarrow> setLocalValue p b c)"
| "prop_step props co c (SetCss n b) = (case props n of None \<Rightarrow> c | Some p \<Rightarrow> setCssValue p b c)"
| "prop_step props co c (Suspend t) = suspendNativeUpdates t c"
| "prop_step props co c (Resume t) = snd (resumeNativeUpdates props t c)"

fun event_unsets :: "'v prop_event \<Rightarrow> string option" where
  "event_unsets (SetValue n b) = (if b = Unset then Some n else None)"
| "event_unsets (SetCoercible n b) = (if b = Unset then Some n else None)"
| "event_unsets (SetLocal n b) = (if css_reset b then Some n else None)"
| "event_unsets (SetCss n b) = (if css_reset b then Some n else None)"
| "event_unsets _ = None"

fun event_type :: "'v prop_event \<Rightarrow> int" where
  "event_type (Suspend t) = t"
| "event_type (Resume t) = t"
| "event_type _ = 0"

definition allowed :: "(string \<Rightarrow> 'v options option) \<Rightarrow> 'v cells \<Rightarrow> 'v prop_event \<Rightarrow> bool" where
  "allowed props c e \<longleftrightarrow> event_type e \<in> set suspend_types \<and>
     (case event_unsets e of None \<Rightarrow> True | Some n \<Rightarrow> (case props n of None \<Rightarrow> True | Some p \<Rightarrow> may_reset p c))"

fun allowed_run :: "(string \<Rightarrow> 'v options option) \<Rightarrow> (string \<Rightarrow> 'v cells \<Rightarrow> 'v val \<Rightarrow> 'v val) \<Rightarrow> 'v cells \<Rightarrow> 'v prop_event list \<Rightarrow> bool" where
  "allowed_run props co c [] \<longleftrightarrow> True"
| "allowed_run props co c (e # es) \<longleftrightarrow> allowed props c e \<and> allowed_run props co (prop_step props co c e) es"

text \<open>A view that has just been made.\<close>

definition fresh_view :: "'v cells \<Rightarrow> bool" where
  "fresh_view c \<longleftrightarrow> cell_values c = [] \<and> native_defaults c = [] \<and> suspended_updates c = None \<and>
     suspend_count c = (LOADED OR NATIVE_VIEW OR UI_SETUP)"

section \<open>The invariant\<close>

definition run_ok :: "(string \<Rightarrow> 'v val option) \<Rightarrow> 'v options \<Rightarrow> 'v cells \<Rightarrow> bool" where
  "run_ok init p c \<longleftrightarrow> native_ok init p c \<and> distinct (map fst (cell_values c)) \<and> 0 \<le> suspend_count c"

lemma run_ok_set:
  assumes "sets_only q c c'" "run_ok init p c" "q = p \<Longrightarrow> native_ok init p c'" "o_name q = o_name p \<Longrightarrow> q = p"
  shows "run_ok init p c'"
proof (cases "q = p")
  case True
  then show ?thesis using assms by (simp add: run_ok_def sets_only_def same_frame_def)
next
  case False
  then have "o_name p \<noteq> o_name q" using assms(4) by metis
  then have "same_at_name (o_name p) c c'" using assms(1) by (simp add: sets_only_def)
  then show ?thesis using assms by (simp add: run_ok_def sets_only_def same_frame_def same_native_ok)
qed

lemma run_ok_recount:
  "run_ok init p c \<Longrightarrow> 0 < k \<Longrightarrow> run_ok init p (c\<lparr>suspend_count := k\<rparr>)"
  by (auto simp: run_ok_def native_ok_def settled_def is_set_def get_value_def captured_def at_rest_def split: option.splits if_splits)

lemma suspend_types_nonneg: "t \<in> set suspend_types \<Longrightarrow> 0 \<le> t"
  by (auto simp: suspend_types_def LOADED_def NATIVE_VIEW_def UI_SETUP_def)

lemma run_ok_suspend:
  assumes "run_ok init p c" "t \<in> set suspend_types"
  shows "run_ok init p (suspendNativeUpdates t c)"
proof -
  have "0 \<le> suspend_count c OR t" "suspend_count c OR t = 0 \<longrightarrow> t = 0"
    using assms suspend_types_nonneg [OF assms(2)] by (auto simp: run_ok_def or_eq_0_iff)
  moreover have "0 \<le> suspend_count c" using assms(1) by (simp add: run_ok_def)
  ultimately have "0 < (if t \<noteq> 0 then suspend_count c OR t else suspend_count c + 1)"
    using order_le_less [of 0 "suspend_count c OR t"] by auto
  then show ?thesis using assms(1) unfolding suspendNativeUpdates_def by (intro run_ok_recount)
qed

lemma run_ok_due:
  "run_ok init p c \<Longrightarrow> case suspended_updates c of None \<Rightarrow> untouched init p c | Some ns \<Rightarrow> due init p ns c"
  by (auto simp: run_ok_def native_ok_def untouched_def due_def split: option.split)

lemma keep_pending:
  "cell_values (applyPendingNativeSetters props ns c) = cell_values c \<and>
   suspend_count (applyPendingNativeSetters props ns c) = suspend_count c"
  by (induction props ns c rule: applyPendingNativeSetters.induct) (simp_all add: set_native_def keep_default_def Let_def split: option.split)

lemma keep_all:
  "cell_values (applyAllNativeSetters props nvs c) = cell_values c \<and>
   suspend_count (applyAllNativeSetters props nvs c) = suspend_count c"
  by (induction props nvs c rule: applyAllNativeSetters.induct) (simp_all add: set_native_def keep_default_def split: option.split)

lemma run_ok_init:
  assumes "well_named props" "props (o_name p) = Some p" "well_behaved p" "run_ok init p c"
  shows "run_ok init p (initNativeView props (c\<lparr>suspend_count := 0\<rparr>))"
proof -
  let ?c = "c\<lparr>suspend_count := 0\<rparr>"
  have "case suspended_updates ?c of None \<Rightarrow> untouched init p ?c | Some ns \<Rightarrow> due init p ns ?c"
    using run_ok_due [OF assms(4)]
    by (auto simp: untouched_def due_def settled_def is_set_def get_value_def captured_def at_rest_def split: option.splits)
  then have "native_ok init p (initNativeView props ?c)"
    using assms by (intro init_native_ok) (auto simp: run_ok_def)
  then show ?thesis using assms(4) by (auto simp: run_ok_def initNativeView_def keep_pending keep_all split: option.split)
qed

lemma run_ok_resume:
  assumes "well_named props" "props (o_name p) = Some p" "well_behaved p" "run_ok init p c" "t \<in> set suspend_types"
  shows "run_ok init p (snd (resumeNativeUpdates props t c))"
proof -
  let ?k = "if t \<noteq> 0 then suspend_count c AND NOT t else suspend_count c - 1"
  have "0 \<le> ?k" if "\<not> (t = 0 \<and> suspend_count c AND INCREMENTAL_MASK = 0)"
  proof -
    have "suspend_count c \<noteq> 0" if "t = 0" using that \<open>\<not> _\<close> by auto
    then show ?thesis using assms(4) by (auto simp: run_ok_def)
  qed
  then have "0 \<le> ?k" if "\<not> (t = 0 \<and> suspend_count c AND INCREMENTAL_MASK = 0)" using that by blast
  moreover have "run_ok init p (initNativeView props (c\<lparr>suspend_count := 0\<rparr>))" using assms by (intro run_ok_init)
  moreover have "run_ok init p (c\<lparr>suspend_count := k\<rparr>)" if "0 \<le> k" "k \<noteq> 0" for k
    using that assms(4) by (intro run_ok_recount) auto
  ultimately show ?thesis using assms(4) unfolding resumeNativeUpdates_def Let_def by (auto simp del: and_nonnegative_int_iff)
qed

lemma allowed_unset:
  "props n = Some q \<Longrightarrow> allowed props c (SetValue n b) \<Longrightarrow> b = Unset \<Longrightarrow> may_reset q c"
  "props n = Some q \<Longrightarrow> allowed props c (SetCoercible n b) \<Longrightarrow> b = Unset \<Longrightarrow> may_reset q c"
  "props n = Some q \<Longrightarrow> allowed props c (SetLocal n w) \<Longrightarrow> css_reset w \<Longrightarrow> may_reset q c"
  "props n = Some q \<Longrightarrow> allowed props c (SetCss n w) \<Longrightarrow> css_reset w \<Longrightarrow> may_reset q c"
  by (simp_all add: allowed_def)

lemma run_ok_step:
  assumes "well_named props" "props (o_name p) = Some p" "well_behaved p" "run_ok init p c" "allowed props c e"
  shows "run_ok init p (prop_step props co c e)"
proof -
  have ok: "native_ok init p c" using assms(4) by (simp add: run_ok_def)
  have eq: "q = p" if "props n = Some q" "o_name q = o_name p" for n q
    using that assms(1,2) unfolding well_named_def by (metis option.inject)
  have set_ok: "run_ok init p c'" if "props n = Some q" "sets_only q c c'" "well_behaved q \<Longrightarrow> native_ok init q c \<Longrightarrow> native_ok init q c'" for n q c'
    using that assms(3,4) ok eq by (intro run_ok_set [of q c c' init p]) auto
  show ?thesis
  proof (cases e)
    case (SetValue n b)
    then show ?thesis using assms(4,5)
      by (auto simp: allowed_unset split: option.split intro!: set_ok property_set_only property_set_ok)
  next
    case (SetCoercible n b)
    then show ?thesis using assms(4,5)
      by (auto simp: allowed_unset split: option.split intro!: set_ok coercible_set_only coercible_set_ok)
  next
    case (SetLocal n b)
    then show ?thesis using assms(4,5)
      by (auto simp: allowed_unset split: option.split intro!: set_ok css_set_only(1) css_set_ok(1))
  next
    case (SetCss n b)
    then show ?thesis using assms(4,5)
      by (auto simp: allowed_unset split: option.split intro!: set_ok css_set_only(2) css_set_ok(2))
  qed (use assms in \<open>auto simp: allowed_def intro: run_ok_suspend run_ok_resume\<close>)
qed

lemma run_ok_run:
  assumes "well_named props" "props (o_name p) = Some p" "well_behaved p"
  shows "run_ok init p c \<Longrightarrow> allowed_run props co c es \<Longrightarrow> run_ok init p (foldl (prop_step props co) c es)"
  by (induction es arbitrary: c) (auto intro: run_ok_step [OF assms])

lemma run_ok_fresh: "fresh_view c \<Longrightarrow> run_ok (native_view c) p c"
  by (simp add: run_ok_def fresh_view_def native_ok_def at_rest_def LOADED_def NATIVE_VIEW_def UI_SETUP_def)

text \<open>C26: Whatever is set and unset, suspended and resumed on a new view, when updates are not suspended the native view has the
  value of each property that is set, and for each other one what it had at first or its default for it. It holds of a property
  that has a native setter, whose \<open>getDefault\<close>, if there is one, gives the value the native view has, and whose default
  is not different from itself, among properties that have the names they are found under. \<open>allowed_run\<close> leaves out
  that a value that was first set while updates are suspended is unset before they are resumed, and other suspensions than
  those the code uses.\<close>

theorem native_view_in_sync:
  assumes "well_named props" "props n = Some p" "well_behaved p" "fresh_view c" "allowed_run props co c es"
    and "suspend_count (foldl (prop_step props co) c es) = 0"
  shows "let c' = foldl (prop_step props co) c es in
    if is_set p c' then native_view c' n = Some (get_value p c')
    else native_view c' n \<in> {native_view c n, Some (base (native_view c) p)}"
proof -
  have n: "n = o_name p" using assms by (simp add: well_named_def)
  have "run_ok (native_view c) p (foldl (prop_step props co) c es)"
    using assms n by (intro run_ok_run run_ok_fresh) simp_all
  then show ?thesis using assms(6) n
    by (auto simp: run_ok_def native_ok_def settled_def at_rest_def split: option.splits if_splits)
qed


definition width_option :: "nat options" where
  "width_option = \<lparr>o_name = ''width'', o_default = Text ''auto'', o_equal = None, o_convert = None, o_affectsLayout = True,
     o_valueChanged = False, o_setNative = True,
     o_getDefault = Some (\<lambda>v. case v of None \<Rightarrow> Other 0 | Some w \<Rightarrow> w)\<rparr>"

definition new_view :: "nat cells" where
  "new_view = \<lparr>cell_values = [], native_defaults = [], cell_sources = [], coerce_values = [], native_view = \<lambda>n. Some (Other 5),
     suspend_count = (LOADED OR NATIVE_VIEW OR UI_SETUP), suspended_updates = None, view_alive = True, listens = (\<lambda>n. True),
     has_dom = True, effects = []\<rparr>"

definition only_width :: "string \<Rightarrow> nat options option" where
  "only_width n = (if n = ''width'' then Some width_option else None)"

definition width_events :: "nat prop_event list" where
  "width_events = [SetLocal ''width'' (Some (Other 1)), Resume LOADED, Resume UI_SETUP, Resume NATIVE_VIEW, Suspend 0,
     SetCss ''width'' (Some (Other 2)), SetValue ''width'' (Wrapped (Other 3)), SetLocal ''width'' None, Resume 0,
     SetCss ''width'' (Some (Text ''40''))]"

text \<open>After the first nine events the native view is back at what it was at first.\<close>

lemma width_native: "map_option (\<lambda>c. (suspend_count c, native_view c ''width'', is_set width_option c))
    (Some (foldl (prop_step only_width (\<lambda>n c v. v)) new_view (take 9 width_events))) = Some (0, Some (Other 5), False)"
  by code_simp

lemma native_view_in_sync_witness:
  "native_view (foldl (prop_step only_width (\<lambda>n c v. v)) new_view width_events) ''width'' = Some (Text ''40'')"
proof -
  have a: "well_named only_width" "only_width ''width'' = Some width_option"
    by (auto simp: well_named_def only_width_def width_option_def split: if_splits)
  have b: "well_behaved width_option" by (simp add: well_behaved_def reads_back_def changed_def width_option_def)
  have c: "fresh_view new_view" by (simp add: fresh_view_def new_view_def)
  have d: "allowed_run only_width (\<lambda>n c v. v) new_view width_events" by code_simp
  have e: "suspend_count (foldl (prop_step only_width (\<lambda>n c v. v)) new_view width_events) = 0" by code_simp
  have f: "is_set width_option (foldl (prop_step only_width (\<lambda>n c v. v)) new_view width_events)"
    "get_value width_option (foldl (prop_step only_width (\<lambda>n c v. v)) new_view width_events) = Text ''40''" by code_simp+
  show ?thesis using native_view_in_sync [OF a b c d e] f by (simp add: Let_def)
qed

section \<open>What is left out, and what goes wrong\<close>

definition shown_view :: "nat cells" where
  "shown_view = new_view\<lparr>suspend_count := 0, suspended_updates := Some []\<rparr>"

text \<open>Set and unset in one update: the native view gets \<open>undefined\<close>.\<close>

lemma set_and_unset_is_undefined:
  "native_view (foldl (prop_step only_width (\<lambda>n c v. v)) shown_view
     [Suspend 0, SetValue ''width'' (Plain (Other 1)), SetValue ''width'' Unset, Resume 0]) ''width'' = None"
  by code_simp

text \<open>A value that equals the default cannot be unset: it stays set, and the native view keeps it.\<close>

lemma default_value_is_not_unset:
  "map_option (\<lambda>c. (is_set width_option c, native_view c ''width''))
     (Some (foldl (prop_step only_width (\<lambda>n c v. v)) shown_view
        [SetValue ''width'' (Plain (Other 1)), SetValue ''width'' (Plain (Text ''auto'')), SetValue ''width'' Unset])) =
   Some (True, Some (Text ''auto''))"
  by code_simp

text \<open>What the style sheet sets while there is a local value is lost when the local value is unset.\<close>

lemma css_value_is_lost:
  "get_value width_option (foldl (prop_step only_width (\<lambda>n c v. v)) shown_view
     [SetLocal ''width'' (Some (Other 1)), SetCss ''width'' (Some (Other 2)), SetLocal ''width'' None]) = Text ''auto''"
  by code_simp

text \<open>The default of a property is read after the native view has changed it.\<close>

lemma changed_value_is_default:
  "map_of (native_defaults (nativeValueChange width_option True (Other 1)
     (set_native width_option (Some (Other 1)) shown_view))) ''width'' = Some (Other 1)"
  by code_simp

end
