(* ===== verification/Property_Inherited.thy ===== *)
theory Property_Inherited
  imports Property_Cells
begin

text \<open>
  The inherited properties (\<open>InheritedProperty\<close> and \<open>InheritedCssProperty\<close> of \<^verbatim>\<open>properties.js\<close>) over trees of views,
  with what adding a view to a parent and removing it does to them.
\<close>

section \<open>\<open>InheritedCssProperty\<close>\<close>

datatype 'v styled = Styled "'v cells" "'v styled list"

fun styled_cells :: "'v styled \<Rightarrow> 'v cells" where
  "styled_cells (Styled c ks) = c"

text \<open>The value, \<open>unsetNativeValue\<close>, and the style with its own value and source.\<close>

definition inherit_assign :: "'v options \<Rightarrow> nat \<Rightarrow> 'v cells option \<Rightarrow> 'v val option \<Rightarrow> 'v cells \<Rightarrow> 'v val \<times> bool \<times> 'v cells" where
  "inherit_assign p src parent b c =
     (let assign = (\<lambda>v c. c\<lparr>cell_values := obj_set (o_name p) v (cell_values c)\<rparr>);
          unset = (o_default p, True, (set_source p True 0 c)\<lparr>cell_values := obj_del (o_name p) (cell_values c)\<rparr>)
      in if css_reset b then
           (case parent of
              None \<Rightarrow> unset
            | Some ps \<Rightarrow> if 0 < source_of p ps then (get_value p ps, False, assign (get_value p ps) (set_source p False 1 c)) else unset)
         else (css_value p b, False, assign (css_value p b) (set_source p False src c)))"

definition inherit_blocked :: "'v options \<Rightarrow> nat \<Rightarrow> 'v val option \<Rightarrow> 'v cells \<Rightarrow> bool" where
  "inherit_blocked p src b c \<longleftrightarrow> \<not> view_alive c \<or>
     (if css_reset b then src = 2 \<and> source_of p c = 3 else src < source_of p c)"

definition inherit_effects :: "'v options \<Rightarrow> bool \<Rightarrow> 'v val \<Rightarrow> 'v val \<Rightarrow> 'v cells \<Rightarrow> 'v cells" where
  "inherit_effects p unset old v c =
     (let c1 = value_changed p old v c in
      request_layout p (notify_change p old v (if unset then native_reset p c1 else native_set p v c1)))"

fun inherit_set :: "'v options \<Rightarrow> nat \<Rightarrow> 'v cells option \<Rightarrow> 'v val option \<Rightarrow> 'v styled \<Rightarrow> 'v styled" where
  "inherit_set p src parent b (Styled c ks) =
     (if inherit_blocked p src b c then Styled c ks
      else (case inherit_assign p src parent b c of (v, unset, c1) \<Rightarrow>
        if \<not> changed p (get_value p c) v then Styled c1 ks
        else let c2 = inherit_effects p unset (get_value p c) v c1 in
          Styled c2 (map (\<lambda>k.
            if css_reset b then (if source_of p (styled_cells k) = 1 then inherit_set p 0 (Some c2) None k else k)
            else (if source_of p (styled_cells k) \<le> 1 then inherit_set p 1 (Some c2) (Some v) k else k)) ks)))"

text \<open>What is done to the style when a view gets a parent, and when it loses it.\<close>

definition propagateInheritableCssProperties :: "'v options \<Rightarrow> 'v cells \<Rightarrow> 'v styled \<Rightarrow> 'v styled" where
  "propagateInheritableCssProperties p ps t =
     (if source_of p ps \<noteq> 0 \<and> source_of p (styled_cells t) \<le> 1 then inherit_set p 1 (Some ps) (Some (get_value p ps)) t else t)"

definition clearInheritedCss :: "'v options \<Rightarrow> 'v styled \<Rightarrow> 'v styled" where
  "clearInheritedCss p t = (if source_of p (styled_cells t) = 1 then inherit_set p 1 None None t else t)"

text \<open>A view is found by its index under each of its parents.\<close>

fun at_path :: "('v cells option \<Rightarrow> 'v styled \<Rightarrow> 'v styled) \<Rightarrow> 'v cells option \<Rightarrow> nat list \<Rightarrow> 'v styled \<Rightarrow> 'v styled" where
  "at_path f parent [] t = f parent t"
| "at_path f parent (i # path) (Styled c ks) =
     (if i < length ks then Styled c (ks[i := at_path f (Some c) path (ks ! i)]) else Styled c ks)"

definition add_child :: "'v options \<Rightarrow> 'v styled \<Rightarrow> 'v cells option \<Rightarrow> 'v styled \<Rightarrow> 'v styled" where
  "add_child p k parent t = (case t of Styled c ks \<Rightarrow> Styled c (ks @ [propagateInheritableCssProperties p c k]))"

definition drop_child :: "nat \<Rightarrow> 'v cells option \<Rightarrow> 'v styled \<Rightarrow> 'v styled" where
  "drop_child i parent t = (case t of Styled c ks \<Rightarrow> Styled c (splice1 i ks))"

fun child_at :: "nat list \<Rightarrow> 'v styled \<Rightarrow> 'v styled option" where
  "child_at [] t = Some t"
| "child_at (i # path) (Styled c ks) = (if i < length ks then child_at path (ks ! i) else None)"

text \<open>The trees of views that have no parent; setting a style, adding a tree to a view and removing a child from it.\<close>

datatype 'v style_event = StyleLocal nat "nat list" "'v val option" | StyleCss nat "nat list" "'v val option"
  | AddTree nat nat "nat list" | RemoveChild nat "nat list" nat

fun style_step :: "'v options \<Rightarrow> 'v styled list \<Rightarrow> 'v style_event \<Rightarrow> 'v styled list" where
  "style_step p ts (StyleLocal r path b) = (if r < length ts then ts[r := at_path (\<lambda>parent. inherit_set p 3 parent b) None path (ts ! r)] else ts)"
| "style_step p ts (StyleCss r path b) = (if r < length ts then ts[r := at_path (\<lambda>parent. inherit_set p 2 parent b) None path (ts ! r)] else ts)"
| "style_step p ts (AddTree j r path) =
     (if j < length ts \<and> r < length ts \<and> j \<noteq> r then
        splice1 j (ts[r := at_path (add_child p (ts ! j)) None path (ts ! r)])
      else ts)"
| "style_step p ts (RemoveChild r path i) =
     (if r < length ts then
        (case child_at (path @ [i]) (ts ! r) of
           None \<Rightarrow> ts
         | Some k \<Rightarrow> ts[r := at_path (drop_child i) None path (ts ! r)] @ [clearInheritedCss p k])
      else ts)"

section \<open>\<open>InheritedProperty\<close>\<close>

text \<open>
  A source that was never set is not 0. Where the value falls back to the default, the code calls \<open>setFunc\<close>, the function
  that makes setters, on the children, which does nothing.
\<close>

definition inherits_from :: "'v options \<Rightarrow> 'v cells option \<Rightarrow> 'v cells option" where
  "inherits_from p parent = (case parent of None \<Rightarrow> None | Some ps \<Rightarrow> if map_of (cell_sources ps) (o_name p) = Some 0 then None else Some ps)"

definition unboxed :: "'v options \<Rightarrow> nat \<Rightarrow> 'v cells option \<Rightarrow> 'v boxed \<Rightarrow> 'v boxed \<times> nat" where
  "unboxed p src parent b =
     (if b = Unset then
        (case inherits_from p parent of Some ps \<Rightarrow> (Plain (get_value p ps), 1) | None \<Rightarrow> (Plain (o_default p), 0))
      else (b, src))"

fun view_set :: "'v options \<Rightarrow> nat \<Rightarrow> 'v cells option \<Rightarrow> 'v boxed \<Rightarrow> 'v styled \<Rightarrow> 'v styled" where
  "view_set p src parent b (Styled c ks) =
     (case unboxed p src parent b of (v, src') \<Rightarrow>
        let c1 = set_source p False src' (property_set p v c); new = map_of (cell_values c1) (o_name p)
        in if map_of (cell_values c) (o_name p) = new \<or> src' = 0 then Styled c1 ks
           else Styled c1 (map (\<lambda>k.
             if source_of p (styled_cells k) \<le> 1
             then view_set p 1 (Some c1) (case new of None \<Rightarrow> Plain (o_default p) | Some w \<Rightarrow> Plain w) k else k) ks))"

definition clearInherited :: "'v options \<Rightarrow> 'v styled \<Rightarrow> 'v styled" where
  "clearInherited p t = (if source_of p (styled_cells t) = 1 then view_set p 3 None Unset t else t)"

definition propagateInheritableProperties :: "'v options \<Rightarrow> 'v cells \<Rightarrow> 'v styled \<Rightarrow> 'v styled" where
  "propagateInheritableProperties p ps t =
     (if source_of p ps \<noteq> 0 \<and> source_of p (styled_cells t) \<le> 1 then view_set p 1 (Some ps) (Plain (get_value p ps)) t else t)"

section \<open>What a view should have\<close>

text \<open>The value of the nearest view, from the one at \<open>path\<close> up, that has a value of its own.\<close>

definition own_value :: "'v options \<Rightarrow> 'v cells \<Rightarrow> 'v val option" where
  "own_value p c = (if 2 \<le> source_of p c then Some (get_value p c) else None)"

fun nearest :: "'v options \<Rightarrow> 'v val \<Rightarrow> nat list \<Rightarrow> 'v styled \<Rightarrow> 'v val option" where
  "nearest p up [] (Styled c ks) = Some (case own_value p c of None \<Rightarrow> up | Some v \<Rightarrow> v)"
| "nearest p up (i # path) (Styled c ks) =
     (if i < length ks then nearest p (case own_value p c of None \<Rightarrow> up | Some v \<Rightarrow> v) path (ks ! i) else None)"

definition value_at :: "'v options \<Rightarrow> nat list \<Rightarrow> 'v styled \<Rightarrow> 'v val option" where
  "value_at p path t = map_option (\<lambda>t. get_value p (styled_cells t)) (child_at path t)"

text \<open>A value that a view may have of its own: not the default, and the same when it is set again.\<close>

definition plain_value :: "'v options \<Rightarrow> 'v val \<Rightarrow> bool" where
  "plain_value p v \<longleftrightarrow> convert p v = v \<and> v \<noteq> Text [] \<and> changed p (o_default p) v"

text \<open>The invariant: \<open>inh\<close> is the value of the parent, where it has one.\<close>

fun inherits :: "'v options \<Rightarrow> 'v val option \<Rightarrow> 'v styled \<Rightarrow> bool" where
  "inherits p inh (Styled c ks) \<longleftrightarrow> view_alive c \<and> (is_set p c \<longleftrightarrow> source_of p c \<noteq> 0) \<and>
     (source_of p c \<noteq> 0 \<longrightarrow> plain_value p (get_value p c)) \<and>
     (source_of p c < 2 \<longrightarrow> (case inh of None \<Rightarrow> source_of p c = 0 | Some v \<Rightarrow> source_of p c = 1 \<and> \<not> changed p v (get_value p c))) \<and>
     (\<forall>k \<in> set ks. inherits p (if source_of p c = 0 then None else Some (get_value p c)) k)"

end
