(* ===== verification/Property_Nearest.thy ===== *)
theory Property_Nearest
  imports Property_Inherited
begin

text \<open>Every view has the value of the nearest view that has one of its own, whatever is set, added and removed.\<close>

section \<open>Values and sources of one style\<close>

definition same_style :: "'v options \<Rightarrow> 'v cells \<Rightarrow> 'v cells \<Rightarrow> bool" where
  "same_style p c d \<longleftrightarrow> map_of (cell_values d) (o_name p) = map_of (cell_values c) (o_name p) \<and>
     map_of (cell_sources d) (o_name p) = map_of (cell_sources c) (o_name p) \<and> view_alive d = view_alive c"

lemma same_style_effects: "same_style p c (inherit_effects p u old v c)"
  by (simp add: same_style_def inherit_effects_def Let_def request_layout_def notify_change_def native_reset_def native_set_def
      value_changed_def log_effect_def note_suspended_def set_native_def keep_default_def split: option.split)

lemma same_style_reads:
  "same_style p c d \<Longrightarrow> get_value p d = get_value p c \<and> is_set p d = is_set p c \<and> source_of p d = source_of p c \<and> view_alive d = view_alive c"
  by (simp add: same_style_def get_value_def is_set_def source_of_def)

lemmas effects_read = same_style_reads [OF same_style_effects]

lemma assign_reads [simp]:
  "get_value p (c\<lparr>cell_values := obj_set (o_name p) v ms\<rparr>) = v" "is_set p (c\<lparr>cell_values := obj_set (o_name p) v ms\<rparr>)"
  "get_value p (c\<lparr>cell_values := obj_del (o_name p) ms\<rparr>) = o_default p" "\<not> is_set p (c\<lparr>cell_values := obj_del (o_name p) ms\<rparr>)"
  "source_of p (c\<lparr>cell_values := ms'\<rparr>) = source_of p c" "source_of p (set_source p False n c) = n" "source_of p (set_source p True n c) = 0"
  "view_alive (set_source p r n c) = view_alive c"
  by (simp_all add: get_value_def is_set_def source_of_def set_source_def)

section \<open>Comparing\<close>

definition compares :: "'v options \<Rightarrow> bool" where
  "compares p \<longleftrightarrow> (\<forall>v. \<not> changed p v v) \<and> (\<forall>v w. changed p v w \<longrightarrow> changed p w v) \<and>
     (\<forall>u v w. \<not> changed p u v \<longrightarrow> \<not> changed p v w \<longrightarrow> \<not> changed p u w)"

lemma compares_refl: "compares p \<Longrightarrow> \<not> changed p v v"
  and compares_sym: "compares p \<Longrightarrow> changed p v w \<Longrightarrow> changed p w v"
  and compares_trans: "compares p \<Longrightarrow> \<not> changed p u v \<Longrightarrow> \<not> changed p v w \<Longrightarrow> \<not> changed p u w"
  unfolding compares_def by blast+

definition good_inh :: "'v options \<Rightarrow> 'v val option \<Rightarrow> bool" where
  "good_inh p inh \<longleftrightarrow> (case inh of None \<Rightarrow> True | Some v \<Rightarrow> plain_value p v)"

lemma good_inh_simps [simp]: "good_inh p None" "good_inh p (Some v) = plain_value p v"
  by (simp_all add: good_inh_def)

definition passes_on :: "'v options \<Rightarrow> 'v cells \<Rightarrow> 'v val option" where
  "passes_on p c = (if source_of p c = 0 then None else Some (get_value p c))"

definition passed_down :: "'v options \<Rightarrow> 'v cells option \<Rightarrow> 'v val option" where
  "passed_down p parent = (case parent of None \<Rightarrow> None | Some c \<Rightarrow> passes_on p c)"

lemma inherits_children: "inherits p inh (Styled c ks) \<Longrightarrow> k \<in> set ks \<Longrightarrow> inherits p (passes_on p c) k"
  by (simp add: passes_on_def)

lemma inherits_good: "inherits p inh (Styled c ks) \<Longrightarrow> good_inh p (passes_on p c)"
  by (simp add: passes_on_def)

lemma inherits_same:
  assumes "compares p" "\<not> changed p v w" "inherits p (Some v) t"
  shows "inherits p (Some w) t"
proof -
  have "\<not> changed p w (get_value p c)" if "\<not> changed p v (get_value p c)" for c
    using that assms(2) compares_trans [OF assms(1)] compares_sym [OF assms(1)] by blast
  then show ?thesis using assms(3) by (cases t) (auto split: if_splits)
qed

lemma inherits_own: "2 \<le> source_of p (styled_cells t) \<Longrightarrow> inherits p inh t \<Longrightarrow> inherits p inh' t"
  by (cases t) simp

section \<open>Setting\<close>

lemma set_passes_down:
  assumes "compares p"
  shows "inherits p inh t \<Longrightarrow> good_inh p inh \<Longrightarrow> source_of p (styled_cells t) \<le> s \<Longrightarrow> 1 \<le> s \<Longrightarrow> \<not> css_reset (Some w) \<Longrightarrow>
    plain_value p (convert p w) \<Longrightarrow> inh' = Some (convert p w) \<or> 2 \<le> s \<Longrightarrow> inherits p inh' (inherit_set p s parent (Some w) t)"
proof (induction t arbitrary: inh inh' s parent w)
  case (Styled c ks)
  let ?v = "convert p w" and ?old = "get_value p c"
  let ?c1 = "(set_source p False s c)\<lparr>cell_values := obj_set (o_name p) ?v (cell_values (set_source p False s c))\<rparr>"
  have alive: "view_alive c" using Styled.prems by simp
  have plain: "changed p (o_default p) ?v" using Styled.prems by (simp add: plain_value_def)
  have assign: "inherit_assign p s parent (Some w) c = (?v, False, ?c1)" "\<not> inherit_blocked p s (Some w) c"
    using Styled.prems alive by (simp_all add: inherit_assign_def inherit_blocked_def css_value_def Let_def)
  have head: "inherits p inh' (Styled d ks')" if "same_style p ?c1 d" "\<forall>k \<in> set ks'. inherits p (Some ?v) k" for d ks'
    using same_style_reads [OF that(1)] that(2) Styled.prems(4,6,7) alive compares_refl [OF assms] by auto
  show ?case
  proof (cases "changed p ?old ?v")
    case False
    have "source_of p c \<noteq> 0"
    proof
      assume "source_of p c = 0"
      then have "\<not> is_set p c" using Styled.prems(1) by (auto split: option.splits)
      then show False using False plain by (simp add: is_set_def get_value_def)
    qed
    then have "\<forall>k \<in> set ks. inherits p (Some ?v) k"
      using Styled.prems(1) False inherits_same [OF assms] by auto
    then show ?thesis using False assign Styled.prems(5) by (simp add: head same_style_def del: inherits.simps)
  next
    case True
    let ?c2 = "inherit_effects p False ?old ?v ?c1"
    have "inherits p (Some ?v) (if source_of p (styled_cells k) \<le> 1 then inherit_set p 1 (Some ?c2) (Some ?v) k else k)"
      if k: "k \<in> set ks" for k
    proof (cases "source_of p (styled_cells k) \<le> 1")
      case True
      have "inherits p (passes_on p c) k" using inherits_children [OF Styled.prems(1) k] .
      moreover have "good_inh p (passes_on p c)" using inherits_good [OF Styled.prems(1)] .
      moreover have "convert p ?v = ?v" "\<not> css_reset (Some ?v)" using Styled.prems by (simp_all add: plain_value_def css_reset_def)
      ultimately show ?thesis using True Styled.IH [OF k, of "passes_on p c" 1 ?v "Some ?v" "Some ?c2"] Styled.prems(6) by simp
    next
      case False
      then show ?thesis using inherits_children [OF Styled.prems(1) k] inherits_own [of p k] by simp
    qed
    then have "\<forall>k \<in> set (map (\<lambda>k. if source_of p (styled_cells k) \<le> 1 then inherit_set p 1 (Some ?c2) (Some ?v) k else k) ks).
        inherits p (Some ?v) k" by (simp only: list.set_map ball_simps) blast
    then have "inherits p inh'
        (Styled ?c2 (map (\<lambda>k. if source_of p (styled_cells k) \<le> 1 then inherit_set p 1 (Some ?c2) (Some ?v) k else k) ks))"
      by (rule head [OF same_style_effects])
    then show ?thesis using True assign Styled.prems(5) by (simp add: Let_def del: inherits.simps One_nat_def)
  qed
qed

section \<open>Unsetting\<close>

lemma unset_passes_down:
  assumes "compares p"
  shows "inherits p inh t \<Longrightarrow> good_inh p inh \<Longrightarrow> source_of p (styled_cells t) \<noteq> 0 \<Longrightarrow> css_reset b \<Longrightarrow>
    \<not> inherit_blocked p s b (styled_cells t) \<Longrightarrow> good_inh p (passed_down p parent) \<Longrightarrow>
    inherits p (passed_down p parent) (inherit_set p s parent b t)"
proof (induction t arbitrary: inh s parent b)
  case (Styled c ks)
  let ?old = "get_value p c"
  have old: "plain_value p ?old" using Styled.prems(1,3) by simp
  have alive: "view_alive c" using Styled.prems by simp
  have kids: "inherits p (Some ?old) k" if "k \<in> set ks" for k
    using inherits_children [OF Styled.prems(1) that] Styled.prems(3) by (simp add: passes_on_def)
  obtain v u c1 where assign: "inherit_assign p s parent b c = (v, u, c1)" by (cases "inherit_assign p s parent b c") auto
  have node: "get_value p c1 = v" "passes_on p c1 = passed_down p parent" "good_inh p (passes_on p c1)"
    "inherits p (passed_down p parent) (Styled d ks')" if "same_style p c1 d" "\<forall>k \<in> set ks'. inherits p (passes_on p c1) k" for d ks'
    using assign Styled.prems(4,6) alive that same_style_reads [OF that(1)] compares_refl [OF assms]
    by (auto simp: inherit_assign_def Let_def passed_down_def passes_on_def split: option.splits if_splits)
  have down: "inherits p (passes_on p c1) (if source_of p (styled_cells k) = 1 then inherit_set p 0 (Some d) None k else k)"
    if k: "k \<in> set ks" and d: "same_style p c1 d" for k d
  proof (cases "source_of p (styled_cells k) = 1")
    case True
    have "passed_down p (Some d) = passes_on p c1" using same_style_reads [OF d] by (simp add: passed_down_def passes_on_def)
    moreover have "\<not> inherit_blocked p 0 None (styled_cells k)" using kids [OF k] by (cases k) (simp add: inherit_blocked_def css_reset_def)
    ultimately show ?thesis using True Styled.IH [OF k kids [OF k], of None 0 "Some d"] old node(3) [OF d, of "[]"]
      by (simp add: css_reset_def)
  next
    case False
    then have "2 \<le> source_of p (styled_cells k)" using kids [OF k] by (cases k) (auto split: if_splits)
    then show ?thesis using inherits_own [of p k "Some ?old"] kids [OF k] False by simp
  qed
  show ?case
  proof (cases "changed p ?old v")
    case True
    let ?d = "inherit_effects p u ?old v c1"
    have "\<forall>k \<in> set (map (\<lambda>k. if source_of p (styled_cells k) = 1 then inherit_set p 0 (Some ?d) None k else k) ks).
        inherits p (passes_on p c1) k"
      using down [OF _ same_style_effects] by (simp only: list.set_map ball_simps) blast
    then have "inherits p (passed_down p parent)
        (Styled ?d (map (\<lambda>k. if source_of p (styled_cells k) = 1 then inherit_set p 0 (Some ?d) None k else k) ks))"
      by (rule node(4) [OF same_style_effects])
    then show ?thesis using True assign Styled.prems(4,5) by (simp add: Let_def del: inherits.simps One_nat_def)
  next
    case False
    have "passes_on p c1 \<noteq> None"
    proof
      assume "passes_on p c1 = None"
      then have "v = o_default p"
        using assign Styled.prems(4) by (auto simp: inherit_assign_def Let_def passes_on_def split: option.splits if_splits)
      then show False using False old compares_sym [OF assms] by (auto simp: plain_value_def)
    qed
    then have "passes_on p c1 = Some v" using node(1) [of c1 "[]"] by (auto simp: passes_on_def same_style_def split: if_splits)
    then have "inherits p (passes_on p c1) k" if "k \<in> set ks" for k
      using inherits_same [OF assms False kids [OF that]] by simp
    then show ?thesis using False assign Styled.prems(5) by (auto intro!: node(4) simp: same_style_def simp del: inherits.simps)
  qed
qed


section \<open>Trees\<close>

definition plain_setting :: "'v options \<Rightarrow> 'v val option \<Rightarrow> bool" where
  "plain_setting p b \<longleftrightarrow> css_reset b \<or> plain_value p (css_value p b)"

text \<open>What an operation on a view under \<open>parent\<close> has to keep.\<close>

definition keeps_inherited :: "'v options \<Rightarrow> ('v cells option \<Rightarrow> 'v styled \<Rightarrow> 'v styled) \<Rightarrow> bool" where
  "keeps_inherited p f \<longleftrightarrow> (\<forall>parent t. inherits p (passed_down p parent) t \<longrightarrow> good_inh p (passed_down p parent) \<longrightarrow>
     inherits p (passed_down p parent) (f parent t))"

lemma unset_nothing:
  assumes "compares p" "inherits p (passed_down p parent) t" "source_of p (styled_cells t) = 0" "css_reset b"
  shows "inherits p (passed_down p parent) (inherit_set p s parent b t)"
proof (cases t)
  case (Styled c ks)
  then have c: "source_of p c = 0" "\<not> is_set p c" "passed_down p parent = None" using assms(2,3) by (auto split: option.splits)
  then have "inherit_assign p s parent b c = (o_default p, True, (set_source p True 0 c)\<lparr>cell_values := obj_del (o_name p) (cell_values c)\<rparr>)"
    using assms(4) by (auto simp: inherit_assign_def Let_def passed_down_def passes_on_def split: option.splits if_splits)
  moreover have "\<not> changed p (get_value p c) (o_default p)"
    using c(2) compares_refl [OF assms(1)] by (simp add: is_set_def get_value_def)
  ultimately show ?thesis using assms(2) Styled c by (simp add: Let_def)
qed

lemma set_keeps: "compares p \<Longrightarrow> 2 \<le> s \<Longrightarrow> plain_setting p b \<Longrightarrow> keeps_inherited p (\<lambda>parent. inherit_set p s parent b)"
  unfolding keeps_inherited_def
proof (intro allI impI)
  fix parent t
  assume p: "compares p" "2 \<le> s" "plain_setting p b" and t: "inherits p (passed_down p parent) t" "good_inh p (passed_down p parent)"
  show "inherits p (passed_down p parent) (inherit_set p s parent b t)"
  proof (cases "inherit_blocked p s b (styled_cells t)")
    case True
    then show ?thesis using t(1) by (cases t) simp
  next
    case False
    show ?thesis
    proof (cases "css_reset b")
      case True
      then show ?thesis using False p t unset_passes_down [OF p(1) t(1,2), of b s parent] unset_nothing [OF p(1) t(1), of b s] by blast
    next
      case set: False
      then obtain w where w: "b = Some w" by (auto simp: css_reset_def)
      have "source_of p (styled_cells t) \<le> s" using False set by (auto simp: inherit_blocked_def)
      then show ?thesis using p t set w
        by (intro set_passes_down [OF p(1) t(1,2), of s w, folded w]) (auto simp: plain_setting_def css_value_def w)
    qed
  qed
qed

lemma inherits_update: "inherits p inh (Styled c ks) \<Longrightarrow> inherits p (passes_on p c) k \<Longrightarrow> inherits p inh (Styled c (ks[i := k]))"
  by (auto simp: passes_on_def dest: set_update_subset_insert [THEN subsetD] split: if_splits)

lemma at_path_keeps:
  "keeps_inherited p f \<Longrightarrow> inherits p (passed_down p parent) t \<Longrightarrow> good_inh p (passed_down p parent) \<Longrightarrow>
    inherits p (passed_down p parent) (at_path f parent path t)"
proof (induction f parent path t rule: at_path.induct)
  case (1 f parent t)
  then show ?case by (simp add: keeps_inherited_def)
next
  case (2 f parent i path c ks)
  have down: "passed_down p (Some c) = passes_on p c" by (simp add: passed_down_def)
  show ?case
  proof (cases "i < length ks")
    case True
    then have "inherits p (passes_on p c) (ks ! i)" using inherits_children [OF 2(3)] by simp
    then have "inherits p (passes_on p c) (at_path f (Some c) path (ks ! i))"
      using 2(1) [OF True 2(2)] inherits_good [OF 2(3)] by (simp add: down)
    then show ?thesis using True inherits_update [OF 2(3)] by (simp del: inherits.simps)
  qed (use 2(3) in simp)
qed


section \<open>Adding and removing\<close>

lemma add_keeps: "compares p \<Longrightarrow> inherits p None k \<Longrightarrow> keeps_inherited p (add_child p k)"
  unfolding keeps_inherited_def
proof (intro allI impI)
  fix parent t
  assume p: "compares p" and k: "inherits p None k" and t: "inherits p (passed_down p parent) t"
  obtain c ks where tree: "t = Styled c ks" by (cases t)
  have plain: "plain_value p (get_value p c)" if "source_of p c \<noteq> 0" using t that tree by simp
  have "inherits p (passes_on p c) (propagateInheritableCssProperties p c k)"
  proof (cases "source_of p c \<noteq> 0 \<and> source_of p (styled_cells k) \<le> 1")
    case True
    then have "convert p (get_value p c) = get_value p c" "\<not> css_reset (Some (get_value p c))"
      using plain by (simp_all add: plain_value_def css_reset_def)
    then show ?thesis using True plain k
      by (auto simp: propagateInheritableCssProperties_def passes_on_def simp del: inherits.simps intro!: set_passes_down [OF p k])
  next
    case False
    then show ?thesis using k inherits_own [of p k None]
      by (auto simp: propagateInheritableCssProperties_def passes_on_def simp del: inherits.simps)
  qed
  then show "inherits p (passed_down p parent) (add_child p k parent t)"
    using t tree by (auto simp: add_child_def passes_on_def)
qed

lemma splice1_subset: "set (splice1 i ks) \<subseteq> set ks"
  using set_take_subset [of i ks] set_drop_subset [of "Suc i" ks] by (auto simp: splice1_def)

lemma drop_keeps: "keeps_inherited p (drop_child i)"
  by (auto simp: keeps_inherited_def drop_child_def split: styled.split dest: splice1_subset [THEN subsetD])

lemma clear_ok:
  assumes "compares p" "inherits p inh k" "good_inh p inh"
  shows "inherits p None (clearInheritedCss p k)"
proof (cases "source_of p (styled_cells k) = 1")
  case True
  moreover have "\<not> inherit_blocked p 1 None (styled_cells k)" using assms(2) by (cases k) (simp add: inherit_blocked_def css_reset_def)
  ultimately show ?thesis using unset_passes_down [OF assms, of None 1 None]
    by (simp add: clearInheritedCss_def passed_down_def css_reset_def)
next
  case False
  then show ?thesis using assms(2) by (cases k) (auto simp: clearInheritedCss_def split: option.splits)
qed

lemma child_inherits: "inherits p inh t \<Longrightarrow> good_inh p inh \<Longrightarrow> child_at path t = Some k \<Longrightarrow> \<exists>inh'. inherits p inh' k \<and> good_inh p inh'"
proof (induction path t arbitrary: inh rule: child_at.induct)
  case (2 i path c ks)
  then show ?case using inherits_children [OF 2(2), of "ks ! i"] inherits_good [OF 2(2)]
    by (auto simp del: inherits.simps split: if_splits)
qed auto

fun plain_event :: "'v options \<Rightarrow> 'v style_event \<Rightarrow> bool" where
  "plain_event p (StyleLocal r path b) = plain_setting p b"
| "plain_event p (StyleCss r path b) = plain_setting p b"
| "plain_event p _ = True"

definition all_inherit :: "'v options \<Rightarrow> 'v styled list \<Rightarrow> bool" where
  "all_inherit p ts \<longleftrightarrow> (\<forall>t \<in> set ts. inherits p None t)"

lemma all_inherit_update:
  "all_inherit p ts \<Longrightarrow> r < length ts \<Longrightarrow> keeps_inherited p f \<Longrightarrow> all_inherit p (ts[r := at_path f None path (ts ! r)])"
  using at_path_keeps [of p f None "ts ! r" path]
  by (auto simp: all_inherit_def passed_down_def simp del: inherits.simps dest: set_update_subset_insert [THEN subsetD])

lemma all_inherit_step: "compares p \<Longrightarrow> plain_event p e \<Longrightarrow> all_inherit p ts \<Longrightarrow> all_inherit p (style_step p ts e)"
proof (cases e)
  case (StyleLocal r path b)
  assume "compares p" "plain_event p e" "all_inherit p ts"
  then show ?thesis using StyleLocal by (auto intro!: all_inherit_update set_keeps)
next
  case (StyleCss r path b)
  assume "compares p" "plain_event p e" "all_inherit p ts"
  then show ?thesis using StyleCss by (auto intro!: all_inherit_update set_keeps)
next
  case (AddTree j r path)
  assume p: "compares p" and all: "all_inherit p ts"
  then show ?thesis using AddTree all_inherit_update [OF all _ add_keeps [OF p], of r "ts ! j" path]
      splice1_subset [of j "ts[r := at_path (add_child p (ts ! j)) None path (ts ! r)]"]
    by (auto simp: all_inherit_def simp del: inherits.simps)
next
  case (RemoveChild r path i)
  assume p: "compares p" and all: "all_inherit p ts"
  have "inherits p None (clearInheritedCss p k)" if r: "r < length ts" and k: "child_at (path @ [i]) (ts ! r) = Some k" for k
  proof -
    have "inherits p None (ts ! r)" using r all by (simp add: all_inherit_def)
    then obtain inh where "inherits p inh k" "good_inh p inh" using child_inherits [OF _ _ k] good_inh_simps(1) by blast
    then show ?thesis by (rule clear_ok [OF p])
  qed
  then show ?thesis using RemoveChild all all_inherit_update [OF all _ drop_keeps]
    by (auto simp: all_inherit_def simp del: inherits.simps split: option.split)
qed

lemma up_own:
  assumes "compares p" "inherits p inh (Styled c ks)" "case inh of None \<Rightarrow> up = o_default p | Some v \<Rightarrow> \<not> changed p up v"
  shows "case passes_on p c of None \<Rightarrow> (case own_value p c of None \<Rightarrow> up | Some v \<Rightarrow> v) = o_default p
    | Some v \<Rightarrow> \<not> changed p (case own_value p c of None \<Rightarrow> up | Some v \<Rightarrow> v) v"
proof (cases "source_of p c < 2")
  case True
  then have own: "own_value p c = None" by (simp add: own_value_def)
  show ?thesis
  proof (cases inh)
    case None
    then show ?thesis using True assms(2,3) own by (simp add: passes_on_def)
  next
    case (Some v)
    then have "source_of p c = 1" "\<not> changed p up v" "\<not> changed p v (get_value p c)" using True assms(2,3) by simp_all
    then show ?thesis using own compares_trans [OF assms(1)] by (simp add: passes_on_def)
  qed
qed (simp add: own_value_def passes_on_def compares_refl [OF assms(1)])

lemma passes_value: "inherits p inh (Styled c ks) \<Longrightarrow> (case passes_on p c of None \<Rightarrow> get_value p c = o_default p | Some v \<Rightarrow> get_value p c = v)"
  by (auto simp: passes_on_def is_set_def get_value_def split: option.splits)

lemma nearest_inherits:
  "compares p \<Longrightarrow> inherits p inh t \<Longrightarrow> (case inh of None \<Rightarrow> up = o_default p | Some v \<Rightarrow> \<not> changed p up v) \<Longrightarrow>
    rel_option (\<lambda>v w. \<not> changed p v w) (nearest p up path t) (value_at p path t)"
proof (induction p up path t arbitrary: inh rule: nearest.induct)
  case (1 p up c ks)
  show ?case using up_own [OF 1(1,2,3)] passes_value [OF 1(2)] compares_refl [OF 1(1)]
    by (simp add: value_at_def split: option.splits)
next
  case (2 p up i path c ks)
  show ?case
  proof (cases "i < length ks")
    case True
    then have "inherits p (passes_on p c) (ks ! i)" using inherits_children [OF 2(3)] by simp
    then show ?thesis using True 2(1) [OF True 2(2)] up_own [OF 2(2,3,4)] by (simp add: value_at_def)
  qed (simp add: value_at_def)
qed

text \<open>A view to which nothing has been done.\<close>

fun unstyled :: "'v options \<Rightarrow> 'v styled \<Rightarrow> bool" where
  "unstyled p (Styled c ks) \<longleftrightarrow> view_alive c \<and> source_of p c = 0 \<and> \<not> is_set p c \<and> (\<forall>k \<in> set ks. unstyled p k)"

lemma unstyled_inherits: "unstyled p t \<Longrightarrow> inherits p None t"
  by (induction t) auto

lemma all_inherit_run:
  "compares p \<Longrightarrow> list_all (plain_event p) es \<Longrightarrow> all_inherit p ts \<Longrightarrow> all_inherit p (foldl (style_step p) ts es)"
  by (induction es arbitrary: ts) (auto intro: all_inherit_step)

text \<open>C27: For an inherited CSS property (\<open>InheritedCssProperty\<close>): whatever is set and unset on views, and however trees of views are
  put together and taken apart, starting with trees of views without values, each view has the value of the nearest view
  above it, or itself, with a value of its own, and else the default. Values are meant up to the comparison of the
  property, which has to be an equivalence. \<open>plain_event\<close> leaves out that a view is given, as its own value, one that
  counts as the default, which hides nothing, one that is the empty text, or one that would be converted again.\<close>

theorem inherited_value_is_nearest:
  assumes "compares p" "\<forall>t \<in> set ts. unstyled p t" "list_all (plain_event p) es" "t \<in> set (foldl (style_step p) ts es)"
  shows "rel_option (\<lambda>v w. \<not> changed p v w) (nearest p (o_default p) path t) (value_at p path t)"
proof -
  have "all_inherit p ts" using assms(2) by (simp add: all_inherit_def unstyled_inherits)
  then have "inherits p None t" using all_inherit_run [OF assms(1,3)] assms(4) by (auto simp: all_inherit_def)
  then show ?thesis using nearest_inherits [OF assms(1)] by simp
qed

section \<open>Examples, and what goes wrong\<close>

definition colour :: "nat options" where
  "colour = \<lparr>o_name = ''color'', o_default = Other 0, o_equal = None, o_convert = None, o_affectsLayout = False,
     o_valueChanged = False, o_setNative = True, o_getDefault = None\<rparr>"

definition fresh :: "nat cells" where
  "fresh = \<lparr>cell_values = [], native_defaults = [], cell_sources = [], coerce_values = [], native_view = \<lambda>n. None,
     suspend_count = 0, suspended_updates = Some [], view_alive = True, listens = (\<lambda>n. False), has_dom = False, effects = []\<rparr>"

definition page :: "nat styled" where
  "page = Styled fresh [Styled fresh [Styled fresh []], Styled fresh []]"

definition page_events :: "nat style_event list" where
  "page_events = [StyleLocal 0 [] (Some (Other 1)), StyleCss 0 [0] (Some (Other 2)), AddTree 1 0 [0], StyleCss 0 [0] None,
     StyleCss 0 [1] (Some (Other 3)), RemoveChild 0 [0] 0]"

lemma inherited_value_is_nearest_witness:
  "value_at colour [0, 0] (foldl (style_step colour) [page, Styled fresh []] page_events ! 0) = Some (Other 1)"
proof -
  have a: "compares colour" by (auto simp: compares_def changed_def colour_def)
  have b: "\<forall>t \<in> set [page, Styled fresh []]. unstyled colour t" by (simp add: page_def fresh_def source_of_def is_set_def)
  have c: "list_all (plain_event colour) page_events" by code_simp
  let ?ts = "foldl (style_step colour) [page, Styled fresh []] page_events"
  have "length ?ts = 2" by code_simp
  then have d: "?ts ! 0 \<in> set ?ts" by simp
  have "nearest colour (o_default colour) [0, 0] (?ts ! 0) = Some (Other 1)" by code_simp
  then show ?thesis using inherited_value_is_nearest [OF a b c d, of "[0, 0]"]
    by (auto simp: changed_def colour_def option_rel_Some1)
qed

text \<open>A view that is given the default as its own value does not pass it on; when it then falls back to what it
  inherits, the views below it keep the default.\<close>

lemma default_hides_inherited:
  "map (\<lambda>path. value_at colour path (hd (foldl (style_step colour) [page]
     [StyleLocal 0 [0] (Some (Other 0)), StyleLocal 0 [] (Some (Other 1)), StyleLocal 0 [0] None]))) [[], [0], [0, 0]] =
   [Some (Other 1), Some (Other 1), Some (Other 0)]"
  by code_simp


text \<open>A view that loses its parent loses the value it inherited; the views below it keep it.\<close>

lemma removed_tree_keeps_value:
  "(case view_set colour 3 None (Plain (Other 1)) page of Styled c (k # ks) \<Rightarrow>
      map (\<lambda>path. value_at colour path (clearInherited colour k)) [[], [0]]) = [Some (Other 0), Some (Other 1)]"
  by code_simp

end
