(* ===== verification/Property_Animation.thy ===== *)
theory Property_Animation
  imports Property_Native
begin

text \<open>
  \<open>CssAnimationProperty\<close> of \<^verbatim>\<open>properties.js\<close>: a property of a style that has a value of the style sheet, one of its own,
  and one of the animation that is running. The setter of its default is not modelled.
\<close>

section \<open>Setters\<close>

datatype anim_slot = Css_Slot | Style_Slot | Keyframe_Slot

definition propertySource :: "anim_slot \<Rightarrow> nat" where
  "propertySource sl = (case sl of Css_Slot \<Rightarrow> 2 | Style_Slot \<Rightarrow> 3 | Keyframe_Slot \<Rightarrow> 4)"

text \<open>\<open>None\<close> is \<open>unsetValue\<close>; what is deleted is read from the prototype.\<close>

record 'v anim = "'v cells" +
  slots :: "anim_slot \<Rightarrow> 'v val option"
  computed_value :: "'v val"
  computed_source :: nat

definition set_slot :: "anim_slot \<Rightarrow> 'v val option \<Rightarrow> 'v anim \<Rightarrow> 'v anim" where
  "set_slot sl v a = a\<lparr>slots := (slots a)(sl := v)\<rparr>"

definition set_computed :: "nat \<Rightarrow> 'v val \<Rightarrow> 'v anim \<Rightarrow> 'v anim" where
  "set_computed n v a = a\<lparr>computed_source := n, computed_value := v\<rparr>"

definition fall_back :: "'v options \<Rightarrow> 'v anim \<Rightarrow> 'v anim" where
  "fall_back p a =
     (case slots a Style_Slot of
        Some v \<Rightarrow> set_computed 3 v a
      | None \<Rightarrow> (case slots a Css_Slot of Some v \<Rightarrow> set_computed 2 v a | None \<Rightarrow> set_computed 0 (o_default p) a))"

definition assign_slot :: "'v options \<Rightarrow> anim_slot \<Rightarrow> 'v val option \<Rightarrow> 'v anim \<Rightarrow> 'v anim" where
  "assign_slot p sl b a =
     (if css_reset b then
        (let a1 = set_slot sl None a in if computed_source a1 = propertySource sl then fall_back p a1 else a1)
      else
        (let v = css_value p b; a1 = set_slot sl (Some v) a
         in if computed_source a1 \<le> propertySource sl then set_computed (propertySource sl) v a1 else a1))"

definition anim_native :: "'v options \<Rightarrow> bool \<Rightarrow> bool \<Rightarrow> 'v anim \<Rightarrow> 'v anim" where
  "anim_native p wasSet computedValueChanged a =
     (let isSet = (computed_source a \<noteq> 0) in
      if \<not> (o_setNative p \<and> (computedValueChanged \<or> isSet \<noteq> wasSet)) then a
      else if suspend_count a \<noteq> 0 then note_suspended p a
      else if isSet then set_native p (Some (computed_value a)) (if wasSet then a else keep_default p a)
      else if wasSet then
        (case map_of (native_defaults a) (o_name p) of Some d \<Rightarrow> set_native p (Some d) a | None \<Rightarrow> set_native p (Some (o_default p)) a)
      else a)"

definition anim_set :: "'v options \<Rightarrow> anim_slot \<Rightarrow> 'v val option \<Rightarrow> 'v anim \<Rightarrow> 'v anim" where
  "anim_set p sl b a =
     (if \<not> view_alive a then a
      else let old = computed_value a; a1 = assign_slot p sl b a; v = computed_value a1;
               differs = (old \<noteq> v \<and> changed p old v);
               a2 = anim_native p (computed_source a \<noteq> 0) differs (if differs then value_changed p old v a1 else a1)
           in if differs then notify_change p old v a2 else a2)"

definition anim_get :: "anim_slot \<Rightarrow> 'v anim \<Rightarrow> 'v val option" where
  "anim_get sl a = (if sl = Style_Slot then Some (computed_value a) else slots a sl)"

section \<open>The value that counts\<close>

definition effective :: "'v options \<Rightarrow> (anim_slot \<Rightarrow> 'v val option) \<Rightarrow> nat \<times> 'v val" where
  "effective p s = (case s Keyframe_Slot of Some v \<Rightarrow> (4, v) | None \<Rightarrow>
     (case s Style_Slot of Some v \<Rightarrow> (3, v) | None \<Rightarrow> (case s Css_Slot of Some v \<Rightarrow> (2, v) | None \<Rightarrow> (0, o_default p))))"

definition computes_effective :: "'v options \<Rightarrow> 'v anim \<Rightarrow> bool" where
  "computes_effective p a \<longleftrightarrow> effective p (slots a) = (computed_source a, computed_value a)"

lemma assign_slot_ok: "computes_effective p a \<Longrightarrow> computes_effective p (assign_slot p sl b a)"
  by (cases sl) (auto simp: computes_effective_def assign_slot_def effective_def set_slot_def set_computed_def fall_back_def
      propertySource_def Let_def split: option.splits if_splits)

lemma assign_slot_slots: "slots (assign_slot p sl b a) = (slots a)(sl := if css_reset b then None else Some (css_value p b))"
  by (auto simp: assign_slot_def set_slot_def set_computed_def fall_back_def Let_def split: option.split)

lemma assign_slot_cells [simp]:
  "native_view (assign_slot p sl b a) = native_view a" "native_defaults (assign_slot p sl b a) = native_defaults a"
  "suspend_count (assign_slot p sl b a) = suspend_count a" "view_alive (assign_slot p sl b a) = view_alive a"
  by (auto simp: assign_slot_def set_slot_def set_computed_def fall_back_def Let_def split: option.split)

definition anim_part :: "'v anim \<Rightarrow> (anim_slot \<Rightarrow> 'v val option) \<times> nat \<times> 'v val \<times> bool \<times> int" where
  "anim_part a = (slots a, computed_source a, computed_value a, view_alive a, suspend_count a)"

lemma anim_part_effects [simp]:
  "anim_part (value_changed p u v a) = anim_part a" "anim_part (notify_change p u v a) = anim_part a"
  "anim_part (anim_native p w d a) = anim_part a"
  by (auto simp: anim_part_def value_changed_def notify_change_def log_effect_def anim_native_def set_native_def keep_default_def
      note_suspended_def Let_def split: option.split)

lemma anim_set_part: "anim_part (anim_set p sl b a) = (if view_alive a then anim_part (assign_slot p sl b a) else anim_part a)"
  by (simp add: anim_set_def Let_def)

lemma computes_part: "anim_part a = anim_part a' \<Longrightarrow> computes_effective p a = computes_effective p a'"
  by (simp add: anim_part_def computes_effective_def)

lemma anim_set_ok: "computes_effective p a \<Longrightarrow> computes_effective p (anim_set p sl b a)"
  using computes_part [of "anim_set p sl b a" "if view_alive a then assign_slot p sl b a else a" p]
  by (auto simp: anim_set_part assign_slot_ok)

type_synonym 'v anim_event = "anim_slot \<times> 'v val option"

definition anim_step :: "'v options \<Rightarrow> 'v anim \<Rightarrow> 'v anim_event \<Rightarrow> 'v anim" where
  "anim_step p a e = anim_set p (fst e) (snd e) a"

definition fresh_anim :: "'v options \<Rightarrow> 'v anim \<Rightarrow> bool" where
  "fresh_anim p a \<longleftrightarrow> slots a = (\<lambda>sl. None) \<and> computed_source a = 0 \<and> computed_value a = o_default p \<and> native_defaults a = [] \<and> view_alive a"

interpretation animated: event_machine "anim_step p" "computes_effective p"
  by unfold_locales (simp add: anim_step_def anim_set_ok)

text \<open>The last value each slot was given.\<close>

definition last_set :: "'v options \<Rightarrow> 'v anim_event list \<Rightarrow> anim_slot \<Rightarrow> 'v val option" where
  "last_set p es sl = (case filter (\<lambda>e. fst e = sl) (rev es) of [] \<Rightarrow> None | e # _ \<Rightarrow> if css_reset (snd e) then None else Some (css_value p (snd e)))"

lemma run_slots: "view_alive a \<Longrightarrow> slots a = (\<lambda>sl. None) \<Longrightarrow>
    view_alive (foldl (anim_step p) a es) \<and> slots (foldl (anim_step p) a es) = last_set p es"
proof (induction es rule: rev_induct)
  case Nil
  then show ?case by (simp add: last_set_def fun_eq_iff)
next
  case (snoc e es)
  let ?a = "foldl (anim_step p) a es"
  have "anim_part (anim_step p ?a e) = anim_part (assign_slot p (fst e) (snd e) ?a)"
    using snoc.IH [OF snoc.prems] by (simp add: anim_step_def [of p ?a e] anim_set_part)
  then show ?case using snoc by (auto simp: anim_part_def assign_slot_slots last_set_def fun_eq_iff)
qed

text \<open>C28: Whatever is set and unset, by the style sheet, on the style and by animations, the value that counts is the
  last one of the highest of the three that is set, or the default.\<close>

theorem computed_value_is_highest:
  assumes "fresh_anim p a"
  shows "(computed_source (foldl (anim_step p) a es), computed_value (foldl (anim_step p) a es)) = effective p (last_set p es)"
proof -
  have "computes_effective p a" using assms by (simp add: computes_effective_def effective_def fresh_anim_def)
  then have "computes_effective p (foldl (anim_step p) a es)" by (rule animated.run_inv)
  then show ?thesis using run_slots [of a p es] assms by (simp add: computes_effective_def fresh_anim_def)
qed

section \<open>The native view\<close>

definition anim_synced :: "(string \<Rightarrow> 'v val option) \<Rightarrow> 'v options \<Rightarrow> 'v anim \<Rightarrow> bool" where
  "anim_synced init p a \<longleftrightarrow> suspend_count a = 0 \<and> view_alive a \<and> computes_effective p a \<and>
     (\<forall>d. map_of (native_defaults a) (o_name p) = Some d \<longrightarrow> d = base init p) \<and>
     (if computed_source a = 0 then at_rest init p a
      else map_of (native_defaults a) (o_name p) \<noteq> None \<and> native_view a (o_name p) = Some (computed_value a))"

lemma synced_effects [simp]:
  "anim_synced init p (value_changed q u v a) = anim_synced init p a" "anim_synced init p (notify_change q u v a) = anim_synced init p a"
  by (simp_all add: anim_synced_def value_changed_def notify_change_def log_effect_def at_rest_def computes_effective_def)

lemma assign_source_value:
  "computed_source a' = 0 \<Longrightarrow> computes_effective p a' \<Longrightarrow> computed_value a' = o_default p"
  by (auto simp: computes_effective_def effective_def split: option.splits)

lemma anim_set_synced:
  assumes p: "o_setNative p" "reads_back p" "o_equal p = None" and a: "anim_synced init p a"
  shows "anim_synced init p (anim_set p sl b a)"
proof -
  let ?a1 = "assign_slot p sl b a" and ?old = "computed_value a"
  let ?v = "computed_value ?a1"
  let ?d = "?old \<noteq> ?v"
  have alive: "view_alive a" "suspend_count a = 0" and ok: "computes_effective p ?a1"
    using a by (simp_all add: anim_synced_def assign_slot_ok)
  have rest: "(case o_getDefault p of None \<Rightarrow> o_default p | Some f \<Rightarrow> f (native_view a (o_name p))) = base init p"
    if "computed_source a = 0"
    using that a p by (auto simp: anim_synced_def at_rest_def base_def reads_back_def split: option.splits)
  have sync: "anim_synced init p (anim_native p (computed_source a \<noteq> 0) ?d ?a1)"
    using a p alive ok rest
    by (auto simp: anim_synced_def anim_native_def set_native_def keep_default_def at_rest_def computes_effective_def Let_def
        split: option.splits)
  have "anim_native p w d (value_changed p u v a') = value_changed p u v (anim_native p w d a')" for w d u v and a' :: "'a anim"
    by (auto simp: anim_native_def value_changed_def log_effect_def set_native_def keep_default_def note_suspended_def Let_def split: option.split)
  then show ?thesis using sync alive p by (cases "?old = ?v") (simp_all add: anim_set_def changed_def Let_def)
qed

text \<open>While updates are not suspended, the native view has the value that counts, and when there is none what it had
  at first or its default for it.\<close>

theorem animated_native_in_sync:
  assumes "o_setNative p" "reads_back p" "o_equal p = None" "fresh_anim p a" "suspend_count a = 0"
  shows "let a' = foldl (anim_step p) a es; n = o_name p in
    if \<forall>sl. last_set p es sl = None then native_view a' n \<in> {native_view a n, Some (base (native_view a) p)}
    else native_view a' n = Some (snd (effective p (last_set p es)))"
proof -
  have "anim_synced (native_view a) p a" using assms(4,5)
    by (simp add: anim_synced_def fresh_anim_def at_rest_def computes_effective_def effective_def)
  then have synced: "anim_synced (native_view a) p (foldl (anim_step p) a es)"
    by (induction es arbitrary: a rule: rev_induct) (simp_all add: anim_step_def anim_set_synced [OF assms(1-3)])
  have "slots (foldl (anim_step p) a es) = last_set p es" using run_slots [of a p es] assms(4) by (simp add: fresh_anim_def)
  then have e: "effective p (last_set p es) = (computed_source (foldl (anim_step p) a es), computed_value (foldl (anim_step p) a es))"
    using synced by (simp add: anim_synced_def computes_effective_def)
  then have "(\<forall>sl. last_set p es sl = None) \<longleftrightarrow> computed_source (foldl (anim_step p) a es) = 0"
    by (auto simp: effective_def split: option.splits) (metis anim_slot.exhaust)
  then show ?thesis using synced e by (auto simp: anim_synced_def at_rest_def Let_def)
qed


definition opacity_option :: "nat options" where
  "opacity_option = \<lparr>o_name = ''opacity'', o_default = Other 1, o_equal = None, o_convert = Some (\<lambda>t. Other (length t)),
     o_affectsLayout = False, o_valueChanged = False, o_setNative = True, o_getDefault = None\<rparr>"

definition still :: "nat anim" where
  "still = \<lparr>cell_values = [], native_defaults = [], cell_sources = [], coerce_values = [], native_view = \<lambda>n. Some (Other 7),
     suspend_count = 0, suspended_updates = Some [], view_alive = True, listens = (\<lambda>n. True), has_dom = False, effects = [],
     slots = (\<lambda>sl. None), computed_value = Other 1, computed_source = 0\<rparr>"

definition fading :: "nat anim_event list" where
  "fading = [(Css_Slot, Some (Text ''55555'')), (Keyframe_Slot, Some (Other 0)), (Style_Slot, Some (Other 3)), (Css_Slot, None),
     (Keyframe_Slot, None)]"

lemma still_fresh: "fresh_anim opacity_option still"
  by (simp add: fresh_anim_def still_def opacity_option_def)

lemma computed_value_is_highest_witness:
  "computed_value (foldl (anim_step opacity_option) still fading) = Other 3"
proof -
  have "effective opacity_option (last_set opacity_option fading) = (3, Other 3)" by code_simp
  then show ?thesis using computed_value_is_highest [OF still_fresh, of fading] by simp
qed

lemma animated_native_in_sync_witness:
  "native_view (foldl (anim_step opacity_option) still (fading @ [(Style_Slot, None)])) ''opacity'' \<in> {Some (Other 7), Some (Other 1)}"
proof -
  have "\<forall>sl \<in> {Css_Slot, Style_Slot, Keyframe_Slot}. last_set opacity_option (fading @ [(Style_Slot, None)]) sl = None" by code_simp
  then have "\<forall>sl. last_set opacity_option (fading @ [(Style_Slot, None)]) sl = None" by (metis anim_slot.exhaust insertCI)
  moreover have "o_setNative opacity_option" "reads_back opacity_option" "o_equal opacity_option = None" "suspend_count still = 0"
    by (simp_all add: opacity_option_def reads_back_def still_def)
  ultimately show ?thesis
    using animated_native_in_sync [OF _ _ _ still_fresh, of "fading @ [(Style_Slot, None)]"]
    by (simp add: Let_def base_def) (simp add: opacity_option_def still_def)
qed

end
