(* ===== verification/Frame_Navigation.thy ===== *)
theory Frame_Navigation
  imports NS_Prelude
begin

text \<open>
  The navigation of a frame (\<^verbatim>\<open>ui/frame/frame-common.js\<close>, \<^verbatim>\<open>ui/frame/frame.js\<close>, and \<open>viewDidAppear\<close> of
  \<^verbatim>\<open>ui/page/page.js\<close>): the back stack, the queue of navigations, and the view controllers of the
  \<open>UINavigationController\<close>, of which only the documented effect of push, set and pop on its list is used.

  Entries live in a store, because they are compared by identity and lose their page when they are removed. The
  builder makes a new page for each entry, named like the entry; the controller of a page is named like the page.
  Transitions, the action bar, the tree of views and the notification of \<open>navigatingTo\<close> and \<open>navigatingFrom\<close> are left out.
\<close>

section \<open>State\<close>

text \<open>A navigation context is its type and its entry, which \<open>goBack\<close> may leave open.\<close>

datatype nav_item = Back_To "nat option" | Forward_To nat | Replace_By nat

datatype nav_type = Nav_Back | Nav_Forward | Nav_Replace

definition navigationType :: "nav_item \<Rightarrow> nav_type" where
  "navigationType it = (case it of Back_To _ \<Rightarrow> Nav_Back | Forward_To _ \<Rightarrow> Nav_Forward | Replace_By _ \<Rightarrow> Nav_Replace)"

definition item_entry :: "nav_item \<Rightarrow> nat option" where
  "item_entry it = (case it of Back_To e \<Rightarrow> e | Forward_To e \<Rightarrow> Some e | Replace_By e \<Rightarrow> Some e)"

record backstack_entry =
  clear_history :: bool
  backstack_visible :: "bool option"
  resolved_page :: "nat option"
  entry_depth :: "int option"

datatype nav_effect = Pushed_In_Stack | Navigated_From nat bool | Navigated_To nat bool | Page_Removed nat

record frame_state =
  store :: "backstack_entry list"
  back_stack :: "nat list"
  current_entry :: "nat option"
  nav_queue :: "nav_item list"
  executing :: "nav_item option"
  frame_loaded :: bool
  controllers :: "nat list"
  controller_entry :: "nat \<Rightarrow> nat option"
  showing :: "nat option"
  nav_depth :: "int option"
  nav_log :: "nav_effect list"

definition nav_note :: "nav_effect \<Rightarrow> frame_state \<Rightarrow> frame_state" where
  "nav_note e s = s\<lparr>nav_log := nav_log s @ [e]\<rparr>"

definition page_of :: "frame_state \<Rightarrow> nat \<Rightarrow> nat option" where
  "page_of s e = resolved_page (store s ! e)"

definition upd_entry :: "nat \<Rightarrow> (backstack_entry \<Rightarrow> backstack_entry) \<Rightarrow> frame_state \<Rightarrow> frame_state" where
  "upd_entry e f s = s\<lparr>store := (store s)[e := f (store s ! e)]\<rparr>"

definition entry_visible :: "frame_state \<Rightarrow> nat option \<Rightarrow> bool" where
  "entry_visible s e = (case e of None \<Rightarrow> False | Some x \<Rightarrow> backstack_visible (store s ! x) \<noteq> Some False)"

section \<open>The back stack\<close>

definition removeEntry :: "nat \<Rightarrow> frame_state \<Rightarrow> frame_state run" where
  "removeEntry e s =
     (case page_of s e of
        None \<Rightarrow> (Some ''TypeError'', s)
      | Some p \<Rightarrow> (None, upd_entry e (\<lambda>x. x\<lparr>resolved_page := None\<rparr>) (nav_note (Page_Removed p) s)))"

fun remove_entries :: "nat list \<Rightarrow> frame_state \<Rightarrow> frame_state run" where
  "remove_entries [] s = (None, s)"
| "remove_entries (e # es) s = seq (removeEntry e s) (remove_entries es)"

definition raiseNavigatedFrom :: "bool \<Rightarrow> frame_state \<Rightarrow> frame_state" where
  "raiseNavigatedFrom back s =
     (case current_entry s of
        None \<Rightarrow> s
      | Some c \<Rightarrow> (case page_of s c of None \<Rightarrow> s | Some p \<Rightarrow> nav_note (Navigated_From p back) s))"

definition updateBackstack :: "nat \<Rightarrow> nav_type \<Rightarrow> frame_state \<Rightarrow> frame_state run" where
  "updateBackstack e t s0 =
     (let s = raiseNavigatedFrom (t = Nav_Back) s0;
          bs = back_stack s;
          r = (case t of
             Nav_Back \<Rightarrow>
               (let keep = (case index_of bs e of None \<Rightarrow> 0 | Some i \<Rightarrow> Suc i)
                in seq (remove_entries (drop keep bs) (s\<lparr>back_stack := take keep bs\<rparr>))
                     (\<lambda>s. (None, s\<lparr>back_stack := butlast (back_stack s)\<rparr>)))
           | Nav_Replace \<Rightarrow> (None, s)
           | Nav_Forward \<Rightarrow>
               if clear_history (store s ! e) then seq (remove_entries bs s) (\<lambda>s. (None, s\<lparr>back_stack := []\<rparr>))
               else if entry_visible s (current_entry s) then (None, s\<lparr>back_stack := bs @ [the (current_entry s)]\<rparr>)
               else (None, s))
      in seq r (\<lambda>s. case current_entry s of
           None \<Rightarrow> (None, s)
         | Some c \<Rightarrow> if index_of (back_stack s) c = None then removeEntry c s else (None, s)))"

definition setCurrent_base :: "nat \<Rightarrow> nav_type \<Rightarrow> frame_state \<Rightarrow> frame_state run" where
  "setCurrent_base e t s =
     (case page_of s e of
        None \<Rightarrow> (Some ''TypeError'', s)
      | Some p \<Rightarrow>
          (let s1 = s\<lparr>current_entry := Some e\<rparr>;
               s2 = (if t = Nav_Back then nav_note Pushed_In_Stack s1 else s1)
           in (None, (nav_note (Navigated_To p (t = Nav_Back)) s2)\<lparr>executing := None\<rparr>)))"

definition setCurrent :: "nat \<Rightarrow> nav_type \<Rightarrow> frame_state \<Rightarrow> frame_state run" where
  "setCurrent e t s = (if current_entry s = Some e then (None, s) else seq (updateBackstack e t s) (setCurrent_base e t))"

section \<open>Navigating\<close>

definition queue_count :: "frame_state \<Rightarrow> int \<times> bool \<Rightarrow> nav_item \<Rightarrow> int \<times> bool" where
  "queue_count s st it =
     (case it of
        Back_To e \<Rightarrow>
          (case e of
             None \<Rightarrow> (fst st - 1, False)
           | Some x \<Rightarrow> (case index_of (back_stack s) x of Some i \<Rightarrow> (int i, False) | None \<Rightarrow> (fst st - 1, False)))
      | _ \<Rightarrow>
          (let x = store s ! the (item_entry it) in
           if clear_history x then (0, False)
           else (if snd st then fst st + 1 - 1 else fst st + 1, backstack_visible x = Some False)))"

definition canGoBack :: "frame_state \<Rightarrow> bool" where
  "canGoBack s =
     (let n = fst (foldl (queue_count s) (int (length (back_stack s)), False) (nav_queue s))
      in 0 < (if nav_queue s \<noteq> [] \<and> current_entry s = None then n - 1 else n))"

text \<open>What the native controller does with its list.\<close>

definition pushViewController :: "nat \<Rightarrow> frame_state \<Rightarrow> frame_state" where
  "pushViewController p s = s\<lparr>controllers := controllers s @ [p]\<rparr>"

definition setViewControllers :: "nat list \<Rightarrow> frame_state \<Rightarrow> frame_state" where
  "setViewControllers ps s = s\<lparr>controllers := ps\<rparr>"

definition popToViewController :: "nat \<Rightarrow> frame_state \<Rightarrow> frame_state run" where
  "popToViewController p s =
     (case index_of (controllers s) p of
        None \<Rightarrow> (Some ''NSInvalidArgumentException'', s)
      | Some i \<Rightarrow> (None, s\<lparr>controllers := take (Suc i) (controllers s)\<rparr>))"

definition navigateCore :: "nat \<Rightarrow> frame_state \<Rightarrow> frame_state run" where
  "navigateCore e s =
     (case page_of s e of
        None \<Rightarrow> (Some ''TypeError'', s)
      | Some p \<Rightarrow>
          (let clear = clear_history (store s ! e);
               isReplace = (case executing s of Some it \<Rightarrow> navigationType it = Nav_Replace | None \<Rightarrow> False);
               d0 = (if clear then Some (-1) else nav_depth s);
               d = (if isReplace then d0 else map_option (\<lambda>n. n + 1) d0);
               s1 = (upd_entry e (\<lambda>x. x\<lparr>entry_depth := d\<rparr>) s)\<lparr>nav_depth := d, controller_entry := (controller_entry s)(p := Some e)\<rparr>
           in if current_entry s = None then (None, pushViewController p s1)
              else if clear then (None, setViewControllers [p] s1)
              else if \<not> entry_visible s (current_entry s) \<or> isReplace then
                (if controllers s = [] then (Some ''Wrong controllers count.'', s1)
                 else (None, setViewControllers (butlast (controllers s) @ [p]) s1))
              else (None, pushViewController p s1)))"

definition goBackCore :: "nat option \<Rightarrow> frame_state \<Rightarrow> frame_state run" where
  "goBackCore e s =
     (case e of
        None \<Rightarrow> (Some ''TypeError'', s)
      | Some x \<Rightarrow>
          (case page_of s x of
             None \<Rightarrow> (Some ''TypeError'', s)
           | Some p \<Rightarrow> popToViewController p (s\<lparr>nav_depth := entry_depth (store s ! x)\<rparr>)))"

definition performGoBack :: "nat option \<Rightarrow> frame_state \<Rightarrow> frame_state run" where
  "performGoBack e s =
     (let x = (case e of Some x \<Rightarrow> Some x | None \<Rightarrow> if back_stack s = [] then None else Some (last (back_stack s)))
      in goBackCore x (s\<lparr>nav_queue := Back_To x # tl (nav_queue s), executing := Some (Back_To x)\<rparr>))"

definition processNextNavigationEntry :: "frame_state \<Rightarrow> frame_state run" where
  "processNextNavigationEntry s =
     (if \<not> frame_loaded s \<or> executing s \<noteq> None then (None, s)
      else (case nav_queue s of
          [] \<Rightarrow> (None, s)
        | it # _ \<Rightarrow> (case it of Back_To e \<Rightarrow> performGoBack e s | _ \<Rightarrow> navigateCore (the (item_entry it)) (s\<lparr>executing := Some it\<rparr>))))"

definition enqueue :: "nav_item \<Rightarrow> frame_state \<Rightarrow> frame_state run" where
  "enqueue it s = processNextNavigationEntry (s\<lparr>nav_queue := nav_queue s @ [it]\<rparr>)"

definition new_entry :: "bool \<Rightarrow> bool option \<Rightarrow> frame_state \<Rightarrow> frame_state" where
  "new_entry clear visible s =
     s\<lparr>store := store s @ [\<lparr>clear_history = clear, backstack_visible = visible, resolved_page = Some (length (store s)), entry_depth = None\<rparr>]\<rparr>"

definition navigate :: "bool \<Rightarrow> bool option \<Rightarrow> frame_state \<Rightarrow> frame_state run" where
  "navigate clear visible s = enqueue (Forward_To (length (store s))) (new_entry clear visible (nav_note Pushed_In_Stack s))"

definition goBack :: "nat option \<Rightarrow> frame_state \<Rightarrow> frame_state run" where
  "goBack e s =
     (if \<not> canGoBack s then (None, s)
      else (case e of
          Some x \<Rightarrow> if index_of (back_stack s) x = None then (None, s) else enqueue (Back_To e) s
        | None \<Rightarrow> enqueue (Back_To e) s))"

definition replacePage :: "frame_state \<Rightarrow> frame_state run" where
  "replacePage s =
     (case current_entry s of
        None \<Rightarrow> (Some ''TypeError'', s)
      | Some c \<Rightarrow>
          (let x = store s ! c
           in enqueue (Replace_By (length (store s))) (new_entry (clear_history x) (backstack_visible x) s)))"

section \<open>What the native controller tells\<close>

definition processNavigationQueue :: "nat \<Rightarrow> frame_state \<Rightarrow> frame_state run" where
  "processNavigationQueue p s =
     (case nav_queue s of
        [] \<Rightarrow> (None, s)
      | it # rest \<Rightarrow>
          (case item_entry it of
             None \<Rightarrow> (Some ''TypeError'', s)
           | Some e \<Rightarrow> if page_of s e \<noteq> Some p then (None, s) else processNextNavigationEntry (s\<lparr>nav_queue := rest\<rparr>)))"

definition viewDidAppear :: "nat \<Rightarrow> frame_state \<Rightarrow> frame_state run" where
  "viewDidAppear p s =
     (case controller_entry s p of
        None \<Rightarrow> (Some ''TypeError'', s)
      | Some e \<Rightarrow> seq (setCurrent e (case executing s of Some it \<Rightarrow> navigationType it | None \<Rightarrow> Nav_Back) s) (processNavigationQueue p))"

datatype nav_event = Navigate bool "bool option" | Go_Back "nat option" | Replace_Page | Load | Unload | Appear | User_Back

text \<open>\<open>Appear\<close>: the controller that is on top has come to be shown. \<open>User_Back\<close>: the user has gone back, which the
  navigation bar lets him do only while the queue is empty.\<close>

definition pending :: "frame_state \<Rightarrow> bool" where
  "pending s \<longleftrightarrow> controllers s \<noteq> [] \<and> showing s \<noteq> Some (last (controllers s))"

fun nav_step :: "frame_state \<Rightarrow> nav_event \<Rightarrow> frame_state run" where
  "nav_step s (Navigate clear visible) = navigate clear visible s"
| "nav_step s (Go_Back e) = goBack e s"
| "nav_step s Replace_Page = replacePage s"
| "nav_step s Load = processNextNavigationEntry (s\<lparr>frame_loaded := True\<rparr>)"
| "nav_step s Unload = (None, s\<lparr>frame_loaded := False\<rparr>)"
| "nav_step s Appear =
     (if pending s then viewDidAppear (last (controllers s)) (s\<lparr>showing := Some (last (controllers s))\<rparr>) else (None, s))"
| "nav_step s User_Back =
     (if nav_queue s = [] \<and> executing s = None \<and> \<not> pending s \<and> 1 < length (controllers s) then
        (let cs = butlast (controllers s) in viewDidAppear (last cs) (s\<lparr>controllers := cs, showing := Some (last cs)\<rparr>))
      else (None, s))"

definition new_frame :: frame_state where
  "new_frame = \<lparr>store = [], back_stack = [], current_entry = None, nav_queue = [], executing = None, frame_loaded = False,
     controllers = [], controller_entry = (\<lambda>p. None), showing = None, nav_depth = Some (-1), nav_log = []\<rparr>"

fun nav_run :: "frame_state \<Rightarrow> nav_event list \<Rightarrow> frame_state run" where
  "nav_run s [] = (None, s)"
| "nav_run s (e # es) = seq (nav_step s e) (\<lambda>s. nav_run s es)"

end
