(* ===== verification/Frame_History.thy ===== *)
theory Frame_History
  imports Frame_Navigation
begin

text \<open>
  What the navigation of a frame should do: the navigations of the queue are applied, in order, to a history, and the
  native controller has the pages of the history. A navigation under way is applied to the native controller first.
\<close>

section \<open>The history\<close>

type_synonym history = "nat list \<times> nat option"

definition entries_of :: "history \<Rightarrow> nat list" where
  "entries_of h = fst h @ (case snd h of None \<Rightarrow> [] | Some c \<Rightarrow> [c])"

text \<open>\<open>st\<close> holds the options of the entries.\<close>

definition visible_in :: "backstack_entry list \<Rightarrow> nat option \<Rightarrow> bool" where
  "visible_in st e = (case e of None \<Rightarrow> False | Some x \<Rightarrow> backstack_visible (st ! x) \<noteq> Some False)"

definition nav_apply :: "backstack_entry list \<Rightarrow> history \<Rightarrow> nav_item \<Rightarrow> history" where
  "nav_apply st h it =
     (case it of
        Forward_To e \<Rightarrow>
          (if clear_history (st ! e) then []
           else if visible_in st (snd h) then fst h @ [the (snd h)] else fst h, Some e)
      | Replace_By e \<Rightarrow> (fst h, Some e)
      | Back_To None \<Rightarrow> (butlast (fst h), Some (last (fst h)))
      | Back_To (Some e) \<Rightarrow> (takeWhile (\<lambda>x. x \<noteq> e) (fst h), Some e))"

definition nav_applicable :: "history \<Rightarrow> nav_item \<Rightarrow> bool" where
  "nav_applicable h it = (case it of Back_To None \<Rightarrow> fst h \<noteq> [] | Back_To (Some e) \<Rightarrow> e \<in> set (fst h) | _ \<Rightarrow> True)"

fun all_applicable :: "backstack_entry list \<Rightarrow> history \<Rightarrow> nav_item list \<Rightarrow> bool" where
  "all_applicable st h [] = True"
| "all_applicable st h (it # its) = (nav_applicable h it \<and> all_applicable st (nav_apply st h it) its)"

definition history_of :: "frame_state \<Rightarrow> history" where
  "history_of s = (back_stack s, current_entry s)"

text \<open>The history after all that is queued.\<close>

definition history_after :: "frame_state \<Rightarrow> history" where
  "history_after s = foldl (nav_apply (store s)) (history_of s) (nav_queue s)"

definition new_in :: "nav_item list \<Rightarrow> nat list" where
  "new_in q = concat (map (\<lambda>it. case it of Back_To _ \<Rightarrow> [] | Forward_To e \<Rightarrow> [e] | Replace_By e \<Rightarrow> [e]) q)"

definition live :: "frame_state \<Rightarrow> nat set" where
  "live s = {e. e < length (store s) \<and> page_of s e \<noteq> None}"

section \<open>The invariant\<close>

text \<open>An entry that clears the history is the first of it.\<close>

definition clear_first :: "backstack_entry list \<Rightarrow> history \<Rightarrow> bool" where
  "clear_first st h \<longleftrightarrow> (\<forall>i < length (entries_of h). clear_history (st ! (entries_of h ! i)) \<longrightarrow> i = 0)"

definition queue_ok :: "frame_state \<Rightarrow> bool" where
  "queue_ok s \<longleftrightarrow> all_applicable (store s) (history_of s) (nav_queue s) \<and>
     (\<forall>i < length (nav_queue s). \<forall>e. nav_queue s ! i = Replace_By e \<longrightarrow> i = 0 \<and>
        (\<exists>c. current_entry s = Some c \<and> clear_history (store s ! e) = clear_history (store s ! c)))"

definition entries_ok :: "frame_state \<Rightarrow> bool" where
  "entries_ok s \<longleftrightarrow> distinct (entries_of (history_of s) @ new_in (nav_queue s)) \<and>
     live s = set (entries_of (history_of s) @ new_in (nav_queue s)) \<and>
     (\<forall>e \<in> live s. page_of s e = Some e) \<and> (current_entry s = None \<longrightarrow> back_stack s = []) \<and> clear_first (store s) (history_of s)"

text \<open>While a navigation is under way the native controller is one navigation ahead, and has yet to appear.\<close>

definition native_history :: "frame_state \<Rightarrow> history" where
  "native_history s = (case executing s of None \<Rightarrow> history_of s | Some it \<Rightarrow> nav_apply (store s) (history_of s) it)"

definition native_in_step :: "frame_state \<Rightarrow> bool" where
  "native_in_step s \<longleftrightarrow> controllers s = entries_of (native_history s) \<and> (\<forall>p \<in> set (controllers s). controller_entry s p = Some p) \<and>
     showing s = current_entry s \<and>
     (case executing s of None \<Rightarrow> frame_loaded s \<longrightarrow> nav_queue s = []
      | Some it \<Rightarrow> nav_queue s \<noteq> [] \<and> hd (nav_queue s) = it \<and> it \<noteq> Back_To None)"

definition nav_ok :: "frame_state \<Rightarrow> bool" where
  "nav_ok s \<longleftrightarrow> entries_ok s \<and> queue_ok s \<and> native_in_step s"


section \<open>Stores with the same options\<close>

definition same_options :: "nat set \<Rightarrow> backstack_entry list \<Rightarrow> backstack_entry list \<Rightarrow> bool" where
  "same_options A st st' \<longleftrightarrow>
     (\<forall>e \<in> A. clear_history (st ! e) = clear_history (st' ! e) \<and> backstack_visible (st ! e) = backstack_visible (st' ! e))"

lemma same_optionsD: "same_options A st st' \<Longrightarrow> e \<in> A \<Longrightarrow>
    clear_history (st ! e) = clear_history (st' ! e) \<and> backstack_visible (st ! e) = backstack_visible (st' ! e)"
  by (simp add: same_options_def)

lemma same_options_mono: "same_options A st st' \<Longrightarrow> B \<subseteq> A \<Longrightarrow> same_options B st st'"
  by (auto simp: same_options_def)

lemma new_in_simps [simp]: "new_in [] = []"
  "new_in (it # q) = (case it of Back_To _ \<Rightarrow> [] | Forward_To e \<Rightarrow> [e] | Replace_By e \<Rightarrow> [e]) @ new_in q"
  "new_in (q @ r) = new_in q @ new_in r"
  by (simp_all add: new_in_def)

lemma visible_cong: "same_options A st st' \<Longrightarrow> set (entries_of h) \<subseteq> A \<Longrightarrow> visible_in st (snd h) = visible_in st' (snd h)"
  by (auto simp: visible_in_def entries_of_def same_options_def split: option.splits)

lemma nav_apply_cong:
  "same_options A st st' \<Longrightarrow> set (entries_of h) \<union> set (new_in [it]) \<subseteq> A \<Longrightarrow> nav_apply st h it = nav_apply st' h it"
  using visible_cong [of A st st' h] by (auto simp: nav_apply_def dest: same_optionsD split: nav_item.split option.split)

lemma visible_current: "visible_in st c \<Longrightarrow> c \<noteq> None"
  by (auto simp: visible_in_def split: option.splits)

lemma nav_apply_entries:
  "nav_applicable h it \<Longrightarrow> set (entries_of (nav_apply st h it)) \<subseteq> set (entries_of h) \<union> set (new_in [it])"
  using last_in_set [of "fst h"] visible_current [of st "snd h"]
  by (auto simp: nav_apply_def nav_applicable_def entries_of_def dest: set_takeWhileD in_set_butlastD split: nav_item.splits option.splits if_splits)

lemma applicable_cong:
  assumes "same_options A st st'"
  shows "set (entries_of h) \<union> set (new_in q) \<subseteq> A \<Longrightarrow> all_applicable st h q = all_applicable st' h q"
proof (induction q arbitrary: h)
  case (Cons it q)
  have same: "nav_apply st h it = nav_apply st' h it" using Cons.prems by (intro nav_apply_cong [OF assms]) auto
  show ?case
  proof (cases "nav_applicable h it")
    case True
    then have "set (entries_of (nav_apply st h it)) \<union> set (new_in q) \<subseteq> A"
      using nav_apply_entries [OF True, of st] Cons.prems by auto
    then show ?thesis using Cons.IH same by simp
  qed simp
qed simp

lemma foldl_cong_options:
  assumes "same_options A st st'"
  shows "set (entries_of h) \<union> set (new_in q) \<subseteq> A \<Longrightarrow> all_applicable st h q \<Longrightarrow>
    foldl (nav_apply st) h q = foldl (nav_apply st') h q"
proof (induction q arbitrary: h)
  case (Cons it q)
  have same: "nav_apply st h it = nav_apply st' h it" using Cons.prems by (intro nav_apply_cong [OF assms]) auto
  have "set (entries_of (nav_apply st h it)) \<union> set (new_in q) \<subseteq> A"
    using nav_apply_entries [of h it st] Cons.prems by auto
  then show ?case using Cons.IH Cons.prems same by simp
qed simp

lemma clear_first_cong: "same_options A st st' \<Longrightarrow> set (entries_of h) \<subseteq> A \<Longrightarrow> clear_first st h = clear_first st' h"
  unfolding clear_first_def same_options_def by (metis nth_mem subsetD)

section \<open>Removing entries\<close>

lemma removeEntry_ok:
  "page_of s e = Some p \<Longrightarrow> removeEntry e s =
     (None, s\<lparr>store := (store s)[e := (store s ! e)\<lparr>resolved_page := None\<rparr>], nav_log := nav_log s @ [Page_Removed p]\<rparr>)"
  by (simp add: removeEntry_def upd_entry_def nav_note_def)

definition removed_from :: "nat set \<Rightarrow> frame_state \<Rightarrow> frame_state \<Rightarrow> bool" where
  "removed_from R s s' \<longleftrightarrow> back_stack s' = back_stack s \<and> current_entry s' = current_entry s \<and> nav_queue s' = nav_queue s \<and>
     executing s' = executing s \<and> frame_loaded s' = frame_loaded s \<and> controllers s' = controllers s \<and>
     controller_entry s' = controller_entry s \<and> showing s' = showing s \<and> length (store s') = length (store s) \<and>
     same_options UNIV (store s) (store s') \<and> (\<forall>e. page_of s' e = (if e \<in> R then None else page_of s e))"

lemma removed_live: "removed_from R s s' \<Longrightarrow> live s' = live s - R"
  by (auto simp: removed_from_def live_def split: if_splits)

lemma removed_refl: "removed_from {} s s"
  by (simp add: removed_from_def same_options_def)

lemma removed_note: "removed_from R (nav_note e s) s' = removed_from R s s'"
  by (simp add: removed_from_def nav_note_def page_of_def)

lemma removed_trans: "removed_from R s t \<Longrightarrow> removed_from R' t u \<Longrightarrow> removed_from (R \<union> R') s u"
  by (auto simp: removed_from_def same_options_def)

lemma removeEntry_removed:
  assumes "e \<in> live s"
  shows "\<exists>s'. removeEntry e s = (None, s') \<and> removed_from {e} s s'"
proof -
  obtain p where p: "page_of s e = Some p" "e < length (store s)" using assms by (auto simp: live_def)
  then show ?thesis
    by (auto simp: removeEntry_ok removed_from_def same_options_def page_of_def nth_list_update)
qed

lemma remove_entries_removed:
  "distinct es \<Longrightarrow> set es \<subseteq> live s \<Longrightarrow> \<exists>s'. remove_entries es s = (None, s') \<and> removed_from (set es) s s'"
proof (induction es arbitrary: s)
  case Nil
  then show ?case using removed_refl by auto
next
  case (Cons e es)
  obtain t where t: "removeEntry e s = (None, t)" "removed_from {e} s t" using removeEntry_removed [of e s] Cons.prems by auto
  then have "set es \<subseteq> live t" using Cons.prems removed_live [OF t(2)] by auto
  then obtain u where u: "remove_entries es t = (None, u)" "removed_from (set es) t u" using Cons.IH [of t] Cons.prems by auto
  then have "removed_from (set (e # es)) s u" using removed_trans [OF t(2) u(2)] by simp
  then show ?case using t(1) u(1) by auto
qed


section \<open>Changing the current entry\<close>

lemma index_of_append: "e \<notin> set ys \<Longrightarrow> index_of (ys @ e # zs) e = Some (length ys)"
  by (induction ys) auto

lemma takeWhile_split: "e \<notin> set ys \<Longrightarrow> takeWhile (\<lambda>x. x \<noteq> e) (ys @ e # zs) = ys"
  by (induction ys) auto

definition dropped :: "frame_state \<Rightarrow> nav_item \<Rightarrow> nat set" where
  "dropped s it = set (entries_of (history_of s)) - set (entries_of (nav_apply (store s) (history_of s) it))"

definition moved :: "frame_state \<Rightarrow> nav_item \<Rightarrow> frame_state \<Rightarrow> bool" where
  "moved s it s' \<longleftrightarrow> removed_from (dropped s it) (s\<lparr>back_stack := fst (nav_apply (store s) (history_of s) it)\<rparr>) s'"

definition ready :: "frame_state \<Rightarrow> bool" where
  "ready s \<longleftrightarrow> distinct (entries_of (history_of s)) \<and> set (entries_of (history_of s)) \<subseteq> live s \<and> (current_entry s = None \<longrightarrow> back_stack s = [])"

lemma entries_simps [simp]: "entries_of (bs, None) = bs" "entries_of (bs, Some c) = bs @ [c]"
  by (simp_all add: entries_of_def)

lemma raise_fields:
  "back_stack (raiseNavigatedFrom b s) = back_stack s" "current_entry (raiseNavigatedFrom b s) = current_entry s"
  "store (raiseNavigatedFrom b s) = store s" "live (raiseNavigatedFrom b s) = live s"
  "removed_from R (raiseNavigatedFrom b s) s' = removed_from R s s'"
  "removed_from R ((raiseNavigatedFrom b s)\<lparr>back_stack := bs\<rparr>) s' = removed_from R (s\<lparr>back_stack := bs\<rparr>) s'"
  by (auto simp: raiseNavigatedFrom_def nav_note_def live_def page_of_def removed_from_def split: option.split)

lemma live_back_stack [simp]: "live (s\<lparr>back_stack := bs\<rparr>) = live s"
  by (simp add: live_def page_of_def)

lemma page_back_stack [simp]: "page_of (s\<lparr>back_stack := bs\<rparr>) = page_of s"
  by (simp add: page_of_def fun_eq_iff)

lemma visible_is: "entry_visible s c = visible_in (store s) c"
  by (simp add: entry_visible_def visible_in_def)

text \<open>The last step: the current entry goes, unless it is on the back stack.\<close>

lemma drop_current_ok:
  assumes "removed_from R (s\<lparr>back_stack := bs\<rparr>) t" "current_entry s = Some c" "c \<in> live s" "c \<notin> R"
  shows "\<exists>s'. (if index_of (back_stack t) c = None then removeEntry c t else (None, t)) = (None, s') \<and>
    removed_from (if c \<in> set bs then R else insert c R) (s\<lparr>back_stack := bs\<rparr>) s'"
proof (cases "c \<in> set bs")
  case True
  then show ?thesis using assms(1) by (auto simp: js_array removed_from_def)
next
  case False
  have "c \<in> live t" using removed_live [OF assms(1)] assms(3,4) by simp
  then obtain s' where s': "removeEntry c t = (None, s')" "removed_from {c} t s'" using removeEntry_removed by blast
  have "back_stack t = bs" using assms(1) by (simp add: removed_from_def)
  then show ?thesis using False s'(1) removed_trans [OF assms(1) s'(2)] by (auto simp: js_array)
qed

lemma removed_at: "removed_from R s t \<Longrightarrow> removed_from R (s\<lparr>back_stack := bs\<rparr>) (t\<lparr>back_stack := bs\<rparr>)"
  by (simp add: removed_from_def)

lemma back_moved:
  assumes "ready s" "e \<in> set (back_stack s)"
  shows "\<exists>s'. updateBackstack e Nav_Back s = (None, s') \<and> moved s (Back_To (Some e)) s'"
proof -
  obtain ys zs where bs: "back_stack s = ys @ e # zs" "e \<notin> set ys" using split_list_first [OF assms(2)] by blast
  obtain c where c: "current_entry s = Some c" using assms by (cases "current_entry s") (auto simp: ready_def)
  let ?s = "raiseNavigatedFrom True s"
  have d: "distinct (ys @ e # zs @ [c])" "set (ys @ e # zs @ [c]) \<subseteq> live s"
    using assms(1) bs c by (auto simp: ready_def history_of_def)
  obtain t where t: "remove_entries zs (?s\<lparr>back_stack := ys @ [e]\<rparr>) = (None, t)" "removed_from (set zs) (?s\<lparr>back_stack := ys @ [e]\<rparr>) t"
    using remove_entries_removed [of zs "?s\<lparr>back_stack := ys @ [e]\<rparr>"] d by (auto simp: raise_fields)
  have t2: "removed_from (set zs) (s\<lparr>back_stack := ys\<rparr>) (t\<lparr>back_stack := ys\<rparr>)"
    using removed_at [OF t(2), of ys] by (simp add: raise_fields)
  have t_bs: "back_stack t = ys @ [e]" "current_entry t = Some c" using t(2) c by (simp_all add: removed_from_def raise_fields)
  obtain s' where s': "(if index_of ys c = None then removeEntry c (t\<lparr>back_stack := ys\<rparr>) else (None, t\<lparr>back_stack := ys\<rparr>)) = (None, s')"
    "removed_from (insert c (set zs)) (s\<lparr>back_stack := ys\<rparr>) s'"
    using drop_current_ok [OF t2 c] d by auto
  have "dropped s (Back_To (Some e)) = insert c (set zs)"
    using d(1) c by (auto simp: dropped_def history_of_def nav_apply_def bs takeWhile_split)
  then have "moved s (Back_To (Some e)) s'" using s'(2) bs by (simp add: moved_def history_of_def nav_apply_def takeWhile_split)
  moreover have "updateBackstack e Nav_Back s = (None, s')"
    using s'(1) t t_bs by (simp add: updateBackstack_def Let_def raise_fields bs index_of_append)
  ultimately show ?thesis by blast
qed

lemma removed_none: "A \<subseteq> B \<Longrightarrow> removed_from (A - B) s s' = removed_from {} s s'"
  by (simp add: Diff_eq_empty_iff [THEN iffD2])

lemma forward_moved:
  assumes "ready s" "e \<notin> set (entries_of (history_of s))"
  shows "\<exists>s'. updateBackstack e Nav_Forward s = (None, s') \<and> moved s (Forward_To e) s'"
proof -
  let ?s = "raiseNavigatedFrom False s" and ?it = "Forward_To e"
  have r: "distinct (back_stack s)" "set (back_stack s) \<subseteq> live s" using assms(1) by (auto simp: ready_def history_of_def entries_of_def)
  have "\<exists>t bs. (if clear_history (store s ! e) then seq (remove_entries (back_stack s) ?s) (\<lambda>s. (None, s\<lparr>back_stack := []\<rparr>))
      else if visible_in (store s) (current_entry s) then (None, ?s\<lparr>back_stack := back_stack s @ [the (current_entry s)]\<rparr>) else (None, ?s)) = (None, t) \<and>
      bs = fst (nav_apply (store s) (history_of s) ?it) \<and> removed_from (set (back_stack s) - set bs) (s\<lparr>back_stack := bs\<rparr>) t \<and> current_entry t = current_entry s"
  proof (cases "clear_history (store s ! e)")
    case True
    obtain t where t: "remove_entries (back_stack s) ?s = (None, t)" "removed_from (set (back_stack s)) ?s t"
      using remove_entries_removed [of "back_stack s" ?s] r by (auto simp: raise_fields)
    then show ?thesis using True removed_at [OF t(2), of "[]"]
      by (simp add: nav_apply_def raise_fields) (simp add: removed_from_def)
  next
    case False
    have "removed_from {} (s\<lparr>back_stack := bs\<rparr>) (?s\<lparr>back_stack := bs\<rparr>)" for bs
      using removed_refl [of "?s\<lparr>back_stack := bs\<rparr>"] by (simp add: raise_fields)
    moreover have "removed_from {} s ?s" using removed_refl [of ?s] by (simp add: raise_fields)
    ultimately show ?thesis using False by (auto simp: removed_none subset_insertI nav_apply_def history_of_def raise_fields)
  qed
  then obtain t bs where t: "(if clear_history (store s ! e) then seq (remove_entries (back_stack s) ?s) (\<lambda>s. (None, s\<lparr>back_stack := []\<rparr>))
      else if visible_in (store s) (current_entry s) then (None, ?s\<lparr>back_stack := back_stack s @ [the (current_entry s)]\<rparr>) else (None, ?s)) = (None, t)"
    and bs: "bs = fst (nav_apply (store s) (history_of s) ?it)" and rem: "removed_from (set (back_stack s) - set bs) (s\<lparr>back_stack := bs\<rparr>) t"
    and cur: "current_entry t = current_entry s" by blast
  have "updateBackstack e Nav_Forward s = seq (if clear_history (store s ! e) then seq (remove_entries (back_stack s) ?s) (\<lambda>s. (None, s\<lparr>back_stack := []\<rparr>))
      else if visible_in (store s) (current_entry s) then (None, ?s\<lparr>back_stack := back_stack s @ [the (current_entry s)]\<rparr>) else (None, ?s))
      (\<lambda>s. case current_entry s of None \<Rightarrow> (None, s) | Some c \<Rightarrow> if index_of (back_stack s) c = None then removeEntry c s else (None, s))"
    unfolding updateBackstack_def by (simp add: Let_def raise_fields visible_is)
  then have up: "updateBackstack e Nav_Forward s = (case current_entry s of None \<Rightarrow> (None, t)
      | Some c \<Rightarrow> if index_of (back_stack t) c = None then removeEntry c t else (None, t))"
    by (simp only: t seq_simps cur)
  show ?thesis
  proof (cases "current_entry s")
    case None
    then have "dropped s ?it = set (back_stack s) - set bs"
      using bs assms(2) by (auto simp: dropped_def history_of_def nav_apply_def visible_in_def split: if_splits)
    then show ?thesis using None up rem bs by (auto simp: moved_def)
  next
    case (Some c)
    have c: "c \<in> live s" "c \<notin> set (back_stack s) - set bs" using assms(1) Some by (auto simp: ready_def history_of_def)
    obtain s' where s': "(if index_of (back_stack t) c = None then removeEntry c t else (None, t)) = (None, s')"
      "removed_from (if c \<in> set bs then set (back_stack s) - set bs else insert c (set (back_stack s) - set bs)) (s\<lparr>back_stack := bs\<rparr>) s'"
      using drop_current_ok [OF rem Some c] by blast
    have "dropped s ?it = (if c \<in> set bs then set (back_stack s) - set bs else insert c (set (back_stack s) - set bs))"
      using bs assms Some by (auto simp: dropped_def history_of_def nav_apply_def)
    then show ?thesis using Some up s' bs by (auto simp: moved_def)
  qed
qed

lemma replace_moved:
  assumes "ready s" "e \<notin> set (entries_of (history_of s))" "current_entry s = Some c"
  shows "\<exists>s'. updateBackstack e Nav_Replace s = (None, s') \<and> moved s (Replace_By e) s'"
proof -
  let ?s = "raiseNavigatedFrom False s"
  have c: "c \<in> live s" "c \<notin> set (back_stack s)" using assms(1,3) by (auto simp: ready_def history_of_def)
  have "removed_from {} (s\<lparr>back_stack := back_stack s\<rparr>) ?s" using removed_refl [of ?s] by (simp add: raise_fields)
  from drop_current_ok [OF this assms(3) c(1)] c(2)
  obtain s' where s': "(if index_of (back_stack ?s) c = None then removeEntry c ?s else (None, ?s)) = (None, s')"
    "removed_from {c} (s\<lparr>back_stack := back_stack s\<rparr>) s'" by auto
  have "dropped s (Replace_By e) = {c}" using assms c by (auto simp: dropped_def history_of_def nav_apply_def)
  then have "moved s (Replace_By e) s'" using s'(2) by (simp add: moved_def nav_apply_def history_of_def)
  moreover have "updateBackstack e Nav_Replace s = (None, s')" using s'(1) assms(3) by (simp add: updateBackstack_def Let_def raise_fields)
  ultimately show ?thesis by blast
qed

end
