(* ===== verification/Frame_Sync.thy ===== *)
theory Frame_Sync
  imports Frame_History
begin

text \<open>The native controller follows the history, no navigation gets stuck and no page is lost.\<close>

section \<open>Entries\<close>

lemma same_UNIV:
  assumes "same_options UNIV st st'"
  shows "nav_apply st = nav_apply st'" "all_applicable st = all_applicable st'" "clear_first st = clear_first st'"
  using nav_apply_cong [OF assms] applicable_cong [OF assms] clear_first_cong [OF assms] by (auto simp: fun_eq_iff)

definition same_entries :: "frame_state \<Rightarrow> frame_state \<Rightarrow> bool" where
  "same_entries s s' \<longleftrightarrow> length (store s') = length (store s) \<and> same_options UNIV (store s) (store s') \<and>
     page_of s' = page_of s \<and> history_of s' = history_of s"

lemma same_entries_refl [simp]: "same_entries s s"
  by (simp add: same_entries_def same_options_def)

lemma same_entries_trans: "same_entries s t \<Longrightarrow> same_entries t u \<Longrightarrow> same_entries s u"
  by (simp add: same_entries_def same_options_def)

lemma same_entries_ok:
  assumes "same_entries s s'" "nav_queue s' = nav_queue s"
  shows "entries_ok s' = entries_ok s" "queue_ok s' = queue_ok s"
proof -
  have h: "back_stack s' = back_stack s" "current_entry s' = current_entry s" "live s' = live s"
    using assms by (auto simp: same_entries_def history_of_def live_def)
  show "entries_ok s' = entries_ok s" using assms h same_UNIV(3) [of "store s" "store s'"]
    by (simp add: entries_ok_def same_entries_def)
  show "queue_ok s' = queue_ok s" using assms h same_UNIV(2) [of "store s" "store s'"]
    by (simp add: queue_ok_def same_entries_def same_options_def)
qed

lemma entries_ok_fields:
  "store t = store s \<Longrightarrow> history_of t = history_of s \<Longrightarrow> new_in (nav_queue t) = new_in (nav_queue s) \<Longrightarrow> entries_ok t = entries_ok s"
proof -
  assume h: "store t = store s" "history_of t = history_of s" "new_in (nav_queue t) = new_in (nav_queue s)"
  then have "live t = live s" "page_of t = page_of s" "back_stack t = back_stack s" "current_entry t = current_entry s"
    by (auto simp: live_def page_of_def history_of_def)
  then show ?thesis using h by (simp add: entries_ok_def)
qed

lemma nav_apply_distinct:
  assumes "distinct (entries_of h @ new_in [it])" "nav_applicable h it"
  shows "distinct (entries_of (nav_apply st h it))"
proof -
  obtain bs c where h: "h = (bs, c)" by (cases h)
  have bs: "distinct bs" using assms(1) h by (simp add: entries_of_def)
  then have last: "last bs \<notin> set (butlast bs)" if "bs \<noteq> []" using that by (induction bs) auto
  show ?thesis
    using assms h bs last by (cases it)
      (auto simp: nav_apply_def nav_applicable_def entries_of_def visible_in_def distinct_butlast distinct_takeWhile
        dest: set_takeWhileD split: option.splits)
qed

lemma clear_first_append:
  "clear_first st (bs, c) \<Longrightarrow> prefix xs (entries_of (bs, c)) \<Longrightarrow> i < length xs \<Longrightarrow> clear_history (st ! (xs ! i)) \<Longrightarrow> i = 0"
  by (auto simp: clear_first_def prefix_def nth_append)

lemma prefix_takeWhile_snoc: "e \<in> set bs \<Longrightarrow> prefix (takeWhile (\<lambda>x. x \<noteq> e) bs @ [e]) bs"
  by (induction bs) auto

lemma nav_apply_clear:
  assumes "clear_first st h" "nav_applicable h it"
    and "\<And>e. it = Replace_By e \<Longrightarrow> \<exists>c. snd h = Some c \<and> clear_history (st ! e) = clear_history (st ! c)"
  shows "clear_first st (nav_apply st h it)"
proof -
  obtain bs c where h: "h = (bs, c)" by (cases h)
  have pre: "clear_first st (xs, Some e)" if "prefix xs (entries_of h)" "clear_history (st ! e) \<longrightarrow> xs = []" for xs e
    using that clear_first_append [of st bs c xs] assms(1) h by (auto simp: clear_first_def [of st "(xs, Some e)"] nth_append less_Suc_eq)
  have whole: "clear_first st (xs, Some e)" if "prefix (xs @ [e]) bs" for xs e
    using that clear_first_append [of st bs c "xs @ [e]"] assms(1) h prefix_order.trans [OF that, of "entries_of h"]
    by (auto simp: clear_first_def [of st "(xs, Some e)"] entries_of_def)
  show ?thesis
  proof (cases it)
    case (Back_To x)
    then show ?thesis using assms(2) h prefix_takeWhile_snoc
      by (auto simp: nav_apply_def nav_applicable_def intro!: whole split: option.split)
  next
    case (Forward_To e)
    then show ?thesis using h by (auto simp: nav_apply_def visible_in_def entries_of_def intro!: pre split: option.splits)
  next
    case (Replace_By e)
    then obtain d where d: "c = Some d" "clear_history (st ! e) = clear_history (st ! d)" using assms(3) h by auto
    have "clear_history (st ! d) \<longrightarrow> bs = []"
      using assms(1) h d(1) by (auto simp: clear_first_def dest: spec [of _ "length bs"])
    then show ?thesis using Replace_By h d by (auto simp: nav_apply_def intro!: pre)
  qed
qed

section \<open>A navigation arrives\<close>

definition arrives :: "frame_state \<Rightarrow> nav_item \<Rightarrow> nat \<Rightarrow> bool" where
  "arrives s it e \<longleftrightarrow> (case it of Back_To x \<Rightarrow> x = Some e \<and> e \<in> set (back_stack s)
     | Forward_To x \<Rightarrow> x = e \<and> e \<notin> set (entries_of (history_of s))
     | Replace_By x \<Rightarrow> x = e \<and> e \<notin> set (entries_of (history_of s)) \<and> current_entry s \<noteq> None)"

definition arrived :: "frame_state \<Rightarrow> nav_item \<Rightarrow> frame_state \<Rightarrow> bool" where
  "arrived s it s' \<longleftrightarrow> history_of s' = nav_apply (store s) (history_of s) it \<and> nav_queue s' = nav_queue s \<and> executing s' = None \<and>
     frame_loaded s' = frame_loaded s \<and> controllers s' = controllers s \<and> controller_entry s' = controller_entry s \<and>
     showing s' = showing s \<and> length (store s') = length (store s) \<and> same_options UNIV (store s) (store s') \<and>
     live s' = live s - dropped s it \<and> (\<forall>e. page_of s' e = (if e \<in> dropped s it then None else page_of s e))"

lemma setCurrent_arrives:
  assumes "ready s" "arrives s it e" "page_of s e = Some p"
  shows "\<exists>s'. setCurrent e (navigationType it) s = (None, s') \<and> arrived s it s'"
proof -
  have ne: "current_entry s \<noteq> Some e"
    using assms(1,2) by (auto simp: arrives_def ready_def history_of_def split: nav_item.splits)
  obtain t where t: "updateBackstack e (navigationType it) s = (None, t)" "moved s it t"
    using assms back_moved [of s e] forward_moved [of s e] replace_moved [of s e]
    by (cases it) (auto simp: arrives_def navigationType_def)
  have snd: "snd (nav_apply (store s) (history_of s) it) = Some e" using assms(2) by (auto simp: arrives_def nav_apply_def split: nav_item.splits)
  then have "e \<notin> dropped s it" by (auto simp: dropped_def entries_of_def)
  then have pt: "page_of t e = Some p" using t(2) assms(3) by (simp add: moved_def removed_from_def)
  obtain s' where s': "setCurrent_base e (navigationType it) t = (None, s')" "back_stack s' = back_stack t" "current_entry s' = Some e"
    "nav_queue s' = nav_queue t" "executing s' = None" "frame_loaded s' = frame_loaded t" "controllers s' = controllers t"
    "controller_entry s' = controller_entry t" "showing s' = showing t" "store s' = store t"
    using pt by (simp add: setCurrent_base_def Let_def nav_note_def)
  have "removed_from (dropped s it) (s\<lparr>back_stack := fst (nav_apply (store s) (history_of s) it)\<rparr>) t" using t(2) by (simp add: moved_def)
  note moved = this removed_live [OF this]
  have "live s' = live t" "page_of s' = page_of t" using s' by (auto simp: live_def page_of_def)
  then have "arrived s it s'" using moved s' snd
    by (auto simp: arrived_def removed_from_def history_of_def prod_eq_iff)
  then show ?thesis using t(1) ne s'(1) by (simp add: setCurrent_def)
qed


lemma arrives_applicable: "arrives s it e \<Longrightarrow> nav_applicable (history_of s) it"
  by (auto simp: arrives_def nav_applicable_def history_of_def split: nav_item.splits)

lemma arrived_entries:
  assumes "entries_ok s" "new_in (nav_queue s) = new_in [it] @ new_in rest" "arrives s it e" "arrived s it s'"
    and "\<And>x. it = Replace_By x \<Longrightarrow> \<exists>c. current_entry s = Some c \<and> clear_history (store s ! x) = clear_history (store s ! c)"
  shows "entries_ok (s'\<lparr>nav_queue := rest\<rparr>)"
proof -
  let ?h = "history_of s" and ?h' = "nav_apply (store s) (history_of s) it" and ?t = "s'\<lparr>nav_queue := rest\<rparr>"
  have app: "nav_applicable ?h it" using arrives_applicable [OF assms(3)] .
  have dist: "distinct (entries_of ?h @ new_in [it] @ new_in rest)" and lv: "live s = set (entries_of ?h @ new_in [it] @ new_in rest)"
    using assms(1,2) by (simp_all add: entries_ok_def)
  have sub: "set (entries_of ?h') \<subseteq> set (entries_of ?h) \<union> set (new_in [it])" by (rule nav_apply_entries [OF app])
  have new: "set (new_in [it]) \<subseteq> set (entries_of ?h')"
    by (auto simp: nav_apply_def entries_of_def split: nav_item.splits)
  have h': "history_of ?t = ?h'" "live ?t = live s - dropped s it" "\<forall>e. page_of ?t e = (if e \<in> dropped s it then None else page_of s e)"
    "same_options UNIV (store s) (store ?t)"
    using assms(4) by (auto simp: arrived_def history_of_def live_def page_of_def)
  have "distinct (entries_of ?h' @ new_in rest)"
    using nav_apply_distinct [of ?h it "store s"] app dist sub by auto
  moreover have "live ?t = set (entries_of ?h' @ new_in rest)"
    using h'(2) lv sub new dist by (auto simp: dropped_def)
  moreover have "\<forall>e \<in> live ?t. page_of ?t e = Some e" using h'(2,3) assms(1) by (auto simp: entries_ok_def)
  moreover have "current_entry ?t = None \<longrightarrow> back_stack ?t = []"
    using h'(1) by (auto simp: history_of_def nav_apply_def split: nav_item.splits option.splits)
  moreover have "clear_first (store ?t) (history_of ?t)"
    using nav_apply_clear [of "store s" ?h it] app assms(1,5) h'(1) same_UNIV(3) [OF h'(4)]
    by (auto simp: entries_ok_def history_of_def)
  ultimately show ?thesis using h'(1) by (simp add: entries_ok_def)
qed

lemma arrived_queue:
  assumes "queue_ok s" "nav_queue s = it # rest" "arrived s it s'"
  shows "queue_ok (s'\<lparr>nav_queue := rest\<rparr>)"
proof -
  have "all_applicable (store s) (nav_apply (store s) (history_of s) it) rest" using assms(1,2) by (simp add: queue_ok_def)
  then have "all_applicable (store s') (history_of (s'\<lparr>nav_queue := rest\<rparr>)) rest"
    using assms(3) same_UNIV(2) [of "store s" "store s'"] by (simp add: arrived_def history_of_def)
  moreover have "rest ! i \<noteq> Replace_By e" if "i < length rest" for i e
    using assms(1,2) that by (auto simp: queue_ok_def dest: spec [of _ "Suc i"])
  ultimately show ?thesis by (simp add: queue_ok_def)
qed

section \<open>The next navigation starts\<close>

definition idle_ok :: "frame_state \<Rightarrow> bool" where
  "idle_ok s \<longleftrightarrow> entries_ok s \<and> queue_ok s \<and> executing s = None \<and> controllers s = entries_of (history_of s) \<and>
     (\<forall>p \<in> set (controllers s). controller_entry s p = Some p) \<and> showing s = current_entry s"

text \<open>What starting leaves: the queue, but for the entry of the first that goes back, and the entries.\<close>

definition started :: "frame_state \<Rightarrow> frame_state \<Rightarrow> bool" where
  "started s s' \<longleftrightarrow> same_entries s s' \<and> frame_loaded s' = frame_loaded s \<and> length (nav_queue s') = length (nav_queue s) \<and>
     history_after s' = history_after s"

lemma started_refl [simp]: "started s s"
  by (simp add: started_def)

lemma upd_depth: "same_entries s (upd_entry e (\<lambda>x. x\<lparr>entry_depth := d\<rparr>) s)"
  by (cases "e < length (store s)")
    (auto simp: same_entries_def upd_entry_def same_options_def page_of_def history_of_def fun_eq_iff nth_list_update list_update_beyond)

lemma new_in_live: "entries_ok s \<Longrightarrow> it \<in> set (nav_queue s) \<Longrightarrow> e \<in> set (new_in [it]) \<Longrightarrow>
    e \<in> live s \<and> page_of s e = Some e \<and> e \<notin> set (entries_of (history_of s))"
proof -
  assume "entries_ok s" "it \<in> set (nav_queue s)" "e \<in> set (new_in [it])"
  then have "e \<in> set (new_in (nav_queue s))" by (auto simp: new_in_def)
  then show ?thesis using \<open>entries_ok s\<close> by (auto simp: entries_ok_def)
qed

definition new_controllers :: "nat \<Rightarrow> bool \<Rightarrow> frame_state \<Rightarrow> nat list" where
  "new_controllers e rep s =
     (if current_entry s = None then controllers s @ [e]
      else if clear_history (store s ! e) then [e]
      else if \<not> entry_visible s (current_entry s) \<or> rep then butlast (controllers s) @ [e]
      else controllers s @ [e])"

lemma new_controllers_executing [simp]: "new_controllers e r (s\<lparr>executing := x\<rparr>) = new_controllers e r s"
  by (simp add: new_controllers_def visible_is)

lemma navigateCore_shape:
  assumes "page_of s e = Some e" "executing s = Some it" "current_entry s \<noteq> None \<longrightarrow> controllers s \<noteq> []"
  shows "\<exists>d. navigateCore e s = (None, (upd_entry e (\<lambda>x. x\<lparr>entry_depth := d\<rparr>) s)\<lparr>nav_depth := d,
    controller_entry := (controller_entry s)(e := Some e), controllers := new_controllers e (navigationType it = Nav_Replace) s\<rparr>)"
proof -
  let ?d0 = "if clear_history (store s ! e) then Some (-1) else nav_depth s"
  let ?d = "if navigationType it = Nav_Replace then ?d0 else map_option (\<lambda>n. n + 1) ?d0"
  show ?thesis
    by (rule exI [of _ ?d])
      (use assms in \<open>simp add: navigateCore_def new_controllers_def upd_entry_def pushViewController_def setViewControllers_def Let_def
        entry_visible_def\<close>)
qed

lemma new_controllers_history:
  assumes "idle_ok s" "nav_queue s = it # rest" "it = Forward_To e \<or> it = Replace_By e"
  shows "new_controllers e (navigationType it = Nav_Replace) s = entries_of (nav_apply (store s) (history_of s) it)"
proof -
  have cs: "controllers s = entries_of (back_stack s, current_entry s)" using assms(1) by (simp add: idle_ok_def history_of_def)
  show ?thesis
  proof (cases "current_entry s")
    case None
    then have "back_stack s = []" using assms(1) by (simp add: idle_ok_def entries_ok_def)
    then show ?thesis using None cs assms(3) by (auto simp: new_controllers_def nav_apply_def history_of_def visible_in_def)
  next
    case (Some c)
    have first: "back_stack s = []" if "clear_history (store s ! c)"
      using assms(1) that Some by (auto simp: idle_ok_def entries_ok_def clear_first_def history_of_def dest: spec [of _ "length (back_stack s)"])
    have rep: "clear_history (store s ! e) = clear_history (store s ! c)" if "it = Replace_By e"
      using assms(1,2) that Some by (auto simp: idle_ok_def queue_ok_def dest: spec [of _ 0])
    show ?thesis using assms(3)
    proof
      assume "it = Forward_To e"
      then show ?thesis using Some cs by (simp add: new_controllers_def nav_apply_def history_of_def navigationType_def visible_is)
    next
      assume "it = Replace_By e"
      then show ?thesis using Some cs first rep by (simp add: new_controllers_def nav_apply_def history_of_def navigationType_def)
    qed
  qed
qed

lemma native_step_intro:
  assumes "idle_ok s" "nav_queue s = it # rest" "same_entries s t" "nav_queue t = it' # rest" "executing t = Some it'" "it' \<noteq> Back_To None"
    "nav_apply (store s) (history_of s) it' = nav_apply (store s) (history_of s) it"
    "controllers t = entries_of (nav_apply (store s) (history_of s) it)" "showing t = showing s" "frame_loaded t = frame_loaded s"
    "\<forall>p \<in> set (controllers t). controller_entry t p = Some p" "queue_ok t" "entries_ok t"
  shows "nav_ok t \<and> started s t"
proof -
  have same: "nav_apply (store t) = nav_apply (store s)" "history_of t = history_of s"
    using assms(3) same_UNIV(1) [of "store s" "store t"] by (simp_all add: same_entries_def)
  then have "current_entry t = current_entry s" by (simp add: history_of_def)
  then show ?thesis using assms same by (simp add: nav_ok_def native_in_step_def native_history_def started_def history_after_def idle_ok_def)
qed

lemma navigateCore_ok:
  assumes "idle_ok s" "nav_queue s = it # rest" "it = Forward_To e \<or> it = Replace_By e"
  shows "\<exists>s'. navigateCore e (s\<lparr>executing := Some it\<rparr>) = (None, s') \<and> nav_ok s' \<and> started s s'"
proof -
  let ?s = "s\<lparr>executing := Some it\<rparr>"
  have e: "page_of s e = Some e" using assms new_in_live [of s it e] by (auto simp: idle_ok_def)
  have "current_entry ?s \<noteq> None \<longrightarrow> controllers ?s \<noteq> []" using assms(1) by (auto simp: idle_ok_def history_of_def)
  then obtain d where d: "navigateCore e ?s = (None, (upd_entry e (\<lambda>x. x\<lparr>entry_depth := d\<rparr>) ?s)\<lparr>nav_depth := d,
      controller_entry := (controller_entry s)(e := Some e), controllers := new_controllers e (navigationType it = Nav_Replace) ?s\<rparr>)"
    using navigateCore_shape [of ?s e it] e by (auto simp: page_of_def)
  let ?t = "(upd_entry e (\<lambda>x. x\<lparr>entry_depth := d\<rparr>) ?s)\<lparr>nav_depth := d,
      controller_entry := (controller_entry s)(e := Some e), controllers := new_controllers e (navigationType it = Nav_Replace) ?s\<rparr>"
  have nc: "new_controllers e (navigationType it = Nav_Replace) ?s = entries_of (nav_apply (store s) (history_of s) it)"
    using new_controllers_history [OF assms] by simp
  have same: "same_entries s ?t" using upd_depth [of s e d] by (simp add: same_entries_def history_of_def page_of_def fun_eq_iff upd_entry_def)
  have q: "nav_queue ?t = nav_queue s" by (simp add: upd_entry_def)
  have "nav_applicable (history_of s) it" using assms(3) by (auto simp: nav_applicable_def)
  then have "\<forall>p \<in> set (controllers ?t). controller_entry ?t p = Some p"
    using nav_apply_entries [of "history_of s" it "store s"] assms(1,3) nc by (auto simp: idle_ok_def)
  then have "nav_ok ?t \<and> started s ?t"
    using assms q nc same_entries_ok [OF same q]
    by (intro native_step_intro [OF assms(1,2) same, of it]) (auto simp: idle_ok_def upd_entry_def)
  then show ?thesis using d by blast
qed


lemma takeWhile_last: "distinct xs \<Longrightarrow> xs \<noteq> [] \<Longrightarrow> takeWhile (\<lambda>x. x \<noteq> last xs) xs = butlast xs"
  by (induction xs) (auto dest: last_in_set)

lemma back_last:
  "distinct (fst h) \<Longrightarrow> fst h \<noteq> [] \<Longrightarrow> nav_apply st h (Back_To (Some (last (fst h)))) = nav_apply st h (Back_To None)"
  by (simp add: nav_apply_def takeWhile_last)

lemma performGoBack_ok:
  assumes "idle_ok s" "nav_queue s = Back_To x # rest"
  shows "\<exists>s'. performGoBack x s = (None, s') \<and> nav_ok s' \<and> started s s'"
proof -
  have ok: "entries_ok s" "queue_ok s" using assms(1) by (simp_all add: idle_ok_def)
  have app: "nav_applicable (back_stack s, current_entry s) (Back_To x)" using ok(2) assms(2) by (simp add: queue_ok_def history_of_def)
  define e where "e = (case x of Some y \<Rightarrow> y | None \<Rightarrow> last (back_stack s))"
  have e: "e \<in> set (back_stack s)" using app by (auto simp: e_def nav_applicable_def split: option.splits)
  have dist: "distinct (entries_of (history_of s))" using ok(1) by (simp add: entries_ok_def)
  then have "distinct (back_stack s)" by (simp add: history_of_def entries_of_def)
  then have same_item: "nav_apply (store s) (history_of s) (Back_To (Some e)) = nav_apply (store s) (history_of s) (Back_To x)"
    using back_last [of "history_of s"] list.set_sel(1) [of "back_stack s"] e
    by (cases x; cases "back_stack s = []") (auto simp: e_def history_of_def)
  obtain c where c: "current_entry s = Some c" using ok(1) e by (cases "current_entry s") (auto simp: entries_ok_def)
  obtain ys zs where bs: "back_stack s = ys @ e # zs" "e \<notin> set ys" using split_list_first [OF e] by blast
  have "e \<in> live s" using ok(1) e by (simp add: entries_ok_def history_of_def entries_of_def)
  then have pe: "page_of s e = Some e" using ok(1) by (simp add: entries_ok_def)
  have cs: "controllers s = ys @ e # zs @ [c]" using assms(1) bs c by (simp add: idle_ok_def history_of_def)
  let ?it = "Back_To (Some e)"
  let ?t = "s\<lparr>nav_queue := ?it # rest, executing := Some ?it, nav_depth := entry_depth (store s ! e), controllers := ys @ [e]\<rparr>"
  have "performGoBack x s = (None, ?t)"
    using assms(2) e pe cs bs(2) index_of_append [of e ys "zs @ [c]"]
    by (cases x) (auto simp: performGoBack_def e_def goBackCore_def popToViewController_def page_of_def Let_def)
  moreover have "nav_ok ?t \<and> started s ?t"
  proof (rule native_step_intro [OF assms(1,2), where it' = ?it])
    show "same_entries s ?t" by (simp add: same_entries_def same_options_def page_of_def history_of_def fun_eq_iff)
    have h: "history_of ?t = history_of s" "live ?t = live s" "page_of ?t = page_of s"
      by (simp_all add: history_of_def live_def page_of_def fun_eq_iff)
    have "rest ! i \<noteq> Replace_By y" if "i < length rest" for i y
      using ok(2) assms(2) that unfolding queue_ok_def by fastforce
    then have "\<forall>i < length (nav_queue ?t). \<forall>y. nav_queue ?t ! i \<noteq> Replace_By y" by (simp add: nth_Cons split: nat.split)
    moreover have "all_applicable (store ?t) (history_of ?t) (nav_queue ?t)"
      using ok(2) assms(2) e same_item by (simp add: queue_ok_def nav_applicable_def history_of_def)
    ultimately show "queue_ok ?t" by (simp add: queue_ok_def)
    show "entries_ok ?t" using ok(1) assms(2) h by (simp add: entries_ok_def)
    show "controllers ?t = entries_of (nav_apply (store s) (history_of s) (Back_To x))"
      unfolding same_item [symmetric] using bs takeWhile_split [OF bs(2), of zs] by (simp add: history_of_def nav_apply_def)
    show "\<forall>p \<in> set (controllers ?t). controller_entry ?t p = Some p" using assms(1) cs by (simp add: idle_ok_def)
  qed (use same_item in simp_all)
  ultimately show ?thesis by blast
qed

lemma processNext_ok:
  assumes "idle_ok s"
  shows "\<exists>s'. processNextNavigationEntry s = (None, s') \<and> nav_ok s' \<and> started s s'"
proof (cases "frame_loaded s \<and> nav_queue s \<noteq> []")
  case True
  then obtain it rest where q: "nav_queue s = it # rest" by (cases "nav_queue s") auto
  have idle: "executing s = None" using assms by (simp add: idle_ok_def)
  show ?thesis
  proof (cases it)
    case (Back_To x)
    then show ?thesis using performGoBack_ok [OF assms] q True idle by (simp add: processNextNavigationEntry_def)
  next
    case (Forward_To e)
    then show ?thesis using navigateCore_ok [OF assms q, of e] q True idle by (simp add: processNextNavigationEntry_def item_entry_def)
  next
    case (Replace_By e)
    then show ?thesis using navigateCore_ok [OF assms q, of e] q True idle by (simp add: processNextNavigationEntry_def item_entry_def)
  qed
next
  case False
  then have "nav_ok s" using assms by (auto simp: nav_ok_def idle_ok_def native_in_step_def native_history_def)
  then show ?thesis using False assms by (auto simp: processNextNavigationEntry_def split: list.split)
qed


section \<open>The controller on top appears\<close>

lemma nav_ok_ready: "entries_ok s \<Longrightarrow> ready s"
  by (auto simp: entries_ok_def ready_def)

text \<open>What is left when the first navigation has arrived.\<close>

definition stepped :: "frame_state \<Rightarrow> history \<Rightarrow> frame_state \<Rightarrow> bool" where
  "stepped s h s' \<longleftrightarrow> history_of s' = h \<and> frame_loaded s' = frame_loaded s \<and> length (nav_queue s') = length (nav_queue s) - 1 \<and>
     history_after s' = history_after s \<and> live s' = set (entries_of h) \<union> set (new_in (tl (nav_queue s)))"

lemma arrived_foldl: "arrived s it s' \<Longrightarrow> foldl (nav_apply (store s')) (history_of s') q = foldl (nav_apply (store s)) (nav_apply (store s) (history_of s) it) q"
  using same_UNIV(1) [of "store s" "store s'"] by (simp add: arrived_def)

lemma appear_executing:
  assumes "nav_ok s" "executing s = Some it"
  shows "controllers s \<noteq> [] \<and> pending s \<and> (\<exists>s'. viewDidAppear (last (controllers s)) (s\<lparr>showing := Some (last (controllers s))\<rparr>) = (None, s') \<and>
    nav_ok s' \<and> stepped s (nav_apply (store s) (history_of s) it) s')"
proof -
  have eo: "entries_ok s" and qo: "queue_ok s" and ni: "native_in_step s" using assms(1) by (simp_all add: nav_ok_def)
  obtain rest where q: "nav_queue s = it # rest" using ni assms(2) by (cases "nav_queue s") (auto simp: native_in_step_def)
  have itn: "it \<noteq> Back_To None" using ni assms(2) by (simp add: native_in_step_def)
  then obtain e where e: "item_entry it = Some e" by (cases it) (auto simp: item_entry_def)
  let ?h' = "nav_apply (store s) (history_of s) it"
  have he: "snd ?h' = Some e" using e itn by (auto simp: nav_apply_def item_entry_def split: nav_item.splits)
  then have hs: "entries_of ?h' = fst ?h' @ [e]" by (simp add: entries_of_def)
  then have cs: "controllers s = fst ?h' @ [e]" using ni assms(2) by (simp add: native_in_step_def native_history_def)
  have app: "nav_applicable (history_of s) it" using qo q by (simp add: queue_ok_def)
  have rep: "\<exists>c. current_entry s = Some c \<and> clear_history (store s ! x) = clear_history (store s ! c)" if "it = Replace_By x" for x
    using qo q that by (auto simp: queue_ok_def dest: spec [of _ 0])
  have arr: "arrives s it e"
    using app e eo q rep by (auto simp: arrives_def nav_applicable_def item_entry_def history_of_def entries_ok_def split: nav_item.splits)
  have ne: "current_entry s \<noteq> Some e" using arr eo
    by (auto simp: arrives_def entries_ok_def history_of_def split: nav_item.splits)
  have "last (controllers s) = e" "controllers s \<noteq> []" using cs by simp_all
  moreover have "showing s = current_entry s" using ni by (simp add: native_in_step_def)
  ultimately have pend: "pending s" using ne by (simp add: pending_def)
  have "e \<in> live s" using arr eo q by (auto simp: arrives_def entries_ok_def history_of_def entries_of_def split: nav_item.splits option.splits)
  then have pe: "page_of s e = Some e" using eo by (simp add: entries_ok_def)
  let ?s = "s\<lparr>showing := Some e\<rparr>"
  have sim: "ready ?s" "arrives ?s it e" "page_of ?s e = Some e"
    using nav_ok_ready [OF eo] arr pe by (auto simp: ready_def arrives_def history_of_def live_def page_of_def split: nav_item.splits)
  obtain t where t: "setCurrent e (navigationType it) ?s = (None, t)" "arrived ?s it t"
    using setCurrent_arrives [OF sim] by blast
  have shown: "dropped ?s it = dropped s it" "history_of ?s = history_of s" "entries_ok ?s = entries_ok s" "queue_ok ?s = queue_ok s"
    by (simp_all add: dropped_def history_of_def entries_ok_def queue_ok_def live_def page_of_def)
  let ?t = "t\<lparr>nav_queue := rest\<rparr>"
  have q_t: "nav_queue t = it # rest" using t(2) q by (simp add: arrived_def)
  have "entries_ok ?t" using arrived_entries [of ?s it rest e t] eo shown q sim(2) t(2) rep by simp
  moreover have "queue_ok ?t" using arrived_queue [of ?s it rest t] qo shown q t(2) by simp
  moreover have "history_of ?t = ?h'" using t(2) by (simp add: arrived_def history_of_def)
  moreover have "controllers ?t = entries_of ?h'" using t(2) cs hs by (simp add: arrived_def)
  moreover have "controllers t = controllers s" "controller_entry t = controller_entry s" "showing t = Some e" "executing t = None"
    using t(2) by (simp_all add: arrived_def)
  moreover have "current_entry ?t = Some e" using he arg_cong [OF \<open>history_of ?t = ?h'\<close>, of snd] by (simp add: history_of_def)
  ultimately have idle: "idle_ok ?t" using ni by (simp add: idle_ok_def native_in_step_def)
  then obtain s' where s': "processNextNavigationEntry ?t = (None, s')" "nav_ok s'" "started ?t s'" using processNext_ok by blast
  have "e \<notin> dropped s it" using he by (simp add: dropped_def entries_of_def)
  then have pt: "page_of t e = Some e" using t(2) pe shown(1) by (simp add: arrived_def page_of_def)
  have ce: "controller_entry s e = Some e" using ni cs by (simp add: native_in_step_def)
  have "viewDidAppear e ?s = (None, s')"
    using t(1) ce assms(2) q_t e pt s'(1) by (simp add: viewDidAppear_def processNavigationQueue_def)
  moreover have "stepped s ?h' s'"
  proof -
    have "live s' = live ?t" using s'(3) by (simp add: started_def same_entries_def live_def)
    moreover have "live ?t = set (entries_of ?h') \<union> set (new_in rest)"
      using idle \<open>history_of ?t = ?h'\<close> by (auto simp: idle_ok_def entries_ok_def)
    moreover have "history_after ?t = history_after s"
      using arrived_foldl [OF t(2), of rest] q by (simp add: history_after_def history_of_def)
    moreover have "frame_loaded ?t = frame_loaded s" using t(2) by (simp add: arrived_def)
    ultimately show ?thesis using s'(3) q \<open>history_of ?t = ?h'\<close> by (simp add: stepped_def started_def same_entries_def)
  qed
  ultimately show ?thesis using cs pend s'(2) by auto
qed


lemma user_back_ok:
  assumes "nav_ok s" "nav_queue s = []" "executing s = None" "1 < length (controllers s)"
  shows "\<exists>s'. viewDidAppear (last (butlast (controllers s))) (s\<lparr>controllers := butlast (controllers s), showing := Some (last (butlast (controllers s)))\<rparr>)
      = (None, s') \<and> nav_ok s' \<and> back_stack s \<noteq> [] \<and> history_of s' = nav_apply (store s) (history_of s) (Back_To None)"
proof -
  have eo: "entries_ok s" and ni: "native_in_step s" using assms(1) by (simp_all add: nav_ok_def)
  have cs: "controllers s = entries_of (back_stack s, current_entry s)" using ni assms(3) by (simp add: native_in_step_def native_history_def history_of_def)
  then obtain c where c: "current_entry s = Some c" using assms(4) eo by (cases "current_entry s") (auto simp: entries_ok_def)
  have bs: "back_stack s \<noteq> []" "butlast (controllers s) = back_stack s" using cs c assms(4) by auto
  define e where "e = last (back_stack s)"
  have e: "e \<in> set (back_stack s)" using bs by (simp add: e_def)
  let ?s = "s\<lparr>controllers := back_stack s, showing := Some e\<rparr>" and ?it = "Back_To (Some e)"
  have "e \<in> live s" using eo e by (auto simp: entries_ok_def history_of_def entries_of_def)
  then have pe: "page_of s e = Some e" using eo by (simp add: entries_ok_def)
  have sim: "ready ?s" "arrives ?s ?it e" "page_of ?s e = Some e"
    using nav_ok_ready [OF eo] e pe by (auto simp: ready_def arrives_def history_of_def live_def page_of_def)
  obtain t where t: "setCurrent e (navigationType ?it) ?s = (None, t)" "arrived ?s ?it t" using setCurrent_arrives [OF sim] by blast
  have eos: "entries_ok ?s" using eo entries_ok_fields [of ?s s] by (simp add: history_of_def)
  have q: "nav_queue t = []" using t(2) assms(2) by (simp add: arrived_def)
  have "entries_ok (t\<lparr>nav_queue := []\<rparr>)" using arrived_entries [of ?s ?it "[]" e t] eos sim(2) t(2) assms(2) by simp
  then have eot: "entries_ok t" using q entries_ok_fields [of "t\<lparr>nav_queue := []\<rparr>" t] by (simp add: history_of_def)
  have dist: "distinct (back_stack s)" using eo by (simp add: entries_ok_def history_of_def entries_of_def)
  have h: "history_of t = nav_apply (store s) (history_of s) (Back_To None)"
    using t(2) back_last [of "history_of s"] dist bs(1) by (simp add: arrived_def e_def history_of_def)
  then have ht: "history_of t = (butlast (back_stack s), Some e)" by (simp add: nav_apply_def history_of_def e_def)
  have "native_in_step t" using t(2) ni ht bs q cs by (auto simp: native_in_step_def native_history_def arrived_def e_def history_of_def entries_of_def)
  moreover have "queue_ok t" using q by (simp add: queue_ok_def)
  ultimately have "nav_ok t" using eot by (simp add: nav_ok_def)
  moreover have "viewDidAppear e ?s = (None, t)"
    using t(1) ni e cs assms(3) q
    by (simp add: viewDidAppear_def processNavigationQueue_def native_in_step_def navigationType_def entries_of_def)
  ultimately show ?thesis using h bs by (auto simp: e_def)
qed

section \<open>Navigations are queued\<close>

lemma all_applicable_append:
  "all_applicable st h (q @ [it]) \<longleftrightarrow> all_applicable st h q \<and> nav_applicable (foldl (nav_apply st) h q) it"
  by (induction q arbitrary: h) auto

definition in_step_but_queue :: "frame_state \<Rightarrow> frame_state \<Rightarrow> bool" where
  "in_step_but_queue s t \<longleftrightarrow> history_of t = history_of s \<and> current_entry t = current_entry s \<and> executing t = executing s \<and> frame_loaded t = frame_loaded s \<and> controllers t = controllers s \<and>
     controller_entry t = controller_entry s \<and> showing t = showing s"

lemma enqueued_ok:
  assumes "nav_ok s" "in_step_but_queue s t" "nav_queue t = nav_queue s @ [it]" "entries_ok t" "queue_ok t"
    "same_options (live s) (store s) (store t)"
  shows "\<exists>s'. processNextNavigationEntry t = (None, s') \<and> nav_ok s'"
proof (cases "executing s")
  case None
  then have "idle_ok t" using assms by (auto simp: nav_ok_def idle_ok_def native_in_step_def native_history_def in_step_but_queue_def)
  then show ?thesis using processNext_ok by blast
next
  case (Some it')
  have sub: "set (entries_of (history_of s)) \<union> set (new_in [it']) \<subseteq> live s"
    using assms(1) Some by (cases "nav_queue s") (auto simp: nav_ok_def entries_ok_def native_in_step_def)
  then have "native_in_step t" using assms(1-3) Some nav_apply_cong [OF assms(6) sub]
    by (auto simp: nav_ok_def native_in_step_def native_history_def in_step_but_queue_def)
  then have "nav_ok t" using assms by (simp add: nav_ok_def)
  then show ?thesis using Some assms(2) by (simp add: processNextNavigationEntry_def in_step_but_queue_def)
qed

lemma go_back_ok:
  assumes "nav_ok s" "nav_applicable (history_after s) (Back_To e)"
  shows "\<exists>s'. enqueue (Back_To e) s = (None, s') \<and> nav_ok s'"
proof -
  let ?t = "s\<lparr>nav_queue := nav_queue s @ [Back_To e]\<rparr>"
  have "entries_ok ?t" using assms(1) entries_ok_fields [of ?t s] by (simp add: nav_ok_def history_of_def)
  moreover have "queue_ok ?t" using assms
    by (auto simp: nav_ok_def queue_ok_def history_of_def history_after_def all_applicable_append nth_append less_Suc_eq)
  moreover have "in_step_but_queue s ?t" by (simp add: in_step_but_queue_def history_of_def)
  ultimately show ?thesis using enqueued_ok [OF assms(1), of ?t "Back_To e"] by (simp add: enqueue_def same_options_def)
qed

lemma live_new: "live (new_entry ch vis s) = insert (length (store s)) (live s)"
  by (auto simp: live_def new_entry_def page_of_def nth_append less_Suc_eq split: if_splits)

lemma new_options: "same_options (live s) (store s) (store (new_entry ch vis s))"
  by (auto simp: same_options_def new_entry_def live_def nth_append)

lemma new_ok:
  assumes "nav_ok s" "it = Forward_To (length (store s)) \<or> it = Replace_By (length (store s)) \<and> nav_queue s = [] \<and>
      (\<exists>c. current_entry s = Some c \<and> ch = clear_history (store s ! c))"
  shows "\<exists>s'. enqueue it (new_entry ch vis s) = (None, s') \<and> nav_ok s'"
proof -
  let ?n = "length (store s)"
  let ?t = "(new_entry ch vis s)\<lparr>nav_queue := nav_queue s @ [it]\<rparr>"
  have eo: "entries_ok s" and qo: "queue_ok s" using assms(1) by (simp_all add: nav_ok_def)
  have n: "?n \<notin> live s" by (simp add: live_def)
  have fields: "history_of ?t = history_of s" "store ?t = store (new_entry ch vis s)" "live ?t = insert ?n (live s)" "current_entry ?t = current_entry s"
    "back_stack ?t = back_stack s"
    using live_new [of ch vis s] by (simp_all add: history_of_def new_entry_def live_def page_of_def)
  have sub: "set (entries_of (history_of s)) \<union> set (new_in (nav_queue s)) \<subseteq> live s" using eo by (auto simp: entries_ok_def)
  have new: "new_in [it] = [?n]" using assms(2) by auto
  have same: "all_applicable (store s) (history_of s) (nav_queue s) = all_applicable (store ?t) (history_of s) (nav_queue s)"
    "clear_first (store s) (history_of s) = clear_first (store ?t) (history_of s)"
    using applicable_cong [OF new_options sub] clear_first_cong [OF new_options] sub by (auto simp: fields(2))
  have "entries_ok ?t"
  proof -
    have "page_of ?t e = Some e" if "e \<in> live ?t" for e
      using that eo fields(3) by (auto simp: entries_ok_def page_of_def new_entry_def nth_append live_def)
    moreover have "distinct (entries_of (history_of s) @ new_in (nav_queue s @ [it]))"
      using eo n new sub by (auto simp: entries_ok_def)
    ultimately show ?thesis using eo fields same(2) new by (auto simp: entries_ok_def)
  qed
  moreover have "queue_ok ?t"
  proof -
    have "all_applicable (store ?t) (history_of ?t) (nav_queue ?t)"
      using qo same(1) fields(1) assms(2) by (auto simp: queue_ok_def all_applicable_append nav_applicable_def)
    moreover have "i = 0 \<and> (\<exists>c. current_entry ?t = Some c \<and> clear_history (store ?t ! e) = clear_history (store ?t ! c))"
      if i: "i < length (nav_queue ?t)" "nav_queue ?t ! i = Replace_By e" for i e
    proof (cases "i < length (nav_queue s)")
      case True
      then have r: "nav_queue s ! i = Replace_By e" using i(2) by (simp add: nth_append)
      then obtain c where c: "i = 0" "current_entry s = Some c" "clear_history (store s ! e) = clear_history (store s ! c)"
        using qo True by (auto simp: queue_ok_def)
      have "e \<in> live s" using new_in_live [OF eo nth_mem [OF True], of e] r by simp
      moreover have "c \<in> live s" using c(2) sub by (auto simp: history_of_def)
      ultimately show ?thesis using c new_options [of s ch vis] fields by (auto simp: same_options_def)
    next
      case False
      then have "it = Replace_By e" "i = length (nav_queue s)" using i by (auto simp: nth_append)
      then obtain c where c: "nav_queue s = []" "e = ?n" "current_entry s = Some c" "ch = clear_history (store s ! c)" using assms(2) by auto
      have "c \<in> live s" using c(3) sub by (auto simp: history_of_def)
      then show ?thesis using c \<open>i = length (nav_queue s)\<close> fields by (simp add: new_entry_def nth_append live_def)
    qed
    ultimately show ?thesis by (simp add: queue_ok_def)
  qed
  moreover have "in_step_but_queue s ?t" by (simp add: in_step_but_queue_def history_of_def new_entry_def)
  moreover have "same_options (live s) (store s) (store ?t)" using new_options [of s ch vis] by simp
  ultimately show ?thesis using enqueued_ok [OF assms(1), of ?t it] by (simp add: enqueue_def new_entry_def)
qed


section \<open>Runs\<close>

text \<open>What is left out: going back to an entry that will not be on the back stack when it is its turn, which the checks of
  \<open>goBack\<close> let pass, and replacing the page while navigations are queued.\<close>

definition allowed_nav :: "frame_state \<Rightarrow> nav_event \<Rightarrow> bool" where
  "allowed_nav s ev \<longleftrightarrow> (case ev of
     Go_Back e \<Rightarrow> canGoBack s \<longrightarrow> (case e of None \<Rightarrow> True | Some x \<Rightarrow> x \<in> set (back_stack s)) \<longrightarrow> nav_applicable (history_after s) (Back_To e)
   | Replace_Page \<Rightarrow> nav_queue s = [] \<and> current_entry s \<noteq> None
   | _ \<Rightarrow> True)"

fun allowed_navs :: "frame_state \<Rightarrow> nav_event list \<Rightarrow> bool" where
  "allowed_navs s [] = True"
| "allowed_navs s (ev # es) = (allowed_nav s ev \<and> allowed_navs (snd (nav_step s ev)) es)"

lemma nav_ok_load: "nav_ok s \<Longrightarrow> nav_ok (s\<lparr>frame_loaded := False\<rparr>)"
  using entries_ok_fields [of "s\<lparr>frame_loaded := False\<rparr>" s]
  by (auto simp: nav_ok_def history_of_def queue_ok_def native_in_step_def native_history_def split: option.splits)

lemma nav_ok_loaded:
  assumes "nav_ok s"
  shows "\<exists>s'. processNextNavigationEntry (s\<lparr>frame_loaded := True\<rparr>) = (None, s') \<and> nav_ok s'"
proof -
  let ?t = "s\<lparr>frame_loaded := True\<rparr>"
  have h: "history_of ?t = history_of s" "native_history ?t = native_history s" by (simp_all add: history_of_def native_history_def split: option.split)
  have ok: "entries_ok ?t" "queue_ok ?t" using assms entries_ok_fields [of ?t s] h by (simp_all add: nav_ok_def queue_ok_def)
  show ?thesis
  proof (cases "executing s")
    case None
    then have "idle_ok ?t" using assms ok h by (simp add: idle_ok_def nav_ok_def native_in_step_def native_history_def)
    then show ?thesis using processNext_ok by blast
  next
    case (Some it)
    then have "nav_ok ?t" using assms ok h by (simp add: nav_ok_def native_in_step_def)
    then show ?thesis using Some by (simp add: processNextNavigationEntry_def)
  qed
qed

lemma note_ok: "nav_ok s \<Longrightarrow> nav_ok (nav_note e s)"
  using entries_ok_fields [of "nav_note e s" s]
  by (auto simp: nav_ok_def nav_note_def history_of_def queue_ok_def native_in_step_def native_history_def split: option.splits)

lemma not_pending: "nav_ok s \<Longrightarrow> executing s = None \<Longrightarrow> \<not> pending s"
  by (auto simp: nav_ok_def native_in_step_def native_history_def pending_def history_of_def entries_of_def entries_ok_def split: option.splits)

lemma nav_step_ok:
  assumes "nav_ok s" "allowed_nav s ev"
  shows "\<exists>s'. nav_step s ev = (None, s') \<and> nav_ok s'"
proof (cases ev)
  case (Navigate clear visible)
  show ?thesis using new_ok [OF note_ok [OF assms(1)], of "Forward_To (length (store s))" Pushed_In_Stack clear visible] Navigate
    by (simp add: navigate_def nav_note_def)
next
  case (Go_Back e)
  show ?thesis using go_back_ok [OF assms(1), of e] assms Go_Back
    by (auto simp: goBack_def allowed_nav_def js_array split: option.split)
next
  case Replace_Page
  then obtain c where c: "current_entry s = Some c" "nav_queue s = []" using assms(2) by (auto simp: allowed_nav_def)
  then show ?thesis using new_ok [OF assms(1), of "Replace_By (length (store s))" "clear_history (store s ! c)"] Replace_Page
    by (simp add: replacePage_def Let_def)
next
  case Appear
  show ?thesis
  proof (cases "executing s")
    case None
    then show ?thesis using Appear assms(1) not_pending by simp
  next
    case (Some it)
    then show ?thesis using Appear appear_executing [OF assms(1)] by auto
  qed
next
  case User_Back
  then show ?thesis using assms(1) user_back_ok [OF assms(1)] by (auto simp: Let_def)
qed (use assms(1) nav_ok_load nav_ok_loaded in auto)

lemma nav_run_ok: "nav_ok s \<Longrightarrow> allowed_navs s es \<Longrightarrow> \<exists>s'. nav_run s es = (None, s') \<and> nav_ok s'"
proof (induction es arbitrary: s)
  case (Cons ev es)
  then obtain t where "nav_step s ev = (None, t)" "nav_ok t" using nav_step_ok [of s ev] by auto
  then show ?case using Cons by auto
qed simp

lemma new_frame_ok: "nav_ok new_frame"
  by (simp add: nav_ok_def new_frame_def entries_ok_def queue_ok_def native_in_step_def native_history_def history_of_def live_def clear_first_def)

text \<open>C29: Whatever is navigated, gone back and replaced on a new frame, in the code and by the user, nothing is thrown, and when
  no navigation is under way the native controller shows the pages of the back stack and the current one. \<open>allowed_navs\<close>
  leaves out what \<open>goBack\<close> accepts although it cannot be done: going back to an entry that will not be on the back stack once
  what is queued before has been done, or with no entry given when the back stack will then be empty. It also leaves out
  replacing the page while navigations are queued or while there is no current page.\<close>

theorem native_stack_in_sync:
  assumes "allowed_navs new_frame es"
  shows "\<exists>s. nav_run new_frame es = (None, s) \<and>
    (executing s = None \<longrightarrow> controllers s = entries_of (back_stack s, current_entry s) \<and> showing s = current_entry s)"
  using nav_run_ok [OF new_frame_ok assms] by (auto simp: nav_ok_def native_in_step_def native_history_def history_of_def)

text \<open>C30: In every run of navigations of a new frame, in the code and by the user (\<open>allowed_navs\<close>: no going back that
  will not be possible when its turn comes, and no replacing of the page while navigations are queued or without a current
  page) the pages that have not been
  removed are those of the back stack, of the current entry and of the entries that are queued, each once: no page is
  removed that is still needed, and none is forgotten.\<close>

theorem no_page_is_lost:
  assumes "allowed_navs new_frame es"
  shows "\<exists>s. nav_run new_frame es = (None, s) \<and> distinct (entries_of (back_stack s, current_entry s) @ new_in (nav_queue s)) \<and>
    {e. e < length (store s) \<and> page_of s e \<noteq> None} = set (entries_of (back_stack s, current_entry s) @ new_in (nav_queue s))"
  using nav_run_ok [OF new_frame_ok assms] by (auto simp: nav_ok_def entries_ok_def history_of_def live_def)

lemma appear_steps:
  "nav_ok s \<Longrightarrow> frame_loaded s \<Longrightarrow> \<exists>s'. nav_run s (replicate (length (nav_queue s)) Appear) = (None, s') \<and>
    nav_ok s' \<and> nav_queue s' = [] \<and> executing s' = None \<and> history_of s' = history_after s"
proof (induction "length (nav_queue s)" arbitrary: s)
  case 0
  then have "executing s = None" by (auto simp: nav_ok_def native_in_step_def split: option.splits)
  then show ?case using 0 by (simp add: history_after_def)
next
  case (Suc n)
  then obtain it where it: "executing s = Some it" by (auto simp: nav_ok_def native_in_step_def split: option.splits)
  obtain t where t: "nav_step s Appear = (None, t)" "nav_ok t" "stepped s (nav_apply (store s) (history_of s) it) t"
    using appear_executing [OF Suc(3) it] by auto
  then have "n = length (nav_queue t)" "frame_loaded t" "history_after t = history_after s" using Suc(2,4) by (simp_all add: stepped_def)
  then show ?case using Suc(1) [of t] t Suc(2) by (simp flip: Suc(2))
qed

text \<open>C31: After every run of navigations of a new frame, in the code and by the user (\<open>allowed_navs\<close>: no going back that
  will not be possible when its turn comes, and no replacing of the page while navigations are queued or without a current
  page) a frame that is loaded is not
  stuck: as the controllers on top appear, and nothing else happens, the navigations of the queue are applied one by one
  and in their order, until the queue is empty.\<close>

theorem queue_is_worked_off:
  assumes "allowed_navs new_frame es" "frame_loaded (snd (nav_run new_frame es))"
  shows "let s = snd (nav_run new_frame es) in
    \<exists>s'. nav_run s (replicate (length (nav_queue s)) Appear) = (None, s') \<and> nav_queue s' = [] \<and> executing s' = None \<and>
      (back_stack s', current_entry s') = foldl (nav_apply (store s)) (back_stack s, current_entry s) (nav_queue s)"
proof -
  obtain s where s: "nav_run new_frame es = (None, s)" "nav_ok s" using nav_run_ok [OF new_frame_ok assms(1)] by auto
  then show ?thesis using appear_steps [OF s(2)] assms(2) by (auto simp: history_of_def history_after_def)
qed

section \<open>Examples\<close>

definition visits :: "nav_event list" where
  "visits = [Load, Navigate False None, Appear, Navigate False (Some False), Navigate True None, Appear, Appear,
     Navigate False None, Appear, Go_Back None, Appear, Replace_Page, Appear, Navigate False None, Appear, User_Back,
     Navigate False None, Unload, Navigate False None, Go_Back None]"

lemma visits_allowed: "allowed_navs new_frame visits"
  by code_simp

lemma visits_loaded: "allowed_navs new_frame (visits @ [Load]) \<and> frame_loaded (snd (nav_run new_frame (visits @ [Load])))"
  by code_simp

theorem native_stack_in_sync_witness:
  "\<exists>s. nav_run new_frame visits = (None, s) \<and>
    (executing s = None \<longrightarrow> controllers s = entries_of (back_stack s, current_entry s) \<and> showing s = current_entry s)"
  by (rule native_stack_in_sync [OF visits_allowed])

theorem no_page_is_lost_witness:
  "\<exists>s. nav_run new_frame visits = (None, s) \<and> distinct (entries_of (back_stack s, current_entry s) @ new_in (nav_queue s)) \<and>
    {e. e < length (store s) \<and> page_of s e \<noteq> None} = set (entries_of (back_stack s, current_entry s) @ new_in (nav_queue s))"
  by (rule no_page_is_lost [OF visits_allowed])

theorem queue_is_worked_off_witness:
  "let s = snd (nav_run new_frame (visits @ [Load])) in
    \<exists>s'. nav_run s (replicate (length (nav_queue s)) Appear) = (None, s') \<and> nav_queue s' = [] \<and> executing s' = None \<and>
      (back_stack s', current_entry s') = foldl (nav_apply (store s)) (back_stack s, current_entry s) (nav_queue s)"
  by (rule queue_is_worked_off) (use visits_loaded in auto)

section \<open>Where the checks of goBack are too weak\<close>

text \<open>Going back twice to an entry that is current by then: the pop changes nothing, nothing appears and the frame is stuck.\<close>

definition back_twice :: "nav_event list" where
  "back_twice = [Load, Navigate False None, Appear, Navigate False None, Appear, Navigate False None, Appear,
     Go_Back None, Go_Back (Some 1), Appear]"

lemma back_twice_gets_stuck:
  "let s = snd (nav_run new_frame back_twice) in fst (nav_run new_frame back_twice) = None \<and> executing s = Some (Back_To (Some 1)) \<and>
     current_entry s = Some 1 \<and> \<not> pending s \<and> nav_queue (snd (nav_run s [Navigate False None, Appear])) = [Back_To (Some 1), Forward_To 3]"
  by code_simp

text \<open>An entry that is not to be on the back stack is counted as if it would be: going back has nowhere to go.\<close>

lemma hidden_entry_is_counted:
  "let s = snd (nav_run new_frame [Load, Navigate False (Some False), Appear, Navigate False None]) in
     canGoBack s \<and> fst (history_after s) = [] \<and> fst (nav_run s [Go_Back None, Appear]) = Some ''TypeError''"
  by code_simp

text \<open>Going back is checked against the back stack of now: the entry has lost its page when it is its turn.\<close>

lemma cleared_entry_is_accepted:
  "let s = snd (nav_run new_frame [Load, Navigate False None, Appear, Navigate False None, Appear, Navigate True None, Navigate False None]) in
     canGoBack s \<and> fst (nav_run s [Go_Back (Some 0), Appear, Appear]) = Some ''TypeError''"
  by code_simp

text \<open>Replacing a page that cleared the history clears the controllers, but not the back stack.\<close>

lemma replace_clears_controllers:
  "let s = snd (nav_run new_frame [Load, Navigate True None, Appear, Navigate False None, Replace_Page, Appear, Appear]) in
     executing s = None \<and> controllers s = [2] \<and> back_stack s = [0] \<and> current_entry s = Some 2 \<and>
     fst (nav_run s [Go_Back None]) = Some ''NSInvalidArgumentException''"
  by code_simp

end
