(* ===== verification/Frame_Back.thy ===== *)
theory Frame_Back
  imports Frame_Sync
begin

text \<open>
  \<open>canGoBack\<close> foretells the back stack after the queue from the back stack of now. Where every page is kept on the back
  stack, no page is replaced and \<open>goBack\<close> is called without an entry, it does so exactly, but for a frame without a page
  whose queue clears the history; there it is too careful.
\<close>

section \<open>Frames that keep every page\<close>

fun plain_item :: "nav_item \<Rightarrow> bool" where
  "plain_item (Forward_To e) = True"
| "plain_item (Back_To e) = (e = None)"
| "plain_item (Replace_By e) = False"

definition plain :: "frame_state \<Rightarrow> bool" where
  "plain s \<longleftrightarrow> (\<forall>x \<in> set (store s). backstack_visible x \<noteq> Some False) \<and>
     (\<forall>it \<in> set (nav_queue s). navigationType it \<noteq> Nav_Replace) \<and> (\<forall>it \<in> set (tl (nav_queue s)). plain_item it)"

definition plain_nav :: "nav_event \<Rightarrow> bool" where
  "plain_nav ev = (case ev of Navigate clear visible \<Rightarrow> visible \<noteq> Some False | Go_Back e \<Rightarrow> e = None | Replace_Page \<Rightarrow> False | _ \<Rightarrow> True)"

lemma plain_fields: "plain s \<Longrightarrow> store t = store s \<Longrightarrow> nav_queue t = nav_queue s \<Longrightarrow> plain t"
  by (simp add: plain_def)

lemma plain_note [simp]: "plain (nav_note e s) = plain s"
  by (simp add: plain_def nav_note_def)

lemma plain_upd: "plain s \<Longrightarrow> (\<And>x. backstack_visible (f x) = backstack_visible x) \<Longrightarrow> plain (upd_entry e f s)"
  by (cases "e < length (store s)") (auto simp: plain_def upd_entry_def list_update_beyond dest!: set_update_subset_insert [THEN subsetD])

lemma plain_seq: "plain (snd r) \<Longrightarrow> (\<And>t. plain t \<Longrightarrow> plain (snd (f t))) \<Longrightarrow> plain (snd (seq r f))"
  by (auto simp: seq_def split: prod.split option.split)

lemma plain_removeEntry: "plain s \<Longrightarrow> plain (snd (removeEntry e s))"
  by (auto simp: removeEntry_def intro!: plain_upd split: option.split)

lemma plain_remove_entries: "plain s \<Longrightarrow> plain (snd (remove_entries es s))"
  by (induction es arbitrary: s) (auto intro!: plain_seq plain_removeEntry)

lemma plain_record [simp]: "plain (s\<lparr>back_stack := b\<rparr>) = plain s" "plain (s\<lparr>executing := x\<rparr>) = plain s"
  "plain (s\<lparr>controllers := cs\<rparr>) = plain s" "plain (s\<lparr>current_entry := c\<rparr>) = plain s" "plain (s\<lparr>nav_depth := d\<rparr>) = plain s"
  "plain (s\<lparr>controller_entry := ce\<rparr>) = plain s" "plain (s\<lparr>showing := c\<rparr>) = plain s" "plain (s\<lparr>frame_loaded := l\<rparr>) = plain s"
  by (simp_all add: plain_def)

lemma plain_setCurrent:
  assumes "plain s"
  shows "plain (snd (setCurrent e t s))"
proof -
  have "plain (raiseNavigatedFrom b s)" for b using assms by (auto simp: raiseNavigatedFrom_def split: option.split)
  then have "plain (snd (updateBackstack e t s))"
    by (auto simp: updateBackstack_def Let_def intro!: plain_seq plain_remove_entries plain_removeEntry split: nav_type.split option.split)
  then show ?thesis using assms
    by (auto simp: setCurrent_def setCurrent_base_def Let_def intro!: plain_seq split: option.split)
qed

lemma plain_processNext:
  assumes "plain s"
  shows "plain (snd (processNextNavigationEntry s))"
proof -
  have core: "plain (snd (navigateCore e t))" if "plain t" for e t
    using that by (auto simp: navigateCore_def Let_def pushViewController_def setViewControllers_def intro!: plain_upd split: option.split)
  have bck: "plain (snd (goBackCore e t))" if "plain t" for e t
    using that by (auto simp: goBackCore_def Let_def popToViewController_def split: option.split)
  have "plain (s\<lparr>nav_queue := Back_To x # tl (nav_queue s)\<rparr>)" for x
    using assms by (cases "nav_queue s") (simp_all add: plain_def navigationType_def)
  then have "plain (snd (performGoBack e s))" for e
    unfolding performGoBack_def Let_def by (intro bck) simp
  then show ?thesis using assms core
    by (auto simp: processNextNavigationEntry_def split: list.split nav_item.split)
qed

lemma plain_enqueue:
  assumes "plain s" "plain_item it"
  shows "plain (snd (enqueue it s))"
proof -
  have "plain (s\<lparr>nav_queue := nav_queue s @ [it]\<rparr>)"
    using assms by (cases "nav_queue s"; cases it) (auto simp: plain_def navigationType_def)
  then show ?thesis unfolding enqueue_def by (rule plain_processNext)
qed

lemma plain_appear:
  assumes "plain s"
  shows "plain (snd (viewDidAppear p s))"
proof -
  have "plain (snd (processNavigationQueue p t))" if "plain t" for t
  proof -
    have "plain (t\<lparr>nav_queue := tl (nav_queue t)\<rparr>)"
      using that by (cases "nav_queue t"; cases "tl (nav_queue t)") (simp_all add: plain_def)
    then show ?thesis using that plain_processNext [of "t\<lparr>nav_queue := tl (nav_queue t)\<rparr>"]
      by (auto simp: processNavigationQueue_def split: list.split option.split)
  qed
  then show ?thesis using assms plain_setCurrent by (auto simp: viewDidAppear_def intro!: plain_seq split: option.split)
qed

lemma plain_step:
  assumes "plain s" "plain_nav ev"
  shows "plain (snd (nav_step s ev))"
proof (cases ev)
  case (Navigate clear visible)
  then have "plain (new_entry clear visible (nav_note Pushed_In_Stack s))"
    using assms by (auto simp: new_entry_def nav_note_def plain_def plain_nav_def)
  then show ?thesis using Navigate by (simp add: navigate_def plain_enqueue)
next
  case (Go_Back e)
  then show ?thesis using assms by (simp add: plain_nav_def goBack_def plain_enqueue)
qed (use assms in \<open>auto simp: plain_nav_def Let_def intro!: plain_processNext plain_appear\<close>)

section \<open>What is counted\<close>

definition kept :: "backstack_entry list \<Rightarrow> nat list \<Rightarrow> bool" where
  "kept st es \<longleftrightarrow> (\<forall>e \<in> set es. visible_in st (Some e))"

lemma kept_apply: "kept st (entries_of h @ new_in (it # q)) \<Longrightarrow> nav_applicable h it \<Longrightarrow> kept st (entries_of (nav_apply st h it) @ new_in q)"
  using nav_apply_entries [of h it st] by (auto simp: kept_def)

lemma apply_current: "snd (nav_apply st h it) \<noteq> None"
  by (auto simp: nav_apply_def split: nav_item.split option.split)

text \<open>An item is counted right when there is a current page; \<open>k\<close> is what was counted too much before.\<close>

lemma queue_count_plain:
  assumes "plain_item it" "nav_applicable h it" "kept (store s) (entries_of h @ new_in [it])" "snd h = Some c"
  shows "queue_count s (int (length (fst h)) + k, False) it =
    (int (length (fst (nav_apply (store s) h it))) + (if \<exists>e \<in> set (new_in [it]). clear_history (store s ! e) then 0 else k), False)"
proof (cases it)
  case (Back_To e)
  then have "e = None" "fst h \<noteq> []" using assms(1,2) by (auto simp: nav_applicable_def)
  then show ?thesis using Back_To by (cases "fst h") (simp_all add: queue_count_def nav_apply_def)
next
  case (Forward_To e)
  then have "visible_in (store s) (Some c)" "visible_in (store s) (Some e)" using assms(3,4) by (auto simp: kept_def entries_of_def)
  then show ?thesis using Forward_To assms(4) by (auto simp: queue_count_def nav_apply_def item_entry_def visible_in_def Let_def)
qed (use assms in simp)

lemma queue_count_fold:
  "\<forall>it \<in> set q. plain_item it \<Longrightarrow> all_applicable (store s) h q \<Longrightarrow> kept (store s) (entries_of h @ new_in q) \<Longrightarrow> snd h \<noteq> None \<Longrightarrow>
    foldl (queue_count s) (int (length (fst h)) + k, False) q =
    (int (length (fst (foldl (nav_apply (store s)) h q))) + (if \<exists>e \<in> set (new_in q). clear_history (store s ! e) then 0 else k), False)"
proof (induction q arbitrary: h k)
  case (Cons it q)
  have it: "nav_applicable h it" "plain_item it" using Cons(2,3) by simp_all
  obtain c where c: "snd h = Some c" using Cons(5) by auto
  have step: "kept (store s) (entries_of h @ new_in [it])" using Cons(4) by (auto simp: kept_def)
  show ?case
    using Cons(1) [of "nav_apply (store s) h it"] Cons(2-4) it kept_apply [of "store s" h it q] apply_current [of "store s" h it]
      queue_count_plain [OF it(2,1) step c] by (auto simp: new_in_def)
qed simp

lemma queue_count_now:
  assumes "x \<in> set (back_stack s)"
  shows "queue_count s st (Back_To (Some x)) = (int (length (takeWhile (\<lambda>y. y \<noteq> x) (back_stack s))), False)"
proof -
  obtain ys zs where bs: "back_stack s = ys @ x # zs" "x \<notin> set ys" using split_list_first [OF assms] by auto
  then show ?thesis using index_of_append [of x ys zs] takeWhile_split [of x ys zs] by (simp add: queue_count_def)
qed

lemma plain_kept: "plain s \<Longrightarrow> entries_ok s \<Longrightarrow> kept (store s) (entries_of (history_of s) @ new_in (nav_queue s))"
proof -
  assume "plain s" "entries_ok s"
  then have "set (entries_of (history_of s) @ new_in (nav_queue s)) = live s" by (simp add: entries_ok_def)
  then show ?thesis using \<open>plain s\<close> by (simp add: plain_def live_def kept_def visible_in_def)
qed

lemma canGoBack_plain:
  assumes "plain s" "nav_ok s"
  shows "canGoBack s \<Longrightarrow> fst (history_after s) \<noteq> []"
    and "current_entry s \<noteq> None \<Longrightarrow> fst (history_after s) \<noteq> [] \<Longrightarrow> canGoBack s"
proof -
  let ?n = "fst (foldl (queue_count s) (int (length (back_stack s)), False) (nav_queue s))" and ?h = "history_of s"
  let ?len = "int (length (fst (history_after s)))"
  have ok: "entries_ok s" "queue_ok s" using assms(2) by (simp_all add: nav_ok_def)
  have app: "all_applicable (store s) ?h (nav_queue s)" using ok(2) by (simp add: queue_ok_def)
  have "(current_entry s \<noteq> None \<longrightarrow> ?n = ?len) \<and> (current_entry s = None \<longrightarrow> nav_queue s \<noteq> [] \<longrightarrow> ?n - 1 \<le> ?len) \<and>
    (current_entry s = None \<longrightarrow> nav_queue s = [] \<longrightarrow> ?n = ?len)"
  proof (cases "nav_queue s")
    case Nil
    then show ?thesis by (simp add: history_after_def history_of_def)
  next
    case (Cons it q)
    let ?h' = "nav_apply (store s) ?h it"
    have it: "nav_applicable ?h it" "all_applicable (store s) ?h' q" using app Cons by simp_all
    have q: "\<forall>it \<in> set q. plain_item it" "navigationType it \<noteq> Nav_Replace" using assms(1) Cons by (simp_all add: plain_def)
    have ke: "kept (store s) (entries_of ?h @ new_in (it # q))" using plain_kept [OF assms(1) ok(1)] Cons by simp
    then have ke1: "kept (store s) (entries_of ?h @ new_in [it])" by (auto simp: kept_def)
    note rest = queue_count_fold [OF q(1) it(2) kept_apply [OF ke it(1)] apply_current]
    have after: "history_after s = foldl (nav_apply (store s)) ?h' q" using Cons by (simp add: history_after_def)
    show ?thesis
    proof (cases "current_entry s")
      case None
      then have "back_stack s = []" using ok(1) by (simp add: entries_ok_def)
      then obtain e where e: "it = Forward_To e" using it(1) q(2)
        by (cases it) (auto simp: nav_applicable_def history_of_def navigationType_def split: option.splits)
      have "visible_in (store s) (Some e)" using ke1 e by (simp add: kept_def)
      then have "queue_count s (0, False) it = (int (length (fst ?h')) + (if clear_history (store s ! e) then 0 else 1), False)"
        using e None \<open>back_stack s = []\<close>
        by (simp add: queue_count_def nav_apply_def item_entry_def visible_in_def history_of_def Let_def)
      then show ?thesis using Cons None \<open>back_stack s = []\<close> rest [of 0] rest [of 1] after by auto
    next
      case (Some c)
      have "queue_count s (int (length (back_stack s)), False) it = (int (length (fst ?h')), False)"
      proof (cases "plain_item it")
        case True
        then show ?thesis using queue_count_plain [OF True it(1) ke1, of c 0] Some by (simp add: history_of_def)
      next
        case False
        then obtain x where "it = Back_To (Some x)" using q(2) by (cases it) (auto simp: navigationType_def)
        then show ?thesis using queue_count_now [of x s] it(1) by (simp add: nav_applicable_def nav_apply_def history_of_def)
      qed
      then show ?thesis using Cons Some rest [of 0] after by auto
    qed
  qed
  then show "canGoBack s \<Longrightarrow> fst (history_after s) \<noteq> []"
    and "current_entry s \<noteq> None \<Longrightarrow> fst (history_after s) \<noteq> [] \<Longrightarrow> canGoBack s"
    by (auto simp: canGoBack_def Let_def split: if_splits)
qed

lemma plain_allowed: "plain s \<Longrightarrow> nav_ok s \<Longrightarrow> plain_nav ev \<Longrightarrow> allowed_nav s ev"
  using canGoBack_plain(1) [of s] by (auto simp: allowed_nav_def plain_nav_def nav_applicable_def split: nav_event.splits)

lemma plain_run: "plain s \<Longrightarrow> nav_ok s \<Longrightarrow> \<forall>ev \<in> set es. plain_nav ev \<Longrightarrow>
    allowed_navs s es \<and> (\<exists>s'. nav_run s es = (None, s') \<and> plain s' \<and> nav_ok s')"
proof (induction es arbitrary: s)
  case (Cons ev es)
  have allowed: "allowed_nav s ev" using plain_allowed Cons by simp
  obtain t where "nav_step s ev = (None, t)" "nav_ok t" using nav_step_ok [OF Cons(3) allowed] by auto
  moreover from this have "plain t" using plain_step [OF Cons(2), of ev] Cons(4) by simp
  ultimately show ?case using Cons allowed by simp
qed simp

text \<open>C32: When every page is kept on the back stack (none is navigated to with \<open>backstackVisible\<close> false), no page is replaced and
  \<open>goBack\<close> is called without an entry, then \<open>canGoBack\<close> tells what the back stack will be after all that is queued: it says
  yes only when there will be a page to go back to, and once the frame has a current page it says no only when there will
  be none. So such calls, in whatever order, are allowed ones and nothing is thrown.\<close>

theorem canGoBack_predicts:
  assumes "\<forall>ev \<in> set es. plain_nav ev"
  shows "allowed_navs new_frame es \<and> (\<exists>s. nav_run new_frame es = (None, s) \<and>
    (let kept_pages = fst (foldl (nav_apply (store s)) (back_stack s, current_entry s) (nav_queue s)) in
      (canGoBack s \<longrightarrow> kept_pages \<noteq> []) \<and> (current_entry s \<noteq> None \<longrightarrow> kept_pages \<noteq> [] \<longrightarrow> canGoBack s)))"
proof -
  have "plain new_frame" by (simp add: plain_def new_frame_def)
  then obtain s where s: "allowed_navs new_frame es" "nav_run new_frame es = (None, s)" "plain s" "nav_ok s"
    using plain_run [OF _ new_frame_ok assms] by auto
  then show ?thesis using canGoBack_plain [OF s(3,4)] by (simp add: history_after_def history_of_def Let_def)
qed

theorem canGoBack_predicts_witness:
  "let es = [Load, Navigate False None, Navigate True (Some True), Go_Back None, Appear, Navigate False None, Appear, Go_Back None, Go_Back None]
   in allowed_navs new_frame es \<and> (\<exists>s. nav_run new_frame es = (None, s) \<and>
    (let kept_pages = fst (foldl (nav_apply (store s)) (back_stack s, current_entry s) (nav_queue s)) in
      (canGoBack s \<longrightarrow> kept_pages \<noteq> []) \<and> (current_entry s \<noteq> None \<longrightarrow> kept_pages \<noteq> [] \<longrightarrow> canGoBack s)))"
  unfolding Let_def [of "[_]"] Let_def [of "_ # _"] by (rule canGoBack_predicts) (simp add: plain_nav_def)

text \<open>A frame without a page whose queue clears the history is told not to go back, though it could.\<close>

lemma cannot_go_back_at_first:
  "let s = snd (nav_run new_frame [Navigate True None, Navigate False None]) in \<not> canGoBack s \<and> fst (history_after s) = [0]"
  by code_simp

end
