(* ===== verification/Frame_Stack.thy ===== *)
theory Frame_Stack
  imports Frame_Back
begin

text \<open>
  The stack of frames (\<^verbatim>\<open>ui/frame/frame-stack.js\<close>) and going back with the back button (\<open>goBack\<close> of
  \<^verbatim>\<open>ui/frame/frame-common.js\<close>): the frame that was navigated or selected last is the topmost one; when it cannot go back,
  the nearest frame around it that can does, and otherwise it leaves the stack. The tree of views gives the frames around
  each frame, the nearest first; the frames around it and the frame's own state do not change the stack, so the pushes of a
  step of a frame are done after the step.
\<close>

section \<open>The stack\<close>

record frame_world =
  frame_stack :: "nat list"
  in_frame_stack :: "nat \<Rightarrow> bool"
  frames :: "nat \<Rightarrow> frame_state"
  above :: "nat \<Rightarrow> nat list"
  shared_depth :: "int option"

definition topmost :: "frame_world \<Rightarrow> nat option" where
  "topmost w = (if 0 < length (frame_stack w) then Some (frame_stack w ! (length (frame_stack w) - 1)) else None)"

text \<open>\<open>a.splice(a.indexOf(x), 1)\<close>, which takes the last element when there is no \<open>x\<close>.\<close>

definition splice_at_index :: "'a \<Rightarrow> 'a list \<Rightarrow> 'a list" where
  "splice_at_index x xs = (case index_of xs x of None \<Rightarrow> butlast xs | Some i \<Rightarrow> splice1 i xs)"

definition pushInFrameStack :: "nat \<Rightarrow> frame_world \<Rightarrow> frame_world" where
  "pushInFrameStack f w =
     (if in_frame_stack w f \<and> topmost w = Some f then w
      else (let st = (if in_frame_stack w f then splice_at_index f (frame_stack w) else frame_stack w)
            in w\<lparr>frame_stack := st @ [f], in_frame_stack := (in_frame_stack w)(f := True)\<rparr>))"

definition popFromFrameStack :: "nat \<Rightarrow> frame_world \<Rightarrow> frame_world run" where
  "popFromFrameStack f w =
     (if \<not> in_frame_stack w f then (None, w)
      else if topmost w \<noteq> Some f then (Some ''Cannot pop a Frame which is not at the top of the navigation stack.'', w)
      else (None, w\<lparr>frame_stack := butlast (frame_stack w), in_frame_stack := (in_frame_stack w)(f := False)\<rparr>))"

definition removeFromFrameStack :: "nat \<Rightarrow> frame_world \<Rightarrow> frame_world" where
  "removeFromFrameStack f w =
     (if \<not> in_frame_stack w f then w
      else w\<lparr>frame_stack := splice_at_index f (frame_stack w), in_frame_stack := (in_frame_stack w)(f := False)\<rparr>)"

text \<open>The loop over the frames around a frame.\<close>

fun nested_within :: "nat list \<Rightarrow> nat \<Rightarrow> bool" where
  "nested_within [] candidate = False"
| "nested_within (a # as) candidate = (if a = candidate then True else nested_within as candidate)"

definition isNestedWithin :: "frame_world \<Rightarrow> nat \<Rightarrow> nat \<Rightarrow> bool" where
  "isNestedWithin w f candidate = nested_within (above w f) candidate"

definition pushInFrameStackRecursive :: "nat \<Rightarrow> frame_world \<Rightarrow> frame_world" where
  "pushInFrameStackRecursive f w =
     (let w1 = pushInFrameStack f w;
          framesToPush = [g \<leftarrow> frame_stack w1. isNestedWithin w1 g f]
      in fold pushInFrameStack framesToPush w1)"

section \<open>Going back\<close>

text \<open>The depth of the navigation is a variable of the module, which all frames share.\<close>

definition frame_now :: "nat \<Rightarrow> frame_world \<Rightarrow> frame_state" where
  "frame_now f w = (frames w f)\<lparr>nav_depth := shared_depth w\<rparr>"

definition frame_step :: "nat \<Rightarrow> nav_event \<Rightarrow> frame_world \<Rightarrow> frame_world run" where
  "frame_step f ev w =
     (case nav_step (frame_now f w) ev of
        (r, s) \<Rightarrow>
          (r, fold (\<lambda>e. if e = Pushed_In_Stack then pushInFrameStack f else id) (drop (length (nav_log (frames w f))) (nav_log s))
             (w\<lparr>frames := (frames w)(f := s), shared_depth := nav_depth s\<rparr>)))"

fun parent_that_can_go_back :: "frame_world \<Rightarrow> nat list \<Rightarrow> nat option" where
  "parent_that_can_go_back w [] = None"
| "parent_that_can_go_back w (a # as) = (if canGoBack (frames w a) then Some a else parent_that_can_go_back w as)"

definition pop_if_more :: "nat option \<Rightarrow> frame_world \<Rightarrow> frame_world run" where
  "pop_if_more t w =
     (if 1 < length (frame_stack w) then (case t of None \<Rightarrow> (Some ''TypeError'', w) | Some f \<Rightarrow> popFromFrameStack f w) else (None, w))"

definition frame_goBack :: "frame_world \<Rightarrow> bool \<times> frame_world run" where
  "frame_goBack w =
     (case topmost w of
        None \<Rightarrow> (False, pop_if_more None w)
      | Some t \<Rightarrow>
          (if canGoBack (frames w t) then (True, frame_step t (Go_Back None) w)
           else (case parent_that_can_go_back w (above w t) of
               Some p \<Rightarrow> (True, frame_step p (Go_Back None) w)
             | None \<Rightarrow> (False, pop_if_more (Some t) w))))"

datatype world_event = Frame_Event nat nav_event | Tab_Selected nat | Frame_Gone nat | Back_Button

fun world_step :: "frame_world \<Rightarrow> world_event \<Rightarrow> frame_world run" where
  "world_step w (Frame_Event f ev) = frame_step f ev w"
| "world_step w (Tab_Selected f) = (None, pushInFrameStackRecursive f w)"
| "world_step w (Frame_Gone f) = (None, removeFromFrameStack f w)"
| "world_step w Back_Button = snd (frame_goBack w)"

fun world_run :: "frame_world \<Rightarrow> world_event list \<Rightarrow> frame_world run" where
  "world_run w [] = (None, w)"
| "world_run w (e # es) = seq (world_step w e) (\<lambda>w. world_run w es)"

definition new_world :: "(nat \<Rightarrow> nat list) \<Rightarrow> frame_world" where
  "new_world tree = \<lparr>frame_stack = [], in_frame_stack = (\<lambda>f. False), frames = (\<lambda>f. new_frame), above = tree, shared_depth = Some (-1)\<rparr>"

section \<open>The stack stays consistent\<close>

definition stack_ok :: "frame_world \<Rightarrow> bool" where
  "stack_ok w \<longleftrightarrow> distinct (frame_stack w) \<and> (\<forall>f. in_frame_stack w f = (f \<in> set (frame_stack w)))"

lemma topmost_is: "topmost w = (if frame_stack w = [] then None else Some (last (frame_stack w)))"
  by (simp add: topmost_def last_conv_nth)

lemma nested_within_is [simp]: "nested_within as c = (c \<in> set as)"
  by (induction as) auto

lemma splice_at_index_is: "x \<in> set xs \<Longrightarrow> splice_at_index x xs = remove1 x xs"
  using splice_first_remove1 [of x xs] by (auto simp: splice_at_index_def splice_first_def js_array split: option.splits)

lemma drop_from_stack:
  assumes "distinct st"
  shows "(if f \<in> set st then splice_at_index f st else st) = [g \<leftarrow> st. g \<noteq> f]"
proof -
  have "remove1 f st = [g \<leftarrow> st. g \<noteq> f]" using assms by (induction st) (auto simp: filter_id_conv intro!: filter_True [symmetric])
  then show ?thesis by (auto simp: splice_at_index_is intro!: filter_True [symmetric])
qed

lemma push_is:
  assumes "stack_ok w"
  shows "stack_ok (pushInFrameStack f w)" "frame_stack (pushInFrameStack f w) = [g \<leftarrow> frame_stack w. g \<noteq> f] @ [f]"
    "frames (pushInFrameStack f w) = frames w"
proof -
  have ok: "distinct (frame_stack w)" "\<And>g. in_frame_stack w g = (g \<in> set (frame_stack w))" using assms by (auto simp: stack_ok_def)
  show st: "frame_stack (pushInFrameStack f w) = [g \<leftarrow> frame_stack w. g \<noteq> f] @ [f]"
  proof (cases "topmost w = Some f")
    case True
    then have "frame_stack w \<noteq> []" "last (frame_stack w) = f" by (auto simp: topmost_is split: if_splits)
    then obtain st where st: "frame_stack w = st @ [f]" by (metis append_butlast_last_id)
    then have "f \<notin> set st" using ok(1) by simp
    then have "[g \<leftarrow> st. g \<noteq> f] = st" by (auto simp: filter_id_conv)
    then show ?thesis using st True ok(2) by (simp add: pushInFrameStack_def)
  next
    case False
    then show ?thesis using drop_from_stack [OF ok(1), of f] ok(2) by (simp add: pushInFrameStack_def Let_def)
  qed
  have "in_frame_stack (pushInFrameStack f w) g = (in_frame_stack w g \<or> g = f)" for g
    by (auto simp: pushInFrameStack_def Let_def)
  then show "stack_ok (pushInFrameStack f w)" using ok st by (auto simp: stack_ok_def)
qed (simp add: pushInFrameStack_def Let_def)

lemma push_above [simp]: "above (pushInFrameStack f w) = above w"
  by (simp add: pushInFrameStack_def Let_def)

lemma fold_push_above [simp]: "above (fold pushInFrameStack gs w) = above w"
  by (induction gs arbitrary: w) simp_all

lemma remove_is:
  assumes "stack_ok w"
  shows "stack_ok (removeFromFrameStack f w)" "frames (removeFromFrameStack f w) = frames w"
  using assms by (auto simp: removeFromFrameStack_def stack_ok_def splice_at_index_is)

lemma fold_push:
  "stack_ok w \<Longrightarrow> distinct gs \<Longrightarrow>
    stack_ok (fold pushInFrameStack gs w) \<and> frame_stack (fold pushInFrameStack gs w) = [g \<leftarrow> frame_stack w. g \<notin> set gs] @ gs \<and>
    frames (fold pushInFrameStack gs w) = frames w"
proof (induction gs arbitrary: w)
  case (Cons g gs)
  have "[x \<leftarrow> frame_stack w. x \<noteq> g \<and> x \<notin> set gs] = [x \<leftarrow> frame_stack w. x \<notin> set (g # gs)]" by (auto intro: filter_cong)
  then show ?case using Cons push_is [OF Cons(2), of g] by (simp add: filter_empty_conv)
qed simp

lemma pushRecursive_is:
  assumes "stack_ok w"
  shows "stack_ok (pushInFrameStackRecursive f w)" "frames (pushInFrameStackRecursive f w) = frames w"
    "f \<notin> set (above w f) \<Longrightarrow> frame_stack (pushInFrameStackRecursive f w) =
      [g \<leftarrow> frame_stack w. g \<noteq> f \<and> f \<notin> set (above w g)] @ [f] @ [g \<leftarrow> frame_stack w. g \<noteq> f \<and> f \<in> set (above w g)]"
proof -
  define w1 where "w1 = pushInFrameStack f w"
  note w1 = push_is [OF assms, of f, folded w1_def]
  have "distinct [g \<leftarrow> frame_stack w1. isNestedWithin w1 g f]" using w1(1) by (simp add: stack_ok_def)
  note all = fold_push [OF w1(1) this]
  show "stack_ok (pushInFrameStackRecursive f w)" "frames (pushInFrameStackRecursive f w) = frames w"
    using all w1(3) by (simp_all add: pushInFrameStackRecursive_def flip: w1_def)
  assume f: "f \<notin> set (above w f)"
  have nested: "[g \<leftarrow> frame_stack w1. isNestedWithin w1 g f] = [g \<leftarrow> frame_stack w. g \<noteq> f \<and> f \<in> set (above w g)]"
    using f w1(2) by (simp add: isNestedWithin_def conj_commute w1_def)
  have "[g \<leftarrow> frame_stack w1. g \<notin> set [g \<leftarrow> frame_stack w. g \<noteq> f \<and> f \<in> set (above w g)]] =
    [g \<leftarrow> frame_stack w. g \<noteq> f \<and> f \<notin> set (above w g)] @ [f]"
    using w1(2) by (auto intro!: filter_cong)
  then show "frame_stack (pushInFrameStackRecursive f w) =
      [g \<leftarrow> frame_stack w. g \<noteq> f \<and> f \<notin> set (above w g)] @ [f] @ [g \<leftarrow> frame_stack w. g \<noteq> f \<and> f \<in> set (above w g)]"
    using all nested by (simp add: pushInFrameStackRecursive_def flip: w1_def)
qed

lemma fold_notes_above: "above (fold (\<lambda>e. if e = Pushed_In_Stack then pushInFrameStack f else id) es w) = above w"
  by (induction es arbitrary: w) simp_all

lemma fold_notes:
  "stack_ok w \<Longrightarrow> stack_ok (fold (\<lambda>e. if e = Pushed_In_Stack then pushInFrameStack f else id) es w) \<and>
    frames (fold (\<lambda>e. if e = Pushed_In_Stack then pushInFrameStack f else id) es w) = frames w"
  by (induction es arbitrary: w) (simp_all add: push_is)

lemma stack_ok_frames [simp]: "stack_ok (w\<lparr>frames := fs, shared_depth := d\<rparr>) = stack_ok w"
  by (simp add: stack_ok_def)

lemma frame_now_ok: "nav_ok (frame_now f w) = nav_ok (frames w f)" "plain (frame_now f w) = plain (frames w f)"
  by (auto simp: frame_now_def nav_ok_def entries_ok_def queue_ok_def native_in_step_def native_history_def history_of_def live_def page_of_def
    cong: option.case_cong)

lemma frame_step_is:
  assumes "stack_ok w" "frame_step f ev w = (r, w')"
  shows "stack_ok w'" "r = fst (nav_step (frame_now f w) ev)" "frames w' = (frames w)(f := snd (nav_step (frame_now f w) ev))"
proof -
  obtain r' s where s: "nav_step (frame_now f w) ev = (r', s)" by fastforce
  note fold_notes [of "w\<lparr>frames := (frames w)(f := s), shared_depth := nav_depth s\<rparr>" f "drop (length (nav_log (frames w f))) (nav_log s)"]
  then show "stack_ok w'" "r = fst (nav_step (frame_now f w) ev)" "frames w' = (frames w)(f := snd (nav_step (frame_now f w) ev))"
    using assms s by (auto simp: frame_step_def)
qed

lemma pop_is:
  assumes "stack_ok w" "topmost w = Some f"
  shows "\<exists>w'. pop_if_more (Some f) w = (None, w') \<and> stack_ok w' \<and> frames w' = frames w"
proof -
  have "frame_stack w \<noteq> [] \<and> last (frame_stack w) = f" using assms(2) by (auto simp: topmost_is split: if_splits)
  then obtain st where st: "frame_stack w = st @ [f]" by (metis append_butlast_last_id)
  then show ?thesis using assms by (auto simp: pop_if_more_def popFromFrameStack_def stack_ok_def)
qed

text \<open>What the back button does is a step of a frame or takes the topmost frame off the stack.\<close>

lemma back_button_is:
  assumes "stack_ok w"
  shows "(\<exists>f. frame_goBack w = (True, frame_step f (Go_Back None) w)) \<or>
    (\<exists>w'. frame_goBack w = (False, None, w') \<and> stack_ok w' \<and> frames w' = frames w)"
proof (cases "topmost w")
  case None
  then have "frame_stack w = []" by (auto simp: topmost_is split: if_splits)
  then show ?thesis using assms by (simp add: frame_goBack_def pop_if_more_def topmost_is)
next
  case (Some f)
  then show ?thesis using pop_is [OF assms Some]
    by (cases "parent_that_can_go_back w (above w f)") (auto simp: frame_goBack_def)
qed

lemma world_step_stack:
  assumes "stack_ok w"
  shows "stack_ok (snd (world_step w ev))"
proof (cases ev)
  case Back_Button
  show ?thesis using back_button_is [OF assms]
  proof
    assume "\<exists>f. frame_goBack w = (True, frame_step f (Go_Back None) w)"
    then obtain f where "frame_goBack w = (True, frame_step f (Go_Back None) w)" by blast
    then show ?thesis using frame_step_is(1) [OF assms, of f "Go_Back None"] Back_Button
      by (cases "frame_step f (Go_Back None) w") auto
  qed (use Back_Button in auto)
next
  case (Frame_Event f e)
  then show ?thesis using frame_step_is(1) [OF assms, of f e] by (cases "frame_step f e w") auto
qed (use pushRecursive_is(1) [OF assms] remove_is(1) [OF assms] in simp_all)

section \<open>All frames together\<close>

definition plain_event :: "world_event \<Rightarrow> bool" where
  "plain_event ev = (case ev of Frame_Event f e \<Rightarrow> plain_nav e | _ \<Rightarrow> True)"

definition world_ok :: "frame_world \<Rightarrow> bool" where
  "world_ok w \<longleftrightarrow> stack_ok w \<and> (\<forall>f. nav_ok (frames w f) \<and> plain (frames w f))"

lemma world_ok_frame:
  assumes "world_ok w" "plain_nav ev"
  shows "\<exists>w'. frame_step f ev w = (None, w') \<and> world_ok w'"
proof -
  have "nav_ok (frame_now f w)" "plain (frame_now f w)" using assms(1) by (simp_all add: world_ok_def frame_now_ok)
  then obtain s where s: "nav_step (frame_now f w) ev = (None, s)" "nav_ok s" "plain s"
    using nav_step_ok [of "frame_now f w" ev] plain_allowed plain_step [of "frame_now f w" ev] assms(2) by fastforce
  obtain r w' where w': "frame_step f ev w = (r, w')" by fastforce
  have "stack_ok w" using assms(1) by (simp add: world_ok_def)
  then have "r = None \<and> world_ok w'" using frame_step_is [OF _ w'] s assms(1) by (simp add: world_ok_def)
  then show ?thesis using w' by simp
qed

lemma world_step_ok:
  assumes "world_ok w" "plain_event ev"
  shows "\<exists>w'. world_step w ev = (None, w') \<and> world_ok w'"
proof (cases ev)
  case (Frame_Event f e)
  then show ?thesis using world_ok_frame [OF assms(1), of e f] assms(2) by (simp add: plain_event_def)
next
  case Back_Button
  have "stack_ok w" using assms(1) by (simp add: world_ok_def)
  then show ?thesis using back_button_is [of w] world_ok_frame [OF assms(1), of "Go_Back None"] Back_Button assms(1)
    by (auto simp: world_ok_def plain_nav_def)
qed (use assms(1) pushRecursive_is [of w] remove_is [of w] in \<open>auto simp: world_ok_def\<close>)

lemma world_run_ok: "world_ok w \<Longrightarrow> \<forall>ev \<in> set es. plain_event ev \<Longrightarrow> \<exists>w'. world_run w es = (None, w') \<and> world_ok w'"
proof (induction es arbitrary: w)
  case (Cons ev es)
  then obtain t where "world_step w ev = (None, t)" "world_ok t" using world_step_ok [of w ev] by auto
  then show ?case using Cons by auto
qed simp

text \<open>C33: Whatever is done with nested frames that keep every page on their back stacks, replace no page and go back only without
  giving an entry (\<open>plain_event\<close>), the back button included, nothing is thrown; the stack of frames has each of its
  frames once, with their flags in step, and a frame in which no navigation is under way shows its current page on top of
  the pages of its back stack.\<close>

theorem frames_stay_consistent:
  assumes "\<forall>ev \<in> set es. plain_event ev"
  shows "\<exists>w. world_run (new_world tree) es = (None, w) \<and> distinct (frame_stack w) \<and>
    (\<forall>f. in_frame_stack w f = (f \<in> set (frame_stack w)) \<and>
      (executing (frames w f) = None \<longrightarrow>
        controllers (frames w f) = entries_of (back_stack (frames w f), current_entry (frames w f)) \<and>
        showing (frames w f) = current_entry (frames w f)))"
proof -
  have "world_ok (new_world tree)"
    using new_frame_ok by (simp add: world_ok_def new_world_def stack_ok_def plain_def) (simp add: new_frame_def)
  then obtain w where w: "world_run (new_world tree) es = (None, w)" "world_ok w" using world_run_ok [OF _ assms] by blast
  have rest: "controllers (frames w f) = entries_of (back_stack (frames w f), current_entry (frames w f)) \<and>
      showing (frames w f) = current_entry (frames w f)" if "executing (frames w f) = None" for f
    using w(2) that by (simp add: world_ok_def nav_ok_def native_in_step_def native_history_def history_of_def)
  have "distinct (frame_stack w)" "\<forall>f. in_frame_stack w f = (f \<in> set (frame_stack w))" using w(2) by (simp_all add: world_ok_def stack_ok_def)
  then show ?thesis using w(1) rest by blast
qed

lemma world_run_stack: "stack_ok w \<Longrightarrow> stack_ok (snd (world_run w es))"
proof (induction es arbitrary: w)
  case (Cons ev es)
  then show ?case using world_step_stack [of w ev] by (cases "world_step w ev"; cases "fst (world_step w ev)") auto
qed simp

lemma frame_step_above: "above (snd (frame_step f ev w)) = above w"
  by (simp add: frame_step_def fold_notes_above split: prod.split)

lemma world_step_above: "above (snd (world_step w ev)) = above w"
  by (cases ev) (auto simp: frame_step_above pushInFrameStackRecursive_def removeFromFrameStack_def frame_goBack_def pop_if_more_def
    popFromFrameStack_def Let_def split: option.split)

lemma world_run_above: "above (snd (world_run w es)) = above w"
proof (induction es arbitrary: w)
  case (Cons ev es)
  then show ?case using world_step_above [of w ev] by (cases "world_step w ev"; cases "fst (world_step w ev)") auto
qed simp

text \<open>C34: A frame that is selected comes to the top of the stack with the frames nested in it, which keep their order on top of
  it, and the other frames keep theirs below.\<close>

theorem selected_frame_comes_on_top:
  assumes "f \<notin> set (tree f)"
  shows "let w = snd (world_run (new_world tree) es) in
    frame_stack (pushInFrameStackRecursive f w) =
      [g \<leftarrow> frame_stack w. g \<noteq> f \<and> f \<notin> set (tree g)] @ [f] @ [g \<leftarrow> frame_stack w. g \<noteq> f \<and> f \<in> set (tree g)]"
proof -
  have "stack_ok (new_world tree)" by (simp add: new_world_def stack_ok_def)
  then show ?thesis using pushRecursive_is(3) [OF world_run_stack, of "new_world tree" f es] assms
    by (simp add: Let_def world_run_above) (simp add: new_world_def)
qed

section \<open>Examples\<close>

text \<open>Frame 0 holds frame 1 and frame 2, in which is frame 3.\<close>

definition nested_frames :: "nat \<Rightarrow> nat list" where
  "nested_frames f = (if f = 1 \<or> f = 2 then [0] else if f = 3 then [2, 0] else [])"

definition visited_frames :: "world_event list" where
  "visited_frames = [Frame_Event 0 Load, Frame_Event 0 (Navigate False None), Frame_Event 0 Appear, Frame_Event 2 Load,
     Frame_Event 2 (Navigate False None), Frame_Event 3 (Navigate True None), Frame_Event 2 Appear, Frame_Event 1 (Navigate False None),
     Frame_Event 0 (Navigate False None), Frame_Event 0 Appear, Tab_Selected 2, Back_Button, Frame_Event 0 Appear, Back_Button, Frame_Gone 1]"

lemma visited_stack:
  "fst (world_run (new_world nested_frames) visited_frames) = None \<and>
    frame_stack (snd (world_run (new_world nested_frames) (take 11 visited_frames))) = [1, 0, 2, 3] \<and>
    frame_stack (snd (world_run (new_world nested_frames) (take 13 visited_frames))) = [1, 2, 3, 0] \<and>
    frame_stack (snd (world_run (new_world nested_frames) visited_frames)) = [2, 3]"
  by code_simp

lemma visited_plain: "\<forall>ev \<in> set visited_frames. plain_event ev"
  by (simp add: visited_frames_def plain_event_def plain_nav_def)

theorem frames_stay_consistent_witness:
  "\<exists>w. world_run (new_world nested_frames) visited_frames = (None, w) \<and> distinct (frame_stack w) \<and>
    (\<forall>f. in_frame_stack w f = (f \<in> set (frame_stack w)) \<and>
      (executing (frames w f) = None \<longrightarrow>
        controllers (frames w f) = entries_of (back_stack (frames w f), current_entry (frames w f)) \<and>
        showing (frames w f) = current_entry (frames w f)))"
  by (rule frames_stay_consistent [OF visited_plain])

theorem selected_frame_comes_on_top_witness:
  "let w = snd (world_run (new_world nested_frames) (take 10 visited_frames)) in
    frame_stack (pushInFrameStackRecursive 2 w) =
      [g \<leftarrow> frame_stack w. g \<noteq> 2 \<and> 2 \<notin> set (nested_frames g)] @ [2] @ [g \<leftarrow> frame_stack w. g \<noteq> 2 \<and> 2 \<in> set (nested_frames g)]"
  by (rule selected_frame_comes_on_top) (simp add: nested_frames_def)

end
