(* ===== verification/Module_Names.thy ===== *)
theory Module_Names
  imports Complex_Main NS_Prelude
begin

text \<open>
  The resolution of module names (\<^verbatim>\<open>module-name-resolver.js\<close>, \<^verbatim>\<open>qualifier-matcher.js\<close>): a module may be registered in
  variants, whose names have qualifiers between the path and the extension, such as \<^verbatim>\<open>main.minWH600.land.xml\<close>; the variant
  whose qualifiers suit the screen best is taken. Sizes are rationals. Keys of the cache that every object has from its prototype
  are left out.
\<close>

section \<open>Qualifiers\<close>

record screen_context =
  screen_width :: rat
  screen_height :: rat
  os_name :: string
  device_type :: string

datatype qualifier_kind = Min_WH | Min_W | Min_H | Orientation | Platform

definition supportedQualifiers :: "qualifier_kind list" where
  "supportedQualifiers = [Min_WH, Min_W, Min_H, Orientation, Platform]"

definition PRIORITY_STEP :: rat where
  "PRIORITY_STEP = 10000"

definition isMatch :: "qualifier_kind \<Rightarrow> string \<Rightarrow> bool" where
  "isMatch k v = (case k of
     Min_WH \<Rightarrow> find_sub ''minWH'' v = Some 0
   | Min_W \<Rightarrow> find_sub ''minW'' v = Some 0 \<and> find_sub ''minWH'' v = None
   | Min_H \<Rightarrow> find_sub ''minH'' v = Some 0 \<and> find_sub ''minWH'' v = None
   | Orientation \<Rightarrow> v = ''land'' \<or> v = ''port''
   | Platform \<Rightarrow> v = ''android'' \<or> v = ''ios'')"

definition size_value :: "string \<Rightarrow> rat \<Rightarrow> rat" where
  "size_value v actual =
     (case parseInt (dropWhile is_ws v) of
        None \<Rightarrow> -1
      | Some n \<Rightarrow> if actual < of_int n then -1 else PRIORITY_STEP - (actual - of_int n))"

definition getMatchValue :: "qualifier_kind \<Rightarrow> string \<Rightarrow> screen_context \<Rightarrow> rat" where
  "getMatchValue k v c = (case k of
     Min_WH \<Rightarrow> size_value (drop 5 v) (min (screen_width c) (screen_height c))
   | Min_W \<Rightarrow> size_value (drop 4 v) (screen_width c)
   | Min_H \<Rightarrow> size_value (drop 4 v) (screen_height c)
   | Orientation \<Rightarrow>
       (let isLandscape = (if screen_height c < screen_width c then 1 else -1)
        in if v = ''land'' then isLandscape else - isLandscape)
   | Platform \<Rightarrow> if v = map to_lower (os_name c) then 1 else -1)"

text \<open>The loop over the kinds that are left, of which there are \<open>supportedQualifiers.length - i\<close>.\<close>

fun check_kinds :: "qualifier_kind list \<Rightarrow> string \<Rightarrow> screen_context \<Rightarrow> rat" where
  "check_kinds [] v c = -1"
| "check_kinds (k # ks) v c =
     (if isMatch k v then
        (let r = getMatchValue k v c in if 0 < r then r + of_nat (length (k # ks)) * PRIORITY_STEP else r)
      else check_kinds ks v c)"

definition checkQualifier :: "string \<Rightarrow> screen_context \<Rightarrow> rat" where
  "checkQualifier v c = check_kinds supportedQualifiers v c"

fun check_loop :: "string list \<Rightarrow> screen_context \<Rightarrow> rat \<Rightarrow> rat" where
  "check_loop [] c acc = acc"
| "check_loop (q # qs) c acc =
     (if q = [] then check_loop qs c acc
      else (let v = checkQualifier q c in if v < 0 then -1 else check_loop qs c (acc + v)))"

definition checkQualifiers :: "string list \<Rightarrow> screen_context \<Rightarrow> rat" where
  "checkQualifiers qs c = check_loop qs c 0"

definition qualifiers_of :: "string \<Rightarrow> string \<Rightarrow> string \<Rightarrow> string list" where
  "qualifiers_of path ext filePath =
     split_char (CHR ''.'') (take (length filePath - length path - length ext) (drop (length path) filePath))"

fun find_loop :: "string \<Rightarrow> string \<Rightarrow> screen_context \<Rightarrow> string list \<Rightarrow> rat \<Rightarrow> string option \<Rightarrow> string option" where
  "find_loop path ext c [] best result = result"
| "find_loop path ext c (m # ms) best result =
     (let v = checkQualifiers (qualifiers_of path ext m) c
      in if 0 \<le> v \<and> best < v then find_loop path ext c ms v (Some m) else find_loop path ext c ms best result)"

definition findMatch :: "string \<Rightarrow> string \<Rightarrow> string list \<Rightarrow> screen_context \<Rightarrow> string option" where
  "findMatch path ext candidates c = find_loop path ext c candidates (-1) None"

section \<open>The resolver\<close>

definition getCandidates :: "string list \<Rightarrow> string \<Rightarrow> string \<Rightarrow> string list" where
  "getCandidates modules path ext = [m \<leftarrow> modules. prefix path m \<and> (ext = [] \<or> suffix ext m)]"

definition resolveModuleNameImpl :: "screen_context \<Rightarrow> string list \<Rightarrow> string \<Rightarrow> string option \<Rightarrow> string option" where
  "resolveModuleNameImpl c modules path ext =
     (let e = (case ext of None \<Rightarrow> [] | Some x \<Rightarrow> if x = [] then [] else CHR ''.'' # x)
      in findMatch path e (getCandidates modules path e) c)"

definition cache_key :: "string \<Rightarrow> string option \<Rightarrow> string" where
  "cache_key path ext = path @ (case ext of None \<Rightarrow> ''undefined'' | Some x \<Rightarrow> x)"

record resolver =
  res_context :: screen_context
  res_cache :: "string \<rightharpoonup> string option"

definition new_resolver :: "screen_context \<Rightarrow> resolver" where
  "new_resolver c = \<lparr>res_context = c, res_cache = Map.empty\<rparr>"

definition cached_resolve :: "string list \<Rightarrow> string \<Rightarrow> string option \<Rightarrow> resolver \<Rightarrow> string option \<times> resolver" where
  "cached_resolve modules path ext r =
     (case res_cache r (cache_key path ext) of
        Some m \<Rightarrow> (m, r)
      | None \<Rightarrow>
          (let m = resolveModuleNameImpl (res_context r) modules path ext
           in (m, r\<lparr>res_cache := (res_cache r)(cache_key path ext \<mapsto> m)\<rparr>)))"

record resolver_state =
  instance_now :: "resolver option"
  registered :: "string list"
  screen_now :: screen_context
  snapshot :: bool
  answers :: "string option list"

definition snapshot_context :: screen_context where
  "snapshot_context = \<lparr>screen_width = 400, screen_height = 800, os_name = ''Android'', device_type = ''Phone''\<rparr>"

definition resolveModuleName :: "string \<Rightarrow> string option \<Rightarrow> resolver_state \<Rightarrow> string option \<times> resolver_state" where
  "resolveModuleName path ext s =
     (if snapshot s then (fst (cached_resolve (registered s) path ext (new_resolver snapshot_context)), s)
      else (let r = (case instance_now s of None \<Rightarrow> new_resolver (screen_now s) | Some r \<Rightarrow> r);
                a = cached_resolve (registered s) path ext r
            in (fst a, s\<lparr>instance_now := Some (snd a)\<rparr>)))"

definition clearCache :: "resolver_state \<Rightarrow> resolver_state" where
  "clearCache s = s\<lparr>instance_now := map_option (\<lambda>r. r\<lparr>res_cache := Map.empty\<rparr>) (instance_now s)\<rparr>"

datatype resolver_event = Resolve string "string option" | Livesync | Orientation_Changed screen_context

fun resolver_step :: "resolver_state \<Rightarrow> resolver_event \<Rightarrow> resolver_state" where
  "resolver_step s (Resolve path ext) = (case resolveModuleName path ext s of (m, s) \<Rightarrow> s\<lparr>answers := answers s @ [m]\<rparr>)"
| "resolver_step s Livesync = clearCache s"
| "resolver_step s (Orientation_Changed c) = s\<lparr>screen_now := c, instance_now := None\<rparr>"

definition new_state :: "bool \<Rightarrow> string list \<Rightarrow> screen_context \<Rightarrow> resolver_state" where
  "new_state snap modules c = \<lparr>instance_now = None, registered = modules, screen_now = c, snapshot = snap, answers = []\<rparr>"

section \<open>What is found\<close>

lemma check_loop_is:
  "check_loop qs c acc =
    (if \<exists>q \<in> set qs. q \<noteq> [] \<and> checkQualifier q c < 0 then -1 else acc + sum_list (map (\<lambda>q. checkQualifier q c) (filter (\<lambda>q. q \<noteq> []) qs)))"
  by (induction qs arbitrary: acc) (auto simp: Let_def)

text \<open>A variant is suitable when each of its qualifiers is; \<open>worth\<close> adds up what they are worth.\<close>

definition suitable :: "screen_context \<Rightarrow> string list \<Rightarrow> bool" where
  "suitable c qs \<longleftrightarrow> (\<forall>q \<in> set qs. q \<noteq> [] \<longrightarrow> 0 \<le> checkQualifier q c)"

definition worth :: "screen_context \<Rightarrow> string list \<Rightarrow> rat" where
  "worth c qs = sum_list (map (\<lambda>q. checkQualifier q c) (filter (\<lambda>q. q \<noteq> []) qs))"

lemma worth_nonneg: "suitable c qs \<Longrightarrow> 0 \<le> worth c qs"
  by (auto simp: suitable_def worth_def intro!: sum_list_nonneg)

lemma checkQualifiers_is: "checkQualifiers qs c = (if suitable c qs then worth c qs else -1)"
proof (cases "suitable c qs")
  case True
  then have "(\<exists>q \<in> set qs. q \<noteq> [] \<and> checkQualifier q c < 0) = False" by (auto simp: suitable_def)
  then show ?thesis using True by (simp only: checkQualifiers_def check_loop_is worth_def if_False if_True add_0)
next
  case False
  then have "(\<exists>q \<in> set qs. q \<noteq> [] \<and> checkQualifier q c < 0) = True" by (auto simp: suitable_def)
  then show ?thesis using False by (simp only: checkQualifiers_def check_loop_is if_True if_False)
qed

text \<open>\<open>best\<close> is \<open>-1\<close> until something is found, and its worth afterwards.\<close>

definition found :: "(string \<Rightarrow> string list) \<Rightarrow> screen_context \<Rightarrow> string list \<Rightarrow> rat \<Rightarrow> string option \<Rightarrow> bool" where
  "found qs c ms best r \<longleftrightarrow> (case r of
     None \<Rightarrow> best = -1 \<and> (\<forall>m \<in> set ms. \<not> suitable c (qs m))
   | Some x \<Rightarrow> x \<in> set ms \<and> suitable c (qs x) \<and> best = worth c (qs x) \<and> (\<forall>m \<in> set ms. suitable c (qs m) \<longrightarrow> worth c (qs m) \<le> best))"

lemma found_step:
  assumes "found qs c ms best r"
  shows "found qs c (ms @ [m])
    (if 0 \<le> checkQualifiers (qs m) c \<and> best < checkQualifiers (qs m) c then checkQualifiers (qs m) c else best)
    (if 0 \<le> checkQualifiers (qs m) c \<and> best < checkQualifiers (qs m) c then Some m else r)"
  using assms worth_nonneg [of c "qs m"] by (cases r) (auto simp: found_def checkQualifiers_is)

lemma find_loop_found:
  "found (qualifiers_of path ext) c done best r \<Longrightarrow>
    \<exists>b. found (qualifiers_of path ext) c (done @ ms) b (find_loop path ext c ms best r)"
proof (induction ms arbitrary: "done" best r)
  case (Cons m ms)
  then show ?case using Cons.IH [OF found_step [OF Cons.prems, of m]]
    by (cases "0 \<le> checkQualifiers (qualifiers_of path ext m) c \<and> best < checkQualifiers (qualifiers_of path ext m) c")
      (simp_all add: Let_def del: de_Morgan_conj)
qed auto

text \<open>C35: What is resolved is a registered module of the path and the extension all of whose qualifiers suit the screen, and no
  other such module is worth more; nothing is resolved only when there is none.\<close>

theorem resolved_module_is_best:
  "let e = (case ext of None \<Rightarrow> [] | Some x \<Rightarrow> if x = [] then [] else CHR ''.'' # x);
       variants = {m \<in> set modules. prefix path m \<and> suffix e m \<and> suitable c (qualifiers_of path e m)}
   in (case resolveModuleNameImpl c modules path ext of
      None \<Rightarrow> variants = {}
    | Some m \<Rightarrow> m \<in> variants \<and> (\<forall>m' \<in> variants. worth c (qualifiers_of path e m') \<le> worth c (qualifiers_of path e m)))"
proof -
  define e where "e = (case ext of None \<Rightarrow> [] | Some x \<Rightarrow> if x = [] then [] else CHR ''.'' # x)"
  obtain b where b: "found (qualifiers_of path e) c (getCandidates modules path e) b (findMatch path e (getCandidates modules path e) c)"
    using find_loop_found [of path e c "[]" "-1" None "getCandidates modules path e"] by (auto simp: findMatch_def found_def)
  have cand: "set (getCandidates modules path e) = {m \<in> set modules. prefix path m \<and> suffix e m}"
    by (auto simp: getCandidates_def)
  have r: "resolveModuleNameImpl c modules path ext = findMatch path e (getCandidates modules path e) c"
    by (simp only: resolveModuleNameImpl_def Let_def e_def)
  show ?thesis
    using b unfolding r Let_def e_def [symmetric] found_def cand by (auto split: option.splits)
qed

section \<open>The order of the kinds\<close>

definition kind_of :: "string \<Rightarrow> qualifier_kind option" where
  "kind_of v = find (\<lambda>k. isMatch k v) supportedQualifiers"

definition rank :: "qualifier_kind \<Rightarrow> nat" where
  "rank k = (case k of Min_WH \<Rightarrow> 5 | Min_W \<Rightarrow> 4 | Min_H \<Rightarrow> 3 | Orientation \<Rightarrow> 2 | Platform \<Rightarrow> 1)"

lemma checkQualifier_is:
  "checkQualifier v c = (case kind_of v of
     None \<Rightarrow> -1
   | Some k \<Rightarrow> (if 0 < getMatchValue k v c then getMatchValue k v c + of_nat (rank k) * PRIORITY_STEP else getMatchValue k v c))"
  by (simp add: checkQualifier_def kind_of_def supportedQualifiers_def rank_def Let_def)

lemma getMatchValue_le: "getMatchValue k v c \<le> PRIORITY_STEP"
proof -
  have "size_value w a \<le> PRIORITY_STEP" for w a
    by (auto simp: size_value_def PRIORITY_STEP_def split: option.split)
  then show ?thesis by (cases k) (auto simp: getMatchValue_def PRIORITY_STEP_def Let_def)
qed

text \<open>A qualifier that suits the screen is worth more than any of a kind that comes later, whatever their sizes; within a kind
  the larger minimal size is worth more. This holds as long as the minimal size is less than 10000 below the screen's.\<close>

theorem qualifier_kinds_are_ranked:
  assumes "kind_of v = Some k" "0 < getMatchValue k v c" "kind_of w = Some l" "0 < getMatchValue l w c"
  shows "(rank l < rank k \<longrightarrow> checkQualifier w c < checkQualifier v c) \<and>
    (k = l \<longrightarrow> (checkQualifier w c < checkQualifier v c) = (getMatchValue k w c < getMatchValue k v c))"
proof -
  have val: "checkQualifier v c = getMatchValue k v c + of_nat (rank k) * PRIORITY_STEP"
    "checkQualifier w c = getMatchValue l w c + of_nat (rank l) * PRIORITY_STEP"
    using assms by (simp_all add: checkQualifier_is)
  have "checkQualifier w c < checkQualifier v c" if "rank l < rank k"
  proof -
    have "of_nat (rank l) + 1 \<le> (of_nat (rank k) :: rat)" using that by linarith
    then have "(of_nat (rank l) + 1) * PRIORITY_STEP \<le> of_nat (rank k) * PRIORITY_STEP"
      by (intro mult_right_mono) (simp_all add: PRIORITY_STEP_def)
    then show ?thesis using assms(2) getMatchValue_le [of l w c] by (simp add: val distrib_right)
  qed
  then show ?thesis by (auto simp: val)
qed

theorem qualifier_kinds_are_ranked_witness:
  "let c = \<lparr>screen_width = 768, screen_height = 1024, os_name = ''iOS'', device_type = ''Tablet''\<rparr> in
    checkQualifier ''minW600'' c < checkQualifier ''minWH300'' c"
  using qualifier_kinds_are_ranked [of "''minWH300''" Min_WH
    "\<lparr>screen_width = 768, screen_height = 1024, os_name = ''iOS'', device_type = ''Tablet''\<rparr>" "''minW600''" Min_W]
  by code_simp

section \<open>The cache\<close>

text \<open>What resolving afresh each time gives.\<close>

fun fresh_answers :: "bool \<Rightarrow> string list \<Rightarrow> screen_context \<Rightarrow> resolver_event list \<Rightarrow> string option list" where
  "fresh_answers snap modules c [] = []"
| "fresh_answers snap modules c (ev # es) =
     (case ev of
        Resolve path ext \<Rightarrow> resolveModuleNameImpl (if snap then snapshot_context else c) modules path ext # fresh_answers snap modules c es
      | Livesync \<Rightarrow> fresh_answers snap modules c es
      | Orientation_Changed c' \<Rightarrow> fresh_answers snap modules c' es)"

text \<open>Paths and extensions are told apart by their concatenation.\<close>

definition keys_differ :: "(string \<times> string option) set \<Rightarrow> bool" where
  "keys_differ P \<longleftrightarrow> inj_on (\<lambda>(path, ext). cache_key path ext) P"

definition requests :: "resolver_event list \<Rightarrow> (string \<times> string option) set" where
  "requests es = {(path, ext). Resolve path ext \<in> set es}"

definition entries_right :: "(string \<times> string option) set \<Rightarrow> string list \<Rightarrow> resolver \<Rightarrow> bool" where
  "entries_right P modules r \<longleftrightarrow> (\<forall>path ext m. (path, ext) \<in> P \<longrightarrow> res_cache r (cache_key path ext) = Some m \<longrightarrow>
     m = resolveModuleNameImpl (res_context r) modules path ext)"

definition cache_right :: "(string \<times> string option) set \<Rightarrow> resolver_state \<Rightarrow> bool" where
  "cache_right P s \<longleftrightarrow> (\<forall>r. instance_now s = Some r \<longrightarrow> res_context r = screen_now s \<and> entries_right P (registered s) r)"

lemma cached_resolve_right:
  assumes "keys_differ P" "(path, ext) \<in> P" "entries_right P modules r" "cached_resolve modules path ext r = (m, r')"
  shows "m = resolveModuleNameImpl (res_context r) modules path ext" "res_context r' = res_context r" "entries_right P modules r'"
proof -
  have same: "p = path \<and> e = ext" if "(p, e) \<in> P" "cache_key p e = cache_key path ext" for p e
    using assms(1,2) that by (auto simp: keys_differ_def inj_on_def)
  show "m = resolveModuleNameImpl (res_context r) modules path ext" "res_context r' = res_context r"
    using assms(2-4) by (auto simp: cached_resolve_def entries_right_def Let_def split: option.splits)
  have cache: "res_cache r' = res_cache r \<or> res_cache r' = (res_cache r)(cache_key path ext \<mapsto> m)"
    using assms(4) by (auto simp: cached_resolve_def Let_def split: option.splits)
  show "entries_right P modules r'"
    unfolding entries_right_def
  proof (intro allI impI)
    fix p e n assume p: "(p, e) \<in> P" "res_cache r' (cache_key p e) = Some n"
    show "n = resolveModuleNameImpl (res_context r') modules p e"
      using p cache assms(3) same [OF p(1)] \<open>m = _\<close> \<open>res_context r' = _\<close>
      by (cases "cache_key p e = cache_key path ext") (auto simp: entries_right_def)
  qed
qed

lemma new_resolver_right [simp]: "entries_right P modules (new_resolver c)" "res_context (new_resolver c) = c"
  by (simp_all add: entries_right_def new_resolver_def)

lemma resolver_step_right:
  assumes "keys_differ P" "requests [ev] \<subseteq> P" "cache_right P s"
  shows "cache_right P (resolver_step s ev) \<and> registered (resolver_step s ev) = registered s \<and> snapshot (resolver_step s ev) = snapshot s \<and>
    (\<forall>es. answers s @ fresh_answers (snapshot s) (registered s) (screen_now s) (ev # es) =
      answers (resolver_step s ev) @ fresh_answers (snapshot s) (registered s) (screen_now (resolver_step s ev)) es)"
proof (cases ev)
  case (Resolve path ext)
  then have P: "(path, ext) \<in> P" using assms(2) by (simp add: requests_def)
  show ?thesis
  proof (cases "snapshot s")
    case True
    then show ?thesis using Resolve assms(3)
      by (simp add: resolveModuleName_def cached_resolve_def cache_right_def Let_def) (simp add: new_resolver_def Let_def)
  next
    case False
    define r where "r = (case instance_now s of None \<Rightarrow> new_resolver (screen_now s) | Some r \<Rightarrow> r)"
    have r: "res_context r = screen_now s" "entries_right P (registered s) r"
      using assms(3) by (auto simp: r_def cache_right_def split: option.split)
    obtain m r' where a: "cached_resolve (registered s) path ext r = (m, r')" by fastforce
    have "resolver_step s ev = s\<lparr>instance_now := Some r', answers := answers s @ [m]\<rparr>"
      using Resolve False a by (simp add: resolveModuleName_def flip: r_def)
    then show ?thesis using Resolve False cached_resolve_right [OF assms(1) P r(2) a] r(1) by (simp add: cache_right_def)
  qed
qed (use assms(3) in \<open>auto simp: clearCache_def cache_right_def entries_right_def\<close>)

lemma resolver_run:
  "keys_differ P \<Longrightarrow> requests es \<subseteq> P \<Longrightarrow> cache_right P s \<Longrightarrow>
    answers (foldl resolver_step s es) = answers s @ fresh_answers (snapshot s) (registered s) (screen_now s) es"
proof (induction es arbitrary: s)
  case (Cons ev es)
  have "requests [ev] \<subseteq> P" "requests es \<subseteq> P" using Cons(3) by (auto simp: requests_def)
  then show ?case using Cons(1) [OF Cons(2)] resolver_step_right [OF Cons(2) _ Cons(4), of ev] by simp
qed simp

text \<open>C36: The cache is not seen: as long as the registered modules stay the same and no two different requests have the same
  cache key, each answer is what resolving afresh on the present screen gives, through live syncs and turns of the device.\<close>

theorem cached_resolution_is_fresh:
  assumes "keys_differ (requests es)"
  shows "answers (foldl resolver_step (new_state snap modules c) es) = fresh_answers snap modules c es"
  using resolver_run [OF assms order_refl, of "new_state snap modules c"] by (simp add: new_state_def cache_right_def)

section \<open>Examples\<close>

definition phone :: screen_context where
  "phone = \<lparr>screen_width = 375, screen_height = 667, os_name = ''iOS'', device_type = ''Phone''\<rparr>"

theorem resolved_module_is_best_witness:
  "let e = ''.xml'';
       variants = {m \<in> set [''main.xml'', ''main.port.xml'', ''main.land.xml'']. prefix ''main'' m \<and> suffix e m \<and>
         suitable phone (qualifiers_of ''main'' e m)}
   in \<exists>m \<in> variants. resolveModuleNameImpl phone [''main.xml'', ''main.port.xml'', ''main.land.xml''] ''main'' (Some ''xml'') = Some m \<and>
     (\<forall>m' \<in> variants. worth phone (qualifiers_of ''main'' e m') \<le> worth phone (qualifiers_of ''main'' e m))"
proof -
  have r: "resolveModuleNameImpl phone [''main.xml'', ''main.port.xml'', ''main.land.xml''] ''main'' (Some ''xml'') = Some ''main.port.xml''"
    by code_simp
  then show ?thesis
    using resolved_module_is_best [of "Some ''xml''" "[''main.xml'', ''main.port.xml'', ''main.land.xml'']" "''main''" phone] by simp
qed

theorem cached_resolution_is_fresh_witness:
  "let es = [Resolve ''main'' (Some ''xml''), Resolve ''main'' None, Orientation_Changed (phone\<lparr>screen_width := 667, screen_height := 375\<rparr>),
     Resolve ''main'' (Some ''xml''), Livesync, Resolve ''main'' (Some ''xml'')];
       modules = [''main.xml'', ''main.land.xml'', ''main.minW600.xml'']
   in answers (foldl resolver_step (new_state False modules phone) es) = fresh_answers False modules phone es"
  unfolding Let_def by (rule cached_resolution_is_fresh) (auto simp: requests_def keys_differ_def inj_on_def cache_key_def)

text \<open>The qualifiers need no dot before them: a module whose name goes on with a qualifier is taken for a variant.\<close>

lemma unseparated_qualifier:
  "resolveModuleNameImpl phone [''main.xml'', ''mainport.xml''] ''main'' (Some ''xml'') = Some ''mainport.xml''"
  by code_simp

text \<open>Two requests with the same key: the second has the answer of the first.\<close>

lemma same_key:
  "resolveModuleNameImpl phone [''main.xml'', ''mainxml''] ''mainxml'' (Some []) = Some ''mainxml'' \<and>
    answers (foldl resolver_step (new_state False [''main.xml'', ''mainxml''] phone)
      [Resolve ''main'' (Some ''xml''), Resolve ''mainxml'' (Some [])]) = [Some ''main.xml'', Some ''main.xml'']"
  by code_simp

end
