(* ===== verification/Flexbox_Layout.thy ===== *)
theory Flexbox_Layout
  imports Layout_Place
begin

text \<open>
  Measuring of \<open>FlexboxLayout\<close> (\<^verbatim>\<open>ui/layouts/flexbox-layout\<close>): the visible children, in the order of their \<open>order\<close>, are
  put into lines; the children of a line grow or shrink along the main axis, the lines share the cross axis, and children
  are stretched to the cross size of their line.

  The functions for rows and for columns are one function with the axis as an argument (\<open>hz\<close> for a row). The loops over
  all children and over the children of a line are over lists; the code's branch for a child that is not there is never
  taken. The bounds of a line, which nothing reads, its dividers, of length 0, and \<open>FlexBasisPercent\<close>, which compares a
  constant with itself, are left out. \<open>Number.MIN_VALUE\<close>, where the maxima start, is a number like all others, except
  that a sum of lengths absorbs it (\<open>absorbed\<close>).
\<close>

section \<open>Items and lines\<close>

datatype flex_direction = ROW | ROW_REVERSE | COLUMN | COLUMN_REVERSE
datatype flex_wrap = NOWRAP | WRAP | WRAP_REVERSE
datatype justify_content = Justify_Start | Justify_End | Justify_Center | Justify_Between | Justify_Around
datatype align_items = Items_Start | Items_End | Items_Center | Items_Baseline | Items_Stretch
datatype align_content = Content_Start | Content_End | Content_Center | Content_Between | Content_Around | Content_Stretch

text \<open>What the style of any view says of it as an item; \<open>None\<close> is \<open>auto\<close>.\<close>

record flex_item = view +
  item_order :: int
  flexGrow :: rat
  flexShrink :: rat
  flexWrapBefore :: bool
  alignSelf :: "align_items option"

record flex_line =
  mainSize :: rat
  crossSize :: rat
  itemCount :: nat
  totalFlexGrow :: rat
  totalFlexShrink :: rat
  maxBaseline :: rat
  indicesAlignSelfStretch :: "nat list"

definition new_line :: flex_line where
  "new_line = \<lparr>mainSize = 0, crossSize = 0, itemCount = 0, totalFlexGrow = 0, totalFlexShrink = 0, maxBaseline = 0,
     indicesAlignSelfStretch = []\<rparr>"

record 'c flex_layout = "'c layout_view" +
  flexDirection :: flex_direction
  flexWrap :: flex_wrap
  justifyContent :: justify_content
  alignItems :: align_items
  alignContent :: align_content
  orderCache :: "int list"
  reorderedIndices :: "nat list"
  measureContext :: "nat list"
  flexLines :: "flex_line list"

definition MAX_SIZE :: rat where "MAX_SIZE = from_int32 (0x00FFFFFF AND MEASURED_SIZE_MASK)"
definition MIN_VALUE :: rat where "MIN_VALUE = 1 / 2 ^ 1074"
lemma MIN_VALUE_code [code]: "MIN_VALUE = 1 / ((2 ^ 32) ^ 32 * 2 ^ 50)"
  unfolding MIN_VALUE_def by (simp flip: power_mult power_add)

definition MATCH_PARENT :: rat where "MATCH_PARENT = - 1"
definition WRAP_CONTENT :: rat where "WRAP_CONTENT = - 2"

text \<open>A double that is at least 1 has no fraction less than \<open>2\<^sup>-\<^sup>5\<^sup>2\<close>: of a sum with \<open>MIN_VALUE\<close> in it the rest is left.\<close>

definition absorbed :: "rat \<Rightarrow> rat" where
  "absorbed x = (if 1 \<le> x \<and> x - of_int \<lfloor>x\<rfloor> < 1 / 2 ^ 52 then of_int \<lfloor>x\<rfloor> else x)"

definition getBaseline :: "'a view_scheme \<Rightarrow> rat" where
  "getBaseline v = 0"

definition along :: "bool \<Rightarrow> 'a view_scheme \<Rightarrow> rat" where
  "along hz v = (if hz then measured_width v else measured_height v)"

definition margins_along :: "bool \<Rightarrow> 'a view_scheme \<Rightarrow> rat" where
  "margins_along hz v = (if hz then horizontal_margins v else vertical_margins v)"

definition padding_along :: "bool \<Rightarrow> 'a view_scheme \<Rightarrow> rat" where
  "padding_along hz v = (if hz then ins_left (padding v) + ins_right (padding v) else ins_top (padding v) + ins_bottom (padding v))"

section \<open>The order of the items\<close>

definition isOrderChanged :: "int list \<Rightarrow> int list \<Rightarrow> bool" where
  "isOrderChanged cache orders \<longleftrightarrow> length cache \<noteq> length orders \<or> list_ex (\<lambda>i. orders ! i \<noteq> cache ! i) [0..<length orders]"

text \<open>\<open>compareTo\<close> compares the orders and then the indices: sorting the orders, given with increasing indices, is stable.\<close>

definition createReorderedIndices :: "int list \<Rightarrow> int list \<times> nat list" where
  "createReorderedIndices orders =
     (let sorted = sort_key fst (zip orders [0..<length orders]) in (map fst sorted, map snd sorted))"

definition new_context :: "('a flex_item_scheme, 'b) flex_layout_scheme \<Rightarrow> ('a flex_item_scheme, 'b) flex_layout_scheme" where
  "new_context this =
     (let ctx = [i \<leftarrow> [0..<length (subViews this)]. \<not> isCollapsed (subViews this ! i)];
          orders = map (\<lambda>i. item_order (subViews this ! i)) ctx;
          this1 = this\<lparr>measureContext := ctx\<rparr>
      in if isOrderChanged (orderCache this) orders then
           (case createReorderedIndices orders of (cache, indices) \<Rightarrow> this1\<lparr>orderCache := cache, reorderedIndices := indices\<rparr>)
         else this1)"

text \<open>Where the items are among the children, in their order.\<close>

definition item_places :: "('c, 'b) flex_layout_scheme \<Rightarrow> nat list" where
  "item_places this = map (\<lambda>j. measureContext this ! j) (reorderedIndices this)"

definition items :: "('c, 'b) flex_layout_scheme \<Rightarrow> 'c list" where
  "items this = map (\<lambda>i. subViews this ! i) (item_places this)"

definition put_items :: "'c list \<Rightarrow> ('c, 'b) flex_layout_scheme \<Rightarrow> ('c, 'b) flex_layout_scheme" where
  "put_items cs this = this\<lparr>subViews := fold (\<lambda>(i, c) vs. vs[i := c]) (zip (item_places this) cs) (subViews this)\<rparr>"

section \<open>Loops\<close>

fun for_items :: "(nat \<Rightarrow> bool \<Rightarrow> 'c \<Rightarrow> 's \<Rightarrow> string + 'c \<times> 's) \<Rightarrow> nat \<Rightarrow> 'c list \<Rightarrow> 's \<Rightarrow> string + 'c list \<times> 's" where
  "for_items f i [] s = Inr ([], s)"
| "for_items f i (c # cs) s =
     and_then (f i (cs = []) c s) (\<lambda>(c', s1). and_then (for_items f (Suc i) cs s1) (\<lambda>(cs', s2). Inr (c' # cs', s2)))"

text \<open>The \<open>n\<close> items from \<open>start\<close> on.\<close>

definition for_slice :: "(nat \<Rightarrow> bool \<Rightarrow> 'c \<Rightarrow> 's \<Rightarrow> string + 'c \<times> 's) \<Rightarrow> nat \<Rightarrow> nat \<Rightarrow> 'c list \<Rightarrow> 's \<Rightarrow> string + 'c list \<times> 's" where
  "for_slice f start n cs s =
     and_then (for_items f start (take n (drop start cs)) s)
       (\<lambda>(mid, s'). Inr (take start cs @ mid @ drop (start + n) cs, s'))"

section \<open>Putting the items into lines\<close>

definition flex_getChildMeasureSpec :: "32 word \<Rightarrow> rat \<Rightarrow> rat \<Rightarrow> 32 word" where
  "flex_getChildMeasureSpec spec pad childDimension =
     (let specMode = getMeasureSpecMode spec; size = max 0 (getMeasureSpecSize spec - pad) in
      if specMode = EXACTLY then
        (if 0 \<le> childDimension then makeMeasureSpec childDimension EXACTLY
         else if childDimension = MATCH_PARENT then makeMeasureSpec size EXACTLY
         else if childDimension = WRAP_CONTENT then makeMeasureSpec size AT_MOST
         else makeMeasureSpec 0 0)
      else if specMode = AT_MOST then
        (if 0 \<le> childDimension then makeMeasureSpec childDimension EXACTLY
         else if childDimension = MATCH_PARENT then makeMeasureSpec size AT_MOST
         else if childDimension = WRAP_CONTENT then makeMeasureSpec size AT_MOST
         else makeMeasureSpec 0 0)
      else if specMode = UNSPECIFIED then
        (if 0 \<le> childDimension then makeMeasureSpec childDimension EXACTLY else makeMeasureSpec 0 UNSPECIFIED)
      else makeMeasureSpec 0 0)"

definition length_or_wrap :: "rat \<Rightarrow> rat" where
  "length_or_wrap len = (if len < 0 then WRAP_CONTENT else len)"

definition checkSizeConstraints :: "'a view_scheme on_measure \<Rightarrow> 'a view_scheme \<Rightarrow> string + 'a view_scheme" where
  "checkSizeConstraints om v =
     (let w = measured_width v; h = measured_height v; minW = effectiveMinWidth v; minH = effectiveMinHeight v;
          w' = (if w < minW then minW else if MAX_SIZE < w then MAX_SIZE else w);
          h' = (if h < minH then minH else if MAX_SIZE < h then MAX_SIZE else h)
      in if w < minW \<or> MAX_SIZE < w \<or> h < minH \<or> MAX_SIZE < h then
           and_then (measure om (makeMeasureSpec w' EXACTLY) (makeMeasureSpec h' EXACTLY)
                       (v\<lparr>effectiveMinWidth := 0, effectiveMinHeight := 0\<rparr>))
             (\<lambda>v'. Inr (v'\<lparr>effectiveMinWidth := minW, effectiveMinHeight := minH\<rparr>))
         else Inr v)"

definition isWrapRequired :: "flex_wrap \<Rightarrow> 'a flex_item_scheme \<Rightarrow> 32 word \<Rightarrow> rat \<Rightarrow> rat \<Rightarrow> rat \<Rightarrow> bool" where
  "isWrapRequired fw child mode maxSize currentLength childLength \<longleftrightarrow>
     (if fw = NOWRAP then False
      else if flexWrapBefore child then True
      else if mode = UNSPECIFIED then False
      else maxSize < currentLength + childLength)"

text \<open>What the loop over the items keeps: the line, the largest cross length in it, the states of the items, and the lines that
  are done.\<close>

record flex_state =
  line :: flex_line
  largestInLine :: rat
  childState :: "32 word"
  doneLines :: "flex_line list"

definition addFlexLineIfLast :: "bool \<Rightarrow> flex_state \<Rightarrow> flex_state" where
  "addFlexLineIfLast is_last st =
     (if is_last \<and> itemCount (line st) \<noteq> 0 then st\<lparr>doneLines := doneLines st @ [line st]\<rparr> else st)"

definition add_item :: "bool \<Rightarrow> flex_wrap \<Rightarrow> rat \<Rightarrow> 32 word \<Rightarrow> rat \<Rightarrow> 'a flex_item_scheme \<Rightarrow> flex_state \<Rightarrow> flex_state" where
  "add_item hz fw pad mode maxSize child st =
     (let len = along hz child + margins_along hz child; across = along (\<not> hz) child + margins_along (\<not> hz) child;
          st1 = (if isWrapRequired fw child mode maxSize (mainSize (line st)) len then
                   st\<lparr>doneLines := (if 0 < itemCount (line st) then doneLines st @ [line st] else doneLines st),
                      line := new_line\<lparr>itemCount := 1, mainSize := pad\<rparr>, largestInLine := across\<rparr>
                 else st\<lparr>line := (line st)\<lparr>itemCount := itemCount (line st) + 1\<rparr>,
                      largestInLine := max (largestInLine st) across\<rparr>);
          l = line st1;
          baseline = (if \<not> hz then maxBaseline l
            else if fw \<noteq> WRAP_REVERSE then max (maxBaseline l) (getBaseline child + effectiveMarginTop child)
            else max (maxBaseline l) (measured_height child - getBaseline child + effectiveMarginBottom child))
      in st1\<lparr>line := l\<lparr>mainSize := mainSize l + len, totalFlexGrow := totalFlexGrow l + flexGrow child,
           totalFlexShrink := totalFlexShrink l + flexShrink child, crossSize := max (crossSize l) (largestInLine st1),
           maxBaseline := baseline\<rparr>\<rparr>)"

definition measure_item :: "'a flex_item_scheme on_measure \<Rightarrow> rat \<Rightarrow> bool \<Rightarrow> ('a flex_item_scheme, 'b) flex_layout_scheme \<Rightarrow>
    32 word \<Rightarrow> 32 word \<Rightarrow> nat \<Rightarrow> bool \<Rightarrow> 'a flex_item_scheme \<Rightarrow> flex_state \<Rightarrow> string + 'a flex_item_scheme \<times> flex_state" where
  "measure_item om density hz this ws hs i is_last child st =
     (if isCollapsed child then
        Inr (child, addFlexLineIfLast is_last (st\<lparr>line := (line st)\<lparr>itemCount := itemCount (line st) + 1\<rparr>\<rparr>))
      else
        (let c = updateEffectiveLayoutValues density (getMeasureSpecSize ws) (getMeasureSpecMode ws)
                   (getMeasureSpecSize hs) (getMeasureSpecMode hs) child;
             st1 = (if alignSelf c = Some Items_Stretch
                    then st\<lparr>line := (line st)\<lparr>indicesAlignSelfStretch := indicesAlignSelfStretch (line st) @ [i]\<rparr>\<rparr> else st);
             wpad = (if hz then padding_along True c else padding_along True this);
             hpad = (if hz then padding_along False c else padding_along False this);
             cws = flex_getChildMeasureSpec ws (wpad + horizontal_margins c) (length_or_wrap (effectiveWidth c));
             chs = flex_getChildMeasureSpec hs (hpad + vertical_margins c) (length_or_wrap (effectiveHeight c));
             mode = getMeasureSpecMode (if hz then ws else hs); maxSize = getMeasureSpecSize (if hz then ws else hs)
         in and_then (measure om cws chs c)
              (\<lambda>c1. and_then (checkSizeConstraints om c1)
                (\<lambda>c2. Inr (c2, addFlexLineIfLast is_last
                   (add_item hz (flexWrap this) (padding_along hz this) mode maxSize c2
                      (st1\<lparr>childState := childState st1 OR getMeasuredState c2\<rparr>)))))))"

definition measure_lines :: "'a flex_item_scheme on_measure \<Rightarrow> rat \<Rightarrow> bool \<Rightarrow> ('a flex_item_scheme, 'b) flex_layout_scheme \<Rightarrow>
    32 word \<Rightarrow> 32 word \<Rightarrow> 'a flex_item_scheme list \<Rightarrow> string + 'a flex_item_scheme list \<times> flex_state" where
  "measure_lines om density hz this ws hs cs =
     for_items (measure_item om density hz this ws hs) 0 cs
       \<lparr>line = new_line\<lparr>mainSize := padding_along hz this\<rparr>, largestInLine = MIN_VALUE, childState = 0, doneLines = []\<rparr>"

end
