(* ===== verification/Flexbox_Measure.thy ===== *)
theory Flexbox_Measure
  imports Flexbox_Layout
begin

text \<open>
  Measuring of \<open>FlexboxLayout\<close>, continued: the items of a line grow or shrink until the line has the main size, or none is left
  that can; the lines share the cross size; items are stretched; the layout takes its size. An item that has reached its
  limit is frozen; each time the items of a line are gone over again there is a frozen one more.
\<close>

section \<open>Growing and shrinking\<close>

record grow_state =
  growing :: flex_line
  frozen :: "nat set"
  roundError :: rat
  needsMore :: bool

definition add_along :: "rat \<Rightarrow> grow_state \<Rightarrow> grow_state" where
  "add_along x st = st\<lparr>growing := (growing st)\<lparr>mainSize := mainSize (growing st) + x\<rparr>\<rparr>"

definition expand_size :: "bool \<Rightarrow> rat \<Rightarrow> nat \<Rightarrow> 'a flex_item_scheme \<Rightarrow> grow_state \<Rightarrow> rat \<times> grow_state" where
  "expand_size hz unitSpace i child st =
     (let raw = along hz child + unitSpace * flexGrow child + roundError st; rounded = of_int (js_round raw) in
      if MAX_SIZE < rounded then
        (MAX_SIZE, st\<lparr>needsMore := True, frozen := insert i (frozen st),
           growing := (growing st)\<lparr>totalFlexGrow := totalFlexGrow (growing st) - flexGrow child\<rparr>\<rparr>)
      else (rounded, st\<lparr>roundError := raw - rounded\<rparr>))"

definition expand_item :: "'a flex_item_scheme on_measure \<Rightarrow> bool \<Rightarrow> rat \<Rightarrow> nat \<Rightarrow> bool \<Rightarrow> 'a flex_item_scheme \<Rightarrow> grow_state \<Rightarrow>
    string + 'a flex_item_scheme \<times> grow_state" where
  "expand_item om hz unitSpace i is_last child st =
     (if isCollapsed child then Inr (child, st)
      else if i \<in> frozen st then Inr (child, add_along (along hz child + margins_along hz child) st)
      else
        (case expand_size hz unitSpace i child st of (sz, st1) \<Rightarrow>
           and_then (measure om (makeMeasureSpec (if hz then sz else measured_width child) EXACTLY)
                       (makeMeasureSpec (if hz then measured_height child else sz) EXACTLY) child)
             (\<lambda>c. Inr (c, add_along (along hz c + margins_along hz c) st1))))"

definition least_along :: "bool \<Rightarrow> 'a view_scheme \<Rightarrow> rat" where
  "least_along hz v = (if hz then effectiveMinWidth v else effectiveMinHeight v)"

definition shrink_size :: "bool \<Rightarrow> rat \<Rightarrow> nat \<Rightarrow> 'a flex_item_scheme \<Rightarrow> grow_state \<Rightarrow> rat \<times> grow_state" where
  "shrink_size hz unitShrink i child st =
     (let raw = along hz child - unitShrink * flexShrink child + roundError st; rounded = of_int (js_round raw) in
      if rounded < least_along hz child then
        (least_along hz child, st\<lparr>needsMore := True, frozen := insert i (frozen st),
           growing := (growing st)\<lparr>totalFlexShrink := totalFlexShrink (growing st) - flexShrink child\<rparr>\<rparr>)
      else (rounded, st\<lparr>roundError := raw - rounded\<rparr>))"

text \<open>A child is measured while it has no minimum along the axis. \<open>hs\<close> is the layout's own height spec.\<close>

definition measure_shrunk :: "'a flex_item_scheme on_measure \<Rightarrow> bool \<Rightarrow> 32 word \<Rightarrow> rat \<Rightarrow> 'a flex_item_scheme \<Rightarrow>
    string + 'a flex_item_scheme" where
  "measure_shrunk om hz hs sz child =
     (if hz then
        and_then (measure om (makeMeasureSpec sz EXACTLY)
                    (flex_getChildMeasureSpec hs (padding_along False child + vertical_margins child)
                       (length_or_wrap (effectiveHeight child)))
                    (child\<lparr>effectiveMinWidth := 0\<rparr>))
          (\<lambda>c. Inr (c\<lparr>effectiveMinWidth := effectiveMinWidth child\<rparr>))
      else
        and_then (measure om (makeMeasureSpec (measured_width child) EXACTLY) (makeMeasureSpec sz EXACTLY)
                    (child\<lparr>effectiveMinHeight := 0\<rparr>))
          (\<lambda>c. Inr (c\<lparr>effectiveMinHeight := effectiveMinHeight child\<rparr>)))"

definition widen_across :: "bool \<Rightarrow> 'a view_scheme \<Rightarrow> grow_state \<Rightarrow> grow_state" where
  "widen_across hz c st =
     (if hz then st\<lparr>growing := (growing st)\<lparr>crossSize := max (crossSize (growing st)) (measured_height c + vertical_margins c)\<rparr>\<rparr> else st)"

definition shrink_item :: "'a flex_item_scheme on_measure \<Rightarrow> bool \<Rightarrow> 32 word \<Rightarrow> rat \<Rightarrow> nat \<Rightarrow> bool \<Rightarrow> 'a flex_item_scheme \<Rightarrow>
    grow_state \<Rightarrow> string + 'a flex_item_scheme \<times> grow_state" where
  "shrink_item om hz hs unitShrink i is_last child st =
     (if isCollapsed child then Inr (child, st)
      else if i \<in> frozen st then Inr (child, add_along (along hz child + margins_along hz child) st)
      else
        (case shrink_size hz unitShrink i child st of (sz, st1) \<Rightarrow>
           and_then (measure_shrunk om hz hs sz child)
             (\<lambda>c. Inr (c, add_along (along hz c + margins_along hz c) (widen_across hz c st1)))))"

definition start_growing :: "rat \<Rightarrow> flex_line \<Rightarrow> nat set \<Rightarrow> grow_state" where
  "start_growing pad l fr = \<lparr>growing = l\<lparr>mainSize := pad\<rparr>, frozen = fr, roundError = 0, needsMore = False\<rparr>"

text \<open>Going over the items only freezes more of them.\<close>

lemma add_along_simps [simp]: "frozen (add_along x st) = frozen st" "needsMore (add_along x st) = needsMore st"
  "roundError (add_along x st) = roundError st" "growing (add_along x st) = (growing st)\<lparr>mainSize := mainSize (growing st) + x\<rparr>"
  by (simp_all add: add_along_def)

definition freezes :: "nat \<Rightarrow> nat \<Rightarrow> grow_state \<Rightarrow> grow_state \<Rightarrow> bool" where
  "freezes i j s s' \<longleftrightarrow> frozen s \<subseteq> frozen s' \<and> frozen s' \<subseteq> frozen s \<union> {i..<j} \<and>
     (needsMore s' \<longrightarrow> needsMore s \<or> frozen s \<noteq> frozen s') \<and> itemCount (growing s') = itemCount (growing s) \<and>
     crossSize (growing s) \<le> crossSize (growing s')"

lemma freezes_refl [simp]: "freezes i j s s"
  by (simp add: freezes_def)

lemma freezes_trans:
  assumes "freezes i j s t" "freezes j k t u" "i \<le> j" "j \<le> k"
  shows "freezes i k s u"
proof -
  have ivl: "{i..<j} \<union> {j..<k} = {i..<k}" using assms(3,4) by (rule ivl_disj_un_two(3))
  have st: "frozen s \<subseteq> frozen t" "frozen t \<subseteq> frozen s \<union> {i..<j}" "needsMore t \<longrightarrow> needsMore s \<or> frozen s \<noteq> frozen t"
    and tu: "frozen t \<subseteq> frozen u" "frozen u \<subseteq> frozen t \<union> {j..<k}" "needsMore u \<longrightarrow> needsMore t \<or> frozen t \<noteq> frozen u"
    and n: "itemCount (growing u) = itemCount (growing s)" "crossSize (growing s) \<le> crossSize (growing u)"
    using assms(1,2) by (simp_all add: freezes_def)
  have "frozen u \<subseteq> frozen s \<union> ({i..<j} \<union> {j..<k})" using st(2) tu(2) by blast
  moreover have "frozen s \<subseteq> frozen u" using st(1) tu(1) by blast
  moreover have "needsMore u \<longrightarrow> needsMore s \<or> frozen s \<noteq> frozen u" using st(1,3) tu(1,3) by blast
  ultimately show ?thesis using ivl n by (simp add: freezes_def)
qed

lemma freezes_insert: "i \<notin> frozen s \<Longrightarrow> frozen s' = insert i (frozen s) \<Longrightarrow> itemCount (growing s') = itemCount (growing s) \<Longrightarrow>
    crossSize (growing s') = crossSize (growing s) \<Longrightarrow> freezes i (Suc i) s s'"
  unfolding freezes_def by auto

lemma expand_size_freezes:
  assumes "expand_size hz un i c s = (sz, s')" "i \<notin> frozen s"
  shows "freezes i (Suc i) s s'"
proof (cases "MAX_SIZE < of_int (js_round (along hz c + un * flexGrow c + roundError s))")
  case True
  then have "s' = s\<lparr>needsMore := True, frozen := insert i (frozen s),
       growing := (growing s)\<lparr>totalFlexGrow := totalFlexGrow (growing s) - flexGrow c\<rparr>\<rparr>"
    using assms(1) unfolding expand_size_def Let_def by (simp only: if_True prod.inject)
  then show ?thesis using assms(2) by (intro freezes_insert) simp_all
next
  case False
  then obtain x where "s' = s\<lparr>roundError := x\<rparr>"
    using assms(1) unfolding expand_size_def Let_def by (simp only: if_False prod.inject) blast
  then show ?thesis by (simp add: freezes_def subset_insertI)
qed

lemma shrink_size_freezes:
  assumes "shrink_size hz un i c s = (sz, s')" "i \<notin> frozen s"
  shows "freezes i (Suc i) s s'"
proof (cases "of_int (js_round (along hz c - un * flexShrink c + roundError s)) < least_along hz c")
  case True
  then have "s' = s\<lparr>needsMore := True, frozen := insert i (frozen s),
       growing := (growing s)\<lparr>totalFlexShrink := totalFlexShrink (growing s) - flexShrink c\<rparr>\<rparr>"
    using assms(1) unfolding shrink_size_def Let_def by (simp only: if_True prod.inject)
  then show ?thesis using assms(2) by (intro freezes_insert) simp_all
next
  case False
  then obtain x where "s' = s\<lparr>roundError := x\<rparr>"
    using assms(1) unfolding shrink_size_def Let_def by (simp only: if_False prod.inject) blast
  then show ?thesis by (simp add: freezes_def subset_insertI)
qed

lemma freezes_add [simp]: "freezes i j s (add_along x s') = freezes i j s s'"
  by (simp add: freezes_def)

lemma freezes_widen: "freezes i j s s' \<Longrightarrow> freezes i j s (widen_across hz c s')"
  by (auto simp: freezes_def widen_across_def)

lemma expand_item_freezes: "expand_item om hz un i l c s = Inr (c', s') \<Longrightarrow> freezes i (Suc i) s s'"
  by (auto simp: expand_item_def and_then_Inr dest: expand_size_freezes split: if_splits prod.splits)

lemma shrink_item_freezes: "shrink_item om hz hs un i l c s = Inr (c', s') \<Longrightarrow> freezes i (Suc i) s s'"
  by (auto simp: shrink_item_def and_then_Inr intro: freezes_widen [OF shrink_size_freezes] split: if_splits prod.splits)

lemma for_items_freezes:
  assumes "\<And>i l c s c' s'. f i l c s = Inr (c', s') \<Longrightarrow> freezes i (Suc i) s s'"
  shows "for_items f i cs s = Inr (cs', s') \<Longrightarrow> freezes i (i + length cs) s s' \<and> length cs' = length cs"
proof (induction cs arbitrary: i s cs')
  case (Cons c cs)
  then obtain c1 s1 cs1 where f: "f i (cs = []) c s = Inr (c1, s1)" "for_items f (Suc i) cs s1 = Inr (cs1, s')" "cs' = c1 # cs1"
    by (auto simp: and_then_Inr)
  then show ?case using Cons.IH [OF f(2)] freezes_trans [OF assms [OF f(1)], of "Suc i + length cs" s'] by simp
qed simp

lemma slice_freezes:
  assumes "\<And>i l c s c' s'. f i l c s = Inr (c', s') \<Longrightarrow> freezes i (Suc i) s s'" "for_slice f start n cs s = Inr (cs', s')"
  shows "freezes start (start + n) s s'"
proof -
  obtain mid where m: "for_items f start (take n (drop start cs)) s = Inr (mid, s')"
    using assms(2) by (auto simp: for_slice_def and_then_Inr)
  have "freezes start (start + length (take n (drop start cs))) s s'" using for_items_freezes [of f, OF assms(1) m] by simp
  then show ?thesis by (rule freezes_trans [OF _ freezes_refl]) auto
qed

lemma fewer_left:
  assumes "freezes i (i + itemCount l) (start_growing pad l fr) s'" "needsMore s'"
  shows "card ({i..<i + itemCount (growing s')} - frozen s') < card ({i..<i + itemCount l} - fr)"
proof -
  have "fr \<subseteq> frozen s'" "frozen s' \<subseteq> fr \<union> {i..<i + itemCount l}" "fr \<noteq> frozen s'" "itemCount (growing s') = itemCount l"
    using assms by (auto simp: freezes_def start_growing_def)
  then have "{i..<i + itemCount (growing s')} - frozen s' \<subset> {i..<i + itemCount l} - fr" by auto
  then show ?thesis by (rule psubset_card_mono [rotated]) simp
qed

text \<open>What is given back: the items, which are frozen, and the line.\<close>

function expandFlexItems :: "'a flex_item_scheme on_measure \<Rightarrow> bool \<Rightarrow> rat \<Rightarrow> rat \<Rightarrow> nat \<Rightarrow> 'a flex_item_scheme list \<Rightarrow> nat set \<Rightarrow>
    flex_line \<Rightarrow> string + 'a flex_item_scheme list \<times> nat set \<times> flex_line" where
  "expandFlexItems om hz maxMainSize pad start cs fr l =
     (if totalFlexGrow l \<le> 0 \<or> maxMainSize < mainSize l then Inr (cs, fr, l)
      else
        (let unitSpace = (maxMainSize - mainSize l) / totalFlexGrow l
         in case for_slice (expand_item om hz unitSpace) start (itemCount l) cs (start_growing pad l fr) of
              Inl e \<Rightarrow> Inl e
            | Inr (cs', st) \<Rightarrow>
                (if needsMore st \<and> mainSize l \<noteq> mainSize (growing st) then
                   expandFlexItems om hz maxMainSize pad start cs' (frozen st) (growing st)
                 else Inr (cs', frozen st, growing st))))"
  by pat_completeness auto

termination expandFlexItems
  by (relation "Wellfounded.measure (\<lambda>(om, hz, mx, pad, start, cs, fr, l). card ({start..<start + itemCount l} - fr))")
    (auto intro: fewer_left [OF slice_freezes [OF expand_item_freezes]])

function shrinkFlexItems :: "'a flex_item_scheme on_measure \<Rightarrow> bool \<Rightarrow> 32 word \<Rightarrow> rat \<Rightarrow> rat \<Rightarrow> nat \<Rightarrow> 'a flex_item_scheme list \<Rightarrow>
    nat set \<Rightarrow> flex_line \<Rightarrow> string + 'a flex_item_scheme list \<times> nat set \<times> flex_line" where
  "shrinkFlexItems om hz hs maxMainSize pad start cs fr l =
     (if totalFlexShrink l \<le> 0 \<or> mainSize l < maxMainSize then Inr (cs, fr, l)
      else
        (let unitShrink = (mainSize l - maxMainSize) / totalFlexShrink l
         in case for_slice (shrink_item om hz hs unitShrink) start (itemCount l) cs (start_growing pad l fr) of
              Inl e \<Rightarrow> Inl e
            | Inr (cs', st) \<Rightarrow>
                (if needsMore st \<and> mainSize l \<noteq> mainSize (growing st) then
                   shrinkFlexItems om hz hs maxMainSize pad start cs' (frozen st) (growing st)
                 else Inr (cs', frozen st, growing st))))"
  by pat_completeness auto
termination
  by (relation "Wellfounded.measure (\<lambda>(om, hz, hs, mx, pad, start, cs, fr, l). card ({start..<start + itemCount l} - fr))")
    (auto intro: fewer_left [OF slice_freezes [OF shrink_item_freezes]])

declare expandFlexItems.simps [simp del] shrinkFlexItems.simps [simp del]

section \<open>The main size\<close>

definition getLargestMainSize :: "flex_line list \<Rightarrow> rat" where
  "getLargestMainSize ls = foldl (\<lambda>m l. max m (mainSize l)) MIN_VALUE ls"

definition getSumOfCrossSize :: "flex_line list \<Rightarrow> rat" where
  "getSumOfCrossSize ls = foldl (\<lambda>sum l. sum + crossSize l) 0 ls"

fun size_lines :: "'a flex_item_scheme on_measure \<Rightarrow> bool \<Rightarrow> 32 word \<Rightarrow> rat \<Rightarrow> rat \<Rightarrow> nat \<Rightarrow> 'a flex_item_scheme list \<Rightarrow> nat set \<Rightarrow>
    flex_line list \<Rightarrow> string + 'a flex_item_scheme list \<times> flex_line list" where
  "size_lines om hz hs mx pad start cs fr [] = Inr (cs, [])"
| "size_lines om hz hs mx pad start cs fr (l # ls) =
     and_then (if mainSize l < mx then expandFlexItems om hz mx pad start cs fr l else shrinkFlexItems om hz hs mx pad start cs fr l)
       (\<lambda>(cs1, fr1, l1). and_then (size_lines om hz hs mx pad (start + itemCount l) cs1 fr1 ls) (\<lambda>(cs2, ls2). Inr (cs2, l1 # ls2)))"

definition determineMainSize :: "'a flex_item_scheme on_measure \<Rightarrow> bool \<Rightarrow> ('a flex_item_scheme, 'b) flex_layout_scheme \<Rightarrow> 32 word \<Rightarrow>
    32 word \<Rightarrow> 'a flex_item_scheme list \<Rightarrow> flex_line list \<Rightarrow> string + 'a flex_item_scheme list \<times> flex_line list" where
  "determineMainSize om hz this ws hs cs ls =
     (let spec = (if hz then ws else hs);
          mx = (if getMeasureSpecMode spec = EXACTLY then getMeasureSpecSize spec else getLargestMainSize ls)
      in size_lines om hz (spec_or_zero (currentHeightMeasureSpec this)) mx (padding_along hz this) 0 cs {} ls)"

section \<open>The cross size\<close>

text \<open>\<open>getActualSize().height\<close>: the height of the native frame, in device-independent pixels.\<close>

definition actual_height :: "rat \<Rightarrow> 'a view_scheme \<Rightarrow> rat" where
  "actual_height density v =
     (if isCollapsed v then 0
      else (case nativeFrame v of None \<Rightarrow> 0 | Some (l, t, r, b) \<Rightarrow> of_int (js_round b - js_round t) / density))"

definition baseline_height :: "rat \<Rightarrow> flex_wrap \<Rightarrow> flex_line \<Rightarrow> 'a view_scheme \<Rightarrow> rat" where
  "baseline_height density fw l c =
     (if fw \<noteq> WRAP_REVERSE then
        actual_height density c + max (maxBaseline l - getBaseline c) (effectiveMarginTop c) + effectiveMarginBottom c
      else
        actual_height density c + effectiveMarginTop c
          + max (maxBaseline l - measured_height c + getBaseline c) (effectiveMarginBottom c))"

fun baseline_lines :: "rat \<Rightarrow> flex_wrap \<Rightarrow> 'a view_scheme list \<Rightarrow> flex_line list \<Rightarrow> flex_line list" where
  "baseline_lines density fw cs [] = []"
| "baseline_lines density fw cs (l # ls) =
     l\<lparr>crossSize := foldl (\<lambda>m c. max m (baseline_height density fw l c)) MIN_VALUE (take (itemCount l) cs)\<rparr>
       # baseline_lines density fw (drop (itemCount l) cs) ls"

definition carry :: "rat \<Rightarrow> rat \<Rightarrow> rat \<times> rat" where
  "carry x err = (if 1 < err then (x + 1, err - 1) else if err < - 1 then (x - 1, err + 1) else (x, err))"

fun stretch_lines :: "rat \<Rightarrow> rat \<Rightarrow> flex_line list \<Rightarrow> flex_line list" where
  "stretch_lines freeSpaceUnit err [] = []"
| "stretch_lines freeSpaceUnit err (l # ls) =
     (let is_last = (ls = []);
          raw = crossSize l + freeSpaceUnit + (if is_last then err else 0);
          err1 = (if is_last then 0 else err);
          new = of_int (js_round raw);
          (new', err') = carry new (err1 + (raw - new))
      in l\<lparr>crossSize := new'\<rparr> # stretch_lines freeSpaceUnit err' ls)"

definition dummy_line :: "rat \<Rightarrow> flex_line" where
  "dummy_line space = new_line\<lparr>crossSize := space\<rparr>"

fun space_between :: "rat \<Rightarrow> rat \<Rightarrow> flex_line list \<Rightarrow> flex_line list" where
  "space_between space err [] = []"
| "space_between space err [l] = [l]"
| "space_between space err (l # m # ls) =
     (let before_last = (ls = []);
          new = of_int (js_round (if before_last then space + err else space));
          err1 = (if before_last then 0 else err);
          (new', err') = carry new (err1 + (space - new))
      in l # dummy_line new' # space_between space err' (m # ls))"

definition determineCrossSize :: "align_content \<Rightarrow> 32 word \<Rightarrow> rat \<Rightarrow> flex_line list \<Rightarrow> flex_line list" where
  "determineCrossSize content spec pad ls =
     (let sz = getMeasureSpecSize spec; total = getSumOfCrossSize ls + pad in
      if getMeasureSpecMode spec \<noteq> EXACTLY then ls
      else (case ls of
          [l] \<Rightarrow> [l\<lparr>crossSize := sz - pad\<rparr>]
        | _ \<Rightarrow>
            if 2 \<le> length ls \<and> total < sz then
              (case content of
                 Content_Stretch \<Rightarrow> stretch_lines ((sz - total) / of_nat (length ls)) 0 ls
               | Content_Around \<Rightarrow>
                   (let d = dummy_line ((sz - total) / of_nat (length ls * 2)) in concat (map (\<lambda>l. [d, l, d]) ls))
               | Content_Between \<Rightarrow> space_between ((sz - total) / of_nat (length ls - 1)) 0 ls
               | Content_Center \<Rightarrow> (let d = dummy_line ((sz - total) / 2) in d # ls @ [d])
               | Content_End \<Rightarrow> dummy_line (sz - total) # ls
               | Content_Start \<Rightarrow> ls)
            else ls))"

section \<open>Stretching the items\<close>

definition stretchViewVertically :: "'a flex_item_scheme on_measure \<Rightarrow> 32 word \<Rightarrow> rat \<Rightarrow> 'a flex_item_scheme \<Rightarrow> string + 'a flex_item_scheme" where
  "stretchViewVertically om ws cross v =
     (let newHeight = max (cross - effectiveMarginTop v - effectiveMarginBottom v) 0; w = measured_width v;
          spec = flex_getChildMeasureSpec ws (padding_along True v + horizontal_margins v)
            (if effectiveWidth v < 0 then WRAP_CONTENT else min (effectiveWidth v) w);
          hspec = makeMeasureSpec newHeight EXACTLY
      in and_then (measure om spec hspec v)
           (\<lambda>v1. if measured_width v1 < w then measure om (makeMeasureSpec w EXACTLY) hspec v1 else Inr v1))"

definition stretchViewHorizontally :: "'a flex_item_scheme on_measure \<Rightarrow> rat \<Rightarrow> 'a flex_item_scheme \<Rightarrow> string + 'a flex_item_scheme" where
  "stretchViewHorizontally om cross v =
     (let newWidth = max (cross - effectiveMarginLeft v - effectiveMarginRight v) 0
      in measure om (makeMeasureSpec newWidth EXACTLY) (makeMeasureSpec (measured_height v) EXACTLY) v)"

definition stretch_view :: "'a flex_item_scheme on_measure \<Rightarrow> bool \<Rightarrow> 32 word \<Rightarrow> rat \<Rightarrow> 'a flex_item_scheme \<Rightarrow> string + 'a flex_item_scheme" where
  "stretch_view om hz ws cross v = (if hz then stretchViewVertically om ws cross v else stretchViewHorizontally om cross v)"

definition stretch_item :: "'a flex_item_scheme on_measure \<Rightarrow> bool \<Rightarrow> 32 word \<Rightarrow> rat \<Rightarrow> nat \<Rightarrow> bool \<Rightarrow> 'a flex_item_scheme \<Rightarrow> unit \<Rightarrow>
    string + 'a flex_item_scheme \<times> unit" where
  "stretch_item om hz ws cross i is_last v u =
     (if alignSelf v \<noteq> None \<and> alignSelf v \<noteq> Some Items_Stretch then Inr (v, ())
      else and_then (stretch_view om hz ws cross v) (\<lambda>v'. Inr (v', ())))"

fun stretch_all :: "'a flex_item_scheme on_measure \<Rightarrow> bool \<Rightarrow> 32 word \<Rightarrow> nat \<Rightarrow> 'a flex_item_scheme list \<Rightarrow> flex_line list \<Rightarrow>
    string + 'a flex_item_scheme list" where
  "stretch_all om hz ws start cs [] = Inr cs"
| "stretch_all om hz ws start cs (l # ls) =
     and_then (for_slice (stretch_item om hz ws (crossSize l)) start (itemCount l) cs ())
       (\<lambda>(cs', _). stretch_all om hz ws (start + itemCount l) cs' ls)"

fun stretch_indices :: "'a flex_item_scheme on_measure \<Rightarrow> bool \<Rightarrow> 32 word \<Rightarrow> rat \<Rightarrow> nat list \<Rightarrow> 'a flex_item_scheme list \<Rightarrow>
    string + 'a flex_item_scheme list" where
  "stretch_indices om hz ws cross [] cs = Inr cs"
| "stretch_indices om hz ws cross (i # is) cs =
     and_then (stretch_view om hz ws cross (cs ! i)) (\<lambda>v. stretch_indices om hz ws cross is (cs[i := v]))"

fun stretch_selected :: "'a flex_item_scheme on_measure \<Rightarrow> bool \<Rightarrow> 32 word \<Rightarrow> 'a flex_item_scheme list \<Rightarrow> flex_line list \<Rightarrow>
    string + 'a flex_item_scheme list" where
  "stretch_selected om hz ws cs [] = Inr cs"
| "stretch_selected om hz ws cs (l # ls) =
     and_then (stretch_indices om hz ws (crossSize l) (indicesAlignSelfStretch l) cs) (\<lambda>cs'. stretch_selected om hz ws cs' ls)"

definition stretchViews :: "'a flex_item_scheme on_measure \<Rightarrow> bool \<Rightarrow> ('a flex_item_scheme, 'b) flex_layout_scheme \<Rightarrow>
    'a flex_item_scheme list \<Rightarrow> flex_line list \<Rightarrow> string + 'a flex_item_scheme list" where
  "stretchViews om hz this cs ls =
     (let ws = spec_or_zero (currentWidthMeasureSpec this) in
      if alignItems this = Items_Stretch then stretch_all om hz ws 0 cs ls else stretch_selected om hz ws cs ls)"

section \<open>The size of the layout\<close>

text \<open>One dimension: its size and state, and the states so far with the one that tells that the lines do not fit.\<close>

definition flex_dimension :: "32 word \<Rightarrow> rat \<Rightarrow> 32 word \<Rightarrow> 32 word \<Rightarrow> string + 32 word \<times> 32 word" where
  "flex_dimension spec calculated tooSmall state =
     (let mode = getMeasureSpecMode spec; sz = getMeasureSpecSize spec;
          state1 = (if sz < calculated then state OR tooSmall else state)
      in if mode = EXACTLY then Inr (resolveSizeAndState sz sz mode state1, state1)
         else if mode = AT_MOST then
           (let sz1 = (if sz < calculated then sz else calculated) in Inr (resolveSizeAndState sz1 sz1 mode state1, state1))
         else if mode = UNSPECIFIED then Inr (resolveSizeAndState calculated sz mode state, state)
         else Inl ''Unknown mode is set'')"

definition setMeasuredDimensionForFlex :: "bool \<Rightarrow> 32 word \<Rightarrow> 32 word \<Rightarrow> 32 word \<Rightarrow> flex_line list \<Rightarrow>
    ('c, 'b) flex_layout_scheme \<Rightarrow> string + ('c, 'b) flex_layout_scheme" where
  "setMeasuredDimensionForFlex hz ws hs state ls this =
     (let main = getLargestMainSize ls; cross = absorbed (getSumOfCrossSize ls + padding_along (\<not> hz) this) in
      and_then (flex_dimension ws (if hz then main else cross) MEASURED_STATE_TOO_SMALL state)
        (\<lambda>(w, state1). and_then (flex_dimension hs (if hz then cross else main) (signed_drop_bit 16 MEASURED_STATE_TOO_SMALL) state1)
          (\<lambda>(h, _). Inr (setMeasuredDimension w h this))))"

definition flex_onMeasure :: "'a flex_item_scheme on_measure \<Rightarrow> rat \<Rightarrow> ('a flex_item_scheme, 'b) flex_layout_scheme on_measure" where
  "flex_onMeasure om density ws hs this0 =
     (let this = new_context this0; hz = (flexDirection this = ROW \<or> flexDirection this = ROW_REVERSE) in
      and_then (measure_lines om density hz this ws hs (items this))
        (\<lambda>(cs1, st). and_then (determineMainSize om hz this ws hs cs1 (doneLines st))
          (\<lambda>(cs2, ls2).
             let ls3 = (if hz \<and> alignItems this = Items_Baseline then baseline_lines density (flexWrap this) cs2 ls2 else ls2);
                 ls4 = determineCrossSize (alignContent this) (if hz then hs else ws) (padding_along (\<not> hz) this) ls3
             in and_then (stretchViews om hz this cs2 ls4)
                  (\<lambda>cs3. setMeasuredDimensionForFlex hz ws hs (childState st) ls4 (put_items cs3 (this\<lparr>flexLines := ls4\<rparr>))))))"

end
