(* ===== verification/Flexbox_Place.thy ===== *)
theory Flexbox_Place
  imports Flexbox_Measure
begin

text \<open>
  \<open>onLayout\<close> of \<open>FlexboxLayout\<close>: the items of a line are put one after the other along the main axis, from both ends at once, and
  one of the two is used; the lines are put one after the other across it.
\<close>

fun place_items :: "('c \<Rightarrow> 's \<Rightarrow> 'c \<times> 's) \<Rightarrow> 'c list \<Rightarrow> 's \<Rightarrow> 'c list \<times> 's" where
  "place_items f [] s = ([], s)"
| "place_items f (c # cs) s = (case f c s of (c', s1) \<Rightarrow> (case place_items f cs s1 of (cs', s2) \<Rightarrow> (c' # cs', s2)))"

definition place_slice :: "('c \<Rightarrow> 's \<Rightarrow> 'c \<times> 's) \<Rightarrow> nat \<Rightarrow> nat \<Rightarrow> 'c list \<Rightarrow> 's \<Rightarrow> 'c list \<times> 's" where
  "place_slice f start n cs s =
     (case place_items f (take n (drop start cs)) s of (mid, s') \<Rightarrow> (take start cs @ mid @ drop (start + n) cs, s'))"

text \<open>Where a line starts from the one and from the other end, and the space between its items: \<open>extent\<close> is the length of the
  layout, \<open>safe\<close> what the safe area takes of it.\<close>

definition line_start :: "justify_content \<Rightarrow> rat \<Rightarrow> rat \<Rightarrow> rat \<Rightarrow> rat \<Rightarrow> flex_line \<Rightarrow> rat \<times> rat \<times> rat" where
  "line_start j padStart padEnd extent safe l =
     (case j of
        Justify_Start \<Rightarrow> (padStart, extent - padEnd, 0)
      | Justify_End \<Rightarrow> (extent - mainSize l + padEnd, mainSize l - padStart, 0)
      | Justify_Center \<Rightarrow>
          (let free = (extent - safe - mainSize l) / 2 in (padStart + free, extent - padEnd - free, 0))
      | Justify_Around \<Rightarrow>
          (let space = (if itemCount l \<noteq> 0 then (extent - safe - mainSize l) / of_nat (itemCount l) else 0)
           in (padStart + space / 2, extent - padEnd - space / 2, max space 0))
      | Justify_Between \<Rightarrow>
          (let denominator = (if itemCount l \<noteq> 1 then of_int (int (itemCount l) - 1) else 1)
           in (padStart, extent - padEnd, max ((extent - safe - mainSize l) / denominator) 0)))"

definition layoutSingleChildHorizontal :: "'a flex_item_scheme on_layout \<Rightarrow> flex_wrap \<Rightarrow> align_items \<Rightarrow> flex_line \<Rightarrow>
    rat \<Rightarrow> rat \<Rightarrow> rat \<Rightarrow> rat \<Rightarrow> 'a flex_item_scheme \<Rightarrow> 'a flex_item_scheme" where
  "layoutSingleChildHorizontal lay fw al l left top' right bottom v =
     (let cross = crossSize l; h = measured_height v; mt = effectiveMarginTop v; mb = effectiveMarginBottom v;
          fromTop = (fw \<noteq> WRAP_REVERSE)
      in case (case alignSelf v of None \<Rightarrow> al | Some a \<Rightarrow> a) of
           Items_Baseline \<Rightarrow>
             if fromTop then (let m = max (maxBaseline l - getBaseline v) mt in lay left (top' + m) right (bottom + m) v)
             else (let m = max (maxBaseline l - h + getBaseline v) mb in lay left (top' - m) right (bottom - m) v)
         | Items_End \<Rightarrow>
             if fromTop then lay left (top' + cross - h - mb) right (top' + cross - mb) v
             else lay left (top' - cross + h + mt) right (bottom - cross + h + mt) v
         | Items_Center \<Rightarrow>
             (let f = (cross - h) / 2 in
              if fromTop then lay left (top' + f + mt - mb) right (top' + f + h + mt - mb) v
              else lay left (top' - f + mt - mb) right (top' - f + h + mt - mb) v)
         | _ \<Rightarrow>
             if fromTop then lay left (top' + mt) right (bottom + mt) v else lay left (top' - mb) right (bottom - mb) v)"

definition layoutSingleChildVertical :: "'a flex_item_scheme on_layout \<Rightarrow> bool \<Rightarrow> align_items \<Rightarrow> flex_line \<Rightarrow>
    rat \<Rightarrow> rat \<Rightarrow> rat \<Rightarrow> rat \<Rightarrow> 'a flex_item_scheme \<Rightarrow> 'a flex_item_scheme" where
  "layoutSingleChildVertical lay isRtl al l left top' right bottom v =
     (let cross = crossSize l; w = measured_width v; ml = effectiveMarginLeft v; mr = effectiveMarginRight v
      in case (case alignSelf v of None \<Rightarrow> al | Some a \<Rightarrow> a) of
           Items_End \<Rightarrow>
             if \<not> isRtl then lay (left + cross - w - mr) top' (right + cross - w - mr) bottom v
             else lay (left - cross + w + ml) top' (right - cross + w + ml) bottom v
         | Items_Center \<Rightarrow>
             (let f = (cross - w) / 2 in
              if \<not> isRtl then lay (left + f + ml - mr) top' (right + f + ml - mr) bottom v
              else lay (left - f + ml - mr) top' (right - f + ml - mr) bottom v)
         | _ \<Rightarrow>
             if \<not> isRtl then lay (left + ml) top' (right + ml) bottom v else lay (left - mr) top' (right - mr) bottom v)"

text \<open>One item of a row, with the cursors from the left and from the right; \<open>across\<close> is the top of the line and its bottom.\<close>

definition place_in_row :: "'a flex_item_scheme on_layout \<Rightarrow> bool \<Rightarrow> flex_wrap \<Rightarrow> align_items \<Rightarrow> flex_line \<Rightarrow> rat \<Rightarrow> rat \<times> rat \<Rightarrow>
    'a flex_item_scheme \<Rightarrow> rat \<times> rat \<Rightarrow> 'a flex_item_scheme \<times> rat \<times> rat" where
  "place_in_row lay isRtl fw al l space across v cur =
     (if isCollapsed v then (v, cur)
      else
        (let childLeft = fst cur + effectiveMarginLeft v; childRight = snd cur - effectiveMarginRight v;
             w = measured_width v; h = measured_height v;
             right = (if isRtl then of_int (js_round childRight) else of_int (js_round childLeft) + w);
             left = (if isRtl then of_int (js_round childRight) - w else of_int (js_round childLeft));
             v' = (if fw = WRAP_REVERSE
                   then layoutSingleChildHorizontal lay fw al l left (snd across - h) right (snd across) v
                   else layoutSingleChildHorizontal lay fw al l left (fst across) right (fst across + h) v)
         in (v', childLeft + w + space + effectiveMarginRight v, childRight - w - space - effectiveMarginLeft v)))"

fun rows :: "'a flex_item_scheme on_layout \<Rightarrow> bool \<Rightarrow> flex_wrap \<Rightarrow> align_items \<Rightarrow> (flex_line \<Rightarrow> rat \<times> rat \<times> rat) \<Rightarrow> nat \<Rightarrow> rat \<times> rat \<Rightarrow>
    'a flex_item_scheme list \<Rightarrow> flex_line list \<Rightarrow> 'a flex_item_scheme list" where
  "rows lay isRtl fw al st i across cs [] = cs"
| "rows lay isRtl fw al st i across cs (l # ls) =
     (case st l of (a, b, space) \<Rightarrow>
        rows lay isRtl fw al st (i + itemCount l) (fst across + crossSize l, snd across - crossSize l)
          (fst (place_slice (place_in_row lay isRtl fw al l space across) i (itemCount l) cs (a, b))) ls)"

definition place_in_column :: "'a flex_item_scheme on_layout \<Rightarrow> bool \<Rightarrow> bool \<Rightarrow> align_items \<Rightarrow> flex_line \<Rightarrow> rat \<Rightarrow> rat \<times> rat \<Rightarrow>
    'a flex_item_scheme \<Rightarrow> rat \<times> rat \<Rightarrow> 'a flex_item_scheme \<times> rat \<times> rat" where
  "place_in_column lay isRtl fromBottom al l space across v cur =
     (if isCollapsed v then (v, cur)
      else
        (let childTop = fst cur + effectiveMarginTop v; childBottom = snd cur - effectiveMarginBottom v;
             w = measured_width v; h = measured_height v;
             top' = (if fromBottom then of_int (js_round childBottom) - h else of_int (js_round childTop));
             bottom = (if fromBottom then of_int (js_round childBottom) else of_int (js_round childTop) + h);
             v' = (if isRtl then layoutSingleChildVertical lay True al l (snd across - w) top' (snd across) bottom v
                   else layoutSingleChildVertical lay False al l (fst across) top' (fst across + w) bottom v)
         in (v', childTop + h + space + effectiveMarginBottom v, childBottom - h - space - effectiveMarginTop v)))"

fun columns :: "'a flex_item_scheme on_layout \<Rightarrow> bool \<Rightarrow> bool \<Rightarrow> align_items \<Rightarrow> (flex_line \<Rightarrow> rat \<times> rat \<times> rat) \<Rightarrow> nat \<Rightarrow> rat \<times> rat \<Rightarrow>
    'a flex_item_scheme list \<Rightarrow> flex_line list \<Rightarrow> 'a flex_item_scheme list" where
  "columns lay isRtl fromBottom al st i across cs [] = cs"
| "columns lay isRtl fromBottom al st i across cs (l # ls) =
     (case st l of (a, b, space) \<Rightarrow>
        columns lay isRtl fromBottom al st (i + itemCount l) (fst across + crossSize l, snd across - crossSize l)
          (fst (place_slice (place_in_column lay isRtl fromBottom al l space across) i (itemCount l) cs (a, b))) ls)"

definition flex_layoutHorizontal :: "'a flex_item_scheme on_layout \<Rightarrow> bool \<Rightarrow> insets \<Rightarrow> rat \<Rightarrow> rat \<Rightarrow>
    ('a flex_item_scheme, 'b) flex_layout_scheme \<Rightarrow> 'a flex_item_scheme list \<Rightarrow> 'a flex_item_scheme list" where
  "flex_layoutHorizontal lay isRtl safe width height this cs =
     (let paddingLeft = ins_left (padding this) + ins_left safe; paddingTop = ins_top (padding this) + ins_top safe;
          paddingRight = ins_right (padding this) + ins_right safe; paddingBottom = ins_bottom (padding this) + ins_bottom safe
      in rows lay isRtl (flexWrap this) (alignItems this)
           (line_start (justifyContent this) paddingLeft paddingRight width (ins_left safe + ins_right safe))
           0 (paddingTop, height - paddingBottom) cs (flexLines this))"

definition flex_layoutVertical :: "'a flex_item_scheme on_layout \<Rightarrow> bool \<Rightarrow> bool \<Rightarrow> insets \<Rightarrow> rat \<Rightarrow> rat \<Rightarrow>
    ('a flex_item_scheme, 'b) flex_layout_scheme \<Rightarrow> 'a flex_item_scheme list \<Rightarrow> 'a flex_item_scheme list" where
  "flex_layoutVertical lay isRtl fromBottom safe width height this cs =
     (let paddingLeft = ins_left (padding this) + ins_left safe; paddingTop = ins_top (padding this) + ins_top safe;
          paddingRight = ins_right (padding this) + ins_right safe; paddingBottom = ins_bottom (padding this) + ins_bottom safe
      in columns lay isRtl fromBottom (alignItems this)
           (line_start (justifyContent this) paddingTop paddingBottom height (ins_top safe + ins_bottom safe))
           0 (paddingLeft, width - paddingRight) cs (flexLines this))"

definition flex_onLayout :: "'a flex_item_scheme on_layout \<Rightarrow> insets \<Rightarrow> ('a flex_item_scheme, 'b) flex_layout_scheme on_layout" where
  "flex_onLayout lay safe left top' right bottom this =
     (let width = right - left; height = bottom - top'; isRtl = (flexWrap this = WRAP_REVERSE) in
      put_items
        (case flexDirection this of
           ROW \<Rightarrow> flex_layoutHorizontal lay False safe width height this (items this)
         | ROW_REVERSE \<Rightarrow> flex_layoutHorizontal lay True safe width height this (items this)
         | COLUMN \<Rightarrow> flex_layoutVertical lay isRtl False safe width height this (items this)
         | COLUMN_REVERSE \<Rightarrow> flex_layoutVertical lay isRtl True safe width height this (items this)) this)"

end
