(* ===== verification/Flexbox_Lines.thy ===== *)
theory Flexbox_Lines
  imports Flexbox_Place "HOL-Library.Multiset"
begin

text \<open>
  Measuring a \<open>FlexboxLayout\<close> returns, within its specs, and its lines hold all its visible items. The locale \<open>flex_items\<close> is
  the contract of views whose measuring leaves alone what their style says of them as items.
\<close>

section \<open>Loops\<close>

lemma for_items_run:
  assumes "\<And>i l c s. Q c \<Longrightarrow> P s \<Longrightarrow> \<exists>c' s'. f i l c s = Inr (c', s') \<and> Q c' \<and> P s'"
  shows "\<forall>c \<in> set cs. Q c \<Longrightarrow> P s \<Longrightarrow>
    \<exists>cs' s'. for_items f i cs s = Inr (cs', s') \<and> (\<forall>c \<in> set cs'. Q c) \<and> length cs' = length cs \<and> P s'"
proof (induction cs arbitrary: i s)
  case (Cons c cs)
  obtain c' s1 where f: "f i (cs = []) c s = Inr (c', s1)" "Q c'" "P s1"
    using assms [of c s i "cs = []"] Cons.prems by auto
  obtain cs' s' where r: "for_items f (Suc i) cs s1 = Inr (cs', s')" "\<forall>c \<in> set cs'. Q c" "length cs' = length cs" "P s'"
    using Cons.IH [OF _ f(3), of "Suc i"] Cons.prems(1) by auto
  show ?case using f r by simp
qed simp

lemma for_slice_run:
  assumes "\<And>i l c s. Q c \<Longrightarrow> P s \<Longrightarrow> \<exists>c' s'. f i l c s = Inr (c', s') \<and> Q c' \<and> P s'" "\<forall>c \<in> set cs. Q c" "P s"
  shows "\<exists>cs' s'. for_slice f start n cs s = Inr (cs', s') \<and> (\<forall>c \<in> set cs'. Q c) \<and> length cs' = length cs \<and> P s'"
proof -
  have "\<forall>c \<in> set (take n (drop start cs)). Q c" using assms(2) by (meson in_set_dropD in_set_takeD)
  then obtain mid s' where m: "for_items f start (take n (drop start cs)) s = Inr (mid, s')" "\<forall>c \<in> set mid. Q c"
      "length mid = length (take n (drop start cs))" "P s'"
    using for_items_run [of Q P f, OF assms(1) _ assms(3)] by blast
  have "\<forall>c \<in> set (take start cs @ mid @ drop (start + n) cs). Q c"
    using m(2) assms(2) by (auto dest: in_set_dropD in_set_takeD)
  moreover have "length (take start cs @ mid @ drop (start + n) cs) = length cs" using m(3) by simp
  ultimately show ?thesis using m by (simp add: for_slice_def)
qed

section \<open>Items keep their contract\<close>

definition item_ok :: "'a view_scheme \<Rightarrow> bool" where
  "item_ok v \<longleftrightarrow> \<not> isCollapsed v \<and> measured_ok v \<and> min_ok v"

definition same_item :: "'a flex_item_scheme \<Rightarrow> 'a flex_item_scheme \<Rightarrow> bool" where
  "same_item v v' \<longleftrightarrow> horizontal_margins v' = horizontal_margins v \<and> vertical_margins v' = vertical_margins v \<and>
     flexGrow v' = flexGrow v \<and> flexShrink v' = flexShrink v"

lemma same_item_refl [simp]: "same_item v v"
  by (simp add: same_item_def)

lemma same_item_trans: "same_item u v \<Longrightarrow> same_item v w \<Longrightarrow> same_item u w"
  by (simp add: same_item_def)

lemma same_item_min [simp]:
  "same_item (v\<lparr>effectiveMinWidth := a, effectiveMinHeight := b\<rparr>) w = same_item v w"
  "same_item v (w\<lparr>effectiveMinWidth := a, effectiveMinHeight := b\<rparr>) = same_item v w"
  "same_item (v\<lparr>effectiveMinWidth := a\<rparr>) w = same_item v w" "same_item v (w\<lparr>effectiveMinWidth := a\<rparr>) = same_item v w"
  "same_item (v\<lparr>effectiveMinHeight := b\<rparr>) w = same_item v w" "same_item v (w\<lparr>effectiveMinHeight := b\<rparr>) = same_item v w"
  by (simp_all add: same_item_def horizontal_margins_def vertical_margins_def)

locale flex_items = measurable_view om for om :: "'a flex_item_scheme on_measure" +
  assumes style: "om ws hs v = Inr v' \<Longrightarrow> flexGrow v' = flexGrow v \<and> flexShrink v' = flexShrink v"
begin

lemma measure_style:
  assumes "measure om ws hs v = Inr v'"
  shows "flexGrow v' = flexGrow v \<and> flexShrink v' = flexShrink v"
  using assms style
  by (auto simp: measure_def setCurrentMeasureSpecs_def Let_def and_then_Inr set_flag_def clear_flag_def split: if_splits)

lemma measure_item:
  assumes "item_ok v"
  shows "\<exists>v'. measure om ws hs v = Inr v' \<and> item_ok v' \<and> fits_specs ws hs v' \<and> same_item v v'"
proof -
  obtain v' where v': "measure om ws hs v = Inr v'" using measure_returns by blast
  have ok: "measured_ok v" "min_ok v" using assms by (simp_all add: item_ok_def)
  note d = only_measuredD [OF measure_frame [OF v']]
  have "min_ok v'" using d(2,3) ok(2) by (simp add: min_ok_def setCurrentMeasureSpecs_def)
  moreover have "isCollapsed v' = isCollapsed v" "horizontal_margins v' = horizontal_margins v" "vertical_margins v' = vertical_margins v"
    using d(1,4,5) by (simp_all add: setCurrentMeasureSpecs_def horizontal_margins_def vertical_margins_def)
  ultimately show ?thesis using v' measure_ok [OF v' ok] measure_style [OF v'] assms by (simp add: item_ok_def same_item_def)
qed

end

lemma item_ok_update: "item_ok v \<Longrightarrow> item_ok (updateEffectiveLayoutValues density w wm h hm v)"
  by (simp add: item_ok_def measured_ok_def min_ok_def fits_specs_def updateEffectiveLayoutValues_def measured_width_def
      measured_height_def Let_def)

lemma item_ok_min:
  "item_ok v \<Longrightarrow> 0 \<le> a \<Longrightarrow> 0 \<le> b \<Longrightarrow> item_ok (v\<lparr>effectiveMinWidth := a, effectiveMinHeight := b\<rparr>)"
  by (simp add: item_ok_def measured_ok_def min_ok_def fits_specs_def measured_width_def measured_height_def)

lemma item_ok_min_width: "item_ok v \<Longrightarrow> 0 \<le> a \<Longrightarrow> item_ok (v\<lparr>effectiveMinWidth := a\<rparr>)"
  by (simp add: item_ok_def measured_ok_def min_ok_def fits_specs_def measured_width_def measured_height_def)

lemma item_ok_min_height: "item_ok v \<Longrightarrow> 0 \<le> a \<Longrightarrow> item_ok (v\<lparr>effectiveMinHeight := a\<rparr>)"
  by (simp add: item_ok_def measured_ok_def min_ok_def fits_specs_def measured_width_def measured_height_def)

context flex_items
begin

lemma constrained_ok:
  assumes "item_ok v"
  shows "\<exists>v'. checkSizeConstraints om v = Inr v' \<and> item_ok v' \<and> same_item v v'"
proof -
  have min: "0 \<le> effectiveMinWidth v" "0 \<le> effectiveMinHeight v" using assms by (auto simp: item_ok_def min_ok_def)
  let ?v = "v\<lparr>effectiveMinWidth := 0, effectiveMinHeight := 0\<rparr>"
  have ok: "item_ok ?v" by (rule item_ok_min [OF assms]) simp_all
  show ?thesis
  proof (cases "measured_width v < effectiveMinWidth v \<or> MAX_SIZE < measured_width v \<or> measured_height v < effectiveMinHeight v \<or>
      MAX_SIZE < measured_height v")
    case True
    obtain u where u: "measure om
        (makeMeasureSpec (if measured_width v < effectiveMinWidth v then effectiveMinWidth v else if MAX_SIZE < measured_width v then MAX_SIZE else measured_width v) EXACTLY)
        (makeMeasureSpec (if measured_height v < effectiveMinHeight v then effectiveMinHeight v else if MAX_SIZE < measured_height v then MAX_SIZE else measured_height v) EXACTLY)
        ?v = Inr u" "item_ok u" "same_item ?v u"
      using measure_item [OF ok] by blast
    then have "checkSizeConstraints om v = Inr (u\<lparr>effectiveMinWidth := effectiveMinWidth v, effectiveMinHeight := effectiveMinHeight v\<rparr>)"
      using True by (simp only: checkSizeConstraints_def Let_def if_True and_then_simps)
    then show ?thesis using u(3) item_ok_min [OF u(2) min] by simp
  next
    case False
    then have "checkSizeConstraints om v = Inr v" by (simp only: checkSizeConstraints_def Let_def if_False)
    then show ?thesis using assms by simp
  qed
qed

end

section \<open>Putting the items into lines\<close>

definition taken :: "bool \<Rightarrow> 'a view_scheme \<Rightarrow> rat" where
  "taken hz c = along hz c + margins_along hz c"

definition line_ok :: "bool \<Rightarrow> rat \<Rightarrow> flex_line \<Rightarrow> 'a flex_item_scheme list \<Rightarrow> bool" where
  "line_ok hz pad l cs \<longleftrightarrow> itemCount l = length cs \<and> mainSize l = pad + sum_list (map (taken hz) cs) \<and>
     totalFlexGrow l = sum_list (map flexGrow cs) \<and> totalFlexShrink l = sum_list (map flexShrink cs) \<and> 0 \<le> crossSize l"

text \<open>The lines hold the items in their order.\<close>

fun lines_hold :: "bool \<Rightarrow> rat \<Rightarrow> flex_line list \<Rightarrow> 'a flex_item_scheme list \<Rightarrow> bool" where
  "lines_hold hz pad [] cs = (cs = [])"
| "lines_hold hz pad (l # ls) cs =
     (0 < itemCount l \<and> line_ok hz pad l (take (itemCount l) cs) \<and> lines_hold hz pad ls (drop (itemCount l) cs))"

lemma line_ok_count: "line_ok hz pad l cs \<Longrightarrow> itemCount l = length cs"
  by (simp add: line_ok_def)

lemma lines_hold_append:
  "lines_hold hz pad ls as \<Longrightarrow> line_ok hz pad l bs \<Longrightarrow> bs \<noteq> [] \<Longrightarrow> lines_hold hz pad (ls @ [l]) (as @ bs)"
proof (induction ls arbitrary: as)
  case Nil
  then show ?case using line_ok_count [of hz pad l bs] by simp
next
  case (Cons k ls)
  have "itemCount k \<le> length as" using Cons.prems(1) line_ok_count [of hz pad k "take (itemCount k) as"] by simp
  then show ?case using Cons by simp
qed

lemma lines_hold_count: "lines_hold hz pad ls cs \<Longrightarrow> sum_list (map itemCount ls) = length cs"
proof (induction ls arbitrary: cs)
  case (Cons l ls)
  have "itemCount l \<le> length cs" using Cons.prems line_ok_count [of hz pad l "take (itemCount l) cs"] by simp
  then show ?case using Cons.IH [of "drop (itemCount l) cs"] Cons.prems by simp
qed simp

definition so_far :: "bool \<Rightarrow> rat \<Rightarrow> flex_state \<Rightarrow> 'a flex_item_scheme list \<Rightarrow> bool" where
  "so_far hz pad st cs \<longleftrightarrow> (\<exists>as bs. cs = as @ bs \<and> lines_hold hz pad (doneLines st) as \<and> line_ok hz pad (line st) bs)"

lemma line_ok_add:
  assumes "line_ok hz pad l bs" "mainSize l' = mainSize l + taken hz c" "totalFlexGrow l' = totalFlexGrow l + flexGrow c"
    "totalFlexShrink l' = totalFlexShrink l + flexShrink c" "itemCount l' = itemCount l + 1" "0 \<le> crossSize l'"
  shows "line_ok hz pad l' (bs @ [c])"
  using assms by (simp add: line_ok_def)

lemma new_line_ok: "line_ok hz pad (new_line\<lparr>mainSize := pad\<rparr>) []"
  by (simp add: line_ok_def new_line_def)

lemma add_item_so_far:
  assumes "so_far hz pad st cs"
  shows "so_far hz pad (add_item hz fw pad mode mx c st) (cs @ [c]) \<and> itemCount (line (add_item hz fw pad mode mx c st)) \<noteq> 0"
proof -
  obtain as bs where ab: "cs = as @ bs" "lines_hold hz pad (doneLines st) as" "line_ok hz pad (line st) bs"
    using assms by (auto simp: so_far_def)
  let ?t = "add_item hz fw pad mode mx c st"
  show ?thesis
  proof (cases "isWrapRequired fw c mode mx (mainSize (line st)) (along hz c + margins_along hz c)")
    case True
    have "line_ok hz pad (line ?t) ([] @ [c])"
      by (rule line_ok_add [OF new_line_ok]) (simp_all add: add_item_def True taken_def Let_def new_line_def)
    moreover have "lines_hold hz pad (doneLines ?t) (as @ bs)"
      using ab lines_hold_append [OF ab(2,3)] line_ok_count [OF ab(3)] True by (cases "bs = []") (simp_all add: add_item_def Let_def)
    ultimately show ?thesis using ab(1) line_ok_count [of hz pad "line ?t" "[] @ [c]"]
      unfolding so_far_def by (intro conjI exI [of _ "as @ bs"] exI [of _ "[c]"]) simp_all
  next
    case False
    have "0 \<le> crossSize (line st)" using ab(3) by (simp add: line_ok_def)
    then have "line_ok hz pad (line ?t) (bs @ [c])"
      by (intro line_ok_add [OF ab(3)]) (simp_all add: add_item_def False taken_def Let_def)
    moreover have "doneLines ?t = doneLines st" using False by (simp add: add_item_def Let_def)
    ultimately show ?thesis using ab line_ok_count [of hz pad "line ?t" "bs @ [c]"]
      unfolding so_far_def by (intro conjI exI [of _ as] exI [of _ "bs @ [c]"]) simp_all
  qed
qed

lemma so_far_fields: "so_far hz pad (st\<lparr>childState := x\<rparr>) cs = so_far hz pad st cs"
  "so_far hz pad (st\<lparr>line := (line st)\<lparr>indicesAlignSelfStretch := is\<rparr>\<rparr>) cs = so_far hz pad st cs"
  by (simp_all add: so_far_def line_ok_def)

lemma flushed_lines:
  assumes "so_far hz pad st cs" "itemCount (line st) \<noteq> 0"
  shows "lines_hold hz pad (doneLines (addFlexLineIfLast True st)) cs"
  using assms lines_hold_append line_ok_count by (fastforce simp: so_far_def addFlexLineIfLast_def)

context flex_items
begin

lemma measure_item_step:
  assumes "item_ok c" "so_far hz (padding_along hz this) st cs"
  shows "\<exists>c' st'. measure_item om density hz this ws hs i is_last c st = Inr (c', addFlexLineIfLast is_last st') \<and> item_ok c' \<and>
    so_far hz (padding_along hz this) st' (cs @ [c']) \<and> itemCount (line st') \<noteq> 0"
proof -
  let ?c = "updateEffectiveLayoutValues density (getMeasureSpecSize ws) (getMeasureSpecMode ws) (getMeasureSpecSize hs) (getMeasureSpecMode hs) c"
  let ?st = "if alignSelf ?c = Some Items_Stretch then st\<lparr>line := (line st)\<lparr>indicesAlignSelfStretch := indicesAlignSelfStretch (line st) @ [i]\<rparr>\<rparr> else st"
  let ?cws = "flex_getChildMeasureSpec ws ((if hz then padding_along True ?c else padding_along True this) + horizontal_margins ?c) (length_or_wrap (effectiveWidth ?c))"
  let ?chs = "flex_getChildMeasureSpec hs ((if hz then padding_along False ?c else padding_along False this) + vertical_margins ?c) (length_or_wrap (effectiveHeight ?c))"
  obtain c1 where c1: "measure om ?cws ?chs ?c = Inr c1" "item_ok c1"
    using measure_item [OF item_ok_update [OF assms(1)]] by blast
  obtain c2 where c2: "checkSizeConstraints om c1 = Inr c2" "item_ok c2" using constrained_ok [OF c1(2)] by blast
  let ?st2 = "add_item hz (flexWrap this) (padding_along hz this) (getMeasureSpecMode (if hz then ws else hs))
    (getMeasureSpecSize (if hz then ws else hs)) c2 (?st\<lparr>childState := childState ?st OR getMeasuredState c2\<rparr>)"
  have "measure_item om density hz this ws hs i is_last c st = Inr (c2, addFlexLineIfLast is_last ?st2)"
    using assms(1) unfolding measure_item_def Let_def item_ok_def by (simp only: if_False c1(1) c2(1) and_then_simps not_True_eq_False)
  moreover have "so_far hz (padding_along hz this) (?st\<lparr>childState := childState ?st OR getMeasuredState c2\<rparr>) cs"
    using assms(2) by (simp add: so_far_fields)
  ultimately show ?thesis using add_item_so_far c2(2) by blast
qed

lemma measure_items_hold:
  assumes "\<forall>c \<in> set cs. item_ok c" "so_far hz (padding_along hz this) st pre"
  shows "\<exists>cs' st'. for_items (measure_item om density hz this ws hs) i cs st = Inr (cs', st') \<and> (\<forall>c \<in> set cs'. item_ok c) \<and>
    length cs' = length cs \<and> (cs \<noteq> [] \<longrightarrow> lines_hold hz (padding_along hz this) (doneLines st') (pre @ cs'))"
  using assms
proof (induction cs arbitrary: i st pre)
  case (Cons c cs)
  obtain c' st1 where s: "measure_item om density hz this ws hs i (cs = []) c st = Inr (c', addFlexLineIfLast (cs = []) st1)" "item_ok c'"
    "so_far hz (padding_along hz this) st1 (pre @ [c'])" "itemCount (line st1) \<noteq> 0"
    using measure_item_step [OF _ Cons.prems(2), of c density ws hs i "cs = []"] Cons.prems(1) by auto
  show ?case
  proof (cases "cs = []")
    case True
    then show ?thesis using s flushed_lines [OF s(3,4)] by simp
  next
    case False
    then have "addFlexLineIfLast (cs = []) st1 = st1" by (simp add: addFlexLineIfLast_def)
    moreover obtain cs' st' where "for_items (measure_item om density hz this ws hs) (Suc i) cs st1 = Inr (cs', st')" "\<forall>c \<in> set cs'. item_ok c"
      "length cs' = length cs" "lines_hold hz (padding_along hz this) (doneLines st') ((pre @ [c']) @ cs')"
      using Cons.IH [OF _ s(3), of "Suc i"] Cons.prems(1) False by auto
    ultimately show ?thesis using s False by simp
  qed
qed simp

lemma measure_lines_hold:
  assumes "\<forall>c \<in> set cs. item_ok c"
  shows "\<exists>cs' st. measure_lines om density hz this ws hs cs = Inr (cs', st) \<and> (\<forall>c \<in> set cs'. item_ok c) \<and>
    length cs' = length cs \<and> lines_hold hz (padding_along hz this) (doneLines st) cs'"
proof -
  let ?st = "\<lparr>line = new_line\<lparr>mainSize := padding_along hz this\<rparr>, largestInLine = MIN_VALUE, childState = 0, doneLines = []\<rparr>"
  have "so_far hz (padding_along hz this) ?st []" using new_line_ok by (simp add: so_far_def)
  from measure_items_hold [OF assms this, of density ws hs 0] show ?thesis
    by (cases cs) (simp_all add: measure_lines_def)
qed

end

section \<open>Growing, shrinking and stretching return\<close>

definition grown :: "'a flex_item_scheme list \<Rightarrow> flex_line \<Rightarrow> string + 'a flex_item_scheme list \<times> nat set \<times> flex_line \<Rightarrow> bool" where
  "grown cs l r \<longleftrightarrow> (\<exists>cs' fr' l'. r = Inr (cs', fr', l') \<and> (\<forall>c \<in> set cs'. item_ok c) \<and> length cs' = length cs \<and>
     itemCount l' = itemCount l \<and> crossSize l \<le> crossSize l')"

lemma grown_again: "grown cs' l' r \<Longrightarrow> length cs' = length cs \<Longrightarrow> itemCount l' = itemCount l \<Longrightarrow> crossSize l \<le> crossSize l' \<Longrightarrow> grown cs l r"
  by (auto simp: grown_def)

context flex_items
begin

lemma expand_item_ok:
  assumes "item_ok c"
  shows "\<exists>c' s'. expand_item om hz un i la c s = Inr (c', s') \<and> item_ok c'"
proof -
  obtain sz s1 where sz: "expand_size hz un i c s = (sz, s1)" by fastforce
  obtain c' where c': "measure om (makeMeasureSpec (if hz then sz else measured_width c) EXACTLY)
      (makeMeasureSpec (if hz then measured_height c else sz) EXACTLY) c = Inr c'" "item_ok c'"
    using measure_item [OF assms] by blast
  show ?thesis using assms c' by (auto simp: expand_item_def sz item_ok_def)
qed

lemma measure_shrunk_ok:
  assumes "item_ok c"
  shows "\<exists>c'. measure_shrunk om hz hs sz c = Inr c' \<and> item_ok c'"
proof (cases hz)
  case True
  have "item_ok (c\<lparr>effectiveMinWidth := 0\<rparr>)" "0 \<le> effectiveMinWidth c" using assms item_ok_min_width [of c 0] by (simp_all add: item_ok_def min_ok_def)
  then show ?thesis using True measure_item [of "c\<lparr>effectiveMinWidth := 0\<rparr>" "makeMeasureSpec sz EXACTLY"
      "flex_getChildMeasureSpec hs (padding_along False c + vertical_margins c) (length_or_wrap (effectiveHeight c))"]
    by (auto simp: measure_shrunk_def item_ok_min_width)
next
  case False
  have "item_ok (c\<lparr>effectiveMinHeight := 0\<rparr>)" "0 \<le> effectiveMinHeight c" using assms item_ok_min_height [of c 0] by (simp_all add: item_ok_def min_ok_def)
  then show ?thesis using False measure_item [of "c\<lparr>effectiveMinHeight := 0\<rparr>" "makeMeasureSpec (measured_width c) EXACTLY" "makeMeasureSpec sz EXACTLY"]
    by (auto simp: measure_shrunk_def item_ok_min_height)
qed

lemma shrink_item_ok:
  assumes "item_ok c"
  shows "\<exists>c' s'. shrink_item om hz hs un i la c s = Inr (c', s') \<and> item_ok c'"
proof -
  obtain sz s1 where sz: "shrink_size hz un i c s = (sz, s1)" by fastforce
  obtain c' where c': "measure_shrunk om hz hs sz c = Inr c'" "item_ok c'" using measure_shrunk_ok [OF assms] by blast
  show ?thesis using assms c' by (auto simp: shrink_item_def sz item_ok_def)
qed

lemma for_slice_ok:
  assumes "\<And>i l c s. item_ok c \<Longrightarrow> \<exists>c' s'. f i l c s = Inr (c', s') \<and> item_ok c'" "\<forall>c \<in> set cs. item_ok c"
  shows "\<exists>cs' s'. for_slice f start n cs s = Inr (cs', s') \<and> (\<forall>c \<in> set cs'. item_ok c) \<and> length cs' = length cs"
  using for_slice_run [of item_ok "\<lambda>_. True" f cs s start n] assms by simp

lemma expand_grown: "\<forall>c \<in> set cs. item_ok c \<Longrightarrow> grown cs l (expandFlexItems om hz mx pad start cs fr l)"
proof (induction "card ({start..<start + itemCount l} - fr)" arbitrary: cs fr l rule: less_induct)
  case less
  let ?un = "(mx - mainSize l) / totalFlexGrow l"
  obtain cs' st where s: "for_slice (expand_item om hz ?un) start (itemCount l) cs (start_growing pad l fr) = Inr (cs', st)"
    "\<forall>c \<in> set cs'. item_ok c" "length cs' = length cs"
    using for_slice_ok [of "expand_item om hz ?un", OF expand_item_ok less.prems] by blast
  have fz: "freezes start (start + itemCount l) (start_growing pad l fr) st" by (rule slice_freezes [OF expand_item_freezes s(1)])
  then have l: "itemCount (growing st) = itemCount l" "crossSize l \<le> crossSize (growing st)" by (simp_all add: freezes_def start_growing_def)
  show ?case
  proof (cases "totalFlexGrow l \<le> 0 \<or> mx < mainSize l")
    case True
    then show ?thesis using less.prems by (simp add: expandFlexItems.simps grown_def)
  next
    case False
    show ?thesis
    proof (cases "needsMore st \<and> mainSize l \<noteq> mainSize (growing st)")
      case True
      then have "grown cs' (growing st) (expandFlexItems om hz mx pad start cs' (frozen st) (growing st))"
        using less.hyps [OF fewer_left [OF fz]] s(2) by simp
      then show ?thesis using False True s(1,3) l grown_again by (simp add: expandFlexItems.simps [of om hz mx pad start cs fr l])
    next
      case stop: False
      then show ?thesis using False s l by (auto simp: expandFlexItems.simps [of om hz mx pad start cs fr l] grown_def)
    qed
  qed
qed

lemma shrink_grown: "\<forall>c \<in> set cs. item_ok c \<Longrightarrow> grown cs l (shrinkFlexItems om hz hs mx pad start cs fr l)"
proof (induction "card ({start..<start + itemCount l} - fr)" arbitrary: cs fr l rule: less_induct)
  case less
  let ?un = "(mainSize l - mx) / totalFlexShrink l"
  obtain cs' st where s: "for_slice (shrink_item om hz hs ?un) start (itemCount l) cs (start_growing pad l fr) = Inr (cs', st)"
    "\<forall>c \<in> set cs'. item_ok c" "length cs' = length cs"
    using for_slice_ok [of "shrink_item om hz hs ?un", OF shrink_item_ok less.prems] by blast
  have fz: "freezes start (start + itemCount l) (start_growing pad l fr) st" by (rule slice_freezes [OF shrink_item_freezes s(1)])
  then have l: "itemCount (growing st) = itemCount l" "crossSize l \<le> crossSize (growing st)" by (simp_all add: freezes_def start_growing_def)
  show ?case
  proof (cases "totalFlexShrink l \<le> 0 \<or> mainSize l < mx")
    case True
    then show ?thesis using less.prems by (simp add: shrinkFlexItems.simps grown_def)
  next
    case False
    show ?thesis
    proof (cases "needsMore st \<and> mainSize l \<noteq> mainSize (growing st)")
      case True
      then have "grown cs' (growing st) (shrinkFlexItems om hz hs mx pad start cs' (frozen st) (growing st))"
        using less.hyps [OF fewer_left [OF fz]] s(2) by simp
      then show ?thesis using False True s(1,3) l grown_again by (simp add: shrinkFlexItems.simps [of om hz hs mx pad start cs fr l])
    next
      case stop: False
      then show ?thesis using False s l by (auto simp: shrinkFlexItems.simps [of om hz hs mx pad start cs fr l] grown_def)
    qed
  qed
qed

lemma size_lines_ok:
  "\<forall>c \<in> set cs. item_ok c \<Longrightarrow> \<forall>l \<in> set ls. 0 \<le> crossSize l \<Longrightarrow>
    \<exists>cs' ls'. size_lines om hz hs mx pad start cs fr ls = Inr (cs', ls') \<and> (\<forall>c \<in> set cs'. item_ok c) \<and> length cs' = length cs \<and>
      map itemCount ls' = map itemCount ls \<and> (\<forall>l \<in> set ls'. 0 \<le> crossSize l)"
proof (induction ls arbitrary: start cs fr)
  case (Cons l ls)
  let ?r = "if mainSize l < mx then expandFlexItems om hz mx pad start cs fr l else shrinkFlexItems om hz hs mx pad start cs fr l"
  have "grown cs l ?r" using expand_grown [OF Cons.prems(1)] shrink_grown [OF Cons.prems(1)] by simp
  then obtain cs1 fr1 l1 where r: "?r = Inr (cs1, fr1, l1)" "\<forall>c \<in> set cs1. item_ok c" "length cs1 = length cs"
    "itemCount l1 = itemCount l" "crossSize l \<le> crossSize l1" by (auto simp: grown_def)
  obtain cs2 ls2 where "size_lines om hz hs mx pad (start + itemCount l) cs1 fr1 ls = Inr (cs2, ls2)" "\<forall>c \<in> set cs2. item_ok c"
    "length cs2 = length cs1" "map itemCount ls2 = map itemCount ls" "\<forall>l \<in> set ls2. 0 \<le> crossSize l"
    using Cons.IH [OF r(2), of "start + itemCount l" fr1] Cons.prems(2) by auto
  then show ?case using r Cons.prems(2) by auto
qed simp

lemma stretch_view_ok:
  assumes "item_ok v"
  shows "\<exists>v'. stretch_view om hz ws cross v = Inr v' \<and> item_ok v'"
proof (cases hz)
  case True
  let ?hs = "makeMeasureSpec (max (cross - effectiveMarginTop v - effectiveMarginBottom v) 0) EXACTLY"
  let ?cws = "flex_getChildMeasureSpec ws (padding_along True v + horizontal_margins v)
    (if effectiveWidth v < 0 then WRAP_CONTENT else min (effectiveWidth v) (measured_width v))"
  obtain v1 where v1: "measure om ?cws ?hs v = Inr v1" "item_ok v1" using measure_item [OF assms] by blast
  obtain v2 where "measure om (makeMeasureSpec (measured_width v) EXACTLY) ?hs v1 = Inr v2" "item_ok v2"
    using measure_item [OF v1(2)] by blast
  then show ?thesis using True v1 by (simp add: stretch_view_def stretchViewVertically_def Let_def)
next
  case False
  then show ?thesis using measure_item [OF assms] by (auto simp: stretch_view_def stretchViewHorizontally_def Let_def)
qed

lemma stretch_view_returns: "\<exists>v'. stretch_view om hz ws cross v = Inr v'"
  unfolding stretch_view_def stretchViewVertically_def stretchViewHorizontally_def Let_def
  by (cases hz; simp only: if_True if_False) (auto intro!: and_then_returns measure_returns split: if_splits)

lemma stretch_all_ok:
  "\<forall>c \<in> set cs. item_ok c \<Longrightarrow> \<exists>cs'. stretch_all om hz ws start cs ls = Inr cs' \<and> (\<forall>c \<in> set cs'. item_ok c) \<and> length cs' = length cs"
proof (induction ls arbitrary: start cs)
  case (Cons l ls)
  have step: "\<exists>c' s'. stretch_item om hz ws (crossSize l) i la c u = Inr (c', s') \<and> item_ok c'" if "item_ok c" for i la c u
    using stretch_view_ok [OF that, of hz ws "crossSize l"] that by (auto simp: stretch_item_def)
  obtain cs1 u where "for_slice (stretch_item om hz ws (crossSize l)) start (itemCount l) cs () = Inr (cs1, u)"
    "\<forall>c \<in> set cs1. item_ok c" "length cs1 = length cs"
    using for_slice_ok [of "stretch_item om hz ws (crossSize l)", OF step Cons.prems] by blast
  then show ?case using Cons.IH [of cs1 "start + itemCount l"] by auto
qed simp

lemma stretch_indices_ok:
  "\<forall>c \<in> set cs. item_ok c \<Longrightarrow> \<exists>cs'. stretch_indices om hz ws cross ks cs = Inr cs' \<and> (\<forall>c \<in> set cs'. item_ok c) \<and> length cs' = length cs"
proof (induction ks arbitrary: cs)
  case (Cons i ks)
  show ?case
  proof (cases "i < length cs")
    case True
    then obtain v where v: "stretch_view om hz ws cross (cs ! i) = Inr v" "item_ok v" using Cons.prems stretch_view_ok by (meson nth_mem)
    have "\<forall>c \<in> set (cs[i := v]). item_ok c" using Cons.prems v(2) by (auto dest!: set_update_subset_insert [THEN subsetD])
    then show ?thesis using v(1) Cons.IH [of "cs[i := v]"] by auto
  next
    case False
    obtain v where "stretch_view om hz ws cross (cs ! i) = Inr v" using stretch_view_returns by blast
    then show ?thesis using Cons.IH [OF Cons.prems] False by (simp add: list_update_beyond)
  qed
qed simp

lemma stretch_selected_ok:
  "\<forall>c \<in> set cs. item_ok c \<Longrightarrow> \<exists>cs'. stretch_selected om hz ws cs ls = Inr cs' \<and> (\<forall>c \<in> set cs'. item_ok c) \<and> length cs' = length cs"
proof (induction ls arbitrary: cs)
  case (Cons l ls)
  obtain cs1 where "stretch_indices om hz ws (crossSize l) (indicesAlignSelfStretch l) cs = Inr cs1" "\<forall>c \<in> set cs1. item_ok c"
    "length cs1 = length cs" using stretch_indices_ok [OF Cons.prems] by blast
  then show ?case using Cons.IH [of cs1] by auto
qed simp

lemma stretchViews_ok:
  "\<forall>c \<in> set cs. item_ok c \<Longrightarrow> \<exists>cs'. stretchViews om hz this cs ls = Inr cs' \<and> (\<forall>c \<in> set cs'. item_ok c) \<and> length cs' = length cs"
  using stretch_all_ok stretch_selected_ok by (simp add: stretchViews_def Let_def)

end

section \<open>The cross sizes\<close>

lemma baseline_lines_keep:
  "map itemCount (baseline_lines density fw cs ls) = map itemCount ls" "l \<in> set (baseline_lines density fw cs ls) \<Longrightarrow> 0 \<le> crossSize l"
proof -
  have "a \<le> foldl (\<lambda>m c. max m (f c)) a cs" for f and a :: rat and cs :: "'a view_scheme list"
    by (induction cs arbitrary: a) (auto intro: order_trans [OF max.cobounded1])
  then have "0 \<le> foldl (\<lambda>m c. max m (f c)) MIN_VALUE cs" for f and cs :: "'a view_scheme list"
    by (rule order_trans [rotated]) (simp add: MIN_VALUE_def)
  then show "l \<in> set (baseline_lines density fw cs ls) \<Longrightarrow> 0 \<le> crossSize l"
    by (induction density fw cs ls rule: baseline_lines.induct) auto
qed (induction density fw cs ls rule: baseline_lines.induct; simp)

lemma stretch_lines_counts: "map itemCount (stretch_lines u err ls) = map itemCount ls"
  by (induction u err ls rule: stretch_lines.induct) (auto simp: Let_def split: prod.split)

lemma space_between_counts: "sum_list (map itemCount (space_between sp err ls)) = sum_list (map itemCount ls)"
  by (induction sp err ls rule: space_between.induct) (auto simp: Let_def dummy_line_def new_line_def split: prod.split)

lemma space_around_counts: "sum_list (map itemCount (concat (map (\<lambda>l. [dummy_line x, l, dummy_line x]) ls))) = sum_list (map itemCount ls)"
  by (induction ls) (auto simp: dummy_line_def new_line_def)

text \<open>What fills the free space when there is some.\<close>

definition filled :: "align_content \<Rightarrow> rat \<Rightarrow> flex_line list \<Rightarrow> flex_line list" where
  "filled content free ls =
     (case content of
        Content_Stretch \<Rightarrow> stretch_lines (free / of_nat (length ls)) 0 ls
      | Content_Around \<Rightarrow> concat (map (\<lambda>l. [dummy_line (free / of_nat (length ls * 2)), l, dummy_line (free / of_nat (length ls * 2))]) ls)
      | Content_Between \<Rightarrow> space_between (free / of_nat (length ls - 1)) 0 ls
      | Content_Center \<Rightarrow> dummy_line (free / 2) # ls @ [dummy_line (free / 2)]
      | Content_End \<Rightarrow> dummy_line free # ls
      | Content_Start \<Rightarrow> ls)"

lemma determineCrossSize_is:
  "determineCrossSize content spec pad ls =
    (if getMeasureSpecMode spec \<noteq> EXACTLY then ls
     else if length ls = 1 then [(hd ls)\<lparr>crossSize := getMeasureSpecSize spec - pad\<rparr>]
     else if 2 \<le> length ls \<and> getSumOfCrossSize ls + pad < getMeasureSpecSize spec
     then filled content (getMeasureSpecSize spec - (getSumOfCrossSize ls + pad)) ls else ls)"
  by (cases ls; cases "tl ls"; cases content) (simp_all add: determineCrossSize_def filled_def Let_def del: stretch_lines.simps space_between.simps)

lemma filled_counts: "sum_list (map itemCount (filled content free ls)) = sum_list (map itemCount ls)"
  by (cases content) (simp_all add: filled_def stretch_lines_counts space_between_counts space_around_counts dummy_line_def [of "free / 2"]
      dummy_line_def [of free] new_line_def)

lemma determineCrossSize_counts:
  "sum_list (map itemCount (determineCrossSize content spec pad ls)) = sum_list (map itemCount ls)"
  by (cases ls) (simp_all add: determineCrossSize_is filled_counts)

section \<open>The size of the layout\<close>

lemma resolve_state: "measured_size (resolveSizeAndState a b m st) = measured_size (resolveSizeAndState a b m 0)"
proof -
  have "(w OR (st AND MEASURED_STATE_MASK)) AND MEASURED_SIZE_MASK = (w OR (0 AND MEASURED_STATE_MASK)) AND MEASURED_SIZE_MASK" for w :: "32 word"
  proof -
    have "MEASURED_STATE_MASK AND MEASURED_SIZE_MASK = 0" by (simp add: MEASURED_STATE_MASK_def MEASURED_SIZE_MASK_def)
    then have "(st AND MEASURED_STATE_MASK) AND MEASURED_SIZE_MASK = 0" by (simp add: and.assoc)
    then show ?thesis by (simp add: bit.conj_disj_distrib2)
  qed
  then show ?thesis by (simp add: measured_size_def resolveSizeAndState_def Let_def)
qed

lemma flex_dimension_fits:
  assumes "getMeasureSpecMode spec \<in> {UNSPECIFIED, EXACTLY, AT_MOST}" "getMeasureSpecMode spec = AT_MOST \<Longrightarrow> 0 \<le> calculated"
  shows "\<exists>w st. flex_dimension spec calculated ts state = Inr (w, st) \<and> (measurable_spec spec \<longrightarrow> fits spec (measured_size w))"
proof -
  let ?sz = "getMeasureSpecSize spec" and ?mode = "getMeasureSpecMode spec"
  let ?st = "if ?sz < calculated then state OR ts else state"
  have sz: "0 \<le> ?sz" by (rule getMeasureSpecSize_bounds)
  have exact: "measurable_spec spec \<longrightarrow> fits spec (measured_size (resolveSizeAndState ?sz ?sz ?mode ?st))"
    using resolved_fits [OF _ sz] resolve_state by metis
  consider "?mode = EXACTLY" | "?mode = AT_MOST" "?sz < calculated" | "?mode = AT_MOST" "\<not> ?sz < calculated" | "?mode = UNSPECIFIED"
    using assms(1) by auto
  then show ?thesis
  proof cases
    case 1
    then show ?thesis using exact by (simp add: flex_dimension_def Let_def)
  next
    case 2
    then show ?thesis using exact by (simp add: flex_dimension_def Let_def)
  next
    case 3
    then have "0 \<le> calculated" using assms(2) by simp
    have "measured_size (resolveSizeAndState calculated calculated AT_MOST state) \<le> ?sz \<and>
        0 \<le> measured_size (resolveSizeAndState calculated calculated AT_MOST state)" if "measurable_spec spec"
    proof -
      have "calculated < 2 ^ 24" using 3 that by (simp add: measurable_spec_def)
      then have "measured_size (to_int32 calculated) \<le> calculated"
        using measured_size_small \<open>0 \<le> calculated\<close> js_trunc_nonneg by auto
      then show ?thesis using 3(2) resolve_state [of calculated calculated AT_MOST state]
        by (simp add: resolveSizeAndState_def measured_size_bounds)
    qed
    then show ?thesis using 3 by (simp add: flex_dimension_def Let_def fits_def)
  next
    case 4
    then show ?thesis by (simp add: flex_dimension_def Let_def fits_def)
  qed
qed

section \<open>The order of the items\<close>

definition order_ok :: "('c, 'b) flex_layout_scheme \<Rightarrow> bool" where
  "order_ok this \<longleftrightarrow> mset (reorderedIndices this) = mset [0..<length (orderCache this)]"

definition visible_places :: "('a view_scheme, 'b) flex_layout_scheme \<Rightarrow> nat list" where
  "visible_places this = [i \<leftarrow> [0..<length (subViews this)]. \<not> isCollapsed (subViews this ! i)]"

lemma reordered_perm:
  assumes "createReorderedIndices orders = (cache, indices)"
  shows "length cache = length orders" "mset indices = mset [0..<length orders]"
proof -
  have "mset (map snd (sort_key fst (zip orders [0..<length orders]))) = image_mset snd (mset (zip orders [0..<length orders]))"
    unfolding mset_map mset_sort ..
  also have "\<dots> = mset (map snd (zip orders [0..<length orders]))" unfolding mset_map ..
  also have "map snd (zip orders [0..<length orders]) = [0..<length orders]" by (simp add: map_snd_zip)
  finally show "mset indices = mset [0..<length orders]" using assms by (auto simp: createReorderedIndices_def Let_def simp del: mset_map)
  show "length cache = length orders" using assms by (auto simp: createReorderedIndices_def Let_def)
qed

lemma new_context_is:
  assumes "order_ok this"
  shows "order_ok (new_context this)" "mset (item_places (new_context this)) = mset (visible_places this)"
    "subViews (new_context this) = subViews this" "measureContext (new_context this) = visible_places this"
proof -
  let ?t = "new_context this" and ?ctx = "visible_places this"
  let ?orders = "map (\<lambda>i. item_order (subViews this ! i)) ?ctx"
  have t: "subViews ?t = subViews this \<and> measureContext ?t = ?ctx \<and> order_ok ?t \<and> length (orderCache ?t) = length ?ctx"
  proof (cases "isOrderChanged (orderCache this) ?orders")
    case True
    obtain cache indices where c: "createReorderedIndices ?orders = (cache, indices)" by fastforce
    then have "?t = this\<lparr>measureContext := ?ctx, orderCache := cache, reorderedIndices := indices\<rparr>"
      using True by (simp add: new_context_def Let_def visible_places_def)
    then show ?thesis using reordered_perm [OF c] by (simp add: order_ok_def)
  next
    case False
    then have "?t = this\<lparr>measureContext := ?ctx\<rparr>" by (simp add: new_context_def Let_def visible_places_def)
    then show ?thesis using assms False by (simp add: order_ok_def isOrderChanged_def)
  qed
  then show "order_ok ?t" "subViews ?t = subViews this" "measureContext ?t = ?ctx" by simp_all
  have "mset (item_places ?t) = image_mset (\<lambda>j. ?ctx ! j) (mset [0..<length ?ctx])"
    using t by (simp add: item_places_def order_ok_def del: mset_upt)
  also have "\<dots> = mset (map (\<lambda>j. ?ctx ! j) [0..<length ?ctx])" by (simp del: mset_upt)
  finally show "mset (item_places ?t) = mset ?ctx" by (simp add: map_nth)
qed

lemma fold_update:
  "length (fold (\<lambda>(i, c) vs. vs[i := c]) xs vs) = length vs \<and> set (fold (\<lambda>(i, c) vs. vs[i := c]) xs vs) \<subseteq> set vs \<union> snd ` set xs"
proof (induction xs arbitrary: vs)
  case (Cons x xs)
  have "set (vs[fst x := snd x]) \<subseteq> insert (snd x) (set vs)" by (rule set_update_subset_insert)
  then show ?case using Cons.IH [of "vs[fst x := snd x]"] by (auto simp: case_prod_beta)
qed simp

lemma put_items_views: "set (subViews (put_items cs this)) \<subseteq> set (subViews this) \<union> set cs"
proof -
  have "snd ` set (zip (item_places this) cs) \<subseteq> set cs" by (auto dest: set_zip_rightD)
  then show ?thesis using fold_update [of "zip (item_places this) cs" "subViews this"]
    unfolding put_items_def by (simp add: case_prod_beta) blast
qed

lemma put_items_fields [simp]: "order_ok (put_items cs this) = order_ok this" "flexLines (put_items cs this) = flexLines this"
  "padding (put_items cs this) = padding this"
  by (simp_all add: put_items_def order_ok_def)

lemma items_new_context:
  assumes "order_ok this" "\<forall>v \<in> set (subViews this). measured_ok v \<and> min_ok v"
  shows "\<forall>v \<in> set (items (new_context this)). item_ok v" "length (items (new_context this)) = length (visible_places this)"
proof -
  have "set (item_places (new_context this)) = set (visible_places this)" using new_context_is(2) [OF assms(1)] by (metis set_mset_mset)
  then show "\<forall>v \<in> set (items (new_context this)). item_ok v"
    using assms(2) new_context_is(3) [OF assms(1)] by (auto simp: items_def item_ok_def visible_places_def)
  show "length (items (new_context this)) = length (visible_places this)"
    using new_context_is(2) [OF assms(1)] by (metis items_def length_map size_mset)
qed

lemma padding_new_context [simp]: "padding (new_context this) = padding this"
  by (simp add: new_context_def Let_def split: prod.split)

lemma cross_sum_nonneg: "\<forall>l \<in> set ls. 0 \<le> crossSize l \<Longrightarrow> 0 \<le> getSumOfCrossSize ls"
proof -
  have "0 \<le> a \<Longrightarrow> \<forall>l \<in> set ls. 0 \<le> crossSize l \<Longrightarrow> 0 \<le> foldl (\<lambda>sum l. sum + crossSize l) a ls" for a
    by (induction ls arbitrary: a) auto
  then show "\<forall>l \<in> set ls. 0 \<le> crossSize l \<Longrightarrow> 0 \<le> getSumOfCrossSize ls" by (simp add: getSumOfCrossSize_def)
qed

lemma largest_nonneg: "0 \<le> getLargestMainSize ls"
proof -
  have "a \<le> foldl (\<lambda>m l. max m (mainSize l)) a ls" for a
    by (induction ls arbitrary: a) (auto intro: order_trans [OF max.cobounded1])
  then show ?thesis unfolding getLargestMainSize_def by (rule order_trans [rotated]) (simp add: MIN_VALUE_def)
qed

lemma absorbed_nonneg: "0 \<le> x \<Longrightarrow> 0 \<le> absorbed x"
  by (simp add: absorbed_def)

lemma setMeasured_fits:
  assumes "getMeasureSpecMode ws \<in> {UNSPECIFIED, EXACTLY, AT_MOST}" "getMeasureSpecMode hs \<in> {UNSPECIFIED, EXACTLY, AT_MOST}"
    and "getMeasureSpecMode (if hz then hs else ws) = AT_MOST \<Longrightarrow> 0 \<le> getSumOfCrossSize ls + padding_along (\<not> hz) this"
  shows "\<exists>w h. setMeasuredDimensionForFlex hz ws hs state ls this = Inr (setMeasuredDimension w h this) \<and>
    fits_specs ws hs (setMeasuredDimension w h this)"
proof -
  let ?main = "getLargestMainSize ls" and ?cross = "absorbed (getSumOfCrossSize ls + padding_along (\<not> hz) this)"
  have cross: "getMeasureSpecMode (if hz then hs else ws) = AT_MOST \<Longrightarrow> 0 \<le> ?cross"
    by (rule absorbed_nonneg, rule assms(3))
  have w: "getMeasureSpecMode ws = AT_MOST \<Longrightarrow> 0 \<le> (if hz then ?main else ?cross)"
    using cross largest_nonneg [of ls] by (cases hz) (simp_all only: if_True if_False)
  have h: "getMeasureSpecMode hs = AT_MOST \<Longrightarrow> 0 \<le> (if hz then ?cross else ?main)"
    using cross largest_nonneg [of ls] by (cases hz) (simp_all only: if_True if_False)
  obtain w st where ws: "flex_dimension ws (if hz then ?main else ?cross) MEASURED_STATE_TOO_SMALL state = Inr (w, st)"
    "measurable_spec ws \<longrightarrow> fits ws (measured_size w)" using flex_dimension_fits [OF assms(1) w] by blast
  obtain h st' where "flex_dimension hs (if hz then ?cross else ?main) (signed_drop_bit 16 MEASURED_STATE_TOO_SMALL) st = Inr (h, st')"
    "measurable_spec hs \<longrightarrow> fits hs (measured_size h)" using flex_dimension_fits [OF assms(2) h] by blast
  then show ?thesis using ws unfolding setMeasuredDimensionForFlex_def Let_def
    by (simp only: and_then_simps prod.case) (auto simp: fits_specs_def)
qed

context flex_items
begin

lemma flex_measures:
  assumes ok: "order_ok this" "\<forall>v \<in> set (subViews this). measured_ok v \<and> min_ok v"
    and modes: "getMeasureSpecMode ws \<in> {UNSPECIFIED, EXACTLY, AT_MOST}" "getMeasureSpecMode hs \<in> {UNSPECIFIED, EXACTLY, AT_MOST}"
    and pad: "0 \<le> padding_along True this" "0 \<le> padding_along False this"
  shows "\<exists>this'. flex_onMeasure om density ws hs this = Inr this' \<and> order_ok this' \<and>
    sum_list (map itemCount (flexLines this')) = length (visible_places this) \<and>
    (\<forall>v \<in> set (subViews this'). measured_ok v \<and> min_ok v) \<and> fits_specs ws hs this'"
proof -
  define t where "t = new_context this"
  define hz where "hz = (flexDirection t = ROW \<or> flexDirection t = ROW_REVERSE)"
  have t: "order_ok t" "subViews t = subViews this" "padding t = padding this"
    using new_context_is [OF ok(1)] by (simp_all add: t_def)
  have its: "\<forall>v \<in> set (items t). item_ok v" "length (items t) = length (visible_places this)"
    using items_new_context [OF ok] by (simp_all add: t_def)
  obtain cs1 st where m1: "measure_lines om density hz t ws hs (items t) = Inr (cs1, st)" "\<forall>c \<in> set cs1. item_ok c"
    "length cs1 = length (items t)" "lines_hold hz (padding_along hz t) (doneLines st) cs1"
    using measure_lines_hold [OF its(1)] by blast
  have "\<forall>l \<in> set ls. 0 \<le> crossSize l" if "lines_hold hz p ls cs" for p ls and cs :: "'a flex_item_scheme list"
    using that by (induction hz p ls cs rule: lines_hold.induct) (auto simp: line_ok_def)
  then have cross1: "\<forall>l \<in> set (doneLines st). 0 \<le> crossSize l" using m1(4) by blast
  obtain cs2 ls2 where m2: "determineMainSize om hz t ws hs cs1 (doneLines st) = Inr (cs2, ls2)" "\<forall>c \<in> set cs2. item_ok c"
    "map itemCount ls2 = map itemCount (doneLines st)" "\<forall>l \<in> set ls2. 0 \<le> crossSize l"
    using size_lines_ok [OF m1(2) cross1] by (metis determineMainSize_def)
  define ls3 where "ls3 = (if hz \<and> alignItems t = Items_Baseline then baseline_lines density (flexWrap t) cs2 ls2 else ls2)"
  have ls3: "map itemCount ls3 = map itemCount ls2" "\<forall>l \<in> set ls3. 0 \<le> crossSize l"
    using baseline_lines_keep m2(4) by (auto simp: ls3_def)
  define ls4 where "ls4 = determineCrossSize (alignContent t) (if hz then hs else ws) (padding_along (\<not> hz) t) ls3"
  have count: "sum_list (map itemCount ls4) = length (visible_places this)"
    using determineCrossSize_counts [of "alignContent t" "if hz then hs else ws" "padding_along (\<not> hz) t" ls3] lines_hold_count [OF m1(4)]
      ls3(1) m2(3) m1(3) its(2) by (simp add: ls4_def)
  obtain cs3 where m3: "stretchViews om hz t cs2 ls4 = Inr cs3" "\<forall>c \<in> set cs3. item_ok c" using stretchViews_ok [OF m2(2)] by blast
  define t' where "t' = put_items cs3 (t\<lparr>flexLines := ls4\<rparr>)"
  have pad': "padding_along b t' = padding_along b this" for b using t(3) by (simp add: t'_def padding_along_def)
  have "0 \<le> getSumOfCrossSize ls4 + padding_along (\<not> hz) t'" if "getMeasureSpecMode (if hz then hs else ws) = AT_MOST"
  proof -
    have "ls4 = ls3" using that by (simp add: ls4_def determineCrossSize_is)
    moreover have "0 \<le> padding_along (\<not> hz) t'" using pad pad' by (cases hz) simp_all
    ultimately show ?thesis using cross_sum_nonneg [OF ls3(2)] by simp
  qed
  then obtain w h where f: "setMeasuredDimensionForFlex hz ws hs (childState st) ls4 t' = Inr (setMeasuredDimension w h t')"
    "fits_specs ws hs (setMeasuredDimension w h t')" using setMeasured_fits [OF modes] by blast
  have "flex_onMeasure om density ws hs this = Inr (setMeasuredDimension w h t')"
    unfolding flex_onMeasure_def Let_def t_def [symmetric] hz_def [symmetric]
    using m1(1) m2(1) m3(1) f(1) by (simp only: and_then_simps prod.case flip: ls3_def) (simp flip: ls4_def t'_def)
  moreover have "order_ok (setMeasuredDimension w h t')" "flexLines (setMeasuredDimension w h t') = ls4"
    "subViews (setMeasuredDimension w h t') = subViews t'"
    using t(1) by (simp_all add: t'_def order_ok_def setMeasuredDimension_def set_flag_def put_items_def)
  moreover have "\<forall>v \<in> set (subViews t'). measured_ok v \<and> min_ok v"
    using put_items_views [of cs3 "t\<lparr>flexLines := ls4\<rparr>"] m3(2) ok(2) t(2) by (auto simp: t'_def item_ok_def)
  ultimately show ?thesis using count f(2) by auto
qed

end

interpretation flex_leaves: flex_items "view_onMeasure native" for native
  by unfold_locales (auto simp: view_onMeasure_def Let_def setMeasuredDimension_def set_flag_def split: option.splits prod.splits)

text \<open>C37: Measuring a flexbox layout returns: it puts each visible item into a line, keeps the sizes of the items within the specs
  they were measured with, and its own size fits its specs.\<close>

theorem flexbox_measures_all_items:
  assumes "flex_items om" "order_ok this" "\<forall>v \<in> set (subViews this). measured_ok v \<and> min_ok v"
    and "getMeasureSpecMode ws \<in> {UNSPECIFIED, EXACTLY, AT_MOST}" "getMeasureSpecMode hs \<in> {UNSPECIFIED, EXACTLY, AT_MOST}"
    and "0 \<le> padding_along True this" "0 \<le> padding_along False this"
  shows "\<exists>this'. flex_onMeasure om density ws hs this = Inr this' \<and> order_ok this' \<and>
    sum_list (map itemCount (flexLines this')) = length (visible_places this) \<and>
    (\<forall>v \<in> set (subViews this'). measured_ok v \<and> min_ok v) \<and> fits_specs ws hs this'"
  by (rule flex_items.flex_measures [OF assms])

text \<open>A row of two items, one of them collapsed, that has not been measured yet.\<close>

definition two_items :: "flex_item flex_layout" where
  "two_items = view.extend plain_view (layout_view_ext
     [view.extend plain_view (flex_item_ext 1 0 1 False None ()), view.extend (plain_view\<lparr>isCollapsed := True\<rparr>) (flex_item_ext 1 0 1 False None ())]
     (flex_layout_ext ROW WRAP Justify_Start Items_Stretch Content_Stretch [] [] [] [] ()))"

theorem flexbox_measures_all_items_witness:
  "\<exists>this'. flex_onMeasure (view_onMeasure (Some (\<lambda>_ _ _ _. (50, 20)))) 2 (makeMeasureSpec 100 EXACTLY) (makeMeasureSpec 80 AT_MOST) two_items =
      Inr this' \<and> order_ok this' \<and> sum_list (map itemCount (flexLines this')) = 1 \<and>
    (\<forall>v \<in> set (subViews this'). measured_ok v \<and> min_ok v) \<and>
    fits_specs (makeMeasureSpec 100 EXACTLY) (makeMeasureSpec 80 AT_MOST) this'"
proof -
  have modes: "getMeasureSpecMode (makeMeasureSpec 100 EXACTLY) = EXACTLY" "getMeasureSpecMode (makeMeasureSpec 80 AT_MOST) = AT_MOST"
    by code_simp+
  have ok: "order_ok two_items" "\<forall>v \<in> set (subViews two_items). measured_ok v \<and> min_ok v"
    "0 \<le> padding_along True two_items" "0 \<le> padding_along False two_items" "length (visible_places two_items) = 1"
    by (auto simp: two_items_def order_ok_def plain_view_def view.extend_def measured_ok_def min_ok_def padding_along_def visible_places_def)
  show ?thesis using flexbox_measures_all_items [OF flex_leaves.flex_items_axioms ok(1,2) _ _ ok(3,4),
      of "makeMeasureSpec 100 EXACTLY" "makeMeasureSpec 80 AT_MOST"] modes ok(5) by simp
qed

end
