(* ===== verification/Flexbox_Fill.thy ===== *)
theory Flexbox_Fill
  imports Flexbox_Lines
begin

text \<open>
  The free space of a \<open>FlexboxLayout\<close> is given out to the last pixel: lines that share it fill the cross axis, and items that
  grow fill their line. The sizes are rounded, and what the rounding takes is carried on.
\<close>

section \<open>Rounding\<close>

lemma js_round_Ints [simp]: "x \<in> \<int> \<Longrightarrow> of_int (js_round x) = x"
  by (auto elim: Ints_cases)

lemma js_round_err: "\<bar>x - of_int (js_round x)\<bar> \<le> 1 / 2" "of_int (js_round x) - 1 / 2 \<le> x" "x < of_int (js_round x) + 1 / 2"
proof -
  show "of_int (js_round x) - 1 / 2 \<le> x" "x < of_int (js_round x) + 1 / 2"
    unfolding js_round_def using floor_correct [of "x + 1 / 2"] by linarith+
  then show "\<bar>x - of_int (js_round x)\<bar> \<le> 1 / 2" by linarith
qed

lemma getMeasureSpecSize_in_Ints [simp]: "getMeasureSpecSize w \<in> \<int>"
  using getMeasureSpecSize_Ints [of w] by auto

lemma along_Ints [simp]: "along hz v \<in> \<int>"
  using measured_size_Ints [of "measuredWidth v"] measured_size_Ints [of "measuredHeight v"]
  by (auto simp: along_def measured_width_def measured_height_def)

lemma small_Ints: "(x :: rat) \<in> \<int> \<Longrightarrow> \<bar>x\<bar> \<le> 1 / 2 \<Longrightarrow> x = 0"
proof (elim Ints_cases)
  fix i assume "x = of_int i" "\<bar>x\<bar> \<le> 1 / 2"
  then have "\<bar>i\<bar> < 1" by linarith
  then show "x = 0" using \<open>x = of_int i\<close> by simp
qed

lemma carry_keeps:
  assumes "carry x err = (x', err')"
  shows "x' + err' = x + err" "x \<in> \<int> \<Longrightarrow> x' \<in> \<int>" "\<bar>err\<bar> \<le> 3 / 2 \<Longrightarrow> \<bar>err'\<bar> \<le> 1" "\<bar>err\<bar> \<le> 1 \<Longrightarrow> x' = x \<and> err' = err"
  using assms by (auto simp: carry_def split: if_splits)

section \<open>The cross axis\<close>

abbreviation cross_sum :: "flex_line list \<Rightarrow> rat" where
  "cross_sum ls \<equiv> sum_list (map crossSize ls)"

lemma getSumOfCrossSize_is: "getSumOfCrossSize ls = cross_sum ls"
proof -
  have "foldl (\<lambda>sum l. sum + crossSize l) a ls = a + cross_sum ls" for a
    by (induction ls arbitrary: a) (simp_all add: add.assoc)
  then show ?thesis by (simp add: getSumOfCrossSize_def)
qed

lemma cross_sum_Ints: "\<forall>l \<in> set ls. crossSize l \<in> \<int> \<Longrightarrow> cross_sum ls \<in> \<int>"
  by (induction ls) auto

lemma stretch_lines_sum:
  "ls \<noteq> [] \<Longrightarrow> \<forall>l \<in> set ls. crossSize l \<in> \<int> \<Longrightarrow> \<bar>err\<bar> \<le> 1 \<Longrightarrow> err + of_nat (length ls) * u \<in> \<int> \<Longrightarrow>
    cross_sum (stretch_lines u err ls) = cross_sum ls + of_nat (length ls) * u + err"
proof (induction ls arbitrary: err)
  case (Cons l ls)
  show ?case
  proof (cases "ls = []")
    case True
    have "u + err \<in> \<int>" using Cons.prems(4) True by (simp add: add.commute)
    then have "crossSize l + u + err \<in> \<int>" using Cons.prems(2) by (metis Ints_add add.assoc list.set_intros(1))
    then have "of_int (js_round (crossSize l + u + err)) = crossSize l + u + err" by simp
    then show ?thesis using True by (simp add: carry_def)
  next
    case False
    let ?raw = "crossSize l + u"
    obtain x' err' where c: "carry (of_int (js_round ?raw)) (err + (?raw - of_int (js_round ?raw))) = (x', err')" by fastforce
    have "\<bar>err + (?raw - of_int (js_round ?raw))\<bar> \<le> 3 / 2" using js_round_err(1) [of ?raw] Cons.prems(3) by linarith
    then have e: "\<bar>err'\<bar> \<le> 1" "x' + err' = ?raw + err" "x' \<in> \<int>" using carry_keeps [OF c] by auto
    have "err' + of_nat (length ls) * u = (err + of_nat (length (l # ls)) * u) + crossSize l - x'"
      using e(2) by (simp add: algebra_simps)
    also have "\<dots> \<in> \<int>" using Cons.prems(2,4) e(3) by auto
    finally have "cross_sum (stretch_lines u err' ls) = cross_sum ls + of_nat (length ls) * u + err'"
      using Cons.IH [OF False] Cons.prems(2) e(1) by simp
    then show ?thesis using False c e(2) by (simp add: Let_def algebra_simps)
  qed
qed simp

lemma space_between_sum:
  "ls \<noteq> [] \<Longrightarrow> \<bar>err\<bar> \<le> 1 \<Longrightarrow> err + of_nat (length ls - 1) * space \<in> \<int> \<Longrightarrow>
    cross_sum (space_between space err ls) = cross_sum ls + of_nat (length ls - 1) * space + (if length ls = 1 then 0 else err)"
proof (induction space err ls rule: space_between.induct)
  case (3 space err l m ls)
  show ?case
  proof (cases "ls = []")
    case True
    then have "space + err \<in> \<int>" using "3.prems"(3) by (simp add: add.commute)
    then have "of_int (js_round (space + err)) = space + err" by simp
    moreover have "carry (space + err) (space - (space + err)) = (space + err, - err)" using "3.prems"(2) by (auto simp: carry_def)
    ultimately show ?thesis using True by (simp add: dummy_line_def new_line_def)
  next
    case False
    obtain x' err' where c: "carry (of_int (js_round space)) (err + (space - of_int (js_round space))) = (x', err')" by fastforce
    have "\<bar>err + (space - of_int (js_round space))\<bar> \<le> 3 / 2" using js_round_err(1) [of space] "3.prems"(2) by linarith
    then have e: "\<bar>err'\<bar> \<le> 1" "x' + err' = space + err" "x' \<in> \<int>" using carry_keeps [OF c] by auto
    have "err' + of_nat (length (m # ls) - 1) * space = (err + of_nat (length (l # m # ls) - 1) * space) - x'"
      using e(2) by (simp add: algebra_simps)
    also have "\<dots> \<in> \<int>" using "3.prems"(3) e(3) by auto
    finally have "cross_sum (space_between space err' (m # ls)) =
        cross_sum (m # ls) + of_nat (length (m # ls) - 1) * space + (if length (m # ls) = 1 then 0 else err')"
      using "3.IH" [OF refl refl refl, of "(x', err')" x' err'] c e(1) False by (simp add: Let_def)
    then show ?thesis using False c e(2) by (simp add: dummy_line_def new_line_def algebra_simps)
  qed
qed simp_all

lemma filled_sum:
  assumes "content \<noteq> Content_Start" "2 \<le> length ls" "\<forall>l \<in> set ls. crossSize l \<in> \<int>" "free \<in> \<int>"
  shows "cross_sum (filled content free ls) = cross_sum ls + free"
proof (cases content)
  case Content_Around
  have "cross_sum (concat (map (\<lambda>l. [dummy_line x, l, dummy_line x]) ks)) = cross_sum ks + of_nat (length ks * 2) * x" for x ks
    by (induction ks) (simp_all add: dummy_line_def new_line_def algebra_simps)
  then show ?thesis using Content_Around assms(2) by (auto simp: filled_def)
next
  case Content_Between
  moreover have "ls \<noteq> []" using assms(2) by auto
  ultimately show ?thesis using space_between_sum [of ls 0 "free / of_nat (length ls - 1)"] assms by (simp add: filled_def)
next
  case Content_Stretch
  moreover have "ls \<noteq> []" using assms(2) by auto
  ultimately show ?thesis using stretch_lines_sum [of ls 0 "free / of_nat (length ls)"] assms by (simp add: filled_def)
qed (use assms in \<open>simp_all add: filled_def dummy_line_def new_line_def\<close>)

text \<open>C38: With a fixed cross size and any \<open>align-content\<close> but \<open>flex-start\<close> the lines of a flexbox, with the empty ones that are
  put between them, take together all of the cross axis that the padding leaves, if they take less of it themselves: no pixel is
  lost by rounding.\<close>

theorem lines_fill_the_cross_axis:
  assumes "getMeasureSpecMode spec = EXACTLY" "content \<noteq> Content_Start" "ls \<noteq> []" "\<forall>l \<in> set ls. crossSize l \<in> \<int>" "pad \<in> \<int>"
    and "getSumOfCrossSize ls + pad < getMeasureSpecSize spec"
  shows "getSumOfCrossSize (determineCrossSize content spec pad ls) + pad = getMeasureSpecSize spec"
proof (cases "length ls = 1")
  case True
  then show ?thesis using assms(1) by (simp add: determineCrossSize_is getSumOfCrossSize_is)
next
  case False
  then have "2 \<le> length ls" using assms(3) by (cases ls; cases "tl ls") auto
  moreover have "getMeasureSpecSize spec - (cross_sum ls + pad) \<in> \<int>" using assms(4,5) cross_sum_Ints by auto
  ultimately show ?thesis using filled_sum [OF assms(2) _ assms(4)] assms(1,6) False
    by (simp add: determineCrossSize_is getSumOfCrossSize_is)
qed

text \<open>Two lines of 10 and 11 in 100, stretched to 50 each.\<close>

theorem lines_fill_the_cross_axis_witness:
  "getSumOfCrossSize (determineCrossSize Content_Stretch (makeMeasureSpec 100 EXACTLY) 0
     [new_line\<lparr>crossSize := 10\<rparr>, new_line\<lparr>crossSize := 11\<rparr>]) + 0 = 100"
proof -
  have spec: "getMeasureSpecMode (makeMeasureSpec 100 EXACTLY) = EXACTLY" "getMeasureSpecSize (makeMeasureSpec 100 EXACTLY) = 100"
    by code_simp+
  show ?thesis using lines_fill_the_cross_axis [OF spec(1), of Content_Stretch "[new_line\<lparr>crossSize := 10\<rparr>, new_line\<lparr>crossSize := 11\<rparr>]" 0]
    by (simp add: spec(2) getSumOfCrossSize_is)
qed

section \<open>The main axis\<close>

definition growable :: "bool \<Rightarrow> 'a flex_item_scheme \<Rightarrow> bool" where
  "growable hz c \<longleftrightarrow> item_ok c \<and> 0 \<le> flexGrow c \<and> 0 \<le> margins_along hz c \<and> margins_along hz c \<in> \<int>"

text \<open>While the items grow, none is frozen, and the line has the length \<open>due\<close> up to the rounding error that is carried on.\<close>

definition grows_to :: "nat set \<Rightarrow> rat \<Rightarrow> grow_state \<Rightarrow> bool" where
  "grows_to fr due st \<longleftrightarrow> \<not> needsMore st \<and> frozen st = fr \<and> - (1 / 2) \<le> roundError st \<and> roundError st < 1 / 2 \<and>
     mainSize (growing st) \<in> \<int> \<and> mainSize (growing st) + roundError st = due"

lemma along_nonneg: "0 \<le> along hz v"
  by (simp add: along_def measured_width_def measured_height_def measured_size_bounds)

lemma grown_size:
  assumes "0 \<le> un * flexGrow c" "along hz c + un * flexGrow c \<le> mx" "mx \<in> \<int>" "mx \<le> MAX_SIZE"
    and "- (1 / 2) \<le> roundError st" "roundError st < 1 / 2"
  shows "\<exists>sz err. expand_size hz un i c st = (sz, st\<lparr>roundError := err\<rparr>) \<and> sz \<in> \<int> \<and> 0 \<le> sz \<and> sz \<le> MAX_SIZE \<and>
    - (1 / 2) \<le> err \<and> err < 1 / 2 \<and> sz + err = along hz c + un * flexGrow c + roundError st"
proof -
  let ?raw = "along hz c + un * flexGrow c + roundError st"
  have lo: "0 \<le> js_round ?raw" using assms(1,5) along_nonneg [of hz c] by (simp add: js_round_def)
  obtain m where m: "mx = of_int m" using assms(3) by (rule Ints_cases)
  have "js_round ?raw < m + 1" unfolding js_round_def floor_less_iff using assms(2,6) m by simp
  then have hi: "of_int (js_round ?raw) \<le> MAX_SIZE" using assms(4) m by (meson of_int_le_iff order_trans zless_add1_eq zle_add1_eq_le)
  then have "expand_size hz un i c st = (of_int (js_round ?raw), st\<lparr>roundError := ?raw - of_int (js_round ?raw)\<rparr>)"
    by (simp add: expand_size_def Let_def)
  then show ?thesis using lo hi js_round_err(2,3) [of ?raw]
    by (intro exI [of _ "of_int (js_round ?raw)"] exI [of _ "?raw - of_int (js_round ?raw)"]) (simp add: algebra_simps)
qed

lemma MAX_SIZE_small: "MAX_SIZE < 2 ^ 24"
  by code_simp

lemma exact_spec:
  assumes "sz \<in> \<int>" "0 \<le> sz" "sz \<le> MAX_SIZE"
  shows "getMeasureSpecSize (makeMeasureSpec sz EXACTLY) = sz" "measurable_spec (makeMeasureSpec sz EXACTLY)"
proof -
  have "sz < 2 ^ 24" using assms(3) MAX_SIZE_small by linarith
  moreover obtain k where k: "sz = of_int k" using assms(1) by (rule Ints_cases)
  ultimately have "k < 2 ^ 24" by (metis of_int_less_iff of_int_numeral of_int_power)
  then show s: "getMeasureSpecSize (makeMeasureSpec sz EXACTLY) = sz" using k assms(2) by (subst getMeasureSpecSize_small) simp_all
  show "measurable_spec (makeMeasureSpec sz EXACTLY)" unfolding measurable_spec_def s using \<open>sz < 2 ^ 24\<close> .
qed

context flex_items
begin

lemma expand_item_grows:
  assumes "growable hz c" "i \<notin> fr" "0 \<le> un" "along hz c + un * flexGrow c \<le> mx" "mx \<in> \<int>" "mx \<le> MAX_SIZE" "grows_to fr due st"
  shows "\<exists>c' st'. expand_item om hz un i la c st = Inr (c', st') \<and> item_ok c' \<and> grows_to fr (due + taken hz c + un * flexGrow c) st' \<and>
    mainSize (growing st') = mainSize (growing st) + taken hz c'"
proof -
  have st: "frozen st = fr" "\<not> needsMore st" "mainSize (growing st) \<in> \<int>" "mainSize (growing st) + roundError st = due"
    "- (1 / 2) \<le> roundError st" "roundError st < 1 / 2" using assms(7) by (simp_all add: grows_to_def)
  have c: "item_ok c" "0 \<le> un * flexGrow c" "margins_along hz c \<in> \<int>" using assms(1,3) by (simp_all add: growable_def)
  obtain sz err where sz: "expand_size hz un i c st = (sz, st\<lparr>roundError := err\<rparr>)" "sz \<in> \<int>" "0 \<le> sz" "sz \<le> MAX_SIZE"
    "- (1 / 2) \<le> err" "err < 1 / 2" "sz + err = along hz c + un * flexGrow c + roundError st"
    using grown_size [OF c(2) assms(4-6) st(5,6)] by blast
  obtain c' where c': "measure om (makeMeasureSpec (if hz then sz else measured_width c) EXACTLY)
      (makeMeasureSpec (if hz then measured_height c else sz) EXACTLY) c = Inr c'" "item_ok c'" "same_item c c'"
    "fits_specs (makeMeasureSpec (if hz then sz else measured_width c) EXACTLY)
      (makeMeasureSpec (if hz then measured_height c else sz) EXACTLY) c'"
    using measure_item [OF c(1)] by blast
  have "along hz c' = sz" using c'(4) exact_spec [OF sz(2-4)] by (cases hz) (simp_all add: fits_specs_def fits_def along_def)
  moreover have m: "margins_along hz c' = margins_along hz c" using c'(3) by (simp add: same_item_def margins_along_def)
  ultimately have t: "taken hz c' = sz + margins_along hz c" "taken hz c' \<in> \<int>" using sz(2) c(3) by (simp_all add: taken_def)
  have "expand_item om hz un i la c st = Inr (c', add_along (taken hz c') (st\<lparr>roundError := err\<rparr>))"
    using c(1) assms(2) st(1) c'(1) by (simp add: expand_item_def item_ok_def sz(1) taken_def)
  moreover have "grows_to fr (due + taken hz c + un * flexGrow c) (add_along (taken hz c') (st\<lparr>roundError := err\<rparr>))"
    using st sz(5-7) t by (simp add: grows_to_def) (simp add: taken_def)
  ultimately show ?thesis using c'(2) by simp
qed

lemma expand_items_grow:
  assumes "0 \<le> un" "mx \<in> \<int>" "mx \<le> MAX_SIZE"
  shows "\<forall>c \<in> set cs. growable hz c \<and> along hz c + un * flexGrow c \<le> mx \<Longrightarrow> {i..<i + length cs} \<inter> fr = {} \<Longrightarrow> grows_to fr due st \<Longrightarrow>
    \<exists>cs' st'. for_items (expand_item om hz un) i cs st = Inr (cs', st') \<and> length cs' = length cs \<and>
      grows_to fr (due + sum_list (map (taken hz) cs) + un * sum_list (map flexGrow cs)) st' \<and>
      mainSize (growing st') = mainSize (growing st) + sum_list (map (taken hz) cs')"
proof (induction cs arbitrary: i due st)
  case (Cons c cs)
  have "{i..<i + length (c # cs)} = insert i {Suc i..<Suc i + length cs}" by auto
  then have "i \<notin> fr" "{Suc i..<Suc i + length cs} \<inter> fr = {}" using Cons.prems(2) by simp_all
  then obtain c' st1 where c': "expand_item om hz un i (cs = []) c st = Inr (c', st1)" "grows_to fr (due + taken hz c + un * flexGrow c) st1"
    "mainSize (growing st1) = mainSize (growing st) + taken hz c'"
    using expand_item_grows [of hz c i fr un mx due st "cs = []"] assms Cons.prems(1,3) by auto
  obtain cs' st' where "for_items (expand_item om hz un) (Suc i) cs st1 = Inr (cs', st')" "length cs' = length cs"
    "grows_to fr (due + taken hz c + un * flexGrow c + sum_list (map (taken hz) cs) + un * sum_list (map flexGrow cs)) st'"
    "mainSize (growing st') = mainSize (growing st1) + sum_list (map (taken hz) cs')"
    using Cons.IH [OF _ \<open>{Suc i..<Suc i + length cs} \<inter> fr = {}\<close> c'(2)] Cons.prems(1) by auto
  then show ?case using c' by (intro exI [of _ "c' # cs'"] exI [of _ st']) (simp add: algebra_simps)
qed simp

lemma grown_line_is_filled:
  assumes fit: "start + itemCount l \<le> length cs" "line_ok hz pad l (take (itemCount l) (drop start cs))"
    and ok: "\<forall>c \<in> set (take (itemCount l) (drop start cs)). growable hz c" "{start..<start + itemCount l} \<inter> fr = {}"
    and mx: "pad \<in> \<int>" "0 \<le> pad" "mainSize l < mx" "mx \<in> \<int>" "mx \<le> MAX_SIZE" "0 < totalFlexGrow l"
  shows "\<exists>cs' l'. expandFlexItems om hz mx pad start cs fr l = Inr (cs', fr, l') \<and> mainSize l' = mx \<and>
    mainSize l' = pad + sum_list (map (taken hz) (take (itemCount l) (drop start cs')))"
proof -
  define un where "un = (mx - mainSize l) / totalFlexGrow l"
  let ?cs = "take (itemCount l) (drop start cs)"
  have un: "0 \<le> un" using mx(3,6) by (simp add: un_def)
  have l: "mainSize l = pad + sum_list (map (taken hz) ?cs)" "totalFlexGrow l = sum_list (map flexGrow ?cs)"
    using fit(2) by (simp_all add: line_ok_def)
  have all: "pad + sum_list (map (taken hz) ?cs) + un * sum_list (map flexGrow ?cs) = mx" using l mx(6) by (simp add: un_def)
  have sums: "sum_list (map (taken hz) xs) + un * sum_list (map flexGrow xs) = sum_list (map (\<lambda>c. taken hz c + un * flexGrow c) xs)" for xs :: "'a flex_item_scheme list"
    by (simp add: sum_list_addf sum_list_const_mult)
  have "along hz c + un * flexGrow c \<le> mx" if c: "c \<in> set ?cs" for c
  proof -
    have pos: "0 \<le> taken hz b + un * flexGrow b" if "b \<in> set ?cs" for b
      using ok(1) that un along_nonneg [of hz b] by (auto simp: growable_def taken_def intro!: add_nonneg_nonneg mult_nonneg_nonneg)
    have "taken hz c + un * flexGrow c \<le> sum_list (map (\<lambda>c. taken hz c + un * flexGrow c) ?cs)"
      by (rule member_le_sum_list) (use c pos in auto)
    then have "taken hz c + un * flexGrow c \<le> mx" using all mx(2) by (simp flip: sums)
    moreover have "along hz c \<le> taken hz c" using ok(1) c by (simp add: growable_def taken_def)
    ultimately show ?thesis by simp
  qed
  then have cs: "\<forall>c \<in> set ?cs. growable hz c \<and> along hz c + un * flexGrow c \<le> mx" using ok(1) by blast
  have n: "length ?cs = itemCount l" using fit(1) by simp
  have "grows_to fr pad (start_growing pad l fr)" using mx(1) by (simp add: grows_to_def start_growing_def)
  then obtain mid st where r: "for_items (expand_item om hz un) start ?cs (start_growing pad l fr) = Inr (mid, st)" "length mid = itemCount l"
    "grows_to fr (pad + sum_list (map (taken hz) ?cs) + un * sum_list (map flexGrow ?cs)) st"
    "mainSize (growing st) = pad + sum_list (map (taken hz) mid)"
    using expand_items_grow [OF un mx(4,5) cs, of start fr pad "start_growing pad l fr"] ok(2) n by (auto simp: start_growing_def)
  let ?out = "take start cs @ mid @ drop (start + itemCount l) cs"
  have st: "\<not> needsMore st" "frozen st = fr" "mainSize (growing st) + roundError st = mx" "mainSize (growing st) \<in> \<int>"
    "\<bar>roundError st\<bar> \<le> 1 / 2" using r(3) all by (auto simp: grows_to_def)
  have "roundError st = mx - mainSize (growing st)" using st(3) by simp
  then have "roundError st \<in> \<int>" using mx(4) st(4) by simp
  then have filled: "mainSize (growing st) = mx" using small_Ints st(3,5) by fastforce
  have "expandFlexItems om hz mx pad start cs fr l = Inr (?out, fr, growing st)"
    using r(1) st(1,2) mx(3,6) by (simp add: expandFlexItems.simps for_slice_def flip: un_def)
  moreover have "take (itemCount l) (drop start ?out) = mid" using r(2) fit(1) by simp
  ultimately show ?thesis using filled r(4) by auto
qed

end

text \<open>C39: The items of a line that is shorter than the main size, and that can grow, grow until the line has exactly the main size:
  each gets its share of what is missing, and what the rounding of the shares leaves is given to the items after it.\<close>

theorem grown_line_fills_main_axis:
  assumes "flex_items om" "start + itemCount l \<le> length cs" "line_ok hz pad l (take (itemCount l) (drop start cs))"
    and "\<forall>c \<in> set (take (itemCount l) (drop start cs)). growable hz c" "{start..<start + itemCount l} \<inter> fr = {}"
    and "pad \<in> \<int>" "0 \<le> pad" "mainSize l < mx" "mx \<in> \<int>" "mx \<le> MAX_SIZE" "0 < totalFlexGrow l"
  shows "\<exists>cs' l'. expandFlexItems om hz mx pad start cs fr l = Inr (cs', fr, l') \<and> mainSize l' = mx \<and>
    mainSize l' = pad + sum_list (map (taken hz) (take (itemCount l) (drop start cs')))"
  by (rule flex_items.grown_line_is_filled [OF assms])

text \<open>Two items of 10 that grow in the ratio of 1 to 2, in a line of 20 of 101.\<close>

definition growing_item :: "rat \<Rightarrow> flex_item" where
  "growing_item grow = (view.extend plain_view (flex_item_ext 1 grow 1 False None ()))\<lparr>measuredWidth := 10\<rparr>"

lemma growing_item: "0 \<le> g \<Longrightarrow> growable True (growing_item g)" "taken True (growing_item g) = 10" "flexGrow (growing_item g) = g"
proof -
  have "measured_size 10 = 10" by code_simp
  then show "0 \<le> g \<Longrightarrow> growable True (growing_item g)" "taken True (growing_item g) = 10" "flexGrow (growing_item g) = g"
    by (simp_all add: growing_item_def growable_def item_ok_def plain_view_def view.extend_def measured_ok_def min_ok_def taken_def
        along_def margins_along_def horizontal_margins_def measured_width_def)
qed

theorem grown_line_fills_main_axis_witness:
  "\<exists>cs' l'. expandFlexItems (view_onMeasure None) True 101 0 0 [growing_item 1, growing_item 2] {}
     (new_line\<lparr>mainSize := 20, itemCount := 2, totalFlexGrow := 3, totalFlexShrink := 2\<rparr>) = Inr (cs', {}, l') \<and> mainSize l' = 101 \<and>
     mainSize l' = 0 + sum_list (map (taken True) (take 2 (drop 0 cs')))"
proof -
  let ?l = "new_line\<lparr>mainSize := 20, itemCount := 2, totalFlexGrow := 3, totalFlexShrink := 2\<rparr>"
  have "flexShrink (growing_item g) = 1" for g by (simp add: growing_item_def view.extend_def)
  then have line: "line_ok True 0 ?l (take (itemCount ?l) (drop 0 [growing_item 1, growing_item 2]))"
    by (simp add: line_ok_def growing_item new_line_def)
  have mx: "(101 :: rat) \<le> MAX_SIZE" by code_simp
  show ?thesis using grown_line_fills_main_axis [OF flex_leaves.flex_items_axioms _ line, of "{}" 101 None] mx
    by (simp add: growing_item)
qed

end
