(* ===== verification/Flexbox_Row.thy ===== *)
theory Flexbox_Row
  imports Flexbox_Lines
begin

text \<open>
  The items of a row of a \<open>FlexboxLayout\<close> are placed one after the other, from the left or from the right, and none leaves the
  room between the paddings, when the line fits into it.
\<close>

type_synonym frame = "rat \<times> rat \<times> rat \<times> rat"

definition frame_left :: "frame \<Rightarrow> rat" where "frame_left f = fst f"
definition frame_right :: "frame \<Rightarrow> rat" where "frame_right f = fst (snd (snd f))"

text \<open>\<open>f\<close> is next to \<open>g\<close>, on the side where the row starts.\<close>

definition beside :: "bool \<Rightarrow> frame \<Rightarrow> frame \<Rightarrow> bool" where
  "beside isRtl f g \<longleftrightarrow> (if isRtl then frame_right g \<le> frame_left f else frame_right f \<le> frame_left g)"

definition laid :: "'a flex_item_scheme on_layout \<Rightarrow> 'a flex_item_scheme \<Rightarrow> frame \<Rightarrow> 'a flex_item_scheme" where
  "laid lay c f = (case f of (l, t, r, b) \<Rightarrow> lay l t r b c)"

definition placeable :: "'a flex_item_scheme \<Rightarrow> bool" where
  "placeable c \<longleftrightarrow> \<not> isCollapsed c \<and> 0 \<le> effectiveMarginLeft c \<and> 0 \<le> effectiveMarginRight c"

lemma single_child_row:
  "\<exists>t b. layoutSingleChildHorizontal lay fw al l x y x' y' v = lay x t x' b v"
  unfolding layoutSingleChildHorizontal_def Let_def
  by (cases "alignSelf v"; cases "the (alignSelf v)"; cases al; cases "fw = WRAP_REVERSE") auto

lemma round_width: "of_int (js_round (x + measured_width v)) = of_int (js_round x) + measured_width v"
  "of_int (js_round (x - measured_width v)) = of_int (js_round x) - measured_width v"
proof -
  obtain k where k: "measured_width v = of_int k" using measured_size_Ints by (metis measured_width_def)
  have "\<lfloor>x + of_int k + 1 / 2\<rfloor> = \<lfloor>x + 1 / 2\<rfloor> + k" "\<lfloor>x - of_int k + 1 / 2\<rfloor> = \<lfloor>x + 1 / 2\<rfloor> - k"
    using floor_add_int [of "x + 1 / 2" k] floor_add_int [of "x + 1 / 2" "- k"] by (simp_all add: algebra_simps)
  then show "of_int (js_round (x + measured_width v)) = of_int (js_round x) + measured_width v"
    "of_int (js_round (x - measured_width v)) = of_int (js_round x) - measured_width v" by (simp_all add: k js_round_def)
qed

lemma taken_nonneg: "placeable c \<Longrightarrow> 0 \<le> taken True c"
  by (simp add: placeable_def taken_def along_def margins_along_def horizontal_margins_def measured_width_def measured_size_bounds)

lemma placed_item:
  assumes "placeable v" "0 \<le> space"
  shows "\<exists>f. place_in_row lay isRtl fw al l space across v (a, b) = (laid lay v f, a + taken True v + space, b - taken True v - space) \<and>
    frame_right f - frame_left f = measured_width v \<and>
    (if isRtl then frame_right f \<le> of_int (js_round b) \<and> of_int (js_round (b - taken True v)) \<le> frame_left f
     else of_int (js_round a) \<le> frame_left f \<and> frame_right f \<le> of_int (js_round (a + taken True v)))"
proof -
  let ?right = "if isRtl then of_int (js_round (b - effectiveMarginRight v)) else of_int (js_round (a + effectiveMarginLeft v)) + measured_width v"
  let ?left = "if isRtl then of_int (js_round (b - effectiveMarginRight v)) - measured_width v else of_int (js_round (a + effectiveMarginLeft v))"
  have t: "taken True v = effectiveMarginLeft v + measured_width v + effectiveMarginRight v"
    by (simp add: taken_def along_def margins_along_def horizontal_margins_def)
  obtain f1 f2 f3 f4 where f: "layoutSingleChildHorizontal lay fw al l ?left (snd across - measured_height v) ?right (snd across) v = lay ?left f1 ?right f2 v"
    "layoutSingleChildHorizontal lay fw al l ?left (fst across) ?right (fst across + measured_height v) v = lay ?left f3 ?right f4 v"
    using single_child_row by metis
  let ?f = "(?left, if fw = WRAP_REVERSE then f1 else f3, ?right, if fw = WRAP_REVERSE then f2 else f4)"
  have "place_in_row lay isRtl fw al l space across v (a, b) = (laid lay v ?f, a + taken True v + space, b - taken True v - space)"
    using assms(1) f
    by (cases isRtl; cases "fw = WRAP_REVERSE") (simp_all add: place_in_row_def placeable_def laid_def Let_def t)
  moreover have "of_int (js_round a) \<le> (of_int (js_round (a + effectiveMarginLeft v)) :: rat)"
    "of_int (js_round (b - effectiveMarginRight v)) \<le> (of_int (js_round b) :: rat)"
    using assms(1) by (simp_all add: placeable_def js_round_mono)
  moreover have "of_int (js_round (b - taken True v)) \<le> of_int (js_round (b - effectiveMarginRight v)) - measured_width v"
    "of_int (js_round (a + effectiveMarginLeft v)) + measured_width v \<le> of_int (js_round (a + taken True v))"
    using assms(1) by (simp_all flip: round_width add: t placeable_def js_round_mono)
  ultimately show ?thesis by (intro exI [of _ ?f]) (simp add: frame_left_def frame_right_def)
qed

definition row_inside :: "rat \<Rightarrow> rat \<Rightarrow> frame \<Rightarrow> bool" where
  "row_inside lo hi f \<longleftrightarrow> of_int (js_round lo) \<le> frame_left f \<and> frame_right f \<le> of_int (js_round hi)"

text \<open>The room a row of items takes, with the space between them.\<close>

definition room :: "rat \<Rightarrow> 'a flex_item_scheme list \<Rightarrow> rat" where
  "room space cs = sum_list (map (taken True) cs) + (of_nat (length cs) - 1) * space"

lemma row_placed:
  assumes "0 \<le> space"
  shows "\<forall>c \<in> set cs. placeable c \<Longrightarrow> \<exists>fs. length fs = length cs \<and>
    fst (place_items (place_in_row lay isRtl fw al l space across) cs (a, b)) = map2 (laid lay) cs fs \<and>
    list_all2 (\<lambda>c f. frame_right f - frame_left f = measured_width c) cs fs \<and> sorted_wrt (beside isRtl) fs \<and>
    (\<forall>f \<in> set fs. if isRtl then row_inside (b - room space cs) b f else row_inside a (a + room space cs) f)"
proof (induction cs arbitrary: a b)
  case (Cons c cs)
  let ?t = "taken True c"
  obtain f where f: "place_in_row lay isRtl fw al l space across c (a, b) = (laid lay c f, a + ?t + space, b - ?t - space)"
    "frame_right f - frame_left f = measured_width c"
    "if isRtl then frame_right f \<le> of_int (js_round b) \<and> of_int (js_round (b - ?t)) \<le> frame_left f
     else of_int (js_round a) \<le> frame_left f \<and> frame_right f \<le> of_int (js_round (a + ?t))"
    using placed_item [of c space lay isRtl fw al l across a b] assms Cons.prems by auto
  obtain fs where fs: "length fs = length cs"
    "fst (place_items (place_in_row lay isRtl fw al l space across) cs (a + ?t + space, b - ?t - space)) = map2 (laid lay) cs fs"
    "list_all2 (\<lambda>c f. frame_right f - frame_left f = measured_width c) cs fs" "sorted_wrt (beside isRtl) fs"
    "\<forall>g \<in> set fs. if isRtl then row_inside (b - ?t - space - room space cs) (b - ?t - space) g
       else row_inside (a + ?t + space) (a + ?t + space + room space cs) g"
    using Cons.IH [of "a + ?t + space" "b - ?t - space"] Cons.prems by auto
  have pos: "0 \<le> ?t" "0 \<le> measured_width c" using Cons.prems taken_nonneg by (auto simp: measured_width_def measured_size_bounds)
  have sum: "0 \<le> sum_list (map (taken True) cs)" using Cons.prems taken_nonneg by (intro sum_list_nonneg) auto
  have room: "?t \<le> room space (c # cs)" "?t + space + room space cs = room space (c # cs)"
    using sum assms by (simp_all add: room_def algebra_simps)
  have "of_int (js_round (a + ?t)) \<le> (of_int (js_round (a + ?t + space)) :: rat)" "of_int (js_round (b - ?t - space)) \<le> (of_int (js_round (b - ?t)) :: rat)"
    "of_int (js_round a) \<le> (of_int (js_round (a + ?t + space)) :: rat)" "of_int (js_round (b - ?t - space)) \<le> (of_int (js_round b) :: rat)"
    "of_int (js_round (a + ?t)) \<le> (of_int (js_round (a + room space (c # cs))) :: rat)"
    "of_int (js_round (b - room space (c # cs))) \<le> (of_int (js_round (b - ?t)) :: rat)"
    using pos(1) assms room(1) by (simp_all add: js_round_mono)
  note mono = this
  have "beside isRtl f g" if "g \<in> set fs" for g
    using fs(5) that f(3) mono(1,2) by (cases isRtl) (fastforce simp: beside_def row_inside_def)+
  moreover have "if isRtl then row_inside (b - room space (c # cs)) b g else row_inside a (a + room space (c # cs)) g" if "g \<in> set (f # fs)" for g
    using fs(5) that f(2,3) mono pos(2) by (cases isRtl) (fastforce simp: row_inside_def simp flip: room(2) diff_diff_eq add.assoc)+
  ultimately show ?case using f(1,2) fs(1-4)
    by (intro exI [of _ "f # fs"]) (simp add: case_prod_beta)
qed simp

text \<open>Where the line starts, the room it needs is between the paddings.\<close>

lemma line_start_room:
  assumes "line_start j padStart padEnd extent safe l = (a, b, space)"
    "mainSize l + safe = padStart + padEnd + sum_list (map (taken True) cs)"
    "itemCount l = length cs" "cs \<noteq> []" "mainSize l + safe \<le> extent" "j = Justify_End \<Longrightarrow> padStart = padEnd \<and> safe = 0"
  shows "0 \<le> space" "padStart \<le> a" "a + room space cs \<le> extent - padEnd" "b \<le> extent - padEnd" "padStart \<le> b - room space cs"
proof -
  let ?S = "sum_list (map (taken True) cs)" and ?n = "of_nat (length cs) :: rat"
  have free: "0 \<le> extent - safe - mainSize l" "mainSize l + safe = padStart + padEnd + ?S" using assms(2,5) by simp_all
  have "0 \<le> space \<and> padStart \<le> a \<and> a + room space cs \<le> extent - padEnd \<and> b \<le> extent - padEnd \<and> padStart \<le> b - room space cs"
  proof (cases j)
    case Justify_Around
    have n: "0 < ?n" "itemCount l \<noteq> 0" using assms(3,4) by simp_all
    define sp where "sp = (extent - safe - mainSize l) / ?n"
    have sp: "0 \<le> sp" "?n * sp = extent - safe - mainSize l" using free(1) n(1) by (simp_all add: sp_def)
    have "a = padStart + sp / 2" "b = extent - padEnd - sp / 2" "space = sp"
      using assms(1,3) n sp(1) Justify_Around by (simp_all add: line_start_def Let_def flip: sp_def)
    then show ?thesis
      using sp free(2) by (simp add: room_def left_diff_distrib)
  next
    case Justify_Between
    define sp where "sp = (extent - safe - mainSize l) / (if length cs \<noteq> 1 then ?n - 1 else 1)"
    have n: "1 \<le> ?n" using assms(4) by (simp add: Suc_le_eq)
    have sp: "0 \<le> sp" "(?n - 1) * sp \<le> extent - safe - mainSize l" using free(1) n by (auto simp: sp_def)
    have "a = padStart" "b = extent - padEnd" "space = sp"
      using assms(1,3) sp(1) Justify_Between by (auto simp: line_start_def Let_def max_def simp flip: sp_def) (auto simp: sp_def)
    then show ?thesis
      using sp free(2) by (simp add: room_def)
  qed (use assms(1,6) free in \<open>simp_all add: line_start_def room_def Let_def field_simps\<close>)
  then show "0 \<le> space" "padStart \<le> a" "a + room space cs \<le> extent - padEnd" "b \<le> extent - padEnd" "padStart \<le> b - room space cs"
    by simp_all
qed

text \<open>C40: The items of a line of a row that fits into the layout are placed in their order, from the left or, for
  \<open>row-reverse\<close>, from the right, with their measured widths and no overlap, between the paddings (to which the code adds the
  insets of the safe area, \<open>safe\<close> in all). Required are items that are not collapsed and whose margins are not negative, a
  line whose main size is the padding of the layout and what its items take, and for \<open>flex-end\<close>, where
  the code adds the wrong padding, equal paddings and no safe area.\<close>

theorem row_items_in_order_inside:
  assumes "line_start j padStart padEnd extent safe l = (a, b, space)"
    and "mainSize l + safe = padStart + padEnd + sum_list (map (taken True) cs)" "itemCount l = length cs" "cs \<noteq> []"
    and "mainSize l + safe \<le> extent" "j = Justify_End \<longrightarrow> padStart = padEnd \<and> safe = 0" "\<forall>c \<in> set cs. placeable c"
  shows "\<exists>fs. length fs = length cs \<and>
    fst (place_items (place_in_row lay isRtl fw al l space across) cs (a, b)) = map2 (laid lay) cs fs \<and>
    list_all2 (\<lambda>c f. frame_right f - frame_left f = measured_width c) cs fs \<and> sorted_wrt (beside isRtl) fs \<and>
    (\<forall>f \<in> set fs. row_inside padStart (extent - padEnd) f)"
proof -
  have end_ok: "j = Justify_End \<Longrightarrow> padStart = padEnd \<and> safe = 0" using assms(6) by simp
  note room = line_start_room [OF assms(1-5) end_ok]
  have widen: "row_inside lo hi f" if "row_inside lo' hi' f" "lo \<le> lo'" "hi' \<le> hi" for lo hi lo' hi' f
    using that js_round_mono [of lo lo'] js_round_mono [of hi' hi] unfolding row_inside_def by (meson of_int_le_iff order_trans)
  obtain fs where fs: "length fs = length cs"
    "fst (place_items (place_in_row lay isRtl fw al l space across) cs (a, b)) = map2 (laid lay) cs fs"
    "list_all2 (\<lambda>c f. frame_right f - frame_left f = measured_width c) cs fs" "sorted_wrt (beside isRtl) fs"
    "\<forall>f \<in> set fs. if isRtl then row_inside (b - room space cs) b f else row_inside a (a + room space cs) f"
    using row_placed [OF room(1) assms(7)] by blast
  have "row_inside padStart (extent - padEnd) f" if "f \<in> set fs" for f
  proof (cases isRtl)
    case True
    then have "row_inside (b - room space cs) b f" using fs(5) that by auto
    then show ?thesis using room(5,4) by (rule widen)
  next
    case False
    then have "row_inside a (a + room space cs) f" using fs(5) that by auto
    then show ?thesis using room(2,3) by (rule widen)
  qed
  then show ?thesis using fs(1-4) by blast
qed

text \<open>Two items of 30 with the space between them, in a layout of 100 with a padding of 10 on the left, of which 4 belong
  to the safe area.\<close>

definition item_30 :: flex_item where
  "item_30 = (view.extend plain_view (flex_item_ext 1 0 1 False None ()))\<lparr>measuredWidth := 30\<rparr>"

lemma item_30: "placeable item_30" "taken True item_30 = 30"
  by code_simp+

theorem row_items_in_order_inside_witness:
  "\<exists>fs. length fs = length [item_30, item_30] \<and> fst (place_items (place_in_row (\<lambda>l t r b v. v\<lparr>nativeFrame := Some (l, t, r, b)\<rparr>) False NOWRAP Items_Start
      (new_line\<lparr>itemCount := 2, mainSize := 66\<rparr>) 30 (0, 50)) [item_30, item_30] (10, 100)) =
      map2 (laid (\<lambda>l t r b v. v\<lparr>nativeFrame := Some (l, t, r, b)\<rparr>)) [item_30, item_30] fs \<and>
    list_all2 (\<lambda>c f. frame_right f - frame_left f = measured_width c) [item_30, item_30] fs \<and> sorted_wrt (beside False) fs \<and>
    (\<forall>f \<in> set fs. row_inside 10 (100 - 0) f)"
proof -
  have start: "line_start Justify_Between 10 0 100 4 (new_line\<lparr>itemCount := 2, mainSize := 66\<rparr>) = (10, 100, 30)" by code_simp
  show ?thesis by (rule row_items_in_order_inside [OF start]) (simp_all add: item_30)
qed

end
