(* ===== verification/Flexbox_Examples.thy ===== *)
theory Flexbox_Examples
  imports Flexbox_Place
begin

text \<open>Where \<open>FlexboxLayout\<close> does not do what it is meant to.\<close>

definition new_item :: "int \<Rightarrow> align_items option \<Rightarrow> flex_item" where
  "new_item ord self = view.extend plain_view (flex_item_ext ord 0 1 False self ())"

definition new_flexbox :: "flex_wrap \<Rightarrow> align_items \<Rightarrow> flex_item list \<Rightarrow> flex_item flex_layout" where
  "new_flexbox fw al cs =
     view.extend plain_view (layout_view_ext cs (flex_layout_ext ROW fw Justify_Start al Content_Stretch [] [] [] [] ()))"

text \<open>The label wants 150 by 20.\<close>

definition label_size :: "rat \<Rightarrow> 32 word \<Rightarrow> rat \<Rightarrow> 32 word \<Rightarrow> rat \<times> rat" where
  "label_size w wm h hm = (150, 20)"

text \<open>The cache of the orders is sorted, but it is compared with the orders as they are: two items with the orders 2 and 1 that
  get the orders 1 and 2 stay in the reversed order.\<close>

lemma sorted_orders_are_not_noticed:
  "case createReorderedIndices [2, 1] of (cache, indices) \<Rightarrow> indices = [1, 0] \<and> \<not> isOrderChanged cache [1, 2]"
  by code_simp

text \<open>An item that is to be stretched is noted in the line before it is known whether it starts the next line: it is stretched to
  the wrong line.\<close>

lemma wrapped_item_is_stretched_to_the_line_before:
  "let this = new_flexbox WRAP Items_Start [new_item 1 None, new_item 1 (Some Items_Stretch)];
       spec = makeMeasureSpec 200 EXACTLY
   in case measure_lines (view_onMeasure (Some label_size)) 1 True this spec spec (subViews this) of
        Inl e \<Rightarrow> False
      | Inr (cs, st) \<Rightarrow> map itemCount (doneLines st) = [1, 1] \<and> map indicesAlignSelfStretch (doneLines st) = [[1], []]"
  by code_simp

text \<open>A line of one item of 50 in a layout of 100 with a padding of 10 on the left: at the end it would be at 50, not at 40.\<close>

lemma end_takes_the_other_padding:
  "line_start Justify_End 10 0 100 0 (new_line\<lparr>itemCount := 1, mainSize := 60\<rparr>) = (40, 50, 0)"
  by code_simp

text \<open>With baseline alignment the cross size of a line comes from the native frames, which the first layout has yet to set.\<close>

lemma baseline_line_has_no_height:
  "map crossSize (baseline_lines 2 NOWRAP [new_item 1 None\<lparr>measuredWidth := 150, measuredHeight := 20\<rparr>] [new_line\<lparr>itemCount := 1\<rparr>]) = [MIN_VALUE] \<and>
   map crossSize (baseline_lines 2 NOWRAP [new_item 1 None\<lparr>measuredHeight := 20, nativeFrame := Some (0, 0, 150, 20)\<rparr>]
     [new_line\<lparr>itemCount := 1\<rparr>]) = [10]"
  by code_simp

text \<open>An item that was shrunk to 100 has its 150 again after it was stretched.\<close>

lemma stretching_undoes_shrinking:
  "case stretchViewVertically (view_onMeasure (Some label_size)) (makeMeasureSpec 200 EXACTLY) 50
      (new_item 1 None\<lparr>effectiveWidth := - 2, measuredWidth := 100, measuredHeight := 20\<rparr>) of
     Inl e \<Rightarrow> False | Inr v \<Rightarrow> measured_width v = 150"
  by code_simp

end
