(* ===== verification/Spec2Isabelle.thy ===== *)
theory Spec2Isabelle
  imports Release_Scripts Test_Runner Path_Browserify Webpack_Check Layout_Slots Grid_Step Array_Mirror Css_Cascade
    Property_Run Property_Nearest Property_Animation Frame_Stack Module_Names Flexbox_Fill Flexbox_Row Flexbox_Examples
begin

text \<open>
  \<^bold>\<open>NativeScript iOS runtime: the JavaScript part.\<close>

  The repository holds a C++/Objective-C runtime that runs NativeScript applications on V8, and a
  JavaScript part: the scripts that release the packages and run the tests on a device, and a bundled
  application (\<^verbatim>\<open>src/AppWithModules/app\<close>) of the webpack runtime \<^verbatim>\<open>runtime.js\<close>, the application's
  modules \<^verbatim>\<open>bundle.js\<close> and its libraries \<^verbatim>\<open>vendor.js\<close>. The development models the JavaScript part.

  \<^bold>\<open>Theories.\<close>

    \<^item> \<^verbatim>\<open>NS_Prelude\<close>: JavaScript arrays and objects as lists and association lists (\<open>obj_set\<close> keeps the
      position of an existing key, \<open>splice1\<close>, \<open>index_of\<close>, \<open>push_new\<close>), decimal numerals, the loops shared. The members
      of an object are in the order in which they were added; that JavaScript visits keys that read as
      integers before the others is not modelled (the keys here are paths, names of chunks, events and properties).
    \<^item> \<^verbatim>\<open>Webpack_Modules\<close>, \<^verbatim>\<open>Webpack_Graph\<close>: \<open>__webpack_require__\<close>, \<open>hotCreateRequire\<close>, \<open>hotCreateModule\<close>.
      Module bodies are lists of the calls they make (\<open>action\<close>), module objects live in a heap and
      are aliased by the module cache. \<open>require\<close> carries fuel for the nesting of module bodies; the number
      of known modules is enough (\<open>require_returns\<close>), because a body runs only for a module that was
      not cached. The graph is well-formed (\<open>wf_graph\<close>) when each child of an active module is active and names the
      module among its parents, which is the direction updates follow.
    \<^item> \<^verbatim>\<open>Webpack_Chunks\<close>: \<open>webpackJsonpCallback\<close>, \<open>checkDeferredModules\<close> and the start of the runtime.
    \<^item> \<^verbatim>\<open>Webpack_Affected\<close>: \<open>getAffectedStuff\<close> and its specification, the closure of the updated module
      under the parent links that are not accepted (\<open>outdated\<close>, an inductive predicate).
    \<^item> \<^verbatim>\<open>Webpack_Apply\<close>, \<^verbatim>\<open>Webpack_Update\<close>, \<^verbatim>\<open>Webpack_Mutual\<close>, \<^verbatim>\<open>Webpack_Hot\<close>: \<open>hotApply\<close>. The locale \<open>callback_code\<close>
      states what a kept property of the runtime state must promise for each call module code makes; it is
      interpreted for the module graph. Its extension \<open>module_code\<close>, by what reloading a module has to keep, is
      interpreted for the module table, the outdated objects and the growth of the cache. \<open>parents_linked\<close> is the
      other direction of the graph: each parent of an active module is active and has it among its children.
      Fuel \<open>n\<close> bounds the nesting of bodies and \<open>k\<close> the dispose handlers of a module
      (\<open>hot_apply_returns\<close> says how much is enough).
    \<^item> \<^verbatim>\<open>Webpack_Check\<close>: \<open>hotCheck\<close>, the downloads and the promise reactions, as a step relation of calls and
      queued jobs. The files of an update are a parameter that does not change during a run.
    \<^item> \<^verbatim>\<open>Layout_Spec\<close>, \<^verbatim>\<open>Layout_View\<close>: measure specs, which are 32-bit words of a mode and a size, the lengths of styles,
      and \<open>measure\<close>, \<open>layout\<close> and \<open>requestLayout\<close> of a view with its private flags. Numbers are rationals,
      rounded where the code rounds; floating-point error is not modelled. The locale \<open>measurable_view\<close> is
      the contract of \<open>onMeasure\<close>: it sets the measured dimension, within the specs, and changes nothing the
      protocol relies on. Plain views, and each layout over children that keep it, keep it.
    \<^item> \<^verbatim>\<open>Layout_Panels\<close>, \<^verbatim>\<open>Layout_Place\<close>, \<^verbatim>\<open>Layout_Slots\<close>: \<open>AbsoluteLayout\<close>, \<open>StackLayout\<close>, \<open>DockLayout\<close>, \<open>WrapLayout\<close>, runs of
      the protocol, and where the children are put.
    \<^item> \<^verbatim>\<open>Flexbox_Layout\<close>, \<^verbatim>\<open>Flexbox_Measure\<close>, \<^verbatim>\<open>Flexbox_Place\<close>: \<open>FlexboxLayout\<close>, from putting the items into lines to placing them.
      Rows and columns are one function with the axis as an argument. Growing and shrinking end because each time the
      items of a line are gone over again there is a frozen one more.
    \<^item> \<^verbatim>\<open>Flexbox_Lines\<close>, \<^verbatim>\<open>Flexbox_Fill\<close>, \<^verbatim>\<open>Flexbox_Row\<close>, \<^verbatim>\<open>Flexbox_Examples\<close>: the lines hold all items; free space is given out to the
      last pixel along both axes; the items of a row do not overlap; where the code does not do what it is meant to. The
      locale \<open>flex_items\<close> extends \<open>measurable_view\<close> by what the style of an item says.
    \<^item> \<^verbatim>\<open>Grid_Layout\<close>, \<^verbatim>\<open>Grid_Measure\<close>: \<open>GridLayout\<close> and its \<open>MeasureHelper\<close>. A child is named by its position, and
      the groups hold these names; the measuring is a run over the children, the specs and the helper.
    \<^item> \<^verbatim>\<open>Grid_Specs\<close>, \<^verbatim>\<open>Grid_Step\<close>: the rows and columns of a \<open>GridLayout\<close>, their parsing, and the invariant that
      the measure helper has a group for each of them, in their order.
    \<^item> \<^verbatim>\<open>Observable\<close>, \<^verbatim>\<open>Observable_Notify\<close>: \<open>Observable\<close>, its listeners and \<open>notify\<close>, \<open>WrappedValue\<close>. The lists of
      listeners live in a store, because \<open>notify\<close> iterates over a list that callbacks change. A callback is a
      parameter, a function of the state that may throw; \<open>call_code\<close> is the instance that runs lists of
      operations, with fuel for the depth of the stack.
    \<^item> \<^verbatim>\<open>Observable_Array\<close>, \<^verbatim>\<open>Array_Mirror\<close>: \<open>ObservableArray\<close>, and that a listener that replays its change events
      has the array; where the events are not enough is shown, too.
    \<^item> \<^verbatim>\<open>Css_Parser\<close>, \<^verbatim>\<open>Css_Selector\<close>, \<^verbatim>\<open>Css_Match\<close>: the selectors of style sheets, from their text to what they match.
      The sticky regular expressions of the parser are functions that read from a position. A node holds what
      selectors can reach from it. \<open>css_match\<close> is the meaning of the combinators of CSS.
    \<^item> \<^verbatim>\<open>Css_Track\<close>, \<^verbatim>\<open>Css_Query\<close>, \<^verbatim>\<open>Css_Cascade\<close>: \<open>SelectorsMap\<close> and \<open>SelectorsMatch\<close>. The locale \<open>tracked\<close> is the contract
      between \<open>match\<close>, \<open>mayMatch\<close> and \<open>trackChanges\<close>; it is interpreted for simple selectors, sequences and groups of
      siblings.
    \<^item> \<^verbatim>\<open>Property_Cells\<close>, \<^verbatim>\<open>Property_Native\<close>, \<^verbatim>\<open>Property_Run\<close>: the properties of views and styles, and the native view, which
      follows them when updates are not suspended. The symbols of a view are association lists under the name of the
      property; what a setter calls beside the native view is recorded.
    \<^item> \<^verbatim>\<open>Property_Animation\<close>: the properties that animations set, with one value for each of three sources.
    \<^item> \<^verbatim>\<open>Property_Inherited\<close>, \<^verbatim>\<open>Property_Nearest\<close>: inherited properties over trees of views. The specification is the value of
      the nearest view that has one of its own.
    \<^item> \<^verbatim>\<open>Frame_Navigation\<close>, \<^verbatim>\<open>Frame_History\<close>, \<^verbatim>\<open>Frame_Sync\<close>: the navigation of a frame, as steps of the calls of the program and of
      what the native controller tells. The specification is a history to which the queued navigations are applied in
      order; the native controller is one navigation ahead of it. Runs leave out calls of \<open>goBack\<close> that the checks of
      the code let pass though they cannot be done; these are shown as examples.
    \<^item> \<^verbatim>\<open>Frame_Back\<close>, \<^verbatim>\<open>Frame_Stack\<close>: when \<open>canGoBack\<close> is right, the stack of frames, and the back button.
    \<^item> \<^verbatim>\<open>Module_Names\<close>: which variant of a module a name is resolved to, and the cache of the resolver.
    \<^item> \<^verbatim>\<open>Path_Browserify\<close>: the \<^verbatim>\<open>path\<close> module of \<^verbatim>\<open>vendor.js\<close>.
    \<^item> \<^verbatim>\<open>Test_Runner\<close>: \<^verbatim>\<open>src/run-tests.js\<close>, which starts \<^verbatim>\<open>ios-deploy\<close> and extracts the test report from its
      output; process and file events are steps.
    \<^item> \<^verbatim>\<open>Release_Scripts\<close>: \<^verbatim>\<open>src/scripts\<close> and \<^verbatim>\<open>src/prepare-target.js\<close>; \<open>semver\<close> is a parameter.

  \<^bold>\<open>Not modelled.\<close> The native runtime (C++, Objective-C), its metadata generator, the project templates and the tests
  are not JavaScript of the program. Of the bundled application these parts are left out: the sample application and its
  inspector modules; vendored frameworks (Angular, rxjs, zone, reflect-metadata and the polyfills) and the glue to Angular;
  the views that mostly call into UIKit (text, images, lists, tabs, dialogs, gestures, animations); the platform services
  (application, file system, http, timers, trace, profiling); the parsing of style declarations and the conversion of
  style values; of frames the transitions, the action bar, modal pages and live sync; of module names the registration of
  the modules found in the file system.
\<close>

end
